(* ===== verification/Prelude.thy ===== *)
theory Prelude
  imports Main
begin

text \<open>
  The shared vocabulary of the development: Python exceptions as values of a sum type with
  the two combinators the component theories compose their steps with, the string methods
  of Python that the component modules call, decimal rendering, and association lists with
  the insertion order of a Python dict.

  A Python \<open>str\<close> is a HOL \<open>string\<close>, one character per code point. A HOL character has
  eight bits, so the strings of the model are those with code points below 256, and on
  them the definitions below are the methods of Python exactly (case mapping and white
  space included). A Python \<open>bytes\<close> is the same list type, one character per byte. The
  one place where a code point from outside could enter is a decoder, and there the
  result is the marker \<open>OutOfModel\<close>.
\<close>

section \<open>Collections of facts\<close>

named_theorems py_simps \<open>unfolding of the result combinators\<close>
named_theorems str_simps \<open>facts on the string methods\<close>

section \<open>Exceptions as values\<close>

datatype exn =
    ValueError
  | TypeError
  | AttributeError
  | KeyError
  | RecursionError
  | LookupError
  | OSError
  | OutOfFuel
  | OutOfModel

type_synonym 'a py = "exn + 'a"
type_synonym bytes = "char list"

definition py_bind :: "'a py \<Rightarrow> ('a \<Rightarrow> 'b py) \<Rightarrow> 'b py" where
  "py_bind m f = (case m of Inl e \<Rightarrow> Inl e | Inr x \<Rightarrow> f x)"

definition py_except :: "'a py \<Rightarrow> exn list \<Rightarrow> 'a py \<Rightarrow> 'a py" where
  \<comment> \<open>\<open>try: m; except (es): h\<close>\<close>
  "py_except m es h = (case m of Inl e \<Rightarrow> (if e \<in> set es then h else Inl e) | Inr x \<Rightarrow> Inr x)"

lemma py_bind_cong [fundef_cong]:
  "m = m' \<Longrightarrow> (\<And>x. m' = Inr x \<Longrightarrow> f x = f' x) \<Longrightarrow> py_bind m f = py_bind m' f'"
  by (cases m') (auto simp: py_bind_def)

lemma py_bind_simps [simp, py_simps]:
  "py_bind (Inl e) f = Inl e"
  "py_bind (Inr x) f = f x"
  by (simp_all add: py_bind_def)

lemma py_except_simps [simp, py_simps]:
  "py_except (Inr x) es h = Inr x"
  "e \<in> set es \<Longrightarrow> py_except (Inl e) es h = h"
  "e \<notin> set es \<Longrightarrow> py_except (Inl e) es h = Inl e"
  by (simp_all add: py_except_def)

lemma py_bind_Inr_iff: "py_bind m f = Inr y \<longleftrightarrow> (\<exists>x. m = Inr x \<and> f x = Inr y)"
  by (cases m) auto

lemma py_bind_Inl_iff:
  "py_bind m f = Inl e \<longleftrightarrow> m = Inl e \<or> (\<exists>x. m = Inr x \<and> f x = Inl e)"
  by (cases m) auto

lemma py_except_Inr_iff:
  "py_except m es h = Inr y \<longleftrightarrow>
     m = Inr y \<or> (\<exists>e. m = Inl e \<and> e \<in> set es \<and> h = Inr y)"
  by (cases m) (auto simp: py_except_def)

lemma py_except_Inl_iff:
  "py_except m es h = Inl e \<longleftrightarrow>
     (m = Inl e \<and> e \<notin> set es) \<or> (\<exists>e'. m = Inl e' \<and> e' \<in> set es \<and> h = Inl e)"
  by (cases m) (auto simp: py_except_def)

lemmas py_iffs = py_bind_Inr_iff py_bind_Inl_iff py_except_Inr_iff py_except_Inl_iff

section \<open>Steps over a state\<close>

text \<open>A step takes the state and gives a value or an error with the state after it.\<close>

definition sbind ::
  "('s \<Rightarrow> ('e + 'a) \<times> 's) \<Rightarrow> ('a \<Rightarrow> 's \<Rightarrow> ('e + 'b) \<times> 's) \<Rightarrow> 's \<Rightarrow> ('e + 'b) \<times> 's" where
  "sbind m f st = (case m st of (Inl e, st') \<Rightarrow> (Inl e, st') | (Inr x, st') \<Rightarrow> f x st')"

definition sreturn :: "'a \<Rightarrow> 's \<Rightarrow> ('e + 'a) \<times> 's" where
  "sreturn x st = (Inr x, st)"

definition slift :: "('e + 'a) \<Rightarrow> 's \<Rightarrow> ('e + 'a) \<times> 's" where
  "slift m st = (m, st)"

lemma s_simps [simp]:
  "sreturn x st = (Inr x, st)" "slift r st = (r, st)"
  "m st = (Inr x, st') \<Longrightarrow> sbind m f st = f x st'"
  "m st = (Inl e, st') \<Longrightarrow> sbind m f st = (Inl e, st')"
  by (simp_all add: sreturn_def slift_def sbind_def)

section \<open>Characters\<close>

definition ord :: "char \<Rightarrow> nat" where
  "ord c = of_char c"

definition chr :: "nat \<Rightarrow> char" where
  "chr n = char_of n"

lemma chr_ord [simp]: "chr (ord c) = c"
  by (simp add: chr_def ord_def)

lemma ord_chr: "ord (chr n) = n mod 256"
  by (simp add: chr_def ord_def)

lemma ord_chr_small [simp]: "n < 256 \<Longrightarrow> ord (chr n) = n"
  by (simp add: ord_chr)

lemma ord_less [simp]: "ord c < 256"
proof -
  have "ord (chr (ord c)) = ord c mod 256"
    by (simp add: chr_def ord_def)
  then show ?thesis by (metis chr_ord mod_less_divisor zero_less_numeral)
qed

lemma ord_eq_iff [simp]: "ord c = ord d \<longleftrightarrow> c = d"
  by (simp add: ord_def)

lemma chr_eq_iff: "m < 256 \<Longrightarrow> n < 256 \<Longrightarrow> chr m = chr n \<longleftrightarrow> m = n"
  by (metis ord_chr_small)

definition is_ascii_char :: "char \<Rightarrow> bool" where
  "is_ascii_char c \<longleftrightarrow> ord c < 128"

definition is_digit :: "char \<Rightarrow> bool" where
  "is_digit c \<longleftrightarrow> 48 \<le> ord c \<and> ord c \<le> 57"

definition is_upper_ascii :: "char \<Rightarrow> bool" where
  "is_upper_ascii c \<longleftrightarrow> 65 \<le> ord c \<and> ord c \<le> 90"

definition is_lower_ascii :: "char \<Rightarrow> bool" where
  "is_lower_ascii c \<longleftrightarrow> 97 \<le> ord c \<and> ord c \<le> 122"

definition is_alpha_ascii :: "char \<Rightarrow> bool" where
  "is_alpha_ascii c \<longleftrightarrow> is_upper_ascii c \<or> is_lower_ascii c"

definition is_alnum_ascii :: "char \<Rightarrow> bool" where
  "is_alnum_ascii c \<longleftrightarrow> is_alpha_ascii c \<or> is_digit c"

definition is_hex :: "char \<Rightarrow> bool" where
  "is_hex c \<longleftrightarrow> is_digit c \<or> (65 \<le> ord c \<and> ord c \<le> 70) \<or> (97 \<le> ord c \<and> ord c \<le> 102)"

definition hex_val :: "char \<Rightarrow> nat" where
  "hex_val c = (if is_digit c then ord c - 48
                else if ord c \<le> 70 then ord c - 55 else ord c - 87)"

text \<open>\<open>str.lower()\<close> and \<open>str.isspace()\<close> on the code points below 256.\<close>

definition lower_char :: "char \<Rightarrow> char" where
  "lower_char c =
     (if is_upper_ascii c \<or> (192 \<le> ord c \<and> ord c \<le> 222 \<and> ord c \<noteq> 215)
      then chr (ord c + 32) else c)"

definition is_space :: "char \<Rightarrow> bool" where
  "is_space c \<longleftrightarrow> (9 \<le> ord c \<and> ord c \<le> 13) \<or> (28 \<le> ord c \<and> ord c \<le> 32)
     \<or> ord c = 133 \<or> ord c = 160"

lemma lower_char_idem [simp]: "lower_char (lower_char c) = lower_char c"
proof (cases "is_upper_ascii c \<or> (192 \<le> ord c \<and> ord c \<le> 222 \<and> ord c \<noteq> 215)")
  case True
  then have "ord c + 32 < 256" by (auto simp: is_upper_ascii_def)
  with True show ?thesis by (auto simp: lower_char_def is_upper_ascii_def)
next
  case False
  then have "lower_char c = c" unfolding lower_char_def by (rule if_not_P)
  then show ?thesis by simp
qed

section \<open>String methods\<close>

definition str_isascii :: "string \<Rightarrow> bool" where
  "str_isascii s = list_all is_ascii_char s"

definition str_lower :: "string \<Rightarrow> string" where
  "str_lower s = map lower_char s"

definition lstrip_by :: "(char \<Rightarrow> bool) \<Rightarrow> string \<Rightarrow> string" where
  "lstrip_by P s = dropWhile P s"

definition rstrip_by :: "(char \<Rightarrow> bool) \<Rightarrow> string \<Rightarrow> string" where
  "rstrip_by P s = rev (dropWhile P (rev s))"

definition str_strip :: "string \<Rightarrow> string" where
  "str_strip s = rstrip_by is_space (lstrip_by is_space s)"

definition startswith :: "string \<Rightarrow> string \<Rightarrow> bool" where
  "startswith s p \<longleftrightarrow> take (length p) s = p"

definition endswith :: "string \<Rightarrow> string \<Rightarrow> bool" where
  "endswith s p \<longleftrightarrow> length p \<le> length s \<and> drop (length s - length p) s = p"

fun str_in :: "string \<Rightarrow> string \<Rightarrow> bool" where
  "str_in p [] \<longleftrightarrow> p = []"
| "str_in p (c # s) \<longleftrightarrow> startswith (c # s) p \<or> str_in p s"

text \<open>\<open>s.partition(c)\<close>: the head, whether the separator occurs, and the tail.\<close>

definition partition_at :: "char \<Rightarrow> string \<Rightarrow> string \<times> bool \<times> string" where
  "partition_at c s =
     (case dropWhile (\<lambda>x. x \<noteq> c) s of
        [] \<Rightarrow> (s, False, [])
      | _ # t \<Rightarrow> (takeWhile (\<lambda>x. x \<noteq> c) s, True, t))"

text \<open>\<open>s.rpartition(c)\<close>: with no separator the whole string is the tail.\<close>

definition rpartition_at :: "char \<Rightarrow> string \<Rightarrow> string \<times> bool \<times> string" where
  "rpartition_at c s =
     (case partition_at c (rev s) of
        (t, True, h) \<Rightarrow> (rev h, True, rev t)
      | (t, False, h) \<Rightarrow> ([], False, s))"

fun split_on :: "char \<Rightarrow> string \<Rightarrow> string list" where
  "split_on c [] = [[]]"
| "split_on c (x # xs) =
     (if x = c then [] # split_on c xs
      else (case split_on c xs of [] \<Rightarrow> [[x]] | w # ws \<Rightarrow> (x # w) # ws))"

definition str_remove :: "char \<Rightarrow> string \<Rightarrow> string" where
  "str_remove c s = filter (\<lambda>x. x \<noteq> c) s"

lemma str_lower_append [simp, str_simps]: "str_lower (s @ t) = str_lower s @ str_lower t"
  by (simp add: str_lower_def)

lemma str_lower_idem [simp, str_simps]: "str_lower (str_lower s) = str_lower s"
  by (simp add: str_lower_def)

lemma str_isascii_simps [simp, str_simps]:
  "str_isascii []"
  "str_isascii (c # s) \<longleftrightarrow> is_ascii_char c \<and> str_isascii s"
  "str_isascii (s @ t) \<longleftrightarrow> str_isascii s \<and> str_isascii t"
  by (simp_all add: str_isascii_def)

lemma startswith_append [simp, str_simps]: "startswith (p @ s) p"
  by (simp add: startswith_def)

lemma startswith_Nil [simp]: "startswith s []"
  by (simp add: startswith_def)

lemma startswith_Cons [simp]:
  "startswith [] (c # p) = False"
  "startswith (x # s) (c # p) \<longleftrightarrow> x = c \<and> startswith s p"
  by (auto simp: startswith_def)

lemma startswithE:
  assumes "startswith s p"
  obtains t where "s = p @ t"
  using assms append_take_drop_id [of "length p" s] by (metis startswith_def)

lemma startswith_iff: "startswith s p \<longleftrightarrow> (\<exists>t. s = p @ t)"
  by (metis startswithE startswith_append)

lemma partition_at_found [simp, str_simps]:
  "c \<notin> set h \<Longrightarrow> partition_at c (h @ c # t) = (h, True, t)"
proof -
  assume c: "c \<notin> set h"
  then have "\<And>x. x \<in> set h \<Longrightarrow> x \<noteq> c" by auto
  then show ?thesis
    by (simp add: partition_at_def dropWhile_append1 dropWhile_append2 takeWhile_append2)
qed

lemma partition_at_none [simp, str_simps]:
  "c \<notin> set s \<Longrightarrow> partition_at c s = (s, False, [])"
proof -
  assume "c \<notin> set s"
  then have d: "dropWhile (\<lambda>x. x \<noteq> c) s = []" by auto
  show ?thesis unfolding partition_at_def by (simp only: d list.case)
qed

lemma partition_at_cases:
  obtains (none) "c \<notin> set s" "partition_at c s = (s, False, [])"
  | (found) h t where "s = h @ c # t" "c \<notin> set h" "partition_at c s = (h, True, t)"
  by (metis partition_at_found partition_at_none split_list_first)

lemma rpartition_at_found [simp, str_simps]:
  "c \<notin> set t \<Longrightarrow> rpartition_at c (h @ c # t) = (h, True, t)"
  by (simp add: rpartition_at_def)

lemma rpartition_at_none [simp, str_simps]:
  "c \<notin> set s \<Longrightarrow> rpartition_at c s = ([], False, s)"
  by (simp add: rpartition_at_def)

lemma rpartition_at_cases:
  obtains (none) "c \<notin> set s" "rpartition_at c s = ([], False, s)"
  | (found) h t where "s = h @ c # t" "c \<notin> set t" "rpartition_at c s = (h, True, t)"
  by (metis rpartition_at_found rpartition_at_none split_list_last)

lemma rpartition_at_TrueD:
  "rpartition_at c s = (h, True, t) \<Longrightarrow> s = h @ c # t \<and> c \<notin> set t"
  by (rule rpartition_at_cases [of c s]) auto

lemma rpartition_at_FalseD:
  "rpartition_at c s = (h, False, t) \<Longrightarrow> h = [] \<and> t = s \<and> c \<notin> set s"
  by (rule rpartition_at_cases [of c s]) auto

lemma split_on_not_Nil [simp]: "split_on c s \<noteq> []"
  by (induction s) (auto split: list.splits)

lemma rstrip_by_snoc [simp]: "\<not> P c \<Longrightarrow> rstrip_by P (s @ [c]) = s @ [c]"
  by (simp add: rstrip_by_def)

lemma rstrip_by_id: "list_all (\<lambda>c. \<not> P c) s \<Longrightarrow> rstrip_by P s = s"
  by (cases s rule: rev_cases) (auto simp: rstrip_by_def)

lemma rstrip_by_append:
  "s \<noteq> [] \<Longrightarrow> list_all (\<lambda>c. \<not> P c) s \<Longrightarrow> list_all P t \<Longrightarrow> rstrip_by P (s @ t) = s"
proof -
  assume s: "s \<noteq> []" "list_all (\<lambda>c. \<not> P c) s" and t: "list_all P t"
  from t have "dropWhile P (rev t @ rev s) = dropWhile P (rev s)"
    by (intro dropWhile_append2) (auto simp: list_all_iff)
  then show ?thesis using rstrip_by_id [OF s(2)] by (simp add: rstrip_by_def)
qed

lemma rstrip_by_prefix: "\<exists>w. s = rstrip_by P s @ w"
  by (rule exI [of _ "rev (takeWhile P (rev s))"]) (simp add: rstrip_by_def flip: rev_append)

lemma dropWhile_rstrip:
  assumes "s = [] \<or> \<not> P (hd s)"
  shows "dropWhile P (rstrip_by P s) = rstrip_by P s"
proof (cases "rstrip_by P s")
  case (Cons c t)
  from rstrip_by_prefix [of s P] obtain w where "s = rstrip_by P s @ w" by blast
  with Cons have "s = c # t @ w" by simp
  with Cons assms show ?thesis by simp
qed simp

lemma str_strip_idem [simp]: "str_strip (str_strip s) = str_strip s"
proof -
  have "dropWhile is_space s = [] \<or> \<not> is_space (hd (dropWhile is_space s))"
    using hd_dropWhile by blast
  from dropWhile_rstrip [where P = is_space, OF this] show ?thesis
    by (simp add: str_strip_def lstrip_by_def) (simp add: rstrip_by_def)
qed

section \<open>Decimal numbers\<close>

definition digit_char :: "nat \<Rightarrow> char" where
  "digit_char d = chr (48 + d)"

fun show_nat :: "nat \<Rightarrow> string" where
  "show_nat n = (if n < 10 then [digit_char n] else show_nat (n div 10) @ [digit_char (n mod 10)])"

declare show_nat.simps [simp del]

definition show_int :: "int \<Rightarrow> string" where
  "show_int i = (if i < 0 then CHR ''-'' # show_nat (nat (- i)) else show_nat (nat i))"

definition digit_val :: "char \<Rightarrow> nat" where
  "digit_val c = ord c - 48"

definition nat_of_digits :: "string \<Rightarrow> nat" where
  "nat_of_digits s = foldl (\<lambda>a c. 10 * a + digit_val c) 0 s"

lemma digit_char_props [simp]:
  "d < 10 \<Longrightarrow> ord (digit_char d) = 48 + d"
  "d < 10 \<Longrightarrow> is_digit (digit_char d)"
  "d < 10 \<Longrightarrow> digit_val (digit_char d) = d"
  by (simp_all add: digit_char_def is_digit_def digit_val_def)

lemma show_nat_digits: "list_all is_digit (show_nat n)"
proof (induction n rule: show_nat.induct)
  case (1 n)
  then show ?case by (subst show_nat.simps) simp
qed

lemma show_nat_not_Nil [simp]: "show_nat n \<noteq> []"
  by (subst show_nat.simps) simp

lemma nat_of_digits_snoc [simp]: "nat_of_digits (s @ [c]) = 10 * nat_of_digits s + digit_val c"
  by (simp add: nat_of_digits_def)

lemma nat_of_digits_show_nat [simp]: "nat_of_digits (show_nat n) = n"
proof (induction n rule: show_nat.induct)
  case (1 n)
  show ?case
  proof (cases "n < 10")
    case True
    then show ?thesis by (subst show_nat.simps) (simp add: nat_of_digits_def)
  next
    case False
    with 1 show ?thesis by (subst show_nat.simps) simp
  qed
qed

lemma show_nat_inject [simp]: "show_nat m = show_nat n \<longleftrightarrow> m = n"
  by (metis nat_of_digits_show_nat)

lemma show_nat_hd_zero: "hd (show_nat n) = digit_char 0 \<Longrightarrow> n = 0"
proof (induction n rule: show_nat.induct)
  case (1 n)
  show ?case
  proof (cases "n < 10")
    case True
    with "1.prems" have "digit_char n = digit_char 0" by (simp add: show_nat.simps [of n])
    with True show ?thesis by (metis digit_char_props(3) zero_less_numeral)
  next
    case False
    with 1 have "n div 10 = 0" by (simp add: show_nat.simps [of n])
    with False show ?thesis by simp
  qed
qed

section \<open>Ordered association lists (Python dict)\<close>

text \<open>
  Looking a key up is the library's \<open>map_of\<close>; storing replaces the value in place or
  appends, as a dict keeps the position of a key's first insertion.
\<close>

fun dict_set :: "'k \<Rightarrow> 'v \<Rightarrow> ('k \<times> 'v) list \<Rightarrow> ('k \<times> 'v) list" where
  "dict_set k v [] = [(k, v)]"
| "dict_set k v ((k', v') # d) = (if k = k' then (k, v) # d else (k', v') # dict_set k v d)"

definition dict_pop :: "'k \<Rightarrow> ('k \<times> 'v) list \<Rightarrow> ('k \<times> 'v) list" where
  "dict_pop k d = filter (\<lambda>(k', _). k' \<noteq> k) d"

definition dict_get :: "'k \<Rightarrow> 'v \<Rightarrow> ('k \<times> 'v) list \<Rightarrow> 'v" where
  "dict_get k v0 d = (case map_of d k of None \<Rightarrow> v0 | Some v \<Rightarrow> v)"

lemma map_of_dict_set [simp]: "map_of (dict_set k v d) = (map_of d)(k \<mapsto> v)"
  by (induction d) auto

lemma map_of_dict_pop [simp]: "map_of (dict_pop k d) = (map_of d)(k := None)"
  by (induction d) (auto simp: dict_pop_def)

lemma dict_set_twice [simp]: "dict_set k v (dict_set k w d) = dict_set k v d"
  by (induction d) auto

lemma keys_dict_set: "fst ` set (dict_set k v d) = insert k (fst ` set d)"
  by (induction k v d rule: dict_set.induct) (simp_all add: insert_commute)

lemma distinct_dict_set: "distinct (map fst d) \<Longrightarrow> distinct (map fst (dict_set k v d))"
  by (induction k v d rule: dict_set.induct) (auto simp: keys_dict_set)

lemma dict_set_new: "k \<notin> fst ` set d \<Longrightarrow> dict_set k v d = d @ [(k, v)]"
  by (induction d) auto

lemma keys_dict_pop: "fst ` set (dict_pop k d) = fst ` set d - {k}"
  by (auto simp: dict_pop_def image_iff)

lemma distinct_dict_pop: "distinct (map fst d) \<Longrightarrow> distinct (map fst (dict_pop k d))"
  by (induction d) (auto simp: dict_pop_def)

lemma length_dict_pop: "length (dict_pop k d) \<le> length d"
  by (simp add: dict_pop_def)

lemma length_dict_set: "length (dict_set k v d) \<le> Suc (length d)"
  by (induction d) auto

end
