(* ===== verification/Json.thy ===== *)
theory Json
  imports Prelude
begin

text \<open>
  The part of Python's \<open>json\<close> module the component relies on: values, \<open>json.dumps\<close> with
  ASCII escapes and chosen separators, \<open>json.loads\<close> on \<open>str\<close> and on \<open>bytes\<close>, and the law
  that parsing undoes printing. A container nested deeper than the interpreter's recursion
  limit, a parameter, raises \<open>RecursionError\<close>; the fuel of the parser is never exhausted
  (lemma \<open>json_loads_fuel\<close>).
\<close>

section \<open>Values\<close>

datatype pyval =
    PNone
  | PBool bool
  | PInt int
  | PFloat string \<comment> \<open>a float, by its literal\<close>
  | PStr string
  | PList "pyval list"
  | PDict "(string \<times> pyval) list"

definition is_PDict :: "pyval \<Rightarrow> bool" where
  "is_PDict v = (case v of PDict _ \<Rightarrow> True | _ \<Rightarrow> False)"

definition pdict_get :: "pyval \<Rightarrow> string \<Rightarrow> pyval option" where
  "pdict_get v k = (case v of PDict d \<Rightarrow> map_of d k | _ \<Rightarrow> None)"

lemma pdict_get_PDict [simp]: "pdict_get (PDict d) k = map_of d k"
  by (simp add: pdict_get_def)

section \<open>Printing\<close>

definition hex_digit :: "nat \<Rightarrow> char" where
  "hex_digit d = (if d < 10 then chr (48 + d) else chr (87 + d))"

definition dq :: char where "dq = CHR 0x22"
definition bs :: char where "bs = CHR 0x5C"

definition esc_char :: "char \<Rightarrow> string" where
  "esc_char c =
     (if c = dq then [bs, dq]
      else if c = bs then [bs, bs]
      else if ord c = 10 then [bs, CHR ''n'']
      else if ord c = 13 then [bs, CHR ''r'']
      else if ord c = 9 then [bs, CHR ''t'']
      else if ord c = 12 then [bs, CHR ''f'']
      else if ord c = 8 then [bs, CHR ''b'']
      else if 32 \<le> ord c \<and> ord c \<le> 126 then [c]
      else [bs, CHR ''u'', CHR ''0'', CHR ''0'', hex_digit (ord c div 16), hex_digit (ord c mod 16)])"

definition dumps_str :: "string \<Rightarrow> string" where
  "dumps_str s = dq # concat (map esc_char s) @ [dq]"

fun dumps :: "string \<Rightarrow> string \<Rightarrow> pyval \<Rightarrow> string"
  and dumps_elems :: "string \<Rightarrow> string \<Rightarrow> pyval list \<Rightarrow> string"
  and dumps_items :: "string \<Rightarrow> string \<Rightarrow> (string \<times> pyval) list \<Rightarrow> string"
where
  "dumps si sk PNone = ''null''"
| "dumps si sk (PBool b) = (if b then ''true'' else ''false'')"
| "dumps si sk (PInt i) = show_int i"
| "dumps si sk (PFloat r) = r"
| "dumps si sk (PStr s) = dumps_str s"
| "dumps si sk (PList vs) = CHR ''['' # dumps_elems si sk vs @ '']''"
| "dumps si sk (PDict d) = CHR ''{'' # dumps_items si sk d @ ''}''"
| "dumps_elems si sk [] = []"
| "dumps_elems si sk [v] = dumps si sk v"
| "dumps_elems si sk (v # w # vs) = dumps si sk v @ si @ dumps_elems si sk (w # vs)"
| "dumps_items si sk [] = []"
| "dumps_items si sk [(k, v)] = dumps_str k @ sk @ dumps si sk v"
| "dumps_items si sk ((k, v) # i # is) =
     dumps_str k @ sk @ dumps si sk v @ si @ dumps_items si sk (i # is)"

text \<open>\<open>json.dumps(v, separators=(",", ":"))\<close> and \<open>json.dumps(v)\<close>.\<close>

definition json_compact :: "pyval \<Rightarrow> string" where
  "json_compact v = dumps '','' '':'' v"

definition json_default :: "pyval \<Rightarrow> string" where
  "json_default v = dumps '', '' '': '' v"

section \<open>Parsing\<close>

definition is_json_ws :: "char \<Rightarrow> bool" where
  "is_json_ws c \<longleftrightarrow> ord c = 32 \<or> ord c = 9 \<or> ord c = 10 \<or> ord c = 13"

definition skip_ws :: "string \<Rightarrow> string" where
  "skip_ws s = dropWhile is_json_ws s"

definition str_cons :: "char \<Rightarrow> (string \<times> string) py \<Rightarrow> (string \<times> string) py" where
  "str_cons c m = py_bind m (\<lambda>(s, r). Inr (c # s, r))"

definition unescape :: "char \<Rightarrow> char option" where
  "unescape e =
     (if e = dq then Some dq else if e = bs then Some bs
      else if e = CHR ''/'' then Some e
      else if e = CHR ''b'' then Some (chr 8) else if e = CHR ''f'' then Some (chr 12)
      else if e = CHR ''n'' then Some (chr 10) else if e = CHR ''r'' then Some (chr 13)
      else if e = CHR ''t'' then Some (chr 9) else None)"

text \<open>The text after a backslash: the character it stands for and what follows.\<close>

definition scan_escape :: "string \<Rightarrow> (char \<times> string) py" where
  "scan_escape s =
     (case s of
        [] \<Rightarrow> Inl ValueError
      | e # s1 \<Rightarrow>
          if e = CHR ''u'' then
            (case s1 of
               h1 # h2 # h3 # h4 # s2 \<Rightarrow>
                 if list_all is_hex [h1, h2, h3, h4] then
                   (let n = 4096 * hex_val h1 + 256 * hex_val h2 + 16 * hex_val h3 + hex_val h4
                    in if n < 256 then Inr (chr n, s2) else Inl OutOfModel)
                 else Inl ValueError
             | _ \<Rightarrow> Inl ValueError)
          else (case unescape e of None \<Rightarrow> Inl ValueError | Some c \<Rightarrow> Inr (c, s1)))"

lemma scan_escape_length: "scan_escape s = Inr (c, r) \<Longrightarrow> length r < length s"
  by (auto simp: scan_escape_def Let_def split: list.splits if_splits option.splits)

lemma scan_escape_no_fuel: "scan_escape s \<noteq> Inl OutOfFuel"
  by (auto simp: scan_escape_def Let_def split: list.splits option.splits)

text \<open>The text after the opening quote: the string and what follows its closing quote.\<close>

function scan_str :: "string \<Rightarrow> (string \<times> string) py" where
  "scan_str [] = Inl ValueError"
| "scan_str (c # s) =
     (if c = dq then Inr ([], s)
      else if c = bs then py_bind (scan_escape s) (\<lambda>(c', r). str_cons c' (scan_str r))
      else if ord c < 32 then Inl ValueError
      else str_cons c (scan_str s))"
  by pat_completeness auto
termination
  by (relation "measure length") (auto dest: scan_escape_length)

definition max_int_digits :: nat where "max_int_digits = 4300"

definition scan_frac :: "string \<Rightarrow> string \<times> string" where
  "scan_frac s =
     (case s of
        [] \<Rightarrow> ([], [])
      | c # t \<Rightarrow> (if c = CHR ''.'' \<and> takeWhile is_digit t \<noteq> []
                 then (c # takeWhile is_digit t, dropWhile is_digit t) else ([], s)))"

definition scan_sign :: "string \<Rightarrow> string \<times> string" where
  "scan_sign s =
     (case s of
        [] \<Rightarrow> ([], [])
      | x # u \<Rightarrow> (if x = CHR ''+'' \<or> x = CHR ''-'' then ([x], u) else ([], s)))"

definition scan_exp :: "string \<Rightarrow> string \<times> string" where
  "scan_exp s =
     (case s of
        [] \<Rightarrow> ([], [])
      | c # t \<Rightarrow>
          (if (c = CHR ''e'' \<or> c = CHR ''E'') \<and> takeWhile is_digit (snd (scan_sign t)) \<noteq> []
           then (c # fst (scan_sign t) @ takeWhile is_digit (snd (scan_sign t)),
                 dropWhile is_digit (snd (scan_sign t)))
           else ([], s)))"

definition int_part :: "string \<Rightarrow> string" where
  "int_part s =
     (case takeWhile is_digit s of
        [] \<Rightarrow> []
      | d # ds \<Rightarrow> (if d = CHR ''0'' then ''0'' else d # ds))"

definition number_value ::
  "bool \<Rightarrow> string \<Rightarrow> string \<Rightarrow> string \<Rightarrow> string \<Rightarrow> string \<Rightarrow> (pyval \<times> string) py" where
  "number_value neg ip fr ex r1 r3 =
     (if ip = [] then Inl ValueError
      else if fr = [] \<and> ex = [] then
        (if length ip > max_int_digits then Inl ValueError
         else Inr (PInt (if neg then - int (nat_of_digits ip) else int (nat_of_digits ip)), r1))
      else Inr (PFloat ((if neg then ''-'' else []) @ ip @ fr @ ex), r3))"

definition scan_number :: "string \<Rightarrow> (pyval \<times> string) py" where
  "scan_number s =
     (let neg = startswith s ''-'';
          s1 = (if neg then tl s else s);
          ip = int_part s1;
          r1 = drop (length ip) s1;
          f = scan_frac r1;
          e = scan_exp (snd f)
      in number_value neg ip (fst f) (fst e) r1 (snd e))"

definition scan_const :: "bool \<Rightarrow> string \<Rightarrow> (pyval \<times> string) option" where
  "scan_const ac s =
     (if startswith s ''null'' then Some (PNone, drop 4 s)
      else if startswith s ''true'' then Some (PBool True, drop 4 s)
      else if startswith s ''false'' then Some (PBool False, drop 5 s)
      else if ac \<and> startswith s ''NaN'' then Some (PFloat ''NaN'', drop 3 s)
      else if ac \<and> startswith s ''Infinity'' then Some (PFloat ''Infinity'', drop 8 s)
      else if ac \<and> startswith s ''-Infinity'' then Some (PFloat ''-Infinity'', drop 9 s)
      else None)"

definition scan_scalar :: "bool \<Rightarrow> string \<Rightarrow> (pyval \<times> string) py" where
  "scan_scalar ac s =
     (case scan_const ac s of
        Some r \<Rightarrow> Inr r
      | None \<Rightarrow>
          (if startswith s [dq] then py_bind (scan_str (tl s)) (\<lambda>(t, r). Inr (PStr t, r))
           else scan_number s))"

text \<open>A dict is filled in order: a repeated key keeps its place and takes the last value.\<close>

definition dict_of :: "('k \<times> 'v) list \<Rightarrow> ('k \<times> 'v) list" where
  "dict_of ps = fold (\<lambda>(k, v) d. dict_set k v d) ps []"

fun jvalue :: "bool \<Rightarrow> nat \<Rightarrow> nat \<Rightarrow> string \<Rightarrow> (pyval \<times> string) py"
  and jelems :: "bool \<Rightarrow> nat \<Rightarrow> nat \<Rightarrow> string \<Rightarrow> (pyval list \<times> string) py"
  and jmembers :: "bool \<Rightarrow> nat \<Rightarrow> nat \<Rightarrow> string \<Rightarrow> ((string \<times> pyval) list \<times> string) py"
where
  "jvalue ac 0 d s = Inl OutOfFuel"
| "jvalue ac (Suc n) d s =
     (case s of
        [] \<Rightarrow> Inl ValueError
      | c # t \<Rightarrow>
          if c = CHR ''['' then
            (case d of
               0 \<Rightarrow> Inl RecursionError
             | Suc d' \<Rightarrow>
                 (if startswith (skip_ws t) '']'' then Inr (PList [], tl (skip_ws t))
                  else py_bind (jelems ac n d' (skip_ws t)) (\<lambda>(vs, r). Inr (PList vs, r))))
          else if c = CHR ''{'' then
            (case d of
               0 \<Rightarrow> Inl RecursionError
             | Suc d' \<Rightarrow>
                 (if startswith (skip_ws t) ''}'' then Inr (PDict [], tl (skip_ws t))
                  else py_bind (jmembers ac n d' (skip_ws t)) (\<lambda>(ps, r). Inr (PDict (dict_of ps), r))))
          else scan_scalar ac s)"
| "jelems ac 0 d s = Inl OutOfFuel"
| "jelems ac (Suc n) d s =
     py_bind (jvalue ac n d s) (\<lambda>(v, r).
       (case skip_ws r of
          [] \<Rightarrow> Inl ValueError
        | c # t \<Rightarrow>
            if c = CHR '']'' then Inr ([v], t)
            else if c = CHR '','' then
              py_bind (jelems ac n d (skip_ws t)) (\<lambda>(vs, r'). Inr (v # vs, r'))
            else Inl ValueError))"
| "jmembers ac 0 d s = Inl OutOfFuel"
| "jmembers ac (Suc n) d s =
     (if startswith s [dq] then
        py_bind (scan_str (tl s)) (\<lambda>(k, r0).
          (case skip_ws r0 of
             [] \<Rightarrow> Inl ValueError
           | c0 # t0 \<Rightarrow>
               if c0 = CHR '':'' then
                 py_bind (jvalue ac n d (skip_ws t0)) (\<lambda>(v, r).
                   (case skip_ws r of
                      [] \<Rightarrow> Inl ValueError
                    | c # t \<Rightarrow>
                        if c = CHR ''}'' then Inr ([(k, v)], t)
                        else if c = CHR '','' then
                          py_bind (jmembers ac n d (skip_ws t)) (\<lambda>(ps, r'). Inr ((k, v) # ps, r'))
                        else Inl ValueError))
               else Inl ValueError))
      else Inl ValueError)"

text \<open>
  \<open>json.loads(s)\<close>: \<open>ac\<close> tells whether NaN and the infinities are let through
  (\<open>parse_constant\<close> left alone) and \<open>lim\<close> is the container depth the interpreter allows.
\<close>

definition json_loads :: "bool \<Rightarrow> nat \<Rightarrow> string \<Rightarrow> pyval py" where
  "json_loads ac lim s =
     py_bind (jvalue ac (2 * length s + 2) lim (skip_ws s))
       (\<lambda>(v, r). if skip_ws r = [] then Inr v else Inl ValueError)"

section \<open>UTF-8 and the encodings json detects\<close>

definition is_cont :: "char \<Rightarrow> bool" where
  "is_cont c \<longleftrightarrow> 128 \<le> ord c \<and> ord c < 192"

fun utf8_encode :: "string \<Rightarrow> bytes" where
  "utf8_encode [] = []"
| "utf8_encode (c # s) =
     (if ord c < 128 then c # utf8_encode s
      else chr (192 + ord c div 64) # chr (128 + ord c mod 64) # utf8_encode s)"

text \<open>A well-formed longer sequence is a code point the model has no character for.\<close>

definition wide_seq :: "bytes \<Rightarrow> bool" where
  "wide_seq b =
     (case b of
        c1 # c2 # c3 # r \<Rightarrow>
          (ord c1 = 224 \<and> 160 \<le> ord c2 \<and> is_cont c2 \<and> is_cont c3) \<or>
          (225 \<le> ord c1 \<and> ord c1 \<le> 239 \<and> is_cont c2 \<and> is_cont c3) \<or>
          (240 \<le> ord c1 \<and> ord c1 \<le> 244 \<and> is_cont c2 \<and> is_cont c3
             \<and> (ord c1 = 240 \<longrightarrow> 144 \<le> ord c2) \<and> (ord c1 = 244 \<longrightarrow> ord c2 < 144)
             \<and> (case r of c4 # _ \<Rightarrow> is_cont c4 | [] \<Rightarrow> False))
      | _ \<Rightarrow> False)"

fun utf8_decode :: "bytes \<Rightarrow> string py" where
  "utf8_decode [] = Inr []"
| "utf8_decode (c # b) =
     (if ord c < 128 then py_bind (utf8_decode b) (\<lambda>s. Inr (c # s))
      else if 194 \<le> ord c \<and> ord c \<le> 223 then
        (case b of
           [] \<Rightarrow> Inl ValueError
         | c2 # b2 \<Rightarrow>
             if \<not> is_cont c2 then Inl ValueError
             else if ord c \<le> 195 then
               py_bind (utf8_decode b2)
                 (\<lambda>s. Inr (chr (64 * (ord c - 192) + (ord c2 - 128)) # s))
             else Inl OutOfModel)
      else if wide_seq (c # b) then Inl OutOfModel
      else Inl ValueError)"

definition is_nul :: "bytes \<Rightarrow> nat \<Rightarrow> bool" where
  "is_nul b i \<longleftrightarrow> ord (b ! i) = 0"

definition json_decode :: "bytes \<Rightarrow> string py" where
  "json_decode b =
     (if startswith b [chr 0, chr 0, chr 254, chr 255] \<or> startswith b [chr 254, chr 255]
        \<or> startswith b [chr 255, chr 254]
      then Inl OutOfModel
      else if startswith b [chr 239, chr 187, chr 191] then utf8_decode (drop 3 b)
      else if (4 \<le> length b \<or> length b = 2) \<and> (is_nul b 0 \<or> is_nul b 1) then Inl OutOfModel
      else utf8_decode b)"

definition json_loads_bytes :: "nat \<Rightarrow> bytes \<Rightarrow> pyval py" where
  "json_loads_bytes lim b = py_bind (json_decode b) (json_loads True lim)"

section \<open>The parser consumes what it reads, and its fuel suffices\<close>

lemma length_skip_ws: "length (skip_ws s) \<le> length s"
  by (simp add: skip_ws_def length_dropWhile_le)

lemma skip_ws_ConsD: "skip_ws s = c # t \<Longrightarrow> length t < length s"
  using length_skip_ws [of s] by simp

lemma str_cons_Inr: "str_cons c m = Inr (t, r) \<longleftrightarrow> (\<exists>u. m = Inr (u, r) \<and> t = c # u)"
  by (cases m) (auto simp: str_cons_def)

lemma str_cons_Inl: "str_cons c m = Inl e \<longleftrightarrow> m = Inl e"
  by (cases m) (auto simp: str_cons_def)

lemma scan_str_length: "scan_str s = Inr (t, r) \<Longrightarrow> length r < length s"
proof (induction s arbitrary: t r rule: scan_str.induct)
  case (2 c s)
  then show ?case
    by (fastforce simp: str_cons_Inr py_iffs dest: scan_escape_length split: if_splits)
qed simp

lemma scan_str_no_fuel: "scan_str s \<noteq> Inl OutOfFuel"
proof (induction s rule: scan_str.induct)
  case (2 c s)
  then show ?case by (auto simp: str_cons_Inl py_iffs scan_escape_no_fuel)
qed simp

lemma scan_frac_length: "length (snd (scan_frac s)) \<le> length s"
  by (auto simp: scan_frac_def length_dropWhile_le le_SucI split: list.splits)

lemma scan_sign_length: "length (snd (scan_sign s)) \<le> length s"
  by (auto simp: scan_sign_def split: list.splits)

lemma scan_exp_length: "length (snd (scan_exp s)) \<le> length s"
proof (cases s)
  case (Cons c t)
  have "length (dropWhile is_digit (snd (scan_sign t))) \<le> length t"
    using length_dropWhile_le scan_sign_length le_trans by blast
  then show ?thesis using Cons by (simp add: scan_exp_def)
qed (simp add: scan_exp_def)

lemma scan_number_no_fuel: "scan_number s \<noteq> Inl OutOfFuel"
  by (simp add: scan_number_def Let_def number_value_def)

lemma number_value_Inr:
  "number_value neg ip fr ex r1 r3 = Inr (v, r) \<Longrightarrow> ip \<noteq> [] \<and> (r = r1 \<or> r = r3)"
  by (auto simp: number_value_def split: if_splits)

lemma scan_number_length: "scan_number s = Inr (v, r) \<Longrightarrow> length r < length s"
proof -
  assume a: "scan_number s = Inr (v, r)"
  define s1 where "s1 = (if startswith s ''-'' then tl s else s)"
  define r1 where "r1 = drop (length (int_part s1)) s1"
  define r3 where "r3 = snd (scan_exp (snd (scan_frac r1)))"
  from a have "int_part s1 \<noteq> [] \<and> (r = r1 \<or> r = r3)"
    unfolding scan_number_def Let_def s1_def [symmetric] r1_def [symmetric] r3_def [symmetric]
    by (rule number_value_Inr)
  moreover have "length r3 \<le> length r1"
    unfolding r3_def using scan_exp_length scan_frac_length le_trans by blast
  moreover have "int_part s1 \<noteq> [] \<Longrightarrow> length r1 < length s1"
    by (cases s1) (auto simp: r1_def int_part_def)
  moreover have "length s1 \<le> length s" by (simp add: s1_def)
  ultimately show ?thesis by auto
qed

lemma scan_scalar_length: "scan_scalar ac s = Inr (v, r) \<Longrightarrow> length r < length s"
proof -
  assume a: "scan_scalar ac s = Inr (v, r)"
  have c: "startswith s p \<Longrightarrow> p \<noteq> [] \<Longrightarrow> length p = n \<Longrightarrow> length (drop n s) < length s" for p n
    by (auto elim!: startswithE)
  show ?thesis
    using a unfolding scan_scalar_def scan_const_def
    by (auto simp: py_iffs intro: c scan_number_length dest!: scan_str_length
        split: if_splits option.splits)
qed

lemma scan_scalar_no_fuel: "scan_scalar ac s \<noteq> Inl OutOfFuel"
  by (auto simp: scan_scalar_def py_iffs scan_str_no_fuel scan_number_no_fuel
      split: option.splits)

lemma jelems_SucE:
  assumes "jelems ac (Suc n) d s = Inr (vs, r)"
  obtains v r1 c t where "jvalue ac n d s = Inr (v, r1)" "skip_ws r1 = c # t"
    "vs = [v] \<and> r = t \<or> (\<exists>ws. jelems ac n d (skip_ws t) = Inr (ws, r) \<and> vs = v # ws)"
proof -
  from assms obtain v r1 where v: "jvalue ac n d s = Inr (v, r1)"
    by (cases "jvalue ac n d s") auto
  with assms obtain c t where "skip_ws r1 = c # t" by (cases "skip_ws r1") auto
  with v assms show thesis
    by (cases "jelems ac n d (skip_ws t)") (auto intro: that split: if_splits)
qed

lemma jmembers_SucE:
  assumes "jmembers ac (Suc n) d s = Inr (ps, r)"
  obtains k v r0 c0 t0 r1 c t where "s \<noteq> []" "scan_str (tl s) = Inr (k, r0)"
    "skip_ws r0 = c0 # t0" "jvalue ac n d (skip_ws t0) = Inr (v, r1)" "skip_ws r1 = c # t"
    "ps = [(k, v)] \<and> r = t \<or>
     (\<exists>qs. jmembers ac n d (skip_ws t) = Inr (qs, r) \<and> ps = (k, v) # qs)"
proof -
  from assms have q: "startswith s [dq]" by (simp split: if_splits)
  then have "s \<noteq> []" by (auto simp: startswith_iff)
  from q assms obtain k r0 where k: "scan_str (tl s) = Inr (k, r0)"
    by (cases "scan_str (tl s)") auto
  with q assms obtain c0 t0 where c0: "skip_ws r0 = c0 # t0" by (cases "skip_ws r0") auto
  with q k assms obtain v r1 where v: "jvalue ac n d (skip_ws t0) = Inr (v, r1)"
    by (cases "jvalue ac n d (skip_ws t0)") (auto split: if_splits)
  with q k c0 assms obtain c t where "skip_ws r1 = c # t"
    by (cases "skip_ws r1") (auto split: if_splits)
  with \<open>s \<noteq> []\<close> q k c0 v assms show thesis
    by (cases "jmembers ac n d (skip_ws t)") (auto intro: that split: if_splits)
qed

lemma jparse_length:
  "jvalue ac n d s = Inr (v, r) \<Longrightarrow> length r < length s"
  "jelems ac n d s = Inr (vs, r) \<Longrightarrow> length r < length s"
  "jmembers ac n d s = Inr (ps, r) \<Longrightarrow> length r < length s"
proof (induction n arbitrary: d s v r vs ps)
  case (Suc n)
  note IH = Suc.IH
  {
    case 1
    then obtain c t where s: "s = c # t" by (cases s) auto
    from 1 show ?case
      using length_skip_ws [of t] scan_scalar_length [of ac s v r] IH(2, 3)
      by (fastforce simp: s py_iffs startswith_iff split: if_splits nat.splits)
  next
    case 2
    then show ?case
    proof (rule jelems_SucE)
      fix v r1 c t
      assume "jvalue ac n d s = Inr (v, r1)" "skip_ws r1 = c # t"
        and tail: "vs = [v] \<and> r = t \<or> (\<exists>ws. jelems ac n d (skip_ws t) = Inr (ws, r) \<and> vs = v # ws)"
      then have "length t < length s" using IH(1) skip_ws_ConsD less_trans by blast
      then show ?thesis using tail IH(2) length_skip_ws [of t] by fastforce
    qed
  next
    case 3
    then show ?case
    proof (rule jmembers_SucE)
      fix k v r0 c0 t0 r1 c t
      assume "s \<noteq> []" "scan_str (tl s) = Inr (k, r0)" "skip_ws r0 = c0 # t0"
        "jvalue ac n d (skip_ws t0) = Inr (v, r1)" "skip_ws r1 = c # t"
        and tail: "ps = [(k, v)] \<and> r = t \<or>
          (\<exists>qs. jmembers ac n d (skip_ws t) = Inr (qs, r) \<and> ps = (k, v) # qs)"
      then have "length r0 < length s" "length t0 < length r0" "length r1 < length (skip_ws t0)"
        "length t < length r1"
        using scan_str_length [of "tl s" k r0] skip_ws_ConsD IH(1) by auto
      then have "length t < length s" using length_skip_ws [of t0] by simp
      then show ?thesis using tail IH(3) length_skip_ws [of t] by fastforce
    qed
  }
qed auto

lemma jparse_fuel:
  "2 * length s + 1 \<le> n \<Longrightarrow> jvalue ac n d s \<noteq> Inl OutOfFuel"
  "2 * length s + 2 \<le> n \<Longrightarrow> jelems ac n d s \<noteq> Inl OutOfFuel"
  "2 * length s + 2 \<le> n \<Longrightarrow> jmembers ac n d s \<noteq> Inl OutOfFuel"
proof (induction n arbitrary: d s)
  case (Suc n)
  note IH = Suc.IH
  {
    case 1
    show ?case
    proof (cases s)
      case (Cons c t)
      have "2 * length (skip_ws t) + 2 \<le> n"
        using 1 length_skip_ws [of t] Cons by simp
      then show ?thesis
        using IH(2, 3) scan_scalar_no_fuel Cons
        by (auto simp: py_iffs split: nat.splits)
    qed simp
  next
    case 2
    then have v: "jvalue ac n d s \<noteq> Inl OutOfFuel" using IH(1) by simp
    have "jelems ac n d (skip_ws t) \<noteq> Inl OutOfFuel"
      if "jvalue ac n d s = Inr (v, r)" "skip_ws r = c # t" for v r c t
    proof -
      from that have "length t < length s"
        using jparse_length(1) skip_ws_ConsD less_trans by blast
      then show ?thesis using 2 length_skip_ws [of t] by (intro IH(2)) simp
    qed
    with v show ?case
      by (cases "jvalue ac n d s") (auto simp: py_iffs split: list.splits if_splits)
  next
    case 3
    have v: "jvalue ac n d (skip_ws t0) \<noteq> Inl OutOfFuel"
      if "startswith s [dq]" "scan_str (tl s) = Inr (k, r0)" "skip_ws r0 = c0 # t0" for k r0 c0 t0
      using that 3 scan_str_length [of "tl s" k r0] skip_ws_ConsD [of r0 c0 t0] length_skip_ws [of t0]
      by (intro IH(1)) (auto simp: startswith_iff)
    have m: "jmembers ac n d (skip_ws t) \<noteq> Inl OutOfFuel"
      if "startswith s [dq]" "scan_str (tl s) = Inr (k, r0)" "skip_ws r0 = c0 # t0"
        "jvalue ac n d (skip_ws t0) = Inr (v, r)" "skip_ws r = c # t" for k r0 c0 t0 v r c t
      using that 3 scan_str_length [of "tl s" k r0] skip_ws_ConsD [of r0 c0 t0]
        length_skip_ws [of t0] length_skip_ws [of t] skip_ws_ConsD [of r c t]
        jparse_length(1) [of ac n d "skip_ws t0" v r]
      by (intro IH(3)) (auto simp: startswith_iff)
    show ?case
    proof (cases "startswith s [dq]")
      case True
      show ?thesis
      proof (cases "scan_str (tl s)")
        case (Inl e)
        then show ?thesis using True scan_str_no_fuel [of "tl s"] by auto
      next
        case (Inr p)
        obtain k r0 where p: "p = (k, r0)" by (cases p)
        show ?thesis
        proof (cases "skip_ws r0")
          case (Cons c0 t0)
          with v [OF True] m [OF True] Inr p True show ?thesis
            by (cases "jvalue ac n d (skip_ws t0)") (auto simp: py_iffs split: list.splits if_splits)
        qed (use True Inr p in simp)
      qed
    qed simp
  }
qed auto

lemma json_loads_fuel: "json_loads ac lim s \<noteq> Inl OutOfFuel"
proof -
  have "jvalue ac (2 * length s + 2) lim (skip_ws s) \<noteq> Inl OutOfFuel"
    using length_skip_ws [of s] by (intro jparse_fuel(1)) simp
  then show ?thesis by (auto simp: json_loads_def py_iffs)
qed

section \<open>Parsing undoes printing\<close>

text \<open>
  Values \<open>dumps\<close> prints so that \<open>loads\<close> reads the same value back: no floats, integers
  within the digit limit of \<open>int()\<close>, and the distinct keys every Python dict has.
\<close>

fun json_ok :: "pyval \<Rightarrow> bool" where
  "json_ok PNone = True"
| "json_ok (PBool b) = True"
| "json_ok (PInt i) = (length (show_nat (nat \<bar>i\<bar>)) \<le> max_int_digits)"
| "json_ok (PFloat r) = False"
| "json_ok (PStr s) = True"
| "json_ok (PList vs) = list_all json_ok vs"
| "json_ok (PDict d) = (distinct (map fst d) \<and> list_all (\<lambda>p. json_ok (snd p)) d)"

fun json_depth :: "pyval \<Rightarrow> nat" where
  "json_depth (PList vs) = Suc (foldr max (map json_depth vs) 0)"
| "json_depth (PDict d) = Suc (foldr max (map (\<lambda>p. json_depth (snd p)) d) 0)"
| "json_depth _ = 0"

lemma hex_digit_props:
  assumes "d < 16"
  shows "is_hex (hex_digit d)" "hex_val (hex_digit d) = d"
  using assms by (auto simp: hex_digit_def is_hex_def hex_val_def is_digit_def)

lemma chr_div_mod: "chr (16 * (ord c div 16) + ord c mod 16) = c"
  by simp

lemma chr_lits:
  "chr 8 = CHR 0x08" "chr 9 = CHR 0x09" "chr 10 = CHR 0x0A" "chr 12 = CHR 0x0C"
  "chr 13 = CHR 0x0D" "chr 48 = CHR ''0''"
  by code_simp+

lemma ord_eq_chr: "ord c = n \<Longrightarrow> c = chr n"
  by (metis chr_ord)

lemmas esc_lits = chr_lits esc_char_def scan_escape_def unescape_def dq_def bs_def ord_def

lemma scan_str_esc: "scan_str (esc_char c @ t) = str_cons c (scan_str t)"
proof -
  consider (q) "c = dq" | (b) "c = bs" | (n) "ord c = 10" | (r) "ord c = 13" | (t) "ord c = 9"
    | (f) "ord c = 12" | (bb) "ord c = 8" | (p) "c \<noteq> dq" "c \<noteq> bs" "32 \<le> ord c" "ord c \<le> 126"
    | (u) "c \<noteq> dq" "c \<noteq> bs" "ord c \<notin> {8, 9, 10, 12, 13}" "\<not> (32 \<le> ord c \<and> ord c \<le> 126)"
    by fastforce
  then show ?thesis
  proof cases
    case u
    have "ord c div 16 < 16" by (rule less_mult_imp_div_less) simp
    moreover have "is_hex (CHR ''0'')" "hex_val (CHR ''0'') = 0"
      by (simp_all add: is_hex_def hex_val_def is_digit_def ord_def)
    ultimately show ?thesis using u ord_less [of c]
      by (simp add: esc_char_def scan_escape_def hex_digit_props dq_def bs_def chr_div_mod
          del: ord_less)
  next
    case p
    then show ?thesis by (simp add: esc_char_def)
  next
    case n
    then have "c = chr 10" by (rule ord_eq_chr)
    then show ?thesis by (simp add: esc_lits)
  next
    case r
    then have "c = chr 13" by (rule ord_eq_chr)
    then show ?thesis by (simp add: esc_lits)
  next
    case t
    then have "c = chr 9" by (rule ord_eq_chr)
    then show ?thesis by (simp add: esc_lits)
  next
    case f
    then have "c = chr 12" by (rule ord_eq_chr)
    then show ?thesis by (simp add: esc_lits)
  next
    case bb
    then have "c = chr 8" by (rule ord_eq_chr)
    then show ?thesis by (simp add: esc_lits)
  qed (simp_all add: esc_lits)
qed

lemma scan_str_dumps: "scan_str (concat (map esc_char s) @ dq # r) = Inr (s, r)"
  by (induction s) (simp_all add: scan_str_esc str_cons_def)

definition num_stop :: "string \<Rightarrow> bool" where
  "num_stop r \<longleftrightarrow> (case r of [] \<Rightarrow> True | c # _ \<Rightarrow> c = CHR '','' \<or> c = CHR '']'' \<or> c = CHR ''}'')"

lemma num_stop_simps [simp]:
  "num_stop []" "num_stop (CHR '','' # r)" "num_stop (CHR '']'' # r)" "num_stop (CHR ''}'' # r)"
  by (simp_all add: num_stop_def)

lemma num_stop_scan:
  assumes "num_stop r"
  shows "takeWhile is_digit r = []" "scan_frac r = ([], r)" "scan_exp r = ([], r)"
  using assms by (auto simp: num_stop_def scan_frac_def scan_exp_def is_digit_def ord_def
      split: list.splits)

lemma int_part_show_nat:
  assumes "num_stop r"
  shows "int_part (show_nat n @ r) = show_nat n"
proof -
  have "takeWhile is_digit (show_nat n @ r) = show_nat n"
    using show_nat_digits [of n] num_stop_scan(1) [OF assms]
    by (simp add: takeWhile_append list_all_iff)
  moreover have "n = 0" if "hd (show_nat n) = CHR ''0''"
    using that by (intro show_nat_hd_zero) (simp add: digit_char_def chr_lits)
  moreover have "show_nat 0 = ''0''"
    by (simp add: show_nat.simps [of 0] digit_char_def chr_lits)
  ultimately show ?thesis by (auto simp: int_part_def split: list.splits)
qed

lemma is_digit_lits:
  "is_digit c \<Longrightarrow> c \<noteq> CHR ''-'' \<and> c \<noteq> CHR ''n'' \<and> c \<noteq> CHR ''t'' \<and> c \<noteq> CHR ''f'' \<and> c \<noteq> CHR ''N''
     \<and> c \<noteq> CHR ''I'' \<and> c \<noteq> dq"
  by (auto simp: is_digit_def ord_def dq_def)

lemma show_nat_hd: "\<exists>c t. show_nat n = c # t \<and> is_digit c"
  using show_nat_digits [of n] show_nat_not_Nil [of n] by (cases "show_nat n") auto

lemma scan_number_show_int:
  assumes "num_stop r" "length (show_nat (nat \<bar>i\<bar>)) \<le> max_int_digits"
  shows "scan_number (show_int i @ r) = Inr (PInt i, r)"
proof (cases "i < 0")
  case True
  with assms show ?thesis
    by (simp add: show_int_def scan_number_def int_part_show_nat num_stop_scan number_value_def)
next
  case False
  obtain c t where c: "show_nat (nat i) = c # t" "is_digit c" using show_nat_hd by blast
  then have "\<not> startswith (show_nat (nat i) @ r) ''-''"
    by (auto dest: is_digit_lits)
  with False assms show ?thesis
    by (simp add: show_int_def scan_number_def int_part_show_nat num_stop_scan number_value_def)
qed

lemma scan_const_show_int: "scan_const ac (show_int i @ r) = None"
proof -
  obtain c t where c: "show_nat (nat \<bar>i\<bar>) = c # t" "is_digit c" using show_nat_hd by blast
  then show ?thesis
    by (cases "i < 0") (auto simp: show_int_def scan_const_def dest!: is_digit_lits)
qed

lemma scan_scalar_int:
  assumes "num_stop r" "json_ok (PInt i)"
  shows "scan_scalar ac (show_int i @ r) = Inr (PInt i, r)"
proof -
  obtain c t where c: "show_nat (nat \<bar>i\<bar>) = c # t" "is_digit c" using show_nat_hd by blast
  then have "\<not> startswith (show_int i @ r) [dq]"
    by (cases "i < 0") (auto simp: show_int_def dq_def [symmetric] dest: is_digit_lits,
        simp add: dq_def)
  with assms show ?thesis
    by (simp add: scan_scalar_def scan_const_show_int scan_number_show_int)
qed

lemma scan_scalar_str: "scan_scalar ac (dumps_str s @ r) = Inr (PStr s, r)"
  by (simp add: scan_scalar_def scan_const_def dumps_str_def scan_str_dumps)
    (simp add: dq_def)

lemma dumps_hd:
  assumes "json_ok v"
  shows "\<exists>c t. dumps si sk v = c # t \<and> \<not> is_json_ws c \<and> c \<noteq> CHR '']'' \<and> c \<noteq> CHR ''}''"
proof (cases v)
  case (PInt i)
  obtain c t where c: "show_nat (nat \<bar>i\<bar>) = c # t" "is_digit c" using show_nat_hd by blast
  then show ?thesis
    by (cases "i < 0") (auto simp: PInt show_int_def is_json_ws_def is_digit_def ord_def)
qed (use assms in \<open>auto simp: is_json_ws_def ord_def dumps_str_def dq_def\<close>)

definition json_seps :: "string \<Rightarrow> string \<Rightarrow> bool" where
  "json_seps si sk \<longleftrightarrow>
     (\<exists>w1 w2. si = CHR '','' # w1 \<and> sk = CHR '':'' # w2 \<and> list_all is_json_ws w1 \<and> list_all is_json_ws w2)"

lemma skip_ws_dumps:
  assumes "json_ok v" "list_all is_json_ws w"
  shows "skip_ws (w @ dumps si sk v @ r) = dumps si sk v @ r"
proof -
  obtain c t where c: "dumps si sk v = c # t" "\<not> is_json_ws c" using dumps_hd [OF assms(1)] by blast
  have "skip_ws (w @ c # t @ r) = c # t @ r"
    using assms(2) c(2) by (induction w) (simp_all add: skip_ws_def)
  with c show ?thesis by simp
qed

lemma skip_ws_dq: "list_all is_json_ws w \<Longrightarrow> skip_ws (w @ dq # r) = dq # r"
  by (induction w) (simp_all add: skip_ws_def is_json_ws_def dq_def ord_def)

lemma skip_ws_stop [simp]:
  "skip_ws [] = []" "skip_ws (CHR '','' # r) = CHR '','' # r" "skip_ws (CHR '']'' # r) = CHR '']'' # r"
  "skip_ws (CHR ''}'' # r) = CHR ''}'' # r" "skip_ws (CHR '':'' # r) = CHR '':'' # r"
  by (simp_all add: skip_ws_def is_json_ws_def ord_def)

lemma dict_of_distinct:
  assumes "distinct (map fst d)"
  shows "dict_of d = d"
proof -
  have "fold (\<lambda>(k, v) d. dict_set k v d) d e = e @ d"
    if "distinct (map fst (e @ d))" for e
    using that
  proof (induction d arbitrary: e)
    case (Cons p d)
    obtain k v where p: "p = (k, v)" by (cases p)
    have "dict_set k v e = e @ [(k, v)]"
      using Cons.prems by (simp add: p dict_set_new)
    then show ?case using Cons.IH [of "e @ [(k, v)]"] Cons.prems by (simp add: p)
  qed simp
  from this [of "[]"] assms show ?thesis by (simp add: dict_of_def)
qed

lemma foldr_max_le: "foldr max ns (0::nat) \<le> m \<longleftrightarrow> list_all (\<lambda>n. n \<le> m) ns"
  by (induction ns) auto

lemma json_depth_le:
  "json_depth (PList vs) \<le> d \<longleftrightarrow> (\<exists>d'. d = Suc d' \<and> list_all (\<lambda>v. json_depth v \<le> d') vs)"
  "json_depth (PDict ps) \<le> d \<longleftrightarrow> (\<exists>d'. d = Suc d' \<and> list_all (\<lambda>p. json_depth (snd p) \<le> d') ps)"
  by (cases d; simp add: foldr_max_le list_all_iff)+

lemma jvalue_scalar:
  assumes "s = c # t" "c \<noteq> CHR ''[''" "c \<noteq> CHR ''{''" "scan_scalar ac s = Inr (v, r)" "0 < n"
  shows "jvalue ac n d s = Inr (v, r)"
  using assms by (cases n) auto

lemma jelems_step:
  assumes "jvalue ac n d s = Inr (v, r)" "skip_ws r = CHR '','' # t"
    "jelems ac n d (skip_ws t) = Inr (vs, r')"
  shows "jelems ac (Suc n) d s = Inr (v # vs, r')"
  using assms by simp

lemma jmembers_step:
  assumes "jvalue ac n d (skip_ws t0) = Inr (v, r)" "skip_ws r = CHR '','' # t"
    "jmembers ac n d (skip_ws t) = Inr (ps, r')"
  shows "jmembers ac (Suc n) d (dumps_str k @ CHR '':'' # t0) = Inr ((k, v) # ps, r')"
  using assms by (simp add: dumps_str_def scan_str_dumps)

lemma jmembers_last:
  assumes "jvalue ac n d (skip_ws t0) = Inr (v, r)" "skip_ws r = CHR ''}'' # t"
  shows "jmembers ac (Suc n) d (dumps_str k @ CHR '':'' # t0) = Inr ([(k, v)], t)"
  using assms by (simp add: dumps_str_def scan_str_dumps)

lemma skip_ws_elems:
  assumes "list_all json_ok vs" "vs \<noteq> []" "list_all is_json_ws w"
  shows "skip_ws (w @ dumps_elems si sk vs @ r) = dumps_elems si sk vs @ r"
    "\<not> startswith (dumps_elems si sk vs @ r) '']''"
proof -
  obtain v ws where vs: "vs = v # ws" using assms(2) by (cases vs) auto
  obtain u where u: "dumps_elems si sk vs = dumps si sk v @ u"
    using vs by (cases ws) auto
  have v: "json_ok v" using assms(1) vs by simp
  obtain c t where "dumps si sk v = c # t" "c \<noteq> CHR '']''"
    using dumps_hd [OF v] by blast
  then show "\<not> startswith (dumps_elems si sk vs @ r) '']''" by (simp add: u)
  show "skip_ws (w @ dumps_elems si sk vs @ r) = dumps_elems si sk vs @ r"
    using skip_ws_dumps [OF v assms(3), of si sk "u @ r"] by (simp add: u)
qed

lemma skip_ws_items:
  assumes "ps \<noteq> []" "list_all is_json_ws w"
  shows "skip_ws (w @ dumps_items si sk ps @ r) = dumps_items si sk ps @ r"
    "\<not> startswith (dumps_items si sk ps @ r) ''}''"
proof -
  obtain k v qs where ps: "ps = (k, v) # qs" using assms(1) by (cases ps) auto
  obtain u where u: "dumps_items si sk ps = dq # u"
    using ps by (cases qs) (auto simp: dumps_str_def)
  show "\<not> startswith (dumps_items si sk ps @ r) ''}''" by (simp add: u dq_def)
  show "skip_ws (w @ dumps_items si sk ps @ r) = dumps_items si sk ps @ r"
    using skip_ws_dq [OF assms(2), of "u @ r"] by (simp add: u)
qed

lemma skip_ws_items_Nil: "ps \<noteq> [] \<Longrightarrow> skip_ws (dumps_items si sk ps @ r) = dumps_items si sk ps @ r"
  using skip_ws_items(1) [of ps "[]"] by simp

lemma skip_ws_elems_Nil:
  "list_all json_ok vs \<Longrightarrow> vs \<noteq> [] \<Longrightarrow> skip_ws (dumps_elems si sk vs @ r) = dumps_elems si sk vs @ r"
  using skip_ws_elems(1) [of vs "[]"] by simp

lemma jparse_dumps:
  assumes w: "list_all is_json_ws w1" "list_all is_json_ws w2"
    and seps: "si = CHR '','' # w1" "sk = CHR '':'' # w2"
  shows
  "json_ok v \<Longrightarrow> json_depth v \<le> d \<Longrightarrow> num_stop r \<Longrightarrow> 2 * length (dumps si sk v) + 1 \<le> n
    \<Longrightarrow> jvalue ac n d (dumps si sk v @ r) = Inr (v, r)"
  "list_all json_ok vs \<Longrightarrow> list_all (\<lambda>v. json_depth v \<le> d) vs \<Longrightarrow> vs \<noteq> []
    \<Longrightarrow> 2 * length (dumps_elems si sk vs) + 2 \<le> n
    \<Longrightarrow> jelems ac n d (dumps_elems si sk vs @ CHR '']'' # r) = Inr (vs, r)"
  "list_all (\<lambda>p. json_ok (snd p)) ps \<Longrightarrow> list_all (\<lambda>p. json_depth (snd p) \<le> d) ps \<Longrightarrow> ps \<noteq> []
    \<Longrightarrow> 2 * length (dumps_items si sk ps) + 2 \<le> n
    \<Longrightarrow> jmembers ac n d (dumps_items si sk ps @ CHR ''}'' # r) = Inr (ps, r)"
proof (induction n arbitrary: d v vs ps r)
  case (Suc n)
  note IH = Suc.IH
  {
    case 1
    show ?case
    proof (cases v)
      case (PInt i)
      obtain c t where c: "show_nat (nat \<bar>i\<bar>) = c # t" "is_digit c" using show_nat_hd by blast
      then have "c \<noteq> CHR ''[''" "c \<noteq> CHR ''{''" by (auto simp: is_digit_def ord_def)
      with c obtain c' t' where "show_int i @ r = c' # t'" "c' \<noteq> CHR ''[''" "c' \<noteq> CHR ''{''"
        by (cases "i < 0") (auto simp: show_int_def)
      then show ?thesis using 1 PInt scan_scalar_int [of r i ac]
        by (intro jvalue_scalar) auto
    next
      case (PStr s)
      have "scan_scalar ac (dumps si sk v @ r) = Inr (v, r)"
        using PStr scan_scalar_str by simp
      then show ?thesis using PStr
        by (intro jvalue_scalar [of _ dq "concat (map esc_char s) @ dq # r"])
           (simp_all add: dumps_str_def, simp_all add: dq_def)
    next
      case (PList vs)
      then obtain d' where d: "d = Suc d'" "list_all (\<lambda>v. json_depth v \<le> d') vs"
        using 1(2) json_depth_le(1) by auto
      show ?thesis
      proof (cases "vs = []")
        case False
        then have "jelems ac n d' (dumps_elems si sk vs @ CHR '']'' # r) = Inr (vs, r)"
          using 1 d PList by (intro IH(2)) auto
        then show ?thesis using PList False 1(1) d
          by (simp add: skip_ws_elems_Nil skip_ws_elems(2) [where w = "[]"])
      qed (simp add: PList d)
    next
      case (PDict ps)
      then obtain d' where d: "d = Suc d'" "list_all (\<lambda>p. json_depth (snd p) \<le> d') ps"
        using 1(2) json_depth_le(2) by auto
      show ?thesis
      proof (cases "ps = []")
        case False
        then have "jmembers ac n d' (dumps_items si sk ps @ CHR ''}'' # r) = Inr (ps, r)"
          using 1 d PDict by (intro IH(3)) auto
        then show ?thesis using PDict False 1(1) d
          by (simp add: skip_ws_items_Nil skip_ws_items(2) [where w = "[]"] dict_of_distinct)
      qed (simp add: PDict d dict_of_def)
    qed (use 1 in \<open>auto simp: scan_scalar_def scan_const_def\<close>)
  next
    case 2
    then obtain v ws where vs: "vs = v # ws" by (cases vs) auto
    show ?case
    proof (cases ws)
      case Nil
      then have "jvalue ac n d (dumps si sk v @ CHR '']'' # r) = Inr (v, CHR '']'' # r)"
        using 2 vs by (intro IH(1)) auto
      then show ?thesis using vs Nil by simp
    next
      case (Cons v' ws')
      have "jvalue ac n d (dumps si sk v @ CHR '','' # w1 @ dumps_elems si sk ws @ CHR '']'' # r)
          = Inr (v, CHR '','' # w1 @ dumps_elems si sk ws @ CHR '']'' # r)"
        using 2 vs Cons by (intro IH(1)) auto
      moreover have "jelems ac n d (dumps_elems si sk ws @ CHR '']'' # r) = Inr (ws, r)"
        using 2 vs Cons seps by (intro IH(2)) auto
      ultimately show ?thesis
        using vs Cons 2(1) skip_ws_elems(1) [OF _ _ w(1), of ws si sk "CHR '']'' # r"]
        by (simp add: seps)
    qed
  next
    case 3
    then obtain k v qs where ps: "ps = (k, v) # qs" by (cases ps) auto
    have "json_ok v" using 3 ps by simp
    note sv = skip_ws_dumps [OF this w(2), of si sk]
    show ?case
    proof (cases qs)
      case Nil
      then have "jvalue ac n d (dumps si sk v @ CHR ''}'' # r) = Inr (v, CHR ''}'' # r)"
        using 3 ps by (intro IH(1)) auto
      then show ?thesis using ps Nil sv [of "CHR ''}'' # r"]
        by (simp add: jmembers_last seps del: jmembers.simps)
    next
      case (Cons q qs')
      let ?t = "w1 @ dumps_items si sk qs @ CHR ''}'' # r"
      have "jvalue ac n d (dumps si sk v @ CHR '','' # ?t) = Inr (v, CHR '','' # ?t)"
        using 3 ps Cons by (intro IH(1)) auto
      moreover have "jmembers ac n d (dumps_items si sk qs @ CHR ''}'' # r) = Inr (qs, r)"
        using 3 ps Cons seps by (intro IH(3)) auto
      moreover have "skip_ws (w1 @ dumps_items si sk qs @ CHR ''}'' # r) = dumps_items si sk qs @ CHR ''}'' # r"
        using skip_ws_items(1) [OF _ w(1)] Cons by blast
      ultimately have "jmembers ac (Suc n) d (dumps_str k @ CHR '':'' # w2 @ dumps si sk v @ CHR '','' # ?t)
          = Inr ((k, v) # qs, r)"
        by (intro jmembers_step [where t = ?t and r = "CHR '','' # ?t"])
          (simp_all only: sv skip_ws_stop)
      moreover have "dumps_items si sk ps @ CHR ''}'' # r
          = dumps_str k @ CHR '':'' # w2 @ dumps si sk v @ CHR '','' # ?t"
        using ps Cons seps by simp
      ultimately show ?thesis using ps by argo
    qed
  }
qed auto

theorem json_loads_dumps:
  assumes "json_seps si sk" "json_ok v" "json_depth v \<le> lim"
  shows "json_loads ac lim (dumps si sk v) = Inr v"
proof -
  obtain w1 w2 where w: "list_all is_json_ws w1" "list_all is_json_ws w2"
      "si = CHR '','' # w1" "sk = CHR '':'' # w2"
    using assms(1) by (auto simp: json_seps_def)
  have "jvalue ac (2 * length (dumps si sk v) + 2) lim (dumps si sk v @ []) = Inr (v, [])"
    using assms by (intro jparse_dumps(1) [OF w]) auto
  moreover have "skip_ws (dumps si sk v) = dumps si sk v"
    using skip_ws_dumps [OF assms(2), of "[]" si sk "[]"] by simp
  ultimately show ?thesis by (simp add: json_loads_def)
qed

lemma json_seps_used: "json_seps '','' '':''" "json_seps '', '' '': ''"
  by (simp_all add: json_seps_def is_json_ws_def ord_def)

lemmas json_loads_compact = json_loads_dumps [OF json_seps_used(1), folded json_compact_def]
lemmas json_loads_default = json_loads_dumps [OF json_seps_used(2), folded json_default_def]

section \<open>What is printed is plain ASCII text, and UTF-8 is undone by decoding\<close>

definition json_char :: "char \<Rightarrow> bool" where
  "json_char c \<longleftrightarrow> 32 \<le> ord c \<and> ord c < 127"

lemma hex_digit_json: "d < 16 \<Longrightarrow> json_char (hex_digit d)"
  by (auto simp: hex_digit_def json_char_def)

lemma esc_char_json: "list_all json_char (esc_char c)"
proof -
  have "ord c div 16 < 16" by (rule less_mult_imp_div_less) simp
  then have "json_char (hex_digit (ord c div 16))" "json_char (hex_digit (ord c mod 16))"
    by (simp_all add: hex_digit_json)
  then show ?thesis
    by (simp add: esc_char_def) (simp add: json_char_def bs_def dq_def ord_def)
qed

lemma dumps_str_json: "list_all json_char (dumps_str s)"
proof -
  have "list_all json_char (concat (map esc_char s))"
    by (induction s) (simp_all add: esc_char_json)
  moreover have "json_char dq" by (simp add: json_char_def dq_def ord_def)
  ultimately show ?thesis by (simp add: dumps_str_def)
qed

lemma show_int_json: "list_all json_char (show_int i)"
proof -
  have "list_all json_char (show_nat n)" for n
    using show_nat_digits [of n] by (auto simp: list_all_iff is_digit_def json_char_def)
  then show ?thesis by (simp add: show_int_def) (simp add: json_char_def ord_def)
qed

lemma dumps_json:
  "list_all json_char si \<Longrightarrow> list_all json_char sk \<Longrightarrow> json_ok v \<Longrightarrow> list_all json_char (dumps si sk v)"
  "list_all json_char si \<Longrightarrow> list_all json_char sk \<Longrightarrow> list_all json_ok vs
    \<Longrightarrow> list_all json_char (dumps_elems si sk vs)"
  "list_all json_char si \<Longrightarrow> list_all json_char sk \<Longrightarrow> list_all (\<lambda>p. json_ok (snd p)) ps
    \<Longrightarrow> list_all json_char (dumps_items si sk ps)"
proof (induction si sk v and si sk vs and si sk ps rule: dumps_dumps_elems_dumps_items.induct)
qed (auto simp: dumps_str_json show_int_json json_char_def ord_def)

lemma utf8_encode_ascii: "list_all json_char s \<Longrightarrow> utf8_encode s = s"
  by (induction s) (simp_all add: json_char_def)

lemma utf8_decode_encode [simp]: "utf8_decode (utf8_encode s) = Inr s"
proof (induction s)
  case (Cons c s)
  show ?case
  proof (cases "ord c < 128")
    case False
    have q: "ord c div 64 < 4" by (rule less_mult_imp_div_less) simp
    from False have "2 \<le> ord c div 64" by simp
    then show ?thesis using False q Cons
      by (simp add: is_cont_def)
  qed (simp add: Cons)
qed simp

lemma json_loads_bytes_dumps:
  assumes "json_ok v" "json_depth v \<le> lim"
  shows "json_loads_bytes lim (utf8_encode (json_compact v)) = Inr v"
proof -
  have j: "list_all json_char (json_compact v)"
    unfolding json_compact_def using assms(1) by (intro dumps_json(1)) (simp_all add: json_char_def ord_def)
  then have u: "utf8_encode (json_compact v) = json_compact v" by (rule utf8_encode_ascii)
  have "json_char (json_compact v ! i)" if "i < length (json_compact v)" for i
    using j that by (simp add: list_all_length)
  then have n: "\<not> is_nul (json_compact v) i" if "i < length (json_compact v)" for i
    using that by (force simp: is_nul_def json_char_def)
  have n0: "\<not> ((4 \<le> length (json_compact v) \<or> length (json_compact v) = 2)
      \<and> (is_nul (json_compact v) 0 \<or> is_nul (json_compact v) 1))" (is "\<not> (?l \<and> ?n)")
  proof
    assume "?l \<and> ?n"
    then have "0 < length (json_compact v)" "1 < length (json_compact v)" by linarith+
    with n \<open>?l \<and> ?n\<close> show False by blast
  qed
  have f: "\<not> startswith (json_compact v) (chr m # p)" if "127 \<le> m \<or> m = 0" "m < 256" for m p
    using j that by (cases "json_compact v") (auto simp: json_char_def)
  have "json_decode (json_compact v) = utf8_decode (json_compact v)"
    unfolding json_decode_def using n0 by (auto simp: f)
  also have "\<dots> = Inr (json_compact v)" using u by (metis utf8_decode_encode)
  finally show ?thesis
    using assms u by (simp add: json_loads_bytes_def json_loads_compact)
qed

section \<open>The exceptions of the parser\<close>

definition json_errors :: "exn set" where
  "json_errors = {ValueError, RecursionError, OutOfModel, OutOfFuel}"

lemma scan_escape_errors: "scan_escape s = Inl e \<Longrightarrow> e \<in> json_errors"
  by (auto simp: scan_escape_def Let_def json_errors_def split: list.splits option.splits if_splits)

lemma scan_str_errors: "scan_str s = Inl e \<Longrightarrow> e \<in> json_errors"
proof (induction s arbitrary: e rule: scan_str.induct)
  case (2 c s)
  then show ?case
    by (auto simp: str_cons_Inl py_iffs dest: scan_escape_errors split: if_splits)
      (simp add: json_errors_def)
qed (simp add: json_errors_def)

lemma scan_scalar_errors: "scan_scalar ac s = Inl e \<Longrightarrow> e \<in> json_errors"
proof -
  have n: "scan_number s = Inl e \<Longrightarrow> e \<in> json_errors"
    by (auto simp: scan_number_def Let_def number_value_def json_errors_def split: if_splits)
  show "scan_scalar ac s = Inl e \<Longrightarrow> e \<in> json_errors"
    by (auto simp: scan_scalar_def py_iffs dest: n scan_str_errors split: option.splits if_splits)
qed

lemma jparse_errors:
  "jvalue ac n d s = Inl e \<Longrightarrow> e \<in> json_errors"
  "jelems ac n d s = Inl e \<Longrightarrow> e \<in> json_errors"
  "jmembers ac n d s = Inl e \<Longrightarrow> e \<in> json_errors"
proof (induction n arbitrary: d s e)
  case (Suc n)
  note IH = Suc.IH
  have j: "ValueError \<in> json_errors" "RecursionError \<in> json_errors" by (simp_all add: json_errors_def)
  {
    case 1
    show ?case
    proof (cases s)
      case (Cons c t)
      show ?thesis
      proof (cases d)
        case 0
        then show ?thesis using 1 Cons j by (auto dest: scan_scalar_errors split: if_splits)
      next
        case (Suc d')
        then show ?thesis using 1 Cons
          by (auto simp: py_bind_Inl_iff dest: IH(2,3) scan_scalar_errors split: if_splits)
      qed
    qed (use 1 j in simp)
  next
    case 2
    show ?case
    proof (cases "jvalue ac n d s")
      case (Inl e')
      then show ?thesis using 2 IH(1) [OF Inl] by simp
    next
      case (Inr q)
      show ?thesis
        using 2 j Inr
        by (cases q; cases "skip_ws (snd q)") (auto simp: py_bind_Inl_iff dest: IH(2) split: if_splits)
    qed
  next
    case 3
    show ?case
    proof (cases "scan_str (tl s)")
      case (Inl e')
      then show ?thesis using 3 j by (auto dest: scan_str_errors split: if_splits)
    next
      case (Inr p)
      obtain k r0 where p: "p = (k, r0)" by (cases p)
      show ?thesis
      proof (cases "skip_ws r0")
        case Nil
        then show ?thesis using 3 j Inr p by (auto split: if_splits)
      next
        case (Cons c0 t0)
        show ?thesis
        proof (cases "jvalue ac n d (skip_ws t0)")
          case (Inl e')
          then show ?thesis using 3 j Inr p Cons IH(1) [OF Inl] by (auto split: if_splits)
        next
          case (Inr q)
          show ?thesis
            using 3 j \<open>scan_str (tl s) = Inr p\<close> p Cons Inr
            by (cases q; cases "skip_ws (snd q)")
              (auto simp: py_bind_Inl_iff dest: IH(3) split: if_splits)
        qed
      qed
    qed
  }
qed (auto simp: json_errors_def)

lemma utf8_decode_errors: "utf8_decode b = Inl e \<Longrightarrow> e = ValueError \<or> e = OutOfModel"
  by (induction b rule: utf8_decode.induct)
    (auto simp: py_iffs split: if_splits list.splits)

lemma json_loads_errors:
  "json_loads ac lim s = Inl e \<Longrightarrow> e \<in> {ValueError, RecursionError, OutOfModel}"
proof -
  assume a: "json_loads ac lim s = Inl e"
  then have "e \<in> json_errors"
    by (auto simp: json_loads_def py_bind_Inl_iff dest: jparse_errors split: if_splits
        simp del: jvalue.simps) (simp add: json_errors_def)
  moreover have "e \<noteq> OutOfFuel" using a json_loads_fuel by metis
  ultimately show ?thesis by (auto simp: json_errors_def)
qed

lemma json_loads_bytes_errors:
  "json_loads_bytes lim b = Inl e \<Longrightarrow> e \<in> {ValueError, RecursionError, OutOfModel}"
  by (auto simp: json_loads_bytes_def json_decode_def py_iffs dest: json_loads_errors utf8_decode_errors
      split: if_splits)

end
