(* ===== verification/Base64.thy ===== *)
theory Base64
  imports Prelude
begin

text \<open>
  \<open>_b64url_encode\<close> and \<open>_b64url_decode\<close> of \<open>oauth_common.py\<close> over Python's \<open>base64\<close> module:
  the padded encoder, the lenient decoder of \<open>binascii.a2b_base64\<close> (characters outside the
  alphabet are skipped, a complete padding ends the data), and the law that decoding undoes
  encoding, stated as the interface \<open>text_codec\<close> that the signed blobs of the OAuth modules
  are built on.
\<close>

section \<open>The alphabet\<close>

definition b64_char :: "nat \<Rightarrow> char" where
  "b64_char v =
     (if v < 26 then chr (65 + v) else if v < 52 then chr (71 + v)
      else if v < 62 then chr (v - 4) else if v = 62 then CHR ''-'' else CHR ''_'')"

text \<open>
  \<open>urlsafe_b64decode\<close> maps \<open>-\<close> and \<open>_\<close> to \<open>+\<close> and \<open>/\<close> before decoding, so both spellings
  are read.
\<close>

definition b64_val :: "char \<Rightarrow> nat option" where
  "b64_val c =
     (if is_upper_ascii c then Some (ord c - 65)
      else if is_lower_ascii c then Some (ord c - 71)
      else if is_digit c then Some (ord c + 4)
      else if c = CHR ''-'' \<or> c = CHR ''+'' then Some 62
      else if c = CHR ''_'' \<or> c = CHR ''/'' then Some 63
      else None)"

definition is_b64url :: "char \<Rightarrow> bool" where
  "is_b64url c \<longleftrightarrow> is_alnum_ascii c \<or> c = CHR ''-'' \<or> c = CHR ''_''"

lemma ord_b64_marks: "ord (CHR ''-'') = 45" "ord (CHR ''_'') = 95" "ord (CHR ''+'') = 43" "ord (CHR ''/'') = 47"
    "ord (CHR ''='') = 61" "ord (CHR ''.'') = 46"
  by (simp_all add: ord_def)

lemma b64_char_cases:
  assumes "v < 64"
  obtains "v < 26" "ord (b64_char v) = 65 + v" | "26 \<le> v" "v < 52" "ord (b64_char v) = 71 + v"
    | "52 \<le> v" "v < 62" "ord (b64_char v) = v - 4" | "v = 62" "b64_char v = CHR ''-''"
    | "v = 63" "b64_char v = CHR ''_''"
  using assms by (force simp: b64_char_def)

lemma b64_val_char [simp]: "v < 64 \<Longrightarrow> b64_val (b64_char v) = Some v"
  by (erule b64_char_cases)
    (auto simp: b64_val_def is_upper_ascii_def is_lower_ascii_def is_digit_def ord_b64_marks)

lemma b64_char_b64url [simp]: "v < 64 \<Longrightarrow> is_b64url (b64_char v)"
  by (erule b64_char_cases)
    (auto simp: is_b64url_def is_alnum_ascii_def is_alpha_ascii_def is_upper_ascii_def
      is_lower_ascii_def is_digit_def)

lemma is_b64url_props:
  assumes "is_b64url c"
  shows "c \<noteq> CHR ''=''" "c \<noteq> CHR ''.''" "is_ascii_char c"
  using assms
  by (auto simp: is_b64url_def is_alnum_ascii_def is_alpha_ascii_def is_upper_ascii_def
      is_lower_ascii_def is_digit_def is_ascii_char_def ord_b64_marks)

section \<open>Encoding\<close>

fun b64_encode :: "bytes \<Rightarrow> string" where
  "b64_encode [] = []"
| "b64_encode [a] = [b64_char (ord a div 4), b64_char (ord a mod 4 * 16), CHR ''='', CHR ''='']"
| "b64_encode [a, b] =
     [b64_char (ord a div 4), b64_char (ord a mod 4 * 16 + ord b div 16),
      b64_char (ord b mod 16 * 4), CHR ''='']"
| "b64_encode (a # b # c # s) =
     b64_char (ord a div 4) # b64_char (ord a mod 4 * 16 + ord b div 16)
     # b64_char (ord b mod 16 * 4 + ord c div 64) # b64_char (ord c mod 64) # b64_encode s"

definition b64url_encode :: "bytes \<Rightarrow> string" where
  "b64url_encode raw = rstrip_by (\<lambda>c. c = CHR ''='') (b64_encode raw)"

section \<open>Decoding\<close>

definition byte_cons :: "nat \<Rightarrow> bytes py \<Rightarrow> bytes py" where
  "byte_cons n m = py_bind m (\<lambda>s. Inr (chr n # s))"

text \<open>
  \<open>q\<close> is the position in the group of four, \<open>l\<close> the bits left over and \<open>p\<close> the padding
  characters seen since the last data character.
\<close>

fun b64_scan :: "nat \<Rightarrow> nat \<Rightarrow> nat \<Rightarrow> string \<Rightarrow> bytes py" where
  "b64_scan q l p [] = (if q = 0 then Inr [] else Inl ValueError)"
| "b64_scan q l p (c # s) =
     (if c = CHR ''='' then
        (if q < 2 then b64_scan q l p s
         else if 4 \<le> q + Suc p then Inr [] else b64_scan q l (Suc p) s)
      else (case b64_val c of
              None \<Rightarrow> b64_scan q l p s
            | Some v \<Rightarrow>
                if q = 0 then b64_scan 1 v 0 s
                else if q = 1 then byte_cons (4 * l + v div 16) (b64_scan 2 (v mod 16) 0 s)
                else if q = 2 then byte_cons (16 * l + v div 4) (b64_scan 3 (v mod 4) 0 s)
                else byte_cons (64 * l + v) (b64_scan 0 0 0 s)))"

definition b64_decode :: "string \<Rightarrow> bytes py" where
  "b64_decode s = (if str_isascii s then b64_scan 0 0 0 s else Inl ValueError)"

definition b64_pad :: "string \<Rightarrow> string" where
  "b64_pad s = replicate ((4 - length s mod 4) mod 4) (CHR ''='')"

definition b64url_decode :: "string \<Rightarrow> bytes py" where
  "b64url_decode s = b64_decode (s @ b64_pad s)"

lemma b64_scan_ValueError: "b64_scan q l p s = Inl e \<Longrightarrow> e = ValueError"
  by (induction q l p s rule: b64_scan.induct)
    (auto simp: byte_cons_def py_iffs split: if_splits option.splits)

lemma b64url_decode_ValueError: "b64url_decode s = Inl e \<Longrightarrow> e = ValueError"
  by (auto simp: b64url_decode_def b64_decode_def dest: b64_scan_ValueError split: if_splits)

lemma b64_pad_ascii [simp]: "str_isascii (b64_pad s)"
  by (simp add: b64_pad_def str_isascii_def list_all_iff is_ascii_char_def ord_b64_marks)

section \<open>Decoding undoes encoding\<close>

lemma sextets:
  "ord a div 4 < 64" "ord a mod 4 * 16 + ord b div 16 < 64" "ord a mod 4 * 16 < 64"
  "ord b mod 16 * 4 + ord c div 64 < 64" "ord b mod 16 * 4 < 64" "ord c mod 64 < 64"
proof -
  note o = ord_less [of a] ord_less [of b] ord_less [of c]
  have "ord a mod 4 < 4" "ord b mod 16 < 16" by simp_all
  then show "ord a div 4 < 64" "ord a mod 4 * 16 + ord b div 16 < 64" "ord a mod 4 * 16 < 64"
    "ord b mod 16 * 4 + ord c div 64 < 64" "ord b mod 16 * 4 < 64" "ord c mod 64 < 64"
    using o by linarith+
qed

lemma octet_bounds [simp]:
  "ord b div 16 mod 16 = ord b div 16" "ord b div 16 div 16 = 0"
  "ord c div 64 mod 4 = ord c div 64" "ord c div 64 div 4 = 0"
proof -
  have "ord b div 16 < 16" "ord c div 64 < 4" using ord_less [of b] ord_less [of c] by linarith+
  then show "ord b div 16 mod 16 = ord b div 16" "ord b div 16 div 16 = 0"
    "ord c div 64 mod 4 = ord c div 64" "ord c div 64 div 4 = 0"
    by simp_all
qed

lemma b64_scan_encode: "b64_scan 0 0 0 (b64_encode raw) = Inr raw"
  by (induction raw rule: b64_encode.induct)
    (simp_all add: sextets byte_cons_def is_b64url_props(1))

text \<open>The encoder's text is a body of alphabet characters and at most two padding characters.\<close>

definition b64_body :: "bytes \<Rightarrow> string" where
  "b64_body raw = take ((4 * length raw + 2) div 3) (b64_encode raw)"

lemma b64_encode_shape:
  "b64_encode raw = b64_body raw @ b64_pad (b64_body raw)"
  "list_all is_b64url (b64_body raw)"
  "length (b64_body raw) = (4 * length raw + 2) div 3"
proof (induction raw rule: b64_encode.induct)
  case (4 a b c s)
  have e: "(4 * length (a # b # c # s) + 2) div 3
      = Suc (Suc (Suc (Suc ((4 * length s + 2) div 3))))" by simp
  have body: "b64_body (a # b # c # s) = take 4 (b64_encode (a # b # c # s)) @ b64_body s"
    unfolding b64_body_def e by simp
  {
    case 1
    have "b64_pad (b64_body (a # b # c # s)) = b64_pad (b64_body s)" by (simp add: b64_pad_def body)
    then show ?case using 4(1) by (simp add: body)
  next
    case 2
    then show ?case using 4(2) by (simp add: body sextets)
  next
    case 3
    then show ?case unfolding e using 4(3) by (simp add: body)
  }
next
  case (2 a)
  have "b64_body [a] = [b64_char (ord a div 4), b64_char (ord a mod 4 * 16)]"
    by (simp add: b64_body_def)
  then show "b64_encode [a] = b64_body [a] @ b64_pad (b64_body [a])"
    "list_all is_b64url (b64_body [a])" "length (b64_body [a]) = (4 * length [a] + 2) div 3"
    by (simp_all add: b64_pad_def sextets numeral_2_eq_2)
next
  case (3 a b)
  have "b64_body [a, b] = [b64_char (ord a div 4), b64_char (ord a mod 4 * 16 + ord b div 16),
      b64_char (ord b mod 16 * 4)]"
    by (simp add: b64_body_def)
  then show "b64_encode [a, b] = b64_body [a, b] @ b64_pad (b64_body [a, b])"
    "list_all is_b64url (b64_body [a, b])" "length (b64_body [a, b]) = (4 * length [a, b] + 2) div 3"
    by (simp_all add: b64_pad_def sextets)
qed (simp_all add: b64_body_def b64_pad_def)

lemma b64url_encode_body: "b64url_encode raw = b64_body raw"
proof (cases "b64_body raw = []")
  case True
  then show ?thesis by (simp add: b64url_encode_def b64_encode_shape(1) b64_pad_def rstrip_by_def)
next
  case False
  have "list_all (\<lambda>c. c \<noteq> CHR ''='') (b64_body raw)"
    using b64_encode_shape(2) [of raw] by (auto simp: list_all_iff dest: is_b64url_props(1))
  moreover have "list_all (\<lambda>c. c = CHR ''='') (b64_pad (b64_body raw))"
    by (simp add: b64_pad_def list_all_iff)
  ultimately show ?thesis
    unfolding b64url_encode_def b64_encode_shape(1) [of raw] by (intro rstrip_by_append False)
qed

lemma b64url_encode_chars: "list_all is_b64url (b64url_encode raw)"
  by (simp add: b64url_encode_body b64_encode_shape(2))

lemma b64url_encode_length: "length (b64url_encode raw) = (4 * length raw + 2) div 3"
  by (simp add: b64url_encode_body b64_encode_shape(3))

lemma b64url_encode_ascii [simp]: "str_isascii (b64url_encode raw)"
  using b64url_encode_chars [of raw] by (auto simp: str_isascii_def list_all_iff dest: is_b64url_props(3))

lemma b64url_encode_no_dot: "CHR ''.'' \<notin> set (b64url_encode raw)"
  using b64url_encode_chars [of raw] by (auto simp: list_all_iff dest: is_b64url_props(2))

lemma b64url_encode_not_Nil: "raw \<noteq> [] \<Longrightarrow> b64url_encode raw \<noteq> []"
  using b64url_encode_length [of raw] by (cases raw) auto

lemma b64url_decode_encode [simp]: "b64url_decode (b64url_encode raw) = Inr raw"
proof -
  have "b64url_encode raw @ b64_pad (b64url_encode raw) = b64_encode raw"
    by (simp add: b64url_encode_body b64_encode_shape(1))
  then have "b64url_decode (b64url_encode raw) = b64_decode (b64_encode raw)"
    by (simp add: b64url_decode_def)
  also have "str_isascii (b64_encode raw)"
    using b64url_encode_ascii [of raw] by (simp add: b64_encode_shape(1) b64url_encode_body)
  then have "b64_decode (b64_encode raw) = Inr raw" by (simp add: b64_decode_def b64_scan_encode)
  finally show ?thesis .
qed

lemma b64url_encode_inject [simp]: "b64url_encode r = b64url_encode r' \<longleftrightarrow> r = r'"
  by (metis b64url_decode_encode sum.inject(2))

section \<open>The interface of a text codec\<close>

text \<open>
  What the signed blobs need of the encoding of their two parts: it can be undone, its text
  is ASCII, and it never contains the separator the parts are joined with.
\<close>

locale text_codec =
  fixes enc :: "bytes \<Rightarrow> string" and dec :: "string \<Rightarrow> bytes py" and sep :: char
  assumes dec_enc: "dec (enc raw) = Inr raw"
    and enc_ascii: "str_isascii (enc raw)"
    and enc_sep: "sep \<notin> set (enc raw)"
begin

lemma enc_inject: "enc r = enc r' \<longleftrightarrow> r = r'"
  by (metis dec_enc sum.inject(2))

lemma rpartition_joined: "rpartition_at sep (enc r @ sep # enc r') = (enc r, True, enc r')"
  by (simp add: enc_sep)

end

interpretation b64: text_codec b64url_encode b64url_decode "CHR ''.''"
  by unfold_locales (simp_all add: b64url_encode_no_dot)

end
