(* ===== verification/Sha256.thy ===== *)
theory Sha256
  imports Prelude "HOL-Library.Word"
begin

unbundle bit_operations_syntax

text \<open>
  \<open>hashlib.sha256\<close> (FIPS 180-4) and \<open>hmac.new(..., sha256)\<close> (RFC 2104) of Python's
  standard library, on words of 32 bits, with \<open>hmac.compare_digest\<close>. What the OAuth modules
  use of them as an interface is the locale \<open>keyed_hash\<close>: a digest of a fixed length.
\<close>

section \<open>The compression function\<close>

type_synonym w32 = "32 word"

text \<open>
  The constants are the first 32 bits of the fractional parts of roots of the first primes:
  square roots of eight primes for the initial state, cube roots of sixty-four for the rounds.
\<close>

definition frac_root :: "nat \<Rightarrow> nat \<Rightarrow> w32" where
  "frac_root r p =
     of_nat (fold (\<lambda>i a. if (a + 2 ^ i) ^ r \<le> p * 2 ^ (32 * r) then a + 2 ^ i else a) (rev [0..<38]) 0)"

definition sha_k :: "w32 list" where
  "sha_k = map (frac_root 3) (filter (\<lambda>n. list_all (\<lambda>d. n mod d \<noteq> 0) [2..<n]) [2..<312])"

definition sha_h0 :: "w32 list" where
  "sha_h0 = map (frac_root 2) [2, 3, 5, 7, 11, 13, 17, 19]"

definition big_sigma0 :: "w32 \<Rightarrow> w32" where
  "big_sigma0 x = word_rotr 2 x XOR word_rotr 13 x XOR word_rotr 22 x"

definition big_sigma1 :: "w32 \<Rightarrow> w32" where
  "big_sigma1 x = word_rotr 6 x XOR word_rotr 11 x XOR word_rotr 25 x"

definition small_sigma0 :: "w32 \<Rightarrow> w32" where
  "small_sigma0 x = word_rotr 7 x XOR word_rotr 18 x XOR drop_bit 3 x"

definition small_sigma1 :: "w32 \<Rightarrow> w32" where
  "small_sigma1 x = word_rotr 17 x XOR word_rotr 19 x XOR drop_bit 10 x"

definition sha_ch :: "w32 \<Rightarrow> w32 \<Rightarrow> w32 \<Rightarrow> w32" where
  "sha_ch x y z = (x AND y) XOR (NOT x AND z)"

definition sha_maj :: "w32 \<Rightarrow> w32 \<Rightarrow> w32 \<Rightarrow> w32" where
  "sha_maj x y z = (x AND y) XOR (x AND z) XOR (y AND z)"

text \<open>The message schedule is the last sixteen words, newest first, moved on one at a time.\<close>

definition sha_next :: "w32 list \<Rightarrow> w32" where
  "sha_next w = small_sigma1 (w ! 1) + w ! 6 + small_sigma0 (w ! 14) + w ! 15"

fun sha_round :: "w32 list \<Rightarrow> w32 \<Rightarrow> w32 \<Rightarrow> w32 list" where
  "sha_round [a, b, c, d, e, f, g, h] k w =
     (let t1 = h + big_sigma1 e + sha_ch e f g + k + w;
          t2 = big_sigma0 a + sha_maj a b c
      in [t1 + t2, a, b, c, d + t1, e, f, g])"
| "sha_round st k w = st"

fun sha_rounds :: "w32 list \<Rightarrow> w32 list \<Rightarrow> w32 list \<Rightarrow> w32 list" where
  "sha_rounds [] w st = st"
| "sha_rounds (k # ks) w st =
     sha_rounds ks (take 16 (sha_next w # w)) (sha_round st k (w ! 15))"

definition sha_block :: "w32 list \<Rightarrow> w32 list \<Rightarrow> w32 list" where
  "sha_block st ws = map2 (+) st (sha_rounds sha_k (rev ws) st)"

section \<open>Padding, blocks and the digest\<close>

definition byte_be :: "nat \<Rightarrow> nat \<Rightarrow> char" where
  "byte_be n i = chr (n div 256 ^ i mod 256)"

definition sha_pad :: "bytes \<Rightarrow> bytes" where
  "sha_pad m =
     m @ [chr 128] @ replicate ((119 - length m mod 64) mod 64) (chr 0)
       @ map (byte_be (8 * length m)) [7, 6, 5, 4, 3, 2, 1, 0]"

fun words_of :: "bytes \<Rightarrow> w32 list" where
  "words_of (a # b # c # d # r) =
     of_nat (((ord a * 256 + ord b) * 256 + ord c) * 256 + ord d) # words_of r"
| "words_of _ = []"

function sha_blocks :: "w32 list \<Rightarrow> w32 list \<Rightarrow> w32 list" where
  "sha_blocks st ws = (if ws = [] then st else sha_blocks (sha_block st (take 16 ws)) (drop 16 ws))"
  by pat_completeness auto
termination
  by (relation "measure (\<lambda>(st, ws). length ws)") auto

declare sha_blocks.simps [simp del]

definition word_bytes :: "w32 \<Rightarrow> bytes" where
  "word_bytes w = map (byte_be (unat w)) [3, 2, 1, 0]"

definition sha256 :: "bytes \<Rightarrow> bytes" where
  "sha256 m = concat (map word_bytes (sha_blocks sha_h0 (words_of (sha_pad m))))"

section \<open>HMAC\<close>

definition xor_bytes :: "nat \<Rightarrow> bytes \<Rightarrow> bytes" where
  "xor_bytes n s = map (\<lambda>c. chr (ord c XOR n)) s"

definition hmac_key :: "bytes \<Rightarrow> bytes" where
  "hmac_key k = (let k' = (if 64 < length k then sha256 k else k)
                 in k' @ replicate (64 - length k') (chr 0))"

definition hmac_sha256 :: "bytes \<Rightarrow> bytes \<Rightarrow> bytes" where
  "hmac_sha256 k m =
     sha256 (xor_bytes 0x5c (hmac_key k) @ sha256 (xor_bytes 0x36 (hmac_key k) @ m))"

text \<open>\<open>hmac.compare_digest\<close>: on two \<open>str\<close> both have to be ASCII, or it raises \<open>TypeError\<close>.\<close>

definition compare_digest :: "bytes \<Rightarrow> bytes \<Rightarrow> bool" where
  "compare_digest a b \<longleftrightarrow> a = b"

definition compare_digest_str :: "string \<Rightarrow> string \<Rightarrow> bool py" where
  "compare_digest_str a b =
     (if str_isascii a \<and> str_isascii b then Inr (a = b) else Inl TypeError)"

section \<open>Digests have 32 bytes\<close>

lemma length_sha_round [simp]: "length (sha_round st k w) = length st"
  by (cases "(st, k, w)" rule: sha_round.cases) (simp_all add: Let_def)

lemma length_sha_rounds [simp]: "length (sha_rounds ks w st) = length st"
  by (induction ks w st rule: sha_rounds.induct) simp_all

lemma length_sha_block [simp]: "length (sha_block st ws) = length st"
  by (simp add: sha_block_def)

lemma length_sha_blocks [simp]: "length (sha_blocks st ws) = length st"
proof (induction st ws rule: sha_blocks.induct)
  case (1 st ws)
  then show ?case by (subst sha_blocks.simps) simp
qed

lemma length_sha256 [simp]: "length (sha256 m) = 32"
proof -
  have "length (concat (map word_bytes ws)) = 4 * length ws" for ws
    by (induction ws) (simp_all add: word_bytes_def)
  then show ?thesis by (simp add: sha256_def sha_h0_def)
qed

lemma length_hmac [simp]: "length (hmac_sha256 k m) = 32"
  by (simp add: hmac_sha256_def)

locale keyed_hash =
  fixes mac :: "bytes \<Rightarrow> bytes \<Rightarrow> bytes" and n :: nat
  assumes mac_length: "length (mac k m) = n" and n_pos: "0 < n"
begin

lemma mac_not_Nil: "mac k m \<noteq> []"
  using mac_length [of k m] n_pos by auto

end

interpretation hmac: keyed_hash hmac_sha256 32
  by unfold_locales simp_all

lemma sha256_not_Nil [simp]: "sha256 m \<noteq> []"
  using length_sha256 [of m] by (metis length_0_conv zero_neq_numeral)

end
