(* ===== verification/Url.thy ===== *)
theory Url
  imports Prelude "HOL-Library.Word"
begin

text \<open>
  The parts of Python's \<open>urllib.parse\<close> and \<open>ipaddress\<close> the component relies on: \<open>urlparse\<close>
  with its accessors (\<open>hostname\<close>, \<open>port\<close>, \<open>username\<close>, \<open>password\<close>), \<open>urlunparse\<close> of a URL that
  has an authority, \<open>ipaddress.ip_address\<close>, and \<open>is_loopback\<close> and \<open>is_global\<close> of an address.
\<close>

section \<open>IP addresses\<close>

datatype ipaddr = IPv4 "32 word" | IPv6 "128 word"

definition ipv4_octet :: "string \<Rightarrow> nat option" where
  "ipv4_octet s =
     (if s = [] \<or> \<not> list_all is_digit s \<or> 3 < length s
        \<or> (s \<noteq> ''0'' \<and> startswith s ''0'') \<or> 255 < nat_of_digits s
      then None else Some (nat_of_digits s))"

definition ipv4_parse :: "string \<Rightarrow> (32 word) option" where
  "ipv4_parse s =
     (case map ipv4_octet (split_on (CHR ''.'') s) of
        [Some a, Some b, Some c, Some d] \<Rightarrow>
          Some (of_nat (((a * 256 + b) * 256 + c) * 256 + d))
      | _ \<Rightarrow> None)"

definition ipv6_hextet :: "string \<Rightarrow> nat option" where
  "ipv6_hextet s =
     (if s = [] \<or> \<not> list_all is_hex s \<or> 4 < length s then None
      else Some (foldl (\<lambda>a c. 16 * a + hex_val c) 0 s))"

text \<open>An IPv4 suffix stands for the two hextets it fills.\<close>

definition ipv6_parts :: "string \<Rightarrow> nat option list option" where
  "ipv6_parts s =
     (let parts = split_on (CHR '':'') s in
      if length parts < 3 then None
      else if CHR ''.'' \<in> set (last parts) then
        (case ipv4_parse (last parts) of
           None \<Rightarrow> None
         | Some a \<Rightarrow> Some (map ipv6_hextet (butlast parts)
                           @ [Some (unat a div 65536), Some (unat a mod 65536)]))
      else Some (map ipv6_hextet parts))"

definition ipv6_empties :: "string \<Rightarrow> bool list" where
  "ipv6_empties s =
     (let parts = split_on (CHR '':'') s in
      if CHR ''.'' \<in> set (last parts) then map (\<lambda>p. p = []) (butlast parts) @ [False, False]
      else map (\<lambda>p. p = []) parts)"

definition ipv6_join :: "nat option list \<Rightarrow> nat \<Rightarrow> nat option list \<Rightarrow> (128 word) option" where
  "ipv6_join hi skipped lo =
     (if None \<in> set hi \<or> None \<in> set lo then None
      else Some (of_nat (foldl (\<lambda>a h. 65536 * a + the h) 0 (hi @ replicate skipped (Some 0) @ lo))))"

definition ipv6_int :: "string \<Rightarrow> (128 word) option" where
  "ipv6_int s =
     (case ipv6_parts s of
        None \<Rightarrow> None
      | Some parts \<Rightarrow>
          let e = ipv6_empties s;
              n = length parts;
              skips = filter (\<lambda>i. e ! i) [1..<n - 1]
          in if 9 < n then None
             else case skips of
               [] \<Rightarrow> if n = 8 then ipv6_join parts 0 [] else None
             | [k] \<Rightarrow>
                 (let hi = (if hd e then k - 1 else k);
                      lo = (if last e then n - k - 2 else n - k - 1)
                  in if (hd e \<and> 0 < hi) \<or> (last e \<and> 0 < lo) \<or> 8 \<le> hi + lo then None
                     else ipv6_join (take hi parts) (8 - (hi + lo)) (if last e then [] else drop (n - lo) parts))
             | _ \<Rightarrow> None)"

definition ipv6_parse :: "string \<Rightarrow> (128 word) option" where
  "ipv6_parse s =
     (case partition_at (CHR ''%'') s of
        (a, False, _) \<Rightarrow> ipv6_int a
      | (a, True, scope) \<Rightarrow>
          if scope = [] \<or> CHR ''%'' \<in> set scope then None else ipv6_int a)"

text \<open>\<open>ipaddress.ip_address(s)\<close>, with \<open>None\<close> for its \<open>ValueError\<close>.\<close>

definition ip_address :: "string \<Rightarrow> ipaddr option" where
  "ip_address s =
     (if CHR ''/'' \<in> set s then None
      else case ipv4_parse s of
        Some a \<Rightarrow> Some (IPv4 a)
      | None \<Rightarrow> (case ipv6_parse s of Some a \<Rightarrow> Some (IPv6 a) | None \<Rightarrow> None))"

definition in_net4 :: "32 word \<Rightarrow> nat \<times> nat \<times> nat \<times> nat \<Rightarrow> nat \<Rightarrow> bool" where
  "in_net4 a n p =
     (case n of (w, x, y, z) \<Rightarrow>
        drop_bit (32 - p) a = drop_bit (32 - p) (of_nat (((w * 256 + x) * 256 + y) * 256 + z)))"

text \<open>A network of IPv6 by its leading hextets (the others are zero).\<close>

definition in_net6 :: "128 word \<Rightarrow> nat list \<Rightarrow> nat \<Rightarrow> bool" where
  "in_net6 a hs p =
     (drop_bit (128 - p) a =
      drop_bit (128 - p) (of_nat (foldl (\<lambda>n h. 65536 * n + h) 0 (hs @ replicate (8 - length hs) 0))))"

definition ipv4_is_loopback :: "32 word \<Rightarrow> bool" where
  "ipv4_is_loopback a \<longleftrightarrow> in_net4 a (127, 0, 0, 0) 8"

definition ipv4_is_private :: "32 word \<Rightarrow> bool" where
  "ipv4_is_private a \<longleftrightarrow>
     list_ex (\<lambda>(n, p). in_net4 a n p)
       [((0, 0, 0, 0), 8), ((10, 0, 0, 0), 8), ((127, 0, 0, 0), 8), ((169, 254, 0, 0), 16),
        ((172, 16, 0, 0), 12), ((192, 0, 0, 0), 24), ((192, 0, 0, 170), 31), ((192, 0, 2, 0), 24),
        ((192, 168, 0, 0), 16), ((198, 18, 0, 0), 15), ((198, 51, 100, 0), 24),
        ((203, 0, 113, 0), 24), ((240, 0, 0, 0), 4), ((255, 255, 255, 255), 32)]
     \<and> \<not> in_net4 a (192, 0, 0, 9) 32 \<and> \<not> in_net4 a (192, 0, 0, 10) 32"

definition ipv4_is_global :: "32 word \<Rightarrow> bool" where
  "ipv4_is_global a \<longleftrightarrow> \<not> in_net4 a (100, 64, 0, 0) 10 \<and> \<not> ipv4_is_private a"

definition ipv4_mapped :: "128 word \<Rightarrow> (32 word) option" where
  "ipv4_mapped a = (if in_net6 a [0, 0, 0, 0, 0, 0xFFFF] 96 then Some (ucast a) else None)"

definition ipv6_in_private_nets :: "128 word \<Rightarrow> bool" where
  "ipv6_in_private_nets a \<longleftrightarrow>
     list_ex (\<lambda>(n, p). in_net6 a n p)
       [([0, 0, 0, 0, 0, 0, 0, 1], 128), ([], 128), ([0, 0, 0, 0, 0, 0xFFFF], 96),
        ([0x64, 0xFF9B, 1], 48), ([0x100], 64), ([0x2001], 23), ([0x2001, 0xDB8], 32),
        ([0x2002], 16), ([0x3FFF], 20), ([0xFC00], 7), ([0xFE80], 10)]
     \<and> \<not> list_ex (\<lambda>(n, p). in_net6 a n p)
       [([0x2001, 1, 0, 0, 0, 0, 0, 1], 128), ([0x2001, 1, 0, 0, 0, 0, 0, 2], 128),
        ([0x2001, 3], 32), ([0x2001, 4, 0x112], 48), ([0x2001, 0x20], 28), ([0x2001, 0x30], 28)]"

fun ip_is_loopback :: "ipaddr \<Rightarrow> bool" where
  "ip_is_loopback (IPv4 a) = ipv4_is_loopback a"
| "ip_is_loopback (IPv6 a) =
     (case ipv4_mapped a of Some m \<Rightarrow> ipv4_is_loopback m | None \<Rightarrow> a = 1)"

fun ip_is_global :: "ipaddr \<Rightarrow> bool" where
  "ip_is_global (IPv4 a) = ipv4_is_global a"
| "ip_is_global (IPv6 a) =
     (case ipv4_mapped a of Some m \<Rightarrow> ipv4_is_global m | None \<Rightarrow> \<not> ipv6_in_private_nets a)"

section \<open>urlparse\<close>

record url =
  u_scheme :: string
  u_netloc :: string
  u_path :: string
  u_params :: string
  u_query :: string
  u_fragment :: string

definition is_scheme_char :: "char \<Rightarrow> bool" where
  "is_scheme_char c \<longleftrightarrow> is_alnum_ascii c \<or> c \<in> set ''+-.''"

text \<open>Leading control characters and spaces go, and tabs and line breaks anywhere.\<close>

definition url_clean :: "string \<Rightarrow> string" where
  "url_clean s =
     filter (\<lambda>c. ord c \<noteq> 9 \<and> ord c \<noteq> 13 \<and> ord c \<noteq> 10) (lstrip_by (\<lambda>c. ord c \<le> 32) s)"

definition split_scheme :: "string \<Rightarrow> string \<times> string" where
  "split_scheme s =
     (case partition_at (CHR '':'') s of
        (h, True, t) \<Rightarrow>
          (if h \<noteq> [] \<and> is_alpha_ascii (hd h) \<and> list_all is_scheme_char h
           then (str_lower h, t) else ([], s))
      | (_, False, _) \<Rightarrow> ([], s))"

definition is_netloc_end :: "char \<Rightarrow> bool" where
  "is_netloc_end c \<longleftrightarrow> c = CHR ''/'' \<or> c = CHR ''?'' \<or> c = CHR ''#''"

definition check_bracketed_host :: "string \<Rightarrow> bool" where
  "check_bracketed_host h =
     (if startswith h ''v'' then
        (case partition_at (CHR ''.'') (tl h) of
           (x, True, y) \<Rightarrow> x \<noteq> [] \<and> list_all is_hex x \<and> y \<noteq> []
         | _ \<Rightarrow> False)
      else (case ip_address h of Some (IPv6 _) \<Rightarrow> True | _ \<Rightarrow> False))"

definition after_userinfo :: "string \<Rightarrow> string" where
  "after_userinfo netloc = snd (snd (rpartition_at (CHR ''@'') netloc))"

definition check_bracketed_netloc :: "string \<Rightarrow> bool" where
  "check_bracketed_netloc netloc =
     (case partition_at (CHR ''['') (after_userinfo netloc) of
        (pre, True, bracketed) \<Rightarrow>
          (case partition_at (CHR '']'') bracketed of
             (h, _, port) \<Rightarrow>
               pre = [] \<and> (port = [] \<or> startswith port '':'') \<and> check_bracketed_host h)
      | (_, False, _) \<Rightarrow>
          check_bracketed_host (fst (partition_at (CHR '':'') (after_userinfo netloc))))"

definition netloc_ok :: "string \<Rightarrow> bool" where
  "netloc_ok n =
     (if CHR ''['' \<in> set n \<and> CHR '']'' \<in> set n then check_bracketed_netloc n
      else CHR ''['' \<notin> set n \<and> CHR '']'' \<notin> set n)"

definition split_netloc :: "string \<Rightarrow> string \<times> string" where
  "split_netloc s =
     (if startswith s ''//''
      then (takeWhile (\<lambda>c. \<not> is_netloc_end c) (drop 2 s), dropWhile (\<lambda>c. \<not> is_netloc_end c) (drop 2 s))
      else ([], s))"

definition uses_params :: "string list" where
  "uses_params =
     ['''', ''ftp'', ''hdl'', ''prospero'', ''http'', ''imap'', ''https'', ''shttp'', ''rtsp'',
      ''rtsps'', ''rtspu'', ''sip'', ''sips'', ''mms'', ''sftp'', ''tel'']"

text \<open>\<open>_splitparams\<close>: the parameters start at the first semicolon of the last segment.\<close>

definition split_params :: "string \<Rightarrow> string \<times> string" where
  "split_params p =
     (case rpartition_at (CHR ''/'') p of
        (h, sl, t) \<Rightarrow>
          (case partition_at (CHR '';'') t of
             (x, True, y) \<Rightarrow> ((if sl then h @ ''/'' else []) @ x, y)
           | (_, False, _) \<Rightarrow> (p, [])))"

definition urlparse :: "string \<Rightarrow> url py" where
  "urlparse s =
     (let (sch, r1) = split_scheme (url_clean s);
          (netloc, r2) = split_netloc r1;
          (r3, _, fragment) = partition_at (CHR ''#'') r2;
          (r4, _, query) = partition_at (CHR ''?'') r3;
          (path, params) = (if sch \<in> set uses_params then split_params r4 else (r4, []))
      in if netloc_ok netloc
         then Inr \<lparr>u_scheme = sch, u_netloc = netloc, u_path = path, u_params = params,
                   u_query = query, u_fragment = fragment\<rparr>
         else Inl ValueError)"

definition url_hostinfo :: "url \<Rightarrow> string \<times> string" where
  "url_hostinfo u =
     (case partition_at (CHR ''['') (after_userinfo (u_netloc u)) of
        (_, True, bracketed) \<Rightarrow>
          (case partition_at (CHR '']'') bracketed of
             (h, _, port) \<Rightarrow> (h, snd (snd (partition_at (CHR '':'') port))))
      | (_, False, _) \<Rightarrow>
          (case partition_at (CHR '':'') (after_userinfo (u_netloc u)) of (h, _, port) \<Rightarrow> (h, port)))"

definition url_hostname :: "url \<Rightarrow> string option" where
  "url_hostname u =
     (let h = fst (url_hostinfo u) in
      if h = [] then None
      else (case partition_at (CHR ''%'') h of
              (a, pc, z) \<Rightarrow> Some (str_lower a @ (if pc then ''%'' else []) @ z)))"

definition url_port :: "url \<Rightarrow> nat option py" where
  "url_port u =
     (let p = snd (url_hostinfo u) in
      if p = [] then Inr None
      else if \<not> list_all is_digit p \<or> 65535 < nat_of_digits p then Inl ValueError
      else Inr (Some (nat_of_digits p)))"

definition url_username :: "url \<Rightarrow> string option" where
  "url_username u =
     (case rpartition_at (CHR ''@'') (u_netloc u) of
        (ui, True, _) \<Rightarrow> Some (fst (partition_at (CHR '':'') ui))
      | (_, False, _) \<Rightarrow> None)"

definition url_password :: "url \<Rightarrow> string option" where
  "url_password u =
     (case rpartition_at (CHR ''@'') (u_netloc u) of
        (ui, True, _) \<Rightarrow>
          (case partition_at (CHR '':'') ui of (_, True, pw) \<Rightarrow> Some pw | (_, False, _) \<Rightarrow> None)
      | (_, False, _) \<Rightarrow> None)"

text \<open>\<open>urlunparse\<close> of a URL with an authority.\<close>

definition url_unparse :: "url \<Rightarrow> string" where
  "url_unparse u =
     (let p = u_path u @ (if u_params u = [] then [] else '';'' @ u_params u);
          p' = (if p \<noteq> [] \<and> \<not> startswith p ''/'' then ''/'' @ p else p)
      in (if u_scheme u = [] then [] else u_scheme u @ '':'') @ ''//'' @ u_netloc u @ p'
         @ (if u_query u = [] then [] else ''?'' @ u_query u)
         @ (if u_fragment u = [] then [] else ''#'' @ u_fragment u))"

section \<open>What the accessors return\<close>

definition lower_host :: "string \<Rightarrow> string" where
  "lower_host h =
     (case partition_at (CHR ''%'') h of (a, pc, z) \<Rightarrow> str_lower a @ (if pc then ''%'' else []) @ z)"

lemma url_hostname_lower:
  "url_hostname u = (if fst (url_hostinfo u) = [] then None else Some (lower_host (fst (url_hostinfo u))))"
  by (simp add: url_hostname_def lower_host_def Let_def split: prod.splits)

text \<open>Characters that no letter is lowered to.\<close>

definition is_mark :: "char \<Rightarrow> bool" where
  "is_mark d \<longleftrightarrow> ord d < 65 \<or> (90 < ord d \<and> ord d < 97) \<or> (122 < ord d \<and> ord d < 128)"

lemma lower_char_mark:
  assumes "is_mark d"
  shows "lower_char c = d \<longleftrightarrow> c = d"
proof (cases "is_upper_ascii c \<or> (192 \<le> ord c \<and> ord c \<le> 222 \<and> ord c \<noteq> 215)")
  case True
  then have "ord c + 32 < 256" by (auto simp: is_upper_ascii_def)
  with True have l: "ord (lower_char c) = ord c + 32" by (simp add: lower_char_def)
  have "lower_char c \<noteq> d" using l assms True by (auto simp: is_mark_def is_upper_ascii_def)
  moreover have "c \<noteq> d" using assms True by (auto simp: is_mark_def is_upper_ascii_def)
  ultimately show ?thesis by simp
next
  case False
  then have "lower_char c = c" unfolding lower_char_def by (rule if_not_P)
  then show ?thesis by simp
qed

lemma marks [simp]:
  "is_mark (CHR '':'')" "is_mark (CHR ''['')" "is_mark (CHR '']'')" "is_mark (CHR ''/'')"
  "is_mark (CHR ''?'')" "is_mark (CHR ''#'')" "is_mark (CHR ''%'')" "is_mark (CHR ''@'')"
  by (simp_all add: is_mark_def ord_def)

lemma mem_str_lower:
  assumes "is_mark d"
  shows "d \<in> set (str_lower s) \<longleftrightarrow> d \<in> set s"
proof (induction s)
  case (Cons c s)
  have "d = lower_char c \<longleftrightarrow> d = c" using lower_char_mark [OF assms] by metis
  with Cons show ?case by (simp add: str_lower_def)
qed (simp add: str_lower_def)

lemma mem_lower_host: "is_mark d \<Longrightarrow> d \<in> set (lower_host h) \<longleftrightarrow> d \<in> set h"
  by (rule partition_at_cases [of "CHR ''%''" h]) (auto simp: lower_host_def mem_str_lower)

lemma startswith_lower_host:
  assumes "is_mark d"
  shows "startswith (lower_host h) [d] \<longleftrightarrow> startswith h [d]"
proof (rule partition_at_cases [of "CHR ''%''" h])
  assume "CHR ''%'' \<notin> set h" "partition_at (CHR ''%'') h = (h, False, [])"
  then show ?thesis
    using assms by (cases h) (simp_all add: lower_host_def str_lower_def lower_char_mark)
next
  fix a t
  assume "h = a @ CHR ''%'' # t" "partition_at (CHR ''%'') h = (a, True, t)"
  then show ?thesis
    using assms by (cases a) (auto simp: lower_host_def str_lower_def lower_char_mark)
qed

lemma lower_host_eq_Nil [simp]: "lower_host h = [] \<longleftrightarrow> h = []"
  by (rule partition_at_cases [of "CHR ''%''" h]) (auto simp: lower_host_def str_lower_def)

lemma url_hostname_not_Nil: "url_hostname u = Some h \<Longrightarrow> h \<noteq> []"
  by (auto simp: url_hostname_lower split: if_splits)

lemma split_on_single: "c \<notin> set s \<Longrightarrow> split_on c s = [s]"
  by (induction s) auto

lemma ipv6_parse_colon: "ipv6_parse s = Some a \<Longrightarrow> CHR '':'' \<in> set s"
proof -
  have i: "CHR '':'' \<in> set x" if "ipv6_int x = Some a" for x
  proof (rule ccontr)
    assume "CHR '':'' \<notin> set x"
    then have "ipv6_parts x = None" by (simp add: ipv6_parts_def split_on_single)
    with that show False by (simp add: ipv6_int_def)
  qed
  assume "ipv6_parse s = Some a"
  then show "CHR '':'' \<in> set s"
    by (rule_tac partition_at_cases [of "CHR ''%''" s]) (auto simp: ipv6_parse_def dest: i split: if_splits)
qed

lemma check_bracketed_host_shape:
  assumes "check_bracketed_host h"
  shows "startswith h ''v'' \<or> CHR '':'' \<in> set h"
  using assms
  by (auto simp: check_bracketed_host_def ip_address_def split: if_splits option.splits ipaddr.splits
      dest: ipv6_parse_colon)

text \<open>
  A host that contains a colon was read between brackets, so it holds no closing bracket; one
  without does not start with an opening bracket.
\<close>

lemma urlparse_netloc_ok: "urlparse s = Inr u \<Longrightarrow> netloc_ok (u_netloc u)"
  by (auto simp: urlparse_def Let_def split: prod.splits if_splits)

lemma url_hostinfo_shape:
  assumes "urlparse s = Inr u"
  shows "if CHR '':'' \<in> set (fst (url_hostinfo u)) then CHR '']'' \<notin> set (fst (url_hostinfo u))
         else \<not> startswith (fst (url_hostinfo u)) ''[''"
proof (rule partition_at_cases [of "CHR ''[''" "after_userinfo (u_netloc u)"])
  assume a: "CHR ''['' \<notin> set (after_userinfo (u_netloc u))"
    and p: "partition_at (CHR ''['') (after_userinfo (u_netloc u)) = (after_userinfo (u_netloc u), False, [])"
  show ?thesis
    by (rule partition_at_cases [of "CHR '':''" "after_userinfo (u_netloc u)"])
      (use a in \<open>auto simp: url_hostinfo_def p startswith_iff\<close>)
next
  fix x t
  assume a: "after_userinfo (u_netloc u) = x @ CHR ''['' # t"
    and p: "partition_at (CHR ''['') (after_userinfo (u_netloc u)) = (x, True, t)"
  show ?thesis
  proof (rule partition_at_cases [of "CHR '']''" t])
    assume q: "CHR '']'' \<notin> set t" "partition_at (CHR '']'') t = (t, False, [])"
    have "CHR ''['' \<in> set (u_netloc u)"
      using a unfolding after_userinfo_def
      by (rule_tac rpartition_at_cases [of "CHR ''@''" "u_netloc u"]) auto
    then have "check_bracketed_netloc (u_netloc u)"
      using urlparse_netloc_ok [OF assms] by (auto simp: netloc_ok_def split: if_splits)
    then have "check_bracketed_host t" by (simp add: check_bracketed_netloc_def p q)
    then show ?thesis using q check_bracketed_host_shape [of t]
      by (auto simp: url_hostinfo_def p startswith_iff)
  next
    fix h r
    assume q: "t = h @ CHR '']'' # r" "CHR '']'' \<notin> set h" "partition_at (CHR '']'') t = (h, True, r)"
    have "CHR ''['' \<in> set (u_netloc u)"
      using a unfolding after_userinfo_def
      by (rule_tac rpartition_at_cases [of "CHR ''@''" "u_netloc u"]) auto
    then have "check_bracketed_netloc (u_netloc u)"
      using urlparse_netloc_ok [OF assms] by (auto simp: netloc_ok_def split: if_splits)
    then have "check_bracketed_host h" by (simp add: check_bracketed_netloc_def p q)
    then show ?thesis using q check_bracketed_host_shape [of h]
      by (auto simp: url_hostinfo_def p startswith_iff)
  qed
qed

lemma url_hostname_shape:
  assumes "urlparse s = Inr u" "url_hostname u = Some h"
  shows "if CHR '':'' \<in> set h then CHR '']'' \<notin> set h else \<not> startswith h ''[''"
  using url_hostinfo_shape [OF assms(1)] assms(2)
  by (auto simp: url_hostname_lower mem_lower_host startswith_lower_host split: if_splits)

lemma split_scheme_no_colon: "CHR '':'' \<notin> set (fst (split_scheme s))"
  by (rule partition_at_cases [of "CHR '':''" s]) (auto simp: split_scheme_def mem_str_lower)

lemma urlparse_scheme_no_colon:
  assumes "urlparse s = Inr u"
  shows "CHR '':'' \<notin> set (u_scheme u)"
proof -
  have "u_scheme u = fst (split_scheme (url_clean s))"
    using assms by (auto simp: urlparse_def Let_def split: prod.splits if_splits)
  then show ?thesis using split_scheme_no_colon by simp
qed

section \<open>Parsing a URL with a plain authority\<close>

definition plain_char :: "char \<Rightarrow> bool" where
  "plain_char c \<longleftrightarrow> 32 < ord c \<and> \<not> is_netloc_end c \<and> c \<noteq> CHR ''['' \<and> c \<noteq> CHR '']'' \<and> c \<noteq> CHR ''@''"

lemma url_clean_id: "list_all (\<lambda>c. 32 < ord c) s \<Longrightarrow> url_clean s = s"
  by (cases s) (auto simp: url_clean_def lstrip_by_def list_all_iff filter_id_conv)

lemma scheme_lits:
  "split_scheme (''http'' @ CHR '':'' # r) = (''http'', r)"
  "split_scheme (''https'' @ CHR '':'' # r) = (''https'', r)"
proof -
  have p: "partition_at (CHR '':'') (''http'' @ CHR '':'' # r) = (''http'', True, r)"
    "partition_at (CHR '':'') (''https'' @ CHR '':'' # r) = (''https'', True, r)"
    by (rule partition_at_found, simp)+
  have "list_all is_scheme_char ''http''" "list_all is_scheme_char ''https''"
    "is_alpha_ascii (CHR ''h'')" "str_lower ''http'' = ''http''" "str_lower ''https'' = ''https''"
    by code_simp+
  then show "split_scheme (''http'' @ CHR '':'' # r) = (''http'', r)"
    "split_scheme (''https'' @ CHR '':'' # r) = (''https'', r)"
    by (simp_all add: split_scheme_def p del: append.simps)
qed

lemma split_netloc_plain:
  assumes "list_all plain_char n" "rest = [] \<or> is_netloc_end (hd rest)"
  shows "split_netloc (''//'' @ n @ rest) = (n, rest)"
proof -
  have n: "\<And>c. c \<in> set n \<Longrightarrow> \<not> is_netloc_end c" using assms(1) by (simp add: list_all_iff plain_char_def)
  have "takeWhile (\<lambda>c. \<not> is_netloc_end c) rest = []" "dropWhile (\<lambda>c. \<not> is_netloc_end c) rest = rest"
    using assms(2) by (cases rest; simp)+
  then show ?thesis using n
    by (simp add: split_netloc_def takeWhile_append2 dropWhile_append2)
qed

lemma urlparse_plain:
  assumes "s = ''http'' \<or> s = ''https''" "list_all plain_char n"
    "list_all (\<lambda>c. 32 < ord c) rest" "rest = [] \<or> is_netloc_end (hd rest)"
  shows "\<exists>u. urlparse (s @ ''://'' @ n @ rest) = Inr u \<and> u_scheme u = s \<and> u_netloc u = n
    \<and> (CHR ''#'' \<notin> set rest \<longrightarrow> u_fragment u = [])"
proof -
  have b: "list_all (\<lambda>c. 32 < ord c) (s @ ''://'' @ n @ rest)"
  proof -
    have "list_all (\<lambda>c. 32 < ord c) s" using assms(1) by (elim disjE) (simp_all add: ord_def)
    moreover have "list_all (\<lambda>c. 32 < ord c) ''://''" by (simp add: ord_def)
    moreover have "list_all (\<lambda>c. 32 < ord c) n"
      using assms(2) by (simp add: list_all_iff plain_char_def)
    ultimately show ?thesis using assms(3) by (simp only: list_all_append)
  qed
  have ss: "split_scheme (s @ ''://'' @ n @ rest) = (s, ''//'' @ n @ rest)"
    using assms(1) scheme_lits [of "''//'' @ n @ rest"] by auto
  have "CHR ''['' \<notin> set n" "CHR '']'' \<notin> set n" using assms(2) by (auto simp: list_all_iff plain_char_def)
  then have ok: "netloc_ok n" by (simp add: netloc_ok_def)
  define body where "body = partition_at (CHR ''?'') (fst (partition_at (CHR ''#'') rest))"
  define pp where "pp = (if s \<in> set uses_params then split_params (fst body) else (fst body, []))"
  have "urlparse (s @ ''://'' @ n @ rest) = Inr \<lparr>u_scheme = s, u_netloc = n, u_path = fst pp,
      u_params = snd pp, u_query = snd (snd body), u_fragment = snd (snd (partition_at (CHR ''#'') rest))\<rparr>"
    unfolding urlparse_def url_clean_id [OF b] ss split_netloc_plain [OF assms(2,4)] Let_def prod.case
      body_def pp_def
    by (simp only: split_beta ok if_True fst_conv snd_conv prod.case)
  moreover have "CHR ''#'' \<notin> set rest \<Longrightarrow> snd (snd (partition_at (CHR ''#'') rest)) = []"
    by simp
  ultimately show ?thesis by simp
qed

lemma after_userinfo_plain: "list_all plain_char n \<Longrightarrow> after_userinfo n = n"
proof -
  assume "list_all plain_char n"
  then have "CHR ''@'' \<notin> set n" by (auto simp: list_all_iff plain_char_def)
  then show ?thesis unfolding after_userinfo_def by (simp add: rpartition_at_none)
qed

lemma url_hostinfo_plain:
  assumes "u_netloc u = n" "list_all plain_char n"
  shows "url_hostinfo u = (case partition_at (CHR '':'') n of (h, _, port) \<Rightarrow> (h, port))"
proof -
  have "CHR ''['' \<notin> set n" using assms(2) by (auto simp: list_all_iff plain_char_def)
  then show ?thesis by (simp add: url_hostinfo_def assms(1) after_userinfo_plain [OF assms(2)])
qed

text \<open>A host and an optional port, read back.\<close>

lemma url_host_port:
  assumes "u_netloc u = h @ (case p of None \<Rightarrow> [] | Some q \<Rightarrow> CHR '':'' # show_nat q)"
    "list_all plain_char h" "CHR '':'' \<notin> set h" "h \<noteq> []" "\<And>q. p = Some q \<Longrightarrow> q \<le> 65535"
  shows "url_hostname u = Some (lower_host h)" "url_port u = Inr p"
proof -
  have c: "plain_char (CHR '':'')" by (simp add: plain_char_def is_netloc_end_def ord_def)
  have d: "list_all plain_char (show_nat q)" for q
    using show_nat_digits [of q]
    by (auto simp: list_all_iff plain_char_def is_digit_def is_netloc_end_def ord_def)
  have n: "list_all plain_char (u_netloc u)"
    using assms(1,2) c d by (auto split: option.splits)
  have i: "url_hostinfo u = (h, case p of None \<Rightarrow> [] | Some q \<Rightarrow> show_nat q)"
    unfolding url_hostinfo_plain [OF refl n] using assms(1,3) by (cases p) simp_all
  then show "url_hostname u = Some (lower_host h)" using assms(4) by (simp add: url_hostname_lower)
  show "url_port u = Inr p"
    using assms(5) show_nat_digits by (cases p) (auto simp: url_port_def i not_less)
qed

lemma url_port_bound: "url_port u = Inr (Some q) \<Longrightarrow> q \<le> 65535"
  by (auto simp: url_port_def Let_def split: if_splits)

lemma lower_host_idem [simp]: "lower_host (lower_host h) = lower_host h"
proof (rule partition_at_cases [of "CHR ''%''" h])
  fix a t
  assume "h = a @ CHR ''%'' # t" "CHR ''%'' \<notin> set a" "partition_at (CHR ''%'') h = (a, True, t)"
  then show ?thesis by (simp add: lower_host_def mem_str_lower)
next
  assume "CHR ''%'' \<notin> set h" "partition_at (CHR ''%'') h = (h, False, [])"
  then show ?thesis by (simp add: lower_host_def mem_str_lower)
qed

end
