(* ===== verification/OauthCommon.thy ===== *)
theory OauthCommon
  imports Complex_Main Base64 Sha256 Url
begin

text \<open>
  \<open>oauth_common.py\<close>: the redirect URI validator, the loopback test, the PKCE code store and
  the anonymous form reader that both webhook modes share. Clock readings are rationals, in
  seconds; the random code of \<open>secrets.token_urlsafe(32)\<close> is an argument of the operation
  that draws it. What the none-mode views need of the store is the interface
  \<open>code_store\<close>.
\<close>

section \<open>Redirect validation\<close>

definition is_loopback_host :: "string \<Rightarrow> bool" where
  "is_loopback_host hostname \<longleftrightarrow>
     hostname = ''localhost''
     \<or> (case ip_address hostname of Some a \<Rightarrow> ip_is_loopback a | None \<Rightarrow> False)"

definition authority_char :: "char \<Rightarrow> bool" where
  "authority_char c \<longleftrightarrow> is_alnum_ascii c \<or> c \<in> set ''._~%!$&()*+,;=:@[]-'' \<or> ord c = 39"

definition is_valid_redirect_uri :: "string \<Rightarrow> bool" where
  "is_valid_redirect_uri redirect_uri =
     (if redirect_uri = [] then False
      else case urlparse redirect_uri of
        Inl _ \<Rightarrow> False
      | Inr parsed \<Rightarrow>
          (case url_port parsed of
             Inl _ \<Rightarrow> False
           | Inr _ \<Rightarrow>
               (case url_hostname parsed of
                  None \<Rightarrow> False
                | Some hostname \<Rightarrow>
                    if hostname = [] \<or> \<not> list_all authority_char (u_netloc parsed) then False
                    else if u_scheme parsed = ''http'' \<and> \<not> is_loopback_host hostname then False
                    else if u_scheme parsed \<noteq> ''http'' \<and> u_scheme parsed \<noteq> ''https'' then False
                    else u_fragment parsed = [])))"

section \<open>The PKCE code store\<close>

definition auth_code_ttl :: rat where "auth_code_ttl = 300"
definition access_token_ttl :: int where "access_token_ttl = 3600"
definition pkce_verifier_min :: nat where "pkce_verifier_min = 43"
definition pkce_verifier_max :: nat where "pkce_verifier_max = 128"
definition max_pending_codes :: nat where "max_pending_codes = 1000"

definition pkce_verifier_char :: "char \<Rightarrow> bool" where
  "pkce_verifier_char c \<longleftrightarrow> is_alnum_ascii c \<or> c \<in> set ''._~-''"

definition pkce_challenge_ok :: "string \<Rightarrow> bool" where
  "pkce_challenge_ok s \<longleftrightarrow> length s = 43 \<and> list_all is_b64url s"

definition pkce_verifier_ok :: "string \<Rightarrow> bool" where
  "pkce_verifier_ok v \<longleftrightarrow>
     pkce_verifier_min \<le> length v \<and> length v \<le> pkce_verifier_max \<and> list_all pkce_verifier_char v"

definition pkce_derive :: "string \<Rightarrow> string" where
  "pkce_derive v = b64url_encode (sha256 v)"

record pending_code =
  p_redirect_uri :: string
  p_code_challenge :: string
  p_expires :: rat

type_synonym code_table = "(string \<times> pending_code) list"

definition issue_code :: "rat \<Rightarrow> string \<Rightarrow> string \<Rightarrow> string \<Rightarrow> code_table \<Rightarrow> string option \<times> code_table" where
  "issue_code now fresh redirect_uri code_challenge codes =
     (let codes' = filter (\<lambda>(_, e). now < p_expires e) codes in
      if max_pending_codes \<le> length codes' then (None, codes')
      else (Some fresh,
            dict_set fresh \<lparr>p_redirect_uri = redirect_uri, p_code_challenge = code_challenge,
                            p_expires = now + auth_code_ttl\<rparr> codes'))"

definition consume_code ::
  "rat \<Rightarrow> string \<Rightarrow> string \<Rightarrow> string \<Rightarrow> code_table \<Rightarrow> bool py \<times> code_table" where
  "consume_code now code redirect_uri code_verifier codes =
     (if \<not> pkce_verifier_ok code_verifier then (Inr False, codes)
      else case map_of codes code of
        None \<Rightarrow> (Inr False, dict_pop code codes)
      | Some e \<Rightarrow>
          (if p_expires e < now then Inr False
           else if p_redirect_uri e \<noteq> redirect_uri then Inr False
           else if \<not> str_isascii (p_code_challenge e) then Inl ValueError
           else Inr (compare_digest (pkce_derive code_verifier) (p_code_challenge e)),
           dict_pop code codes))"

text \<open>
  \<open>read_form\<close>: what the request's body parser does is outside the component; a \<open>ValueError\<close>
  or a \<open>LookupError\<close> of it is \<open>None\<close>, and anything else passes through.
\<close>

definition read_form :: "'f py \<Rightarrow> 'f option py" where
  "read_form posted = py_except (py_bind posted (\<lambda>f. Inr (Some f))) [ValueError, LookupError] (Inr None)"

section \<open>Facts on the redirect validator\<close>

lemma is_valid_redirect_uriE:
  assumes "is_valid_redirect_uri s"
  obtains u p h where "urlparse s = Inr u" "url_port u = Inr p" "url_hostname u = Some h"
    "h \<noteq> []" "list_all authority_char (u_netloc u)" "u_fragment u = []"
    "u_scheme u = ''https'' \<or> u_scheme u = ''http'' \<and> is_loopback_host h"
  using assms
  by (auto simp: is_valid_redirect_uri_def split: sum.splits option.splits if_splits)

lemma is_valid_redirect_uriI:
  assumes "s \<noteq> []" "urlparse s = Inr u" "url_port u = Inr p" "url_hostname u = Some h"
    "h \<noteq> []" "list_all authority_char (u_netloc u)" "u_fragment u = []"
    "u_scheme u = ''https'' \<or> u_scheme u = ''http'' \<and> is_loopback_host h"
  shows "is_valid_redirect_uri s"
  using assms by (auto simp: is_valid_redirect_uri_def)

section \<open>The interface of the code store\<close>

text \<open>
  \<open>pending st c\<close> is what the store still holds of a code: its redirect, its challenge and
  when it expires; \<open>inv\<close> is the store's own invariant. The client (the none-mode views)
  relies on these laws: what a successful consumption had to find, that an attempt with a
  well-formed verifier removes the code, that attempts do not touch other codes, and what
  issuing adds and may drop.
\<close>

locale code_store =
  fixes inv :: "'s \<Rightarrow> bool"
    and pending :: "'s \<Rightarrow> string \<Rightarrow> (string \<times> string \<times> rat) option"
    and issue :: "rat \<Rightarrow> string \<Rightarrow> string \<Rightarrow> string \<Rightarrow> 's \<Rightarrow> string option \<times> 's"
    and consume :: "rat \<Rightarrow> string \<Rightarrow> string \<Rightarrow> string \<Rightarrow> 's \<Rightarrow> bool py \<times> 's"
    and ok :: "string \<Rightarrow> bool" and derive :: "string \<Rightarrow> string" and ttl :: rat
  assumes inv_issue: "inv st \<Longrightarrow> inv (snd (issue now c r ch st))"
    and inv_consume: "inv st \<Longrightarrow> inv (snd (consume now c r v st))"
    and consume_True: "fst (consume now c r v st) = Inr True \<longleftrightarrow>
      ok v \<and> (\<exists>e. pending st c = Some (r, derive v, e) \<and> now \<le> e)"
    and consume_pops: "ok v \<Longrightarrow> pending (snd (consume now c r v st)) c = None"
    and consume_others: "c' \<noteq> c \<Longrightarrow> pending (snd (consume now c r v st)) c' = pending st c'"
    and consume_bad: "\<not> ok v \<Longrightarrow> consume now c r v st = (Inr False, st)"
    and issue_gives: "issue now c r ch st = (Some c', st') \<Longrightarrow>
      c' = c \<and> pending st' c = Some (r, ch, now + ttl)"
    and issue_others: "inv st \<Longrightarrow> c' \<noteq> c \<or> fst (issue now c r ch st) = None \<Longrightarrow>
      pending (snd (issue now c r ch st)) c' =
        (case pending st c' of Some (r', ch', e) \<Rightarrow> if now < e then Some (r', ch', e) else None
                             | None \<Rightarrow> None)"
begin

lemma consume_once: "fst (consume t1 c r1 v1 st) = Inr True \<Longrightarrow>
    fst (consume t2 c r2 v2 (snd (consume t1 c r1 v1 st))) \<noteq> Inr True"
  by (simp add: consume_True consume_pops)

lemma issue_then_consume:
  assumes "issue t1 c r (derive v) st = (Some c', st1)" "ok v" "t2 \<le> t1 + ttl"
  shows "fst (consume t2 c' r v st1) = Inr True"
  using assms issue_gives [OF assms(1)] by (simp add: consume_True)

lemma wrong_redirect:
  "pending st c = Some (r, ch, e) \<Longrightarrow> r' \<noteq> r \<Longrightarrow> fst (consume t c r' v st) \<noteq> Inr True"
  by (simp add: consume_True)

lemma wrong_verifier:
  "pending st c = Some (r, ch, e) \<Longrightarrow> derive v \<noteq> ch \<Longrightarrow> fst (consume t c r' v st) \<noteq> Inr True"
  by (auto simp: consume_True)

end

definition code_pending :: "code_table \<Rightarrow> string \<Rightarrow> (string \<times> string \<times> rat) option" where
  "code_pending codes c =
     map_option (\<lambda>e. (p_redirect_uri e, p_code_challenge e, p_expires e)) (map_of codes c)"

definition codes_inv :: "code_table \<Rightarrow> bool" where
  "codes_inv codes \<longleftrightarrow> distinct (map fst codes) \<and> length codes \<le> max_pending_codes"

lemma pkce_derive_ascii [simp]: "str_isascii (pkce_derive v)"
  by (simp add: pkce_derive_def)

lemma pkce_derive_challenge_ok [simp]: "pkce_challenge_ok (pkce_derive v)"
  by (simp add: pkce_challenge_ok_def pkce_derive_def b64url_encode_length b64url_encode_chars)

lemma map_of_filter_values:
  assumes "distinct (map fst d)"
  shows "map_of (filter (\<lambda>(_, e). P e) d) k =
    (case map_of d k of Some e \<Rightarrow> if P e then Some e else None | None \<Rightarrow> None)"
  using assms
proof (induction d)
  case (Cons p d)
  obtain k' e where p: "p = (k', e)" by (cases p)
  have "map_of d k' = None" using Cons.prems p by (simp add: map_of_eq_None_iff)
  then show ?case using Cons p by auto
qed simp

lemma distinct_filter_keys: "distinct (map fst d) \<Longrightarrow> distinct (map fst (filter P d))"
  by (induction d) auto

lemma issue_code_inv: "codes_inv st \<Longrightarrow> codes_inv (snd (issue_code now c r ch st))"
  using le_trans [OF length_filter_le, of st max_pending_codes]
  by (auto simp: codes_inv_def issue_code_def Let_def distinct_filter_keys
      intro!: distinct_dict_set le_trans [OF length_dict_set])

lemma consume_code_inv: "codes_inv st \<Longrightarrow> codes_inv (snd (consume_code now c r v st))"
  by (auto simp: codes_inv_def consume_code_def distinct_dict_pop split: option.splits
      intro: le_trans [OF length_dict_pop])

interpretation pkce: code_store codes_inv code_pending issue_code consume_code
    pkce_verifier_ok pkce_derive auth_code_ttl
proof unfold_locales
  show "codes_inv st \<Longrightarrow> codes_inv (snd (issue_code now c r ch st))" for st now c r ch
    by (rule issue_code_inv)
  show "codes_inv st \<Longrightarrow> codes_inv (snd (consume_code now c r v st))" for st now c r v
    by (rule consume_code_inv)
  show "fst (consume_code now c r v st) = Inr True \<longleftrightarrow>
      pkce_verifier_ok v \<and> (\<exists>e. code_pending st c = Some (r, pkce_derive v, e) \<and> now \<le> e)"
    for now c r v st
    by (auto simp: consume_code_def code_pending_def compare_digest_def split: option.splits)
  show "pkce_verifier_ok v \<Longrightarrow> code_pending (snd (consume_code now c r v st)) c = None" for v now c r st
    by (simp add: consume_code_def code_pending_def split: option.splits)
  show "c' \<noteq> c \<Longrightarrow> code_pending (snd (consume_code now c r v st)) c' = code_pending st c'" for c' c now r v st
    by (simp add: consume_code_def code_pending_def split: option.splits)
  show "\<not> pkce_verifier_ok v \<Longrightarrow> consume_code now c r v st = (Inr False, st)" for now c r v st
    by (simp add: consume_code_def)
  show "issue_code now c r ch st = (Some c', st') \<Longrightarrow>
      c' = c \<and> code_pending st' c = Some (r, ch, now + auth_code_ttl)" for now c r ch st c' st'
    by (auto simp: issue_code_def code_pending_def Let_def split: if_splits)
  show "codes_inv st \<Longrightarrow> c' \<noteq> c \<or> fst (issue_code now c r ch st) = None \<Longrightarrow>
      code_pending (snd (issue_code now c r ch st)) c' =
        (case code_pending st c' of Some (r', ch', e) \<Rightarrow> if now < e then Some (r', ch', e) else None
                                  | None \<Rightarrow> None)" for st c' c now r ch
    by (auto simp: issue_code_def code_pending_def Let_def codes_inv_def map_of_filter_values
        split: option.splits if_splits)
qed

section \<open>Histories of the store\<close>

text \<open>
  A history lists what happened, newest first; \<open>code_trace h st\<close> says that it leads from the
  fresh store to \<open>st\<close>. \<open>code_live\<close> is the specification read off a history: the last issue of a
  code counts until an attempt with a well-formed verifier has named the code.
\<close>

datatype code_event =
    Issued rat string string string
  | Refused rat
  | Consumed rat string string string "bool py"

inductive code_trace :: "code_event list \<Rightarrow> code_table \<Rightarrow> bool" where
  code_trace_start: "code_trace [] []"
| code_trace_issue: "code_trace h st \<Longrightarrow> issue_code now fresh r ch st = (Some c, st') \<Longrightarrow>
    code_trace (Issued now c r ch # h) st'"
| code_trace_refuse: "code_trace h st \<Longrightarrow> issue_code now fresh r ch st = (None, st') \<Longrightarrow>
    code_trace (Refused now # h) st'"
| code_trace_consume: "code_trace h st \<Longrightarrow> consume_code now c r v st = (res, st') \<Longrightarrow>
    code_trace (Consumed now c r v res # h) st'"

inductive_cases code_trace_ConsE: "code_trace (e # h) st"

fun code_live :: "code_event list \<Rightarrow> string \<Rightarrow> (string \<times> string \<times> rat) option" where
  "code_live [] c = None"
| "code_live (Issued now c' r ch # h) c =
     (if c' = c then Some (r, ch, now + auth_code_ttl) else code_live h c)"
| "code_live (Refused now # h) c = code_live h c"
| "code_live (Consumed now c' r v res # h) c =
     (if c' = c \<and> pkce_verifier_ok v then None else code_live h c)"

text \<open>The clock of every later issue was before \<open>t\<close>.\<close>

fun issued_before :: "rat \<Rightarrow> code_event list \<Rightarrow> bool" where
  "issued_before t [] = True"
| "issued_before t (Issued now c r ch # h) = (now < t \<and> issued_before t h)"
| "issued_before t (Refused now # h) = (now < t \<and> issued_before t h)"
| "issued_before t (Consumed now c r v res # h) = issued_before t h"

lemma code_trace_inv: "code_trace h st \<Longrightarrow> codes_inv st"
proof (induction rule: code_trace.induct)
  case code_trace_start
  show ?case by (simp add: codes_inv_def)
qed (metis issue_code_inv consume_code_inv snd_conv)+

lemma code_trace_pending:
  assumes "code_trace h st"
  shows "code_pending st c = Some x \<Longrightarrow> code_live h c = Some x"
    and "code_live h c = Some (r0, ch0, e) \<Longrightarrow> issued_before e h \<Longrightarrow> code_pending st c = Some (r0, ch0, e)"
  using assms
proof (induction arbitrary: r0 ch0 e rule: code_trace.induct)
  case code_trace_start
  { case 1 then show ?case by (simp add: code_pending_def)
  next case 2 then show ?case by simp }
next
  case (code_trace_issue h st now fresh r ch c' st')
  note g = pkce.issue_gives [OF code_trace_issue(2)]
  have o: "c \<noteq> c' \<Longrightarrow> code_pending st' c = (case code_pending st c of
        Some (r', ch', e) \<Rightarrow> if now < e then Some (r', ch', e) else None | None \<Rightarrow> None)"
    using pkce.issue_others [OF code_trace_inv [OF code_trace_issue(1)], of c fresh now r ch]
      code_trace_issue(2) g by auto
  { case 1
    then show ?case using g o code_trace_issue(3)
      by (cases "c = c'") (auto split: option.splits prod.splits if_splits)
  next
    case 2
    then show ?case using g o code_trace_issue(4) by (cases "c = c'") auto }
next
  case (code_trace_refuse h st now fresh r ch st')
  have o: "code_pending st' c = (case code_pending st c of
        Some (r', ch', e) \<Rightarrow> if now < e then Some (r', ch', e) else None | None \<Rightarrow> None)"
    using pkce.issue_others [OF code_trace_inv [OF code_trace_refuse(1)], of c fresh now r ch]
      code_trace_refuse(2) by auto
  { case 1
    then show ?case using o code_trace_refuse(3) by (auto split: option.splits prod.splits if_splits)
  next
    case 2
    then show ?case using o code_trace_refuse(4) by auto }
next
  case (code_trace_consume h st now c' r v res st')
  have s: "st' = snd (consume_code now c' r v st)" using code_trace_consume(2) by simp
  { case 1
    then show ?case using code_trace_consume(3) pkce.consume_pops pkce.consume_others pkce.consume_bad
      unfolding s by (cases "c = c'"; cases "pkce_verifier_ok v") auto
  next
    case 2
    then show ?case using code_trace_consume(4) pkce.consume_others pkce.consume_bad
      unfolding s by (cases "c = c'"; cases "pkce_verifier_ok v") auto }
qed

lemma code_live_Some:
  assumes "code_live h c = Some (r, ch, e)"
  shows "\<exists>h1 t h2. h = h1 @ Issued t c r ch # h2 \<and> e = t + auth_code_ttl
    \<and> (\<forall>x \<in> set h1. case x of Issued _ c' _ _ \<Rightarrow> c' \<noteq> c | Refused _ \<Rightarrow> True
                  | Consumed _ c' _ v _ \<Rightarrow> \<not> (c' = c \<and> pkce_verifier_ok v))"
  using assms
proof (induction h)
  case (Cons x h)
  have later: ?case if "code_live h c = Some (r, ch, e)" "case x of Issued _ c' _ _ \<Rightarrow> c' \<noteq> c | Refused _ \<Rightarrow> True
                  | Consumed _ c' _ v _ \<Rightarrow> \<not> (c' = c \<and> pkce_verifier_ok v)"
  proof -
    note ih = Cons.IH [OF that(1)] and x = that(2)
    obtain h1 t h2 where "h = h1 @ Issued t c r ch # h2" "e = t + auth_code_ttl"
      "\<forall>x \<in> set h1. case x of Issued _ c' _ _ \<Rightarrow> c' \<noteq> c | Refused _ \<Rightarrow> True
                  | Consumed _ c' _ v _ \<Rightarrow> \<not> (c' = c \<and> pkce_verifier_ok v)"
      using ih by blast
    then show ?thesis using x by (intro exI [of _ "x # h1"] exI [of _ t] exI [of _ h2]) simp
  qed
  show ?case
  proof (cases x)
    case (Issued t c' r' ch')
    then show ?thesis
    proof (cases "c' = c")
      case True
      then have "x # h = [] @ Issued t c r ch # h" "e = t + auth_code_ttl"
        using Issued Cons.prems by auto
      then show ?thesis by fastforce
    next
      case False
      then show ?thesis using Issued Cons.prems by (intro later) auto
    qed
  next
    case (Refused t)
    then show ?thesis using Cons.prems by (intro later) auto
  next
    case (Consumed t c' r' v res)
    then show ?thesis using Cons.prems by (intro later) (auto split: if_splits)
  qed
qed simp

lemma code_live_dead:
  assumes "\<forall>x \<in> set h1. case x of Issued _ c' _ _ \<Rightarrow> c' \<noteq> c | _ \<Rightarrow> True" "code_live h2 c = None"
  shows "code_live (h1 @ h2) c = None"
  using assms
proof (induction h1)
  case (Cons x h1)
  then show ?case by (cases x) auto
qed simp

section \<open>Properties of the code store\<close>

text \<open>C20: a code is accepted only if it was issued for that redirect URI and for the S256
  challenge of that verifier at most five minutes before, and no attempt with a well-formed
  verifier has named it since.\<close>

theorem pkce_accept_sound:
  assumes "code_trace h st" "fst (consume_code now c r v st) = Inr True"
  shows "\<exists>h1 t h2. h = h1 @ Issued t c r (pkce_derive v) # h2 \<and> now \<le> t + auth_code_ttl
    \<and> (\<forall>x \<in> set h1. case x of Issued _ c' _ _ \<Rightarrow> c' \<noteq> c | Refused _ \<Rightarrow> True
                  | Consumed _ c' _ v _ \<Rightarrow> \<not> (c' = c \<and> pkce_verifier_ok v))"
proof -
  obtain e where e: "code_pending st c = Some (r, pkce_derive v, e)" "now \<le> e"
    using assms(2) pkce.consume_True by blast
  from code_live_Some [OF code_trace_pending(1) [OF assms(1) e(1)]] e(2) show ?thesis by blast
qed

text \<open>A verifier of the least length, and a store that holds one code for it.\<close>

definition sample_verifier :: string where
  "sample_verifier = replicate 43 (CHR ''v'')"

lemma sample_verifier_ok: "pkce_verifier_ok sample_verifier"
  by (simp add: pkce_verifier_ok_def sample_verifier_def pkce_verifier_min_def pkce_verifier_max_def
      list_all_iff pkce_verifier_char_def is_alnum_ascii_def is_alpha_ascii_def is_lower_ascii_def ord_def)

definition sample_store :: code_table where
  "sample_store = snd (issue_code 10 ''code'' ''https://c.example/cb'' (pkce_derive sample_verifier) [])"

lemma sample_store_trace:
  "code_trace [Issued 10 ''code'' ''https://c.example/cb'' (pkce_derive sample_verifier)] sample_store"
  by (rule code_trace_issue [OF code_trace_start, of _ "''code''"])
    (simp add: issue_code_def sample_store_def max_pending_codes_def)

lemma sample_store_consume: "t \<le> 310 \<Longrightarrow>
  fst (consume_code t ''code'' ''https://c.example/cb'' sample_verifier sample_store) = Inr True"
  by (rule pkce.issue_then_consume [of 10 _ _ _ "[]"])
    (simp_all add: issue_code_def sample_store_def max_pending_codes_def sample_verifier_ok auth_code_ttl_def)

theorem pkce_accept_sound_witness:
  "\<exists>h1 t h2. [Issued 10 ''code'' ''https://c.example/cb'' (pkce_derive sample_verifier)]
     = h1 @ Issued t ''code'' ''https://c.example/cb'' (pkce_derive sample_verifier) # h2 \<and> 20 \<le> t + auth_code_ttl"
  using pkce_accept_sound [OF sample_store_trace sample_store_consume [of 20]] by auto

text \<open>C21: a code that is live in the history (issued, not yet named by a well-formed attempt)
  is accepted with the right redirect URI and verifier up to its expiry, whatever other codes
  were issued, refused or consumed in between.\<close>

theorem pkce_accept_complete:
  assumes "code_trace h st" "code_live h c = Some (r, pkce_derive v, e)" "issued_before e h"
    "pkce_verifier_ok v" "now \<le> e"
  shows "fst (consume_code now c r v st) = Inr True"
  using code_trace_pending(2) [OF assms(1,2,3)] assms(4,5) by (simp add: pkce.consume_True)

theorem pkce_accept_complete_witness:
  "fst (consume_code 310 ''code'' ''https://c.example/cb'' sample_verifier sample_store) = Inr True"
  by (rule pkce_accept_complete [OF sample_store_trace, where e = 310])
    (simp_all add: sample_verifier_ok auth_code_ttl_def)

text \<open>a code is accepted once: after an accepted attempt, no attempt names it successfully
  until the code is issued again.\<close>

theorem pkce_one_shot:
  assumes "code_trace (h1 @ Consumed t c r v (Inr True) # h2) st"
    "\<forall>x \<in> set h1. case x of Issued _ c' _ _ \<Rightarrow> c' \<noteq> c | _ \<Rightarrow> True"
  shows "fst (consume_code now c r' v' st) \<noteq> Inr True"
proof -
  have "code_trace (h1 @ h') st \<Longrightarrow> \<exists>st'. code_trace h' st'" for h' st
    by (induction h1 arbitrary: st) (auto elim: code_trace_ConsE)
  from this [OF assms(1)] obtain st1 where "code_trace (Consumed t c r v (Inr True) # h2) st1" by blast
  then obtain st2 where "fst (consume_code t c r v st2) = Inr True"
    by (cases rule: code_trace_ConsE) (auto, metis fst_conv)
  then have "pkce_verifier_ok v" by (simp add: pkce.consume_True)
  then have "code_live (h1 @ Consumed t c r v (Inr True) # h2) c = None"
    by (intro code_live_dead [OF assms(2)]) simp
  then have "code_pending st c = None"
    using code_trace_pending(1) [OF assms(1), of c] by (cases "code_pending st c") auto
  then show ?thesis by (simp add: pkce.consume_True)
qed

lemma sample_history_consumed:
  "code_trace [Consumed 20 ''code'' ''https://c.example/cb'' sample_verifier (Inr True),
      Issued 10 ''code'' ''https://c.example/cb'' (pkce_derive sample_verifier)]
    (snd (consume_code 20 ''code'' ''https://c.example/cb'' sample_verifier sample_store))"
proof (rule code_trace_consume [OF sample_store_trace])
  have "fst (consume_code 20 ''code'' ''https://c.example/cb'' sample_verifier sample_store) = Inr True"
    by (rule sample_store_consume) simp
  then show "consume_code 20 ''code'' ''https://c.example/cb'' sample_verifier sample_store =
      (Inr True, snd (consume_code 20 ''code'' ''https://c.example/cb'' sample_verifier sample_store))"
    by (metis prod.collapse)
qed

theorem pkce_one_shot_witness:
  "fst (consume_code 21 ''code'' ''https://c.example/cb'' sample_verifier
     (snd (consume_code 20 ''code'' ''https://c.example/cb'' sample_verifier sample_store))) \<noteq> Inr True"
  by (rule pkce_one_shot [of "[]", simplified, OF sample_history_consumed])

text \<open>the store never holds more than 1000 codes, nor two under one name, however the
  anonymous endpoints are driven.\<close>

theorem pkce_store_bounded:
  assumes "code_trace h st"
  shows "length st \<le> max_pending_codes \<and> distinct (map fst st)"
  using code_trace_inv [OF assms] by (simp add: codes_inv_def)

theorem pkce_store_bounded_witness: "length sample_store \<le> max_pending_codes"
  using pkce_store_bounded [OF sample_store_trace] by simp

text \<open>what an attempt costs: a malformed verifier changes nothing, and any other attempt
  removes the named code and no other, whether or not it is accepted.\<close>

theorem pkce_attempt_effect:
  "snd (consume_code now c r v st) = (if pkce_verifier_ok v then dict_pop c st else st)"
  by (simp add: consume_code_def split: option.splits)

end
