(* ===== verification/Web.thy ===== *)
theory Web
  imports Json OauthCommon
begin

text \<open>
  What the views exchange with aiohttp: responses, the ordered multi-dicts of query strings
  and forms, headers; and the state they resolve per request, the webhook configuration the
  component keeps in \<open>hass.data[DOMAIN][DATA_WEBHOOK]\<close> (built by \<open>async_register_webhook\<close> of
  \<open>mcp_webhook.py\<close>) with the session-wide flags beside it.
\<close>

section \<open>Responses\<close>

datatype payload =
    NoBody
  | TextBody string
  | RawBody bytes
  | JsonBody pyval

record response =
  r_status :: nat
  r_body :: payload
  r_content_type :: string
  r_headers :: "(string \<times> string) list"

definition json_response :: "pyval \<Rightarrow> nat \<Rightarrow> (string \<times> string) list \<Rightarrow> response" where
  "json_response v status headers =
     \<lparr>r_status = status, r_body = JsonBody v, r_content_type = ''application/json'', r_headers = headers\<rparr>"

definition bare_response :: "nat \<Rightarrow> (string \<times> string) list \<Rightarrow> response" where
  "bare_response status headers =
     \<lparr>r_status = status, r_body = NoBody, r_content_type = ''application/octet-stream'', r_headers = headers\<rparr>"

definition text_response :: "nat \<Rightarrow> string \<Rightarrow> (string \<times> string) list \<Rightarrow> response" where
  "text_response status t headers =
     \<lparr>r_status = status, r_body = TextBody t, r_content_type = ''text/plain'', r_headers = headers\<rparr>"

definition raw_response :: "nat \<Rightarrow> bytes \<Rightarrow> string \<Rightarrow> (string \<times> string) list \<Rightarrow> response" where
  "raw_response status b ct headers =
     \<lparr>r_status = status, r_body = RawBody b, r_content_type = ct, r_headers = headers\<rparr>"

definition token_response_headers :: "(string \<times> string) list" where
  "token_response_headers = [(''Cache-Control'', ''no-store''), (''Pragma'', ''no-cache'')]"

definition json_not_found :: response where
  "json_not_found = json_response (PDict [(''error'', PStr ''not_found'')]) 404 []"

lemma response_simps [simp]:
  "r_status (json_response v s h) = s" "r_status (bare_response s h) = s"
  "r_status (text_response s t h) = s" "r_status (raw_response s b ct h) = s"
  "r_body (json_response v s h) = JsonBody v" "r_body (raw_response s b ct h) = RawBody b"
  "r_headers (json_response v s h) = h" "r_headers (bare_response s h) = h"
  "r_headers (raw_response s b ct h) = h" "r_status json_not_found = 404"
  by (simp_all add: json_response_def bare_response_def text_response_def raw_response_def
      json_not_found_def)

section \<open>Multi-dicts\<close>

text \<open>
  A multidict keeps every pair in order. Looking a key up gives its first value; assigning a
  key replaces its first pair and drops the others, or appends.
\<close>

type_synonym multidict = "(string \<times> string) list"

definition md_get :: "multidict \<Rightarrow> string \<Rightarrow> string" where
  "md_get d k = (case map_of d k of Some v \<Rightarrow> v | None \<Rightarrow> [])"

definition md_popall :: "string \<Rightarrow> multidict \<Rightarrow> multidict" where
  "md_popall k d = filter (\<lambda>(k', _). k' \<noteq> k) d"

text \<open>Header names are compared without their case.\<close>

definition header_get :: "multidict \<Rightarrow> string \<Rightarrow> string option" where
  "header_get h k = map_of (map (\<lambda>(k', v). (str_lower k', v)) h) (str_lower k)"

fun md_set :: "string \<Rightarrow> string \<Rightarrow> multidict \<Rightarrow> multidict" where
  "md_set k v [] = [(k, v)]"
| "md_set k v ((k', v') # d) = (if k' = k then (k, v) # md_popall k d else (k', v') # md_set k v d)"

lemma md_set_popall: "md_set k v (md_popall k d) = md_popall k d @ [(k, v)]"
  by (induction d) (auto simp: md_popall_def)

lemma map_of_md_popall [simp]: "map_of (md_popall k d) k' = (if k' = k then None else map_of d k')"
  by (induction d) (auto simp: md_popall_def)

lemma md_replace_get [simp]:
  "md_get (md_popall k d @ [(k, v)]) k = v"
  "k' \<noteq> k \<Longrightarrow> md_get (md_popall k d @ [(k, v)]) k' = md_get d k'"
  by (simp_all add: md_get_def map_add_def split: option.splits)

lemma md_popall_mem: "(k', v') \<in> set (md_popall k d) \<longleftrightarrow> k' \<noteq> k \<and> (k', v') \<in> set d"
  by (auto simp: md_popall_def)

text \<open>
  A posted form value is text, or (multipart) bytes or a file, of which only the rendering by
  \<open>str()\<close> matters.
\<close>

datatype form_value = FText string | FOther string

type_synonym raw_form = "(string \<times> form_value) list"

fun form_str :: "form_value \<Rightarrow> string" where
  "form_str (FText s) = s"
| "form_str (FOther s) = s"

definition coerce_form :: "raw_form \<Rightarrow> multidict" where
  "coerce_form raw = map (\<lambda>(k, v). (k, form_str v)) raw"

section \<open>The state the views resolve per request\<close>

record webhook_cfg =
  w_webhook_id :: string
  w_target_url :: string
  w_session :: "nat option" \<comment> \<open>the relay session\<close>
  w_cimd_session :: "nat option" \<comment> \<open>the pool for metadata documents\<close>
  w_auth_mode :: string
  w_resource_server :: "string option" \<comment> \<open>the \<open>ResourceServer\<close>, by its webhook id\<close>
  w_provider :: "code_table option" \<comment> \<open>the \<open>AutoApproveProvider\<close>, by its code store\<close>
  w_dcr_key :: "bytes option"

record hass_data =
  d_domain :: bool \<comment> \<open>\<open>hass.data[DOMAIN]\<close> is a dict\<close>
  d_webhook :: "webhook_cfg option" \<comment> \<open>the entry \<open>DATA_WEBHOOK\<close> of it\<close>
  d_dcr_bound :: bool
  d_autoapprove_bound :: bool
  d_metadata_bound :: bool

definition webhook_cfg_of :: "hass_data \<Rightarrow> webhook_cfg option" where
  "webhook_cfg_of hass = (if d_domain hass then d_webhook hass else None)"

definition active_dcr_key :: "hass_data \<Rightarrow> bytes option" where
  "active_dcr_key hass = (case webhook_cfg_of hass of None \<Rightarrow> None | Some cfg \<Rightarrow> w_dcr_key cfg)"

definition oauth_base :: string where "oauth_base = ''/api/esphome_mcp/oauth''"

end
