(* ===== verification/SignedBlob.thy ===== *)
theory SignedBlob
  imports Web
begin

text \<open>
  The shape the registered client ids of \<open>oauth_dcr.py\<close> and the refresh envelopes of
  \<open>oauth_ha_auth.py\<close> share: compact JSON in base64url, a dot, and the base64url of an
  HMAC-SHA256. The interface \<open>sealed_values\<close> states what both promise their callers.
\<close>

definition ascii_encode :: "string \<Rightarrow> bytes py" where
  "ascii_encode s = (if str_isascii s then Inr s else Inl ValueError)"

definition blob_body :: "pyval \<Rightarrow> string" where
  "blob_body v = b64url_encode (utf8_encode (json_compact v))"

text \<open>\<open>mp\<close> is what the MAC covers before the body.\<close>

definition blob_text :: "bytes \<Rightarrow> string \<Rightarrow> pyval \<Rightarrow> string" where
  "blob_text key mp v =
     blob_body v @ ''.'' @ b64url_encode (hmac_sha256 key (mp @ blob_body v))"

text \<open>
  The body that both readers share: \<open>None\<close> is their answer for an invalid blob, and what the
  \<open>try\<close> block does not catch passes through. \<open>nest\<close> is the nesting the interpreter allows
  \<open>json.loads\<close>.
\<close>

definition verified_payload :: "nat \<Rightarrow> bytes \<Rightarrow> string \<Rightarrow> string \<Rightarrow> pyval option py" where
  "verified_payload nest key mp blob =
     (case rpartition_at (CHR ''.'') blob of
        (body, sep, sig_part) \<Rightarrow>
          if \<not> sep \<or> body = [] then Inr None
          else py_except
            (py_bind (ascii_encode (mp @ body)) (\<lambda>m.
             py_bind (b64url_decode sig_part) (\<lambda>sig.
               if \<not> compare_digest sig (hmac_sha256 key m) then Inr None
               else py_bind (b64url_decode body) (\<lambda>raw.
                    py_bind (json_loads_bytes nest raw) (\<lambda>v. Inr (Some v))))))
            [ValueError] (Inr None))"

text \<open>What a blob's MAC is checked against: the message and the signature it carries.\<close>

definition blob_signed :: "string \<Rightarrow> string \<Rightarrow> bytes \<times> bytes py" where
  "blob_signed mp blob =
     (case rpartition_at (CHR ''.'') blob of (body, _, sig_part) \<Rightarrow> (mp @ body, b64url_decode sig_part))"

lemma blob_body_not_Nil: "json_ok v \<Longrightarrow> blob_body v \<noteq> []"
  using dumps_hd [of v "'',''" "'':''"]
  by (auto simp: blob_body_def json_compact_def intro!: b64url_encode_not_Nil split: if_splits)

lemma rpartition_blob:
  "rpartition_at (CHR ''.'') (blob_text key mp v)
     = (blob_body v, True, b64url_encode (hmac_sha256 key (mp @ blob_body v)))"
  unfolding blob_text_def blob_body_def using b64.rpartition_joined by simp

lemma verified_payload_blob:
  assumes "json_ok v" "json_depth v \<le> nest" "str_isascii mp"
  shows "verified_payload nest key mp (blob_text key mp v) = Inr (Some v)"
  using assms blob_body_not_Nil [OF assms(1)]
  by (simp add: verified_payload_def rpartition_blob ascii_encode_def compare_digest_def)
    (simp add: blob_body_def json_loads_bytes_dumps)

lemma blob_signed_blob:
  "blob_signed mp (blob_text key mp' v) = (mp @ blob_body v, Inr (hmac_sha256 key (mp' @ blob_body v)))"
  by (simp add: blob_signed_def rpartition_blob)

text \<open>Whatever is accepted, or escapes as an exception, carries a MAC of this key.\<close>

lemma verified_payload_signed:
  assumes "verified_payload nest key mp blob \<noteq> Inr None"
  shows "snd (blob_signed mp blob) = Inr (hmac_sha256 key (fst (blob_signed mp blob)))"
proof -
  obtain body sep sig where r: "rpartition_at (CHR ''.'') blob = (body, sep, sig)"
    by (cases "rpartition_at (CHR ''.'') blob") auto
  show ?thesis
    using assms
    by (cases "b64url_decode sig")
      (auto simp: verified_payload_def blob_signed_def r ascii_encode_def compare_digest_def
        split: if_splits dest: b64url_decode_ValueError)
qed

section \<open>The interface of sealed values\<close>

locale sealed_values =
  fixes valid :: "'a \<Rightarrow> bool"
    and seal :: "bytes \<Rightarrow> 'a \<Rightarrow> string"
    and unseal :: "bytes \<Rightarrow> string \<Rightarrow> 'a option"
    and signed :: "string \<Rightarrow> bytes \<times> bytes py"
    and mac :: "bytes \<Rightarrow> bytes \<Rightarrow> bytes"
  assumes unseal_seal: "valid x \<Longrightarrow> unseal key (seal key x) = Some x"
    and unseal_signed: "unseal key s = Some x \<Longrightarrow> snd (signed s) = Inr (mac key (fst (signed s)))"
    and seal_signed: "snd (signed (seal key x)) = Inr (mac key (fst (signed (seal key x))))"
begin

lemma seal_inject: "valid x \<Longrightarrow> valid y \<Longrightarrow> seal key x = seal key y \<longleftrightarrow> x = y"
  by (metis option.inject unseal_seal)

text \<open>
  A value sealed under one key is read under another only where the MAC of its message is the
  same under both.
\<close>

lemma unseal_other_key:
  "unseal key' (seal key x) = Some y \<Longrightarrow>
     mac key' (fst (signed (seal key x))) = mac key (fst (signed (seal key x)))"
  using unseal_signed seal_signed by (metis sum.inject(2))

lemma unseal_unsigned:
  "snd (signed s) \<noteq> Inr (mac key (fst (signed s))) \<Longrightarrow> unseal key s = None"
  using unseal_signed by (cases "unseal key s") auto

end

end
