(* ===== verification/Dcr.thy ===== *)
theory Dcr
  imports SignedBlob
begin

text \<open>
  \<open>oauth_dcr.py\<close>: the stateless client registration. A registered client id is a signed blob of
  the redirect URIs; the origins of redirects; the registration view with its capped body.
\<close>

section \<open>Signed client ids\<close>

definition client_id_prefix :: string where "client_id_prefix = ''espmcp-dcr-''"

definition max_dcr_body_bytes :: nat where "max_dcr_body_bytes = 64 * 1024"
definition max_redirect_uris :: nat where "max_redirect_uris = 10"
definition max_redirect_uri_len :: nat where "max_redirect_uri_len = 512"

definition dcr_payload :: "string list \<Rightarrow> int \<Rightarrow> pyval" where
  "dcr_payload redirect_uris iat =
     PDict [(''r'', PList (map PStr redirect_uris)), (''iat'', PInt iat)]"

definition mint_client_id :: "bytes \<Rightarrow> string list \<Rightarrow> int \<Rightarrow> string" where
  "mint_client_id signing_key redirect_uris iat =
     client_id_prefix @ blob_text signing_key [] (dcr_payload redirect_uris iat)"

fun str_items :: "pyval list \<Rightarrow> string list option" where
  "str_items [] = Some []"
| "str_items (PStr s # vs) = map_option ((#) s) (str_items vs)"
| "str_items (_ # vs) = None"

definition client_redirect_uris :: "nat \<Rightarrow> bytes \<Rightarrow> string \<Rightarrow> string list option py" where
  "client_redirect_uris nest signing_key client_id =
     (if \<not> startswith client_id client_id_prefix then Inr None
      else py_bind (verified_payload nest signing_key [] (drop (length client_id_prefix) client_id))
        (\<lambda>payload. case payload of
           None \<Rightarrow> Inr None
         | Some v \<Rightarrow>
             (if \<not> is_PDict v then Inr None
              else case pdict_get v ''r'' of
                Some (PList us) \<Rightarrow> Inr (str_items us)
              | _ \<Rightarrow> Inr None)))"

section \<open>Origins\<close>

type_synonym origin = "string \<times> string \<times> nat"

definition default_port :: "string \<Rightarrow> nat option" where
  "default_port scheme =
     (if scheme = ''https'' then Some 443 else if scheme = ''http'' then Some 80 else None)"

definition normalized_origin :: "string \<Rightarrow> origin option py" where
  "normalized_origin uri =
     py_bind (urlparse uri) (\<lambda>parsed.
       case url_hostname parsed of
         None \<Rightarrow> Inr None
       | Some host \<Rightarrow>
           if u_scheme parsed = [] then Inr None
           else py_bind (url_port parsed) (\<lambda>port.
             Inr (Some (u_scheme parsed, host,
               case port of Some p \<Rightarrow> p
               | None \<Rightarrow> (case default_port (u_scheme parsed) of Some p \<Rightarrow> p | None \<Rightarrow> 0)))))"

definition canonical_origin_url :: "origin \<Rightarrow> string" where
  "canonical_origin_url origin =
     (case origin of (scheme, host, port) \<Rightarrow>
        let url_host = (if CHR '':'' \<in> set host then ''['' @ host @ '']'' else host)
        in if default_port scheme = Some port then scheme @ ''://'' @ url_host
           else scheme @ ''://'' @ url_host @ '':'' @ show_nat port)"

fun non_loopback_origins :: "string list \<Rightarrow> origin set py" where
  "non_loopback_origins [] = Inr {}"
| "non_loopback_origins (uri # uris) =
     py_bind (urlparse uri) (\<lambda>parsed.
       if (case url_hostname parsed of None \<Rightarrow> True | Some h \<Rightarrow> is_loopback_host h)
       then non_loopback_origins uris
       else py_bind (normalized_origin uri) (\<lambda>origin.
            py_bind (non_loopback_origins uris) (\<lambda>os.
              Inr (case origin of Some o' \<Rightarrow> insert o' os | None \<Rightarrow> os))))"

fun any_loopback :: "string list \<Rightarrow> bool py" where
  "any_loopback [] = Inr False"
| "any_loopback (uri # uris) =
     py_bind (urlparse uri) (\<lambda>parsed.
       if (case url_hostname parsed of None \<Rightarrow> True | Some h \<Rightarrow> is_loopback_host h)
       then Inr True else any_loopback uris)"

definition refresh_identity_is_reproducible :: "string list \<Rightarrow> bool py" where
  "refresh_identity_is_reproducible redirect_uris =
     py_bind (non_loopback_origins redirect_uris) (\<lambda>os.
       if card os \<noteq> 1 then Inr False
       else py_bind (any_loopback redirect_uris) (\<lambda>b. Inr (\<not> b)))"

section \<open>The registration view\<close>

definition bad_redirect_item :: "pyval \<Rightarrow> bool" where
  "bad_redirect_item v =
     (case v of
        PStr uri \<Rightarrow> max_redirect_uri_len < length uri \<or> \<not> is_valid_redirect_uri uri
      | _ \<Rightarrow> True)"

definition redirect_uris_error :: "pyval \<Rightarrow> (string \<times> string) option" where
  "redirect_uris_error value =
     (case value of
        PList us \<Rightarrow>
          (if us = [] then
             Some (''invalid_redirect_uri'', ''redirect_uris must be a non-empty array'')
           else if max_redirect_uris < length us then
             Some (''invalid_redirect_uri'',
                   ''at most '' @ show_nat max_redirect_uris @ '' redirect_uris are accepted'')
           else if list_ex bad_redirect_item us then
             Some (''invalid_redirect_uri'',
                   ''redirect_uris must be https URLs or http loopback URLs (RFC 8252) without fragments'')
           else None)
      | _ \<Rightarrow> Some (''invalid_redirect_uri'', ''redirect_uris must be a non-empty array''))"

definition active_grant_types :: "hass_data \<Rightarrow> string list" where
  "active_grant_types hass =
     (case webhook_cfg_of hass of
        Some cfg \<Rightarrow>
          (if w_resource_server cfg \<noteq> None then [''authorization_code'', ''refresh_token'']
           else [''authorization_code''])
      | None \<Rightarrow> [''authorization_code''])"

text \<open>
  The request's stream by the fragments that arrive (none empty): \<open>read(n)\<close> takes at most \<open>n\<close>
  bytes of the next fragment, and nothing at the end.
\<close>

fun stream_read :: "nat \<Rightarrow> bytes list \<Rightarrow> bytes \<times> bytes list" where
  "stream_read n [] = ([], [])"
| "stream_read n (f # fs) = (take n f, if length f \<le> n then fs else drop n f # fs)"

function read_capped :: "nat \<Rightarrow> bytes list \<Rightarrow> bytes \<Rightarrow> bytes" where
  "read_capped remaining stream got =
     (if remaining = 0 then got
      else let (chunk, stream') = stream_read remaining stream in
        if chunk = [] then got
        else read_capped (remaining - length chunk) stream' (got @ chunk))"
  by pat_completeness auto
termination
proof (relation "measure (\<lambda>(remaining, stream, got). remaining)")
  fix remaining :: nat and stream got x chunk stream'
  assume a: "remaining \<noteq> 0" "x = stream_read remaining stream" "(chunk, stream') = x" "chunk \<noteq> []"
  then show "((remaining - length chunk, stream', got @ chunk), remaining, stream, got)
      \<in> measure (\<lambda>(remaining, stream, got). remaining)"
    by (cases chunk) auto
qed simp

declare read_capped.simps [simp del]

definition read_capped_body :: "bytes list \<Rightarrow> bytes option" where
  "read_capped_body stream =
     (let raw = read_capped (max_dcr_body_bytes + 1) stream []
      in if max_dcr_body_bytes < length raw then None else Some raw)"

definition dcr_error :: "string \<Rightarrow> string \<Rightarrow> response" where
  "dcr_error error description =
     json_response (PDict [(''error'', PStr error), (''error_description'', PStr description)]) 400 []"

definition echo_field :: "pyval \<Rightarrow> string \<Rightarrow> (string \<times> pyval) list" where
  "echo_field body field =
     (case pdict_get body field of Some (PStr s) \<Rightarrow> [(field, PStr s)] | _ \<Rightarrow> [])"

definition registration_response :: "hass_data \<Rightarrow> bytes \<Rightarrow> int \<Rightarrow> int \<Rightarrow> pyval \<Rightarrow> string list \<Rightarrow> response" where
  "registration_response hass key iat issued body uris =
     json_response (PDict
       ([(''client_id'', PStr (mint_client_id key uris iat)),
         (''client_id_issued_at'', PInt issued),
         (''redirect_uris'', PList (map PStr uris)),
         (''token_endpoint_auth_method'', PStr ''none''),
         (''grant_types'', PList (map PStr (active_grant_types hass))),
         (''response_types'', PList [PStr ''code''])]
        @ echo_field body ''client_name'' @ echo_field body ''application_type'' @ echo_field body ''scope''))
       201 []"

text \<open>\<open>iat\<close> and \<open>issued\<close> are the two readings of \<open>int(time.time())\<close>.\<close>

definition dcr_register_post :: "nat \<Rightarrow> hass_data \<Rightarrow> int \<Rightarrow> int \<Rightarrow> bytes list \<Rightarrow> response py" where
  "dcr_register_post nest hass iat issued stream =
     (case active_dcr_key hass of
        None \<Rightarrow> Inr json_not_found
      | Some key \<Rightarrow>
          (case read_capped_body stream of
             None \<Rightarrow> Inr (dcr_error ''invalid_client_metadata'' ''body is too large'')
           | Some raw \<Rightarrow>
               (case json_loads_bytes nest raw of
                  Inl e \<Rightarrow>
                    if e \<in> {ValueError, RecursionError}
                    then Inr (dcr_error ''invalid_client_metadata'' ''body must be JSON'')
                    else Inl e
                | Inr body \<Rightarrow>
                    if \<not> is_PDict body
                    then Inr (dcr_error ''invalid_client_metadata'' ''body must be an object'')
                    else
                      (let value = (case pdict_get body ''redirect_uris'' of Some v \<Rightarrow> v | None \<Rightarrow> PNone) in
                       case redirect_uris_error value of
                         Some (e, d) \<Rightarrow> Inr (dcr_error e d)
                       | None \<Rightarrow>
                           (case value of
                              PList us \<Rightarrow>
                                (case str_items us of
                                   Some uris \<Rightarrow> Inr (registration_response hass key iat issued body uris)
                                 | None \<Rightarrow> Inl TypeError)
                            | _ \<Rightarrow> Inl TypeError)))))"

definition bind_dcr_view :: "hass_data \<Rightarrow> hass_data" where
  "bind_dcr_view hass = (if d_dcr_bound hass then hass else hass\<lparr>d_dcr_bound := True\<rparr>)"

section \<open>Facts on client ids\<close>

lemma str_items_map [simp]: "str_items (map PStr us) = Some us"
  by (induction us) simp_all

lemma str_items_Some: "str_items vs = Some us \<longleftrightarrow> vs = map PStr us"
proof (induction vs arbitrary: us rule: str_items.induct)
  case (2 s vs)
  then show ?case by (cases us) auto
qed auto

definition iat_ok :: "int \<Rightarrow> bool" where
  "iat_ok iat \<longleftrightarrow> length (show_nat (nat \<bar>iat\<bar>)) \<le> max_int_digits"

lemma dcr_payload_json:
  assumes "iat_ok iat"
  shows "json_ok (dcr_payload us iat)" "json_depth (dcr_payload us iat) = 2"
proof -
  have "foldr max (map (json_depth \<circ> PStr) us) 0 = 0" by (induction us) simp_all
  then show "json_depth (dcr_payload us iat) = 2" by (simp add: dcr_payload_def)
  show "json_ok (dcr_payload us iat)"
    using assms by (simp add: dcr_payload_def iat_ok_def list_all_iff)
qed

lemma client_redirect_uris_mint:
  assumes "2 \<le> nest" "iat_ok iat"
  shows "client_redirect_uris nest key (mint_client_id key us iat) = Inr (Some us)"
proof -
  have "verified_payload nest key [] (blob_text key [] (dcr_payload us iat)) = Inr (Some (dcr_payload us iat))"
    using assms by (simp add: verified_payload_blob dcr_payload_json)
  then show ?thesis
    by (simp add: client_redirect_uris_def mint_client_id_def) (simp add: dcr_payload_def is_PDict_def)
qed

text \<open>What the MAC of a client id is checked against.\<close>

definition client_id_signed :: "string \<Rightarrow> bytes \<times> bytes py" where
  "client_id_signed client_id = blob_signed [] (drop (length client_id_prefix) client_id)"

lemma client_redirect_uris_signed:
  assumes "client_redirect_uris nest key client_id \<noteq> Inr None"
  shows "startswith client_id client_id_prefix
    \<and> snd (client_id_signed client_id) = Inr (hmac_sha256 key (fst (client_id_signed client_id)))"
proof -
  have "verified_payload nest key [] (drop (length client_id_prefix) client_id) \<noteq> Inr None"
    using assms by (auto simp: client_redirect_uris_def split: if_splits)
  from verified_payload_signed [OF this] show ?thesis
    using assms by (auto simp: client_id_signed_def client_redirect_uris_def split: if_splits)
qed

definition dcr_unseal :: "bytes \<Rightarrow> string \<Rightarrow> string list option" where
  "dcr_unseal key s = (case client_redirect_uris 2 key s of Inr r \<Rightarrow> r | Inl _ \<Rightarrow> None)"

interpretation dcr: sealed_values "\<lambda>_. True" "\<lambda>key us. mint_client_id key us 0" dcr_unseal
    client_id_signed hmac_sha256
proof unfold_locales
  show "dcr_unseal key (mint_client_id key us 0) = Some us" for us key
  proof -
    have "iat_ok 0" by (simp add: iat_ok_def max_int_digits_def show_nat.simps [of 0])
    then show ?thesis by (simp add: dcr_unseal_def client_redirect_uris_mint)
  qed
  show "snd (client_id_signed s) = Inr (hmac_sha256 key (fst (client_id_signed s)))"
    if "dcr_unseal key s = Some us" for key s us
  proof -
    have "client_redirect_uris 2 key s \<noteq> Inr None" using that by (auto simp: dcr_unseal_def)
    then show ?thesis using client_redirect_uris_signed by blast
  qed
  show "snd (client_id_signed (mint_client_id key us 0))
      = Inr (hmac_sha256 key (fst (client_id_signed (mint_client_id key us 0))))" for key us
    by (simp add: client_id_signed_def mint_client_id_def blob_signed_blob)
qed

section \<open>Facts on origins\<close>

definition origin_ok :: "origin \<Rightarrow> bool" where
  "origin_ok ori =
     (case ori of (scheme, host, port) \<Rightarrow>
        CHR '':'' \<notin> set scheme
        \<and> (if CHR '':'' \<in> set host then CHR '']'' \<notin> set host else \<not> startswith host ''[''))"

lemma normalized_originE:
  assumes "normalized_origin uri = Inr (Some (scheme, host, port))"
  obtains u p where "urlparse uri = Inr u" "url_hostname u = Some host" "u_scheme u = scheme"
    "scheme \<noteq> []" "url_port u = Inr p"
    "port = (case p of Some n \<Rightarrow> n | None \<Rightarrow> (case default_port scheme of Some n \<Rightarrow> n | None \<Rightarrow> 0))"
  using assms by (auto simp: normalized_origin_def py_iffs split: option.splits if_splits)

lemma normalized_origin_ok: "normalized_origin uri = Inr (Some ori) \<Longrightarrow> origin_ok ori"
  by (cases ori)
    (auto simp: origin_ok_def elim!: normalized_originE dest: url_hostname_shape urlparse_scheme_no_colon)

lemma split_at_first:
  assumes "x @ (c::char) # y = x' @ c # y'" "c \<notin> set x" "c \<notin> set x'"
  shows "x = x' \<and> y = y'"
proof -
  have "partition_at c (x @ c # y) = partition_at c (x' @ c # y')" by (simp only: assms(1))
  then show ?thesis unfolding partition_at_found [OF assms(2)] partition_at_found [OF assms(3)] by simp
qed

definition port_suffix :: "string \<Rightarrow> nat \<Rightarrow> string" where
  "port_suffix scheme port = (if default_port scheme = Some port then [] else CHR '':'' # show_nat port)"

lemma port_suffix_inject: "port_suffix s p = port_suffix s q \<longleftrightarrow> p = q"
  by (auto simp: port_suffix_def split: if_splits)

lemma canonical_origin_url_split:
  "canonical_origin_url (s, h, p) =
     s @ CHR '':'' # ''//'' @ (if CHR '':'' \<in> set h then ''['' @ h @ '']'' else h) @ port_suffix s p"
  by (simp add: canonical_origin_url_def port_suffix_def)

lemma host_then_port:
  assumes "h @ port_suffix s p = h' @ port_suffix s p'" "CHR '':'' \<notin> set h" "CHR '':'' \<notin> set h'"
  shows "h = h' \<and> p = p'"
proof -
  have d: "CHR '':'' \<notin> set (show_nat n)" for n
    using show_nat_digits [of n] by (auto simp: list_all_iff is_digit_def ord_def)
  have r: "partition_at (CHR '':'') (x @ port_suffix s q) =
      (x, port_suffix s q \<noteq> [], tl (port_suffix s q))" if "CHR '':'' \<notin> set x" for x q
    using that by (auto simp: port_suffix_def)
  have "h = h'" "tl (port_suffix s p) = tl (port_suffix s p')"
      "port_suffix s p = [] \<longleftrightarrow> port_suffix s p' = []"
    using r [OF assms(2), of p] r [OF assms(3), of p'] assms(1) by auto
  then have "port_suffix s p = port_suffix s p'" using assms(1) by simp
  then show ?thesis using \<open>h = h'\<close> by (simp add: port_suffix_inject)
qed

lemma canonical_origin_url_inject:
  assumes "origin_ok o1" "origin_ok o2" "canonical_origin_url o1 = canonical_origin_url o2"
  shows "o1 = o2"
proof -
  obtain s h p where o1: "o1 = (s, h, p)" by (cases o1)
  obtain s' h' p' where o2: "o2 = (s', h', p')" by (cases o2)
  define w where "w = (\<lambda>h. if CHR '':'' \<in> set h then ''['' @ h @ '']'' else h)"
  have "s @ CHR '':'' # ''//'' @ w h @ port_suffix s p
      = s' @ CHR '':'' # ''//'' @ w h' @ port_suffix s' p'"
    using assms(3) unfolding o1 o2 canonical_origin_url_split w_def .
  moreover have "CHR '':'' \<notin> set s" "CHR '':'' \<notin> set s'"
    using assms(1,2) by (simp_all add: o1 o2 origin_ok_def)
  ultimately have se: "s = s' \<and> ''//'' @ w h @ port_suffix s p = ''//'' @ w h' @ port_suffix s' p'"
    by (rule split_at_first)
  then have s: "s = s'" by (rule conjunct1)
  from se [THEN conjunct2] have e: "w h @ port_suffix s p = w h' @ port_suffix s p'"
    unfolding s by (simp only: append_same_eq same_append_eq)
  consider "CHR '':'' \<in> set h" "CHR '':'' \<in> set h'" | "CHR '':'' \<notin> set h" "CHR '':'' \<notin> set h'"
    | "CHR '':'' \<in> set h" "CHR '':'' \<notin> set h'" | "CHR '':'' \<notin> set h" "CHR '':'' \<in> set h'" by blast
  then have "h = h' \<and> p = p'"
  proof cases
    case 1
    then have "CHR '']'' \<notin> set h" "CHR '']'' \<notin> set h'"
      using assms(1,2) by (auto simp: o1 o2 origin_ok_def)
    moreover have "h @ CHR '']'' # port_suffix s p = h' @ CHR '']'' # port_suffix s p'"
      using e 1 by (simp add: w_def)
    ultimately have "h = h' \<and> port_suffix s p = port_suffix s p'" by (intro split_at_first)
    then show ?thesis by (simp only: port_suffix_inject)
  next
    case 2
    have "h @ port_suffix s p = h' @ port_suffix s p'" using e 2 unfolding w_def by (simp only: if_False)
    then show ?thesis using 2 by (rule host_then_port)
  next
    case 3
    then have "\<not> startswith h' ''[''" using assms(2) by (simp add: o2 origin_ok_def)
    moreover have "CHR ''['' # x \<noteq> port_suffix s p'" "port_suffix s p' \<noteq> CHR ''['' # x" for x
      by (auto simp: port_suffix_def)
    ultimately show ?thesis using e 3 by (cases h') (auto simp: w_def split: if_splits)
  next
    case 4
    then have "\<not> startswith h ''[''" using assms(1) by (simp add: o1 origin_ok_def)
    moreover have "CHR ''['' # x \<noteq> port_suffix s p" "port_suffix s p \<noteq> CHR ''['' # x" for x
      by (auto simp: port_suffix_def)
    ultimately show ?thesis using e 4 by (cases h) (auto simp: w_def split: if_splits)
  qed
  with s show ?thesis by (simp add: o1 o2)
qed

text \<open>The host of a valid redirect is made of characters a plain authority may have.\<close>

lemma partition_at_sub:
  "partition_at c s = (h, b, t) \<Longrightarrow> set h \<subseteq> set s \<and> set t \<subseteq> set s"
  by (rule partition_at_cases [of c s]) auto

lemma rpartition_at_sub: "set (snd (snd (rpartition_at c s))) \<subseteq> set s \<and> c \<notin> set (snd (snd (rpartition_at c s)))"
  by (rule rpartition_at_cases [of c s]) auto

lemma url_hostinfo_sub:
  "set (fst (url_hostinfo u)) \<subseteq> set (u_netloc u) \<and> CHR ''@'' \<notin> set (fst (url_hostinfo u))"
proof -
  obtain x b y where p: "partition_at (CHR ''['') (after_userinfo (u_netloc u)) = (x, b, y)"
    by (metis prod_cases3)
  obtain h c r where q: "partition_at (CHR '']'') y = (h, c, r)" by (metis prod_cases3)
  obtain h' c' r' where q': "partition_at (CHR '':'') (after_userinfo (u_netloc u)) = (h', c', r')"
    by (metis prod_cases3)
  have "set (fst (url_hostinfo u)) \<subseteq> set (after_userinfo (u_netloc u))"
    using partition_at_sub [OF p] partition_at_sub [OF q] partition_at_sub [OF q']
    by (cases b) (auto simp: url_hostinfo_def p q q')
  then show ?thesis
    using rpartition_at_sub [of "CHR ''@''" "u_netloc u"] unfolding after_userinfo_def by blast
qed

lemma authority_char_lower: "authority_char c \<Longrightarrow> 32 < ord (lower_char c) \<and> \<not> is_netloc_end (lower_char c)"
proof -
  assume a: "authority_char c"
  have e: "ord (CHR ''/'') = 47" "ord (CHR ''?'') = 63" "ord (CHR ''#'') = 35" by (simp_all add: ord_def)
  have "33 \<le> ord c \<and> ord c < 127 \<and> ord c \<noteq> 47 \<and> ord c \<noteq> 63 \<and> ord c \<noteq> 35"
    using a by (auto simp: authority_char_def is_alnum_ascii_def is_alpha_ascii_def is_upper_ascii_def
        is_lower_ascii_def is_digit_def) (simp_all add: ord_def)
  then have "33 \<le> ord (lower_char c) \<and> ord (lower_char c) \<noteq> 47 \<and> ord (lower_char c) \<noteq> 63 \<and> ord (lower_char c) \<noteq> 35"
    by (simp add: lower_char_def is_upper_ascii_def)
  then show ?thesis unfolding is_netloc_end_def using e by auto
qed

lemma set_lower_host: "set (lower_host h) \<subseteq> set h \<union> lower_char ` set h"
  by (rule partition_at_cases [of "CHR ''%''" h]) (auto simp: lower_host_def str_lower_def)

lemma authority_char_self: "authority_char c \<Longrightarrow> 32 < ord c \<and> \<not> is_netloc_end c"
  by (auto simp: authority_char_def is_alnum_ascii_def is_alpha_ascii_def is_upper_ascii_def
      is_lower_ascii_def is_digit_def is_netloc_end_def) (simp_all add: ord_def)

lemma hostname_plain:
  assumes "url_hostname u = Some h" "list_all authority_char (u_netloc u)"
    "CHR ''['' \<notin> set h" "CHR '']'' \<notin> set h"
  shows "list_all plain_char h"
proof -
  have h: "h = lower_host (fst (url_hostinfo u))"
    using assms(1) by (auto simp: url_hostname_lower split: if_splits)
  have "list_all authority_char (fst (url_hostinfo u))"
    using url_hostinfo_sub [of u] assms(2) by (auto simp: list_all_iff)
  then have "32 < ord c \<and> \<not> is_netloc_end c" if "c \<in> set h" for c
    using that set_lower_host [of "fst (url_hostinfo u)"] authority_char_lower authority_char_self
    unfolding h by (fastforce simp: list_all_iff)
  moreover have "CHR ''@'' \<notin> set h"
    using url_hostinfo_sub [of u] by (simp add: h mem_lower_host)
  ultimately show ?thesis using assms(3,4) by (auto simp: list_all_iff plain_char_def)
qed

lemma canonical_origin_url_roundtrip:
  assumes "is_valid_redirect_uri r" "normalized_origin r = Inr (Some (s, h, p))"
    "CHR '':'' \<notin> set h" "CHR ''['' \<notin> set h" "CHR '']'' \<notin> set h"
  shows "normalized_origin (canonical_origin_url (s, h, p)) = Inr (Some (s, h, p))"
proof -
  obtain u q where u: "urlparse r = Inr u" "url_hostname u = Some h" "u_scheme u = s"
      "url_port u = Inr q" "list_all authority_char (u_netloc u)" "s = ''https'' \<or> s = ''http''"
    using assms(1) by (rule is_valid_redirect_uriE) (use assms(2) in \<open>auto simp: normalized_origin_def\<close>)
  have p: "p = (case q of Some n \<Rightarrow> n | None \<Rightarrow> (case default_port s of Some n \<Rightarrow> n | None \<Rightarrow> 0))"
    using assms(2) u by (auto simp: normalized_origin_def)
  have b: "p \<le> 65535"
    using u(6) url_port_bound [of u] u(4) by (auto simp: p default_port_def split: option.splits)
  define p' where "p' = (if default_port s = Some p then None else Some p)"
  have hp: "list_all plain_char h" using hostname_plain [OF u(2,5)] assms(4,5) by blast
  have w: "port_suffix s p = (case p' of None \<Rightarrow> [] | Some q \<Rightarrow> CHR '':'' # show_nat q)"
    by (simp add: p'_def port_suffix_def)
  have "list_all plain_char (show_nat n)" for n
    using show_nat_digits [of n]
    by (auto simp: list_all_iff plain_char_def is_digit_def is_netloc_end_def ord_def)
  moreover have "plain_char (CHR '':'')" by (simp add: plain_char_def is_netloc_end_def ord_def)
  ultimately have n: "list_all plain_char (h @ port_suffix s p)"
    using hp by (simp add: w split: option.splits)
  obtain v where v: "urlparse (s @ ''://'' @ (h @ port_suffix s p) @ []) = Inr v" "u_scheme v = s"
      "u_netloc v = h @ port_suffix s p"
    using urlparse_plain [of s "h @ port_suffix s p" "[]"] u(6) n by auto
  have h: "h = lower_host (fst (url_hostinfo u))" "h \<noteq> []"
    using u(2) by (auto simp: url_hostname_lower split: if_splits)
  have pb: "n \<le> 65535" if "p' = Some n" for n using that b by (auto simp: p'_def split: if_splits)
  have "url_hostname v = Some (lower_host h)" "url_port v = Inr p'"
    using url_host_port [OF v(3) [unfolded w] hp assms(3) h(2) pb] by blast+
  moreover have "lower_host h = h" using h by simp
  moreover have "canonical_origin_url (s, h, p) = s @ ''://'' @ (h @ port_suffix s p) @ []"
    using assms(3) by (simp add: canonical_origin_url_split)
  ultimately show ?thesis
    using v u(6) by (auto simp: normalized_origin_def p'_def split: if_splits)
qed

section \<open>Facts on the registration view\<close>

lemma read_capped_concat:
  assumes "[] \<notin> set stream"
  shows "read_capped n stream got = got @ take n (concat stream)"
  using assms
proof (induction n stream got rule: read_capped.induct)
  case (1 n stream got)
  show ?case
  proof (cases "n = 0 \<or> stream = []")
    case True
    then show ?thesis by (subst read_capped.simps) (auto simp: Let_def)
  next
    case False
    then obtain f fs where s: "stream = f # fs" "f \<noteq> []" using 1(2) by (cases stream) auto
    then have r: "stream_read n stream = (take n f, if length f \<le> n then fs else drop n f # fs)" by simp
    have "[] \<notin> set (if length f \<le> n then fs else drop n f # fs)" using 1(2) s by auto
    with 1(1) [OF _ refl r [symmetric]] False s
    have "read_capped (n - length (take n f)) (if length f \<le> n then fs else drop n f # fs) (got @ take n f)
        = (got @ take n f) @ take (n - length (take n f)) (concat (if length f \<le> n then fs else drop n f # fs))"
      by auto
    then show ?thesis using False s by (subst read_capped.simps) (auto simp: Let_def r)
  qed
qed

lemma bad_redirect_item_PStr:
  "\<not> bad_redirect_item v \<longleftrightarrow>
     (\<exists>u. v = PStr u \<and> length u \<le> max_redirect_uri_len \<and> is_valid_redirect_uri u)"
  by (cases v) (auto simp: bad_redirect_item_def)

lemma bad_redirect_item_all:
  "list_ex bad_redirect_item vs = False \<longleftrightarrow>
    (\<exists>us. vs = map PStr us \<and> (\<forall>u \<in> set us. length u \<le> max_redirect_uri_len \<and> is_valid_redirect_uri u))"
    (is "?l \<longleftrightarrow> ?r")
proof
  assume ?l
  then have g: "\<exists>u. v = PStr u \<and> length u \<le> max_redirect_uri_len \<and> is_valid_redirect_uri u"
    if "v \<in> set vs" for v
    using that bad_redirect_item_PStr [of v] by (auto simp: list_ex_iff)
  define us where "us = map (\<lambda>v. case v of PStr u \<Rightarrow> u | _ \<Rightarrow> []) vs"
  have "map PStr us = vs" unfolding us_def map_map by (rule map_idI) (auto dest!: g)
  moreover have "length u \<le> max_redirect_uri_len \<and> is_valid_redirect_uri u" if "u \<in> set us" for u
    using that unfolding us_def by (auto dest!: g)
  ultimately show ?r by metis
next
  assume ?r
  then show ?l unfolding list_ex_iff bad_redirect_item_def by (force dest: leD)
qed

lemma redirect_uris_error_None:
  "redirect_uris_error v = None \<longleftrightarrow>
     (\<exists>us. v = PList (map PStr us) \<and> us \<noteq> [] \<and> length us \<le> max_redirect_uris
        \<and> (\<forall>u \<in> set us. length u \<le> max_redirect_uri_len \<and> is_valid_redirect_uri u))"
proof (cases v)
  case (PList vs)
  have "redirect_uris_error v = None \<longleftrightarrow>
      vs \<noteq> [] \<and> length vs \<le> max_redirect_uris \<and> list_ex bad_redirect_item vs = False"
    by (auto simp: PList redirect_uris_error_def)
  then show ?thesis unfolding bad_redirect_item_all PList by auto
qed (simp_all add: redirect_uris_error_def)

lemma registration_created:
  assumes "active_dcr_key hass = Some key" "read_capped_body stream = Some raw"
    "json_loads_bytes nest raw = Inr body" "is_PDict body"
    "pdict_get body ''redirect_uris'' = Some (PList (map PStr uris))"
    "redirect_uris_error (PList (map PStr uris)) = None"
  shows "dcr_register_post nest hass iat issued stream = Inr (registration_response hass key iat issued body uris)"
  using assms by (simp add: dcr_register_post_def)

lemma registration_refused:
  assumes "dcr_register_post nest hass iat issued stream = Inr r" "r_status r = 201"
  shows "\<exists>key raw body uris. active_dcr_key hass = Some key \<and> read_capped_body stream = Some raw
    \<and> json_loads_bytes nest raw = Inr body \<and> is_PDict body
    \<and> pdict_get body ''redirect_uris'' = Some (PList (map PStr uris))
    \<and> redirect_uris_error (PList (map PStr uris)) = None
    \<and> r = registration_response hass key iat issued body uris"
  using assms
  by (auto simp: dcr_register_post_def dcr_error_def Let_def redirect_uris_error_None
      split: option.splits sum.splits if_splits pyval.splits)

lemma dcr_register_errors:
  assumes "dcr_register_post nest hass iat issued stream = Inl e"
  shows "e = OutOfModel"
proof -
  have "e \<in> {ValueError, RecursionError, OutOfModel} - {ValueError, RecursionError}"
    if "json_loads_bytes nest raw = Inl e" "e \<notin> {ValueError, RecursionError}" for raw
    using that json_loads_bytes_errors by blast
  then show ?thesis
    using assms
    by (auto simp: dcr_register_post_def Let_def redirect_uris_error_None str_items_Some
        split: option.splits sum.splits if_splits pyval.splits)
qed

section \<open>Properties of client registration\<close>

text \<open>a minted client id gives back exactly the redirect URIs it was registered with.\<close>

theorem dcr_roundtrip:
  assumes "2 \<le> nest" "iat_ok iat"
  shows "client_redirect_uris nest key (mint_client_id key uris iat) = Inr (Some uris)"
  using assms by (rule client_redirect_uris_mint)

lemma sample_iat: "iat_ok 5"
  by (simp add: iat_ok_def max_int_digits_def show_nat.simps [of 5])

theorem dcr_roundtrip_witness:
  "client_redirect_uris 2 ''k'' (mint_client_id ''k'' [''https://a.example/cb''] 5)
     = Inr (Some [''https://a.example/cb''])"
  by (rule dcr_roundtrip) (simp_all add: sample_iat)

text \<open>whatever the reader of client ids accepts, or lets an exception out of, carries the
  prefix and an HMAC that the signing key gives for its body: a caller without the key can
  neither register redirects nor reach the parser's uncaught errors.\<close>

theorem dcr_accept_signed:
  assumes "client_redirect_uris nest key client_id \<noteq> Inr None"
  shows "\<exists>body sig. client_id = client_id_prefix @ body @ CHR ''.'' # sig
    \<and> b64url_decode sig = Inr (hmac_sha256 key body)"
proof -
  have s: "startswith client_id client_id_prefix"
    "snd (client_id_signed client_id) = Inr (hmac_sha256 key (fst (client_id_signed client_id)))"
    using client_redirect_uris_signed [OF assms] by simp_all
  obtain blob where c: "client_id = client_id_prefix @ blob" using s(1) startswithE by blast
  obtain body sep sig where r': "rpartition_at (CHR ''.'') blob = (body, sep, sig)"
    by (cases "rpartition_at (CHR ''.'') blob") auto
  have sep
    using assms by (rule contrapos_np) (simp add: c client_redirect_uris_def verified_payload_def r')
  with r' have r: "rpartition_at (CHR ''.'') blob = (body, True, sig)" by simp
  then have "blob = body @ CHR ''.'' # sig" by (metis rpartition_at_TrueD)
  moreover have "b64url_decode sig = Inr (hmac_sha256 key body)"
    using s(2) r by (simp add: client_id_signed_def c blob_signed_def)
  ultimately show ?thesis using c by blast
qed

theorem dcr_accept_signed_witness:
  "\<exists>body sig. mint_client_id ''k'' [''https://a.example/cb''] 5 = client_id_prefix @ body @ CHR ''.'' # sig
    \<and> b64url_decode sig = Inr (hmac_sha256 ''k'' body)"
  by (rule dcr_accept_signed [of 2]) (simp add: client_redirect_uris_mint sample_iat)

text \<open>the capped reader returns the whole body or refuses it by its total length alone,
  however the stream is fragmented.\<close>

theorem read_capped_body_total:
  assumes "[] \<notin> set stream"
  shows "read_capped_body stream =
    (if length (concat stream) \<le> max_dcr_body_bytes then Some (concat stream) else None)"
  using read_capped_concat [OF assms, of "max_dcr_body_bytes + 1" "[]"]
  by (auto simp: read_capped_body_def Let_def)

theorem read_capped_body_total_witness:
  "read_capped_body [''{'', ''}''] = Some ''{}''"
  using read_capped_body_total [of "[''{'', ''}'']"] by (simp add: max_dcr_body_bytes_def)

text \<open>
  A request that has to be registered: a signing key is live, the body is within the cap and a JSON
  object, and its \<open>redirect_uris\<close> are a list of one to ten valid redirects of bounded length.
\<close>

definition valid_registration :: "nat \<Rightarrow> hass_data \<Rightarrow> bytes list \<Rightarrow> bytes \<Rightarrow> string list \<Rightarrow> bool" where
  "valid_registration nest hass stream key uris \<longleftrightarrow>
     active_dcr_key hass = Some key
     \<and> (\<exists>raw d. read_capped_body stream = Some raw \<and> json_loads_bytes nest raw = Inr (PDict d)
          \<and> map_of d ''redirect_uris'' = Some (PList (map PStr uris)))
     \<and> 1 \<le> length uris \<and> length uris \<le> 10 \<and> (\<forall>u \<in> set uris. length u \<le> 512 \<and> is_valid_redirect_uri u)"

lemma valid_registration_cases:
  assumes "valid_registration nest hass stream key uris"
  obtains raw body where "active_dcr_key hass = Some key" "read_capped_body stream = Some raw"
    "json_loads_bytes nest raw = Inr body" "is_PDict body"
    "pdict_get body ''redirect_uris'' = Some (PList (map PStr uris))"
    "redirect_uris_error (PList (map PStr uris)) = None"
  using assms
  by (fastforce simp: valid_registration_def is_PDict_def pdict_get_def redirect_uris_error_None
      max_redirect_uris_def max_redirect_uri_len_def)

lemma registered_valid:
  assumes "dcr_register_post nest hass iat issued stream = Inr r" "r_status r = 201"
  shows "\<exists>key uris. valid_registration nest hass stream key uris"
proof -
  obtain key raw body uris where a: "active_dcr_key hass = Some key"
    "read_capped_body stream = Some raw" "json_loads_bytes nest raw = Inr body" "is_PDict body"
    "pdict_get body ''redirect_uris'' = Some (PList (map PStr uris))"
    "redirect_uris_error (PList (map PStr uris)) = None"
    using registration_refused [OF assms] by metis
  obtain d where "body = PDict d" using a(4) by (cases body) (auto simp: is_PDict_def)
  moreover have "uris \<noteq> [] \<and> length uris \<le> 10 \<and> (\<forall>u \<in> set uris. length u \<le> 512 \<and> is_valid_redirect_uri u)"
    using a(6) unfolding redirect_uris_error_None max_redirect_uris_def max_redirect_uri_len_def
    by (auto dest!: arg_cong [of _ _ str_items])
  ultimately show ?thesis using a(1-3,5)
    by (intro exI [of _ key] exI [of _ uris]) (auto simp: valid_registration_def pdict_get_def Suc_le_eq)
qed

text \<open>C37: A registration succeeds exactly for valid metadata: a request is answered with 201 if and
  only if a signing key is live and its body is a JSON object within the cap whose \<open>redirect_uris\<close>
  is a list of one to ten valid redirects of at most 512 characters. And every such request is
  answered with a client id that reads back as exactly its list, which the answer echoes, for a
  public client with the code flow.\<close>

theorem dcr_register_created:
  assumes "2 \<le> nest" "iat_ok iat"
  shows "((\<exists>r. dcr_register_post nest hass iat issued stream = Inr r \<and> r_status r = 201)
        = (\<exists>key uris. valid_registration nest hass stream key uris))
    \<and> (\<forall>key uris. valid_registration nest hass stream key uris \<longrightarrow>
        (\<exists>d cid. dcr_register_post nest hass iat issued stream = Inr (json_response (PDict d) 201 [])
           \<and> map_of d ''client_id'' = Some (PStr cid) \<and> client_redirect_uris nest key cid = Inr (Some uris)
           \<and> map_of d ''redirect_uris'' = Some (PList (map PStr uris))
           \<and> map_of d ''token_endpoint_auth_method'' = Some (PStr ''none'')
           \<and> map_of d ''response_types'' = Some (PList [PStr ''code''])))"
proof -
  have created: "\<exists>d cid. dcr_register_post nest hass iat issued stream = Inr (json_response (PDict d) 201 [])
      \<and> map_of d ''client_id'' = Some (PStr cid) \<and> client_redirect_uris nest key cid = Inr (Some uris)
      \<and> map_of d ''redirect_uris'' = Some (PList (map PStr uris))
      \<and> map_of d ''token_endpoint_auth_method'' = Some (PStr ''none'')
      \<and> map_of d ''response_types'' = Some (PList [PStr ''code''])"
    if v: "valid_registration nest hass stream key uris" for key uris
  proof -
    obtain raw body where "dcr_register_post nest hass iat issued stream
        = Inr (registration_response hass key iat issued body uris)"
      using valid_registration_cases [OF v] registration_created by metis
    then show ?thesis
      unfolding registration_response_def
      by (intro exI exI [of _ "mint_client_id key uris iat"] conjI, assumption)
        (simp_all add: client_redirect_uris_mint [OF assms])
  qed
  then show ?thesis using registered_valid by (fastforce simp: json_response_def)
qed

definition lab_dcr :: hass_data where
  "lab_dcr = \<lparr>d_domain = True, d_webhook = Some \<lparr>w_webhook_id = ''w'', w_target_url = ''t'', w_session = None,
       w_cimd_session = None, w_auth_mode = ''none'', w_resource_server = None, w_provider = None, w_dcr_key = Some ''k''\<rparr>,
     d_dcr_bound = True, d_autoapprove_bound = True, d_metadata_bound = True\<rparr>"

definition lab_registration :: bytes where
  "lab_registration = utf8_encode (json_compact (PDict [(''redirect_uris'', PList [PStr ''https://h/c''])]))"

theorem dcr_register_created_witness:
  "\<exists>d cid. dcr_register_post 2 lab_dcr 5 5 [lab_registration] = Inr (json_response (PDict d) 201 [])
     \<and> map_of d ''client_id'' = Some (PStr cid) \<and> client_redirect_uris 2 ''k'' cid = Inr (Some [''https://h/c''])"
proof -
  have "json_loads_bytes 2 lab_registration = Inr (PDict [(''redirect_uris'', PList [PStr ''https://h/c''])])"
    unfolding lab_registration_def by (intro json_loads_bytes_dumps) simp_all
  moreover have "is_valid_redirect_uri ''https://h/c''" by code_simp
  moreover have "read_capped_body [lab_registration] = Some lab_registration"
  proof -
    have "lab_registration \<noteq> []" "length lab_registration < 100" by code_simp+
    then show ?thesis using read_capped_concat [of "[lab_registration]" "max_dcr_body_bytes + 1" "[]"]
      by (simp add: read_capped_body_def Let_def max_dcr_body_bytes_def)
  qed
  ultimately have "valid_registration 2 lab_dcr [lab_registration] ''k'' [''https://h/c'']"
    by (simp add: valid_registration_def lab_dcr_def active_dcr_key_def webhook_cfg_of_def)
  with dcr_register_created [of 2 5 lab_dcr 5 "[lab_registration]"] sample_iat show ?thesis
    by (metis order_refl)
qed

text \<open>no request makes the registration view raise: malformed, oversized, too deeply nested
  and non-UTF-8 bodies all get a response.\<close>

theorem dcr_register_total:
  "(\<exists>r. dcr_register_post nest hass iat issued stream = Inr r \<and> r_status r \<in> {201, 400, 404})
     \<or> dcr_register_post nest hass iat issued stream = Inl OutOfModel"
proof (cases "dcr_register_post nest hass iat issued stream")
  case (Inl e)
  then show ?thesis using dcr_register_errors by blast
next
  case (Inr r)
  then have "r_status r \<in> {201, 400, 404}"
    by (auto simp: dcr_register_post_def dcr_error_def registration_response_def Let_def
        split: option.splits sum.splits if_splits pyval.splits)
  with Inr show ?thesis by blast
qed

text \<open>the URL form of an origin names it uniquely: two normalized origins have the same
  canonical URL only if scheme, host and port agree.\<close>

theorem canonical_origin_url_inj:
  assumes "normalized_origin u1 = Inr (Some o1)" "normalized_origin u2 = Inr (Some o2)"
  shows "canonical_origin_url o1 = canonical_origin_url o2 \<longleftrightarrow> o1 = o2"
  using canonical_origin_url_inject normalized_origin_ok [OF assms(1)] normalized_origin_ok [OF assms(2)]
  by blast

theorem canonical_origin_url_inj_witness:
  "canonical_origin_url (''https'', ''h.example'', 443) \<noteq> canonical_origin_url (''https'', ''i.example'', 443)"
proof -
  have "normalized_origin ''https://h.example/a'' = Inr (Some (''https'', ''h.example'', 443))"
    "normalized_origin ''https://I.example/b'' = Inr (Some (''https'', ''i.example'', 443))"
    by code_simp+
  from canonical_origin_url_inj [OF this] show ?thesis by simp
qed

end
