(* ===== verification/Cimd.thy ===== *)
theory Cimd
  imports Dcr "HOL-Library.Char_ord" "HOL-Library.List_Lexorder"
begin

text \<open>
  The client ID metadata documents of \<open>oauth_ha_auth.py\<close>: which client ids are fetched at all,
  the pinned resolution and fetch, the strict reader of a document, and the bounded cache of
  outcomes. The network is a parameter (\<open>cimd_env\<close>): what the resolver answers, what a server
  answers to one request, and whether the total deadline fires. The state is the module's cache
  and a log of the requests made, which the code does not keep and the theorems read.
\<close>

definition cimd_max_bytes :: nat where "cimd_max_bytes = 10 * 1024"
definition cimd_cache_ttl :: rat where "cimd_cache_ttl = 300"
definition cimd_negative_ttl :: rat where "cimd_negative_ttl = 60"
definition cimd_cache_max :: nat where "cimd_cache_max = 64"

text \<open>
  A server's answer: a transport failure, or a status and the chunks of its body, after which
  the stream may still break.
\<close>

datatype fetch_answer = NoAnswer | Answer nat "bytes list" bool

record cimd_env =
  e_nest :: nat \<comment> \<open>the nesting \<open>json.loads\<close> is allowed\<close>
  e_now :: rat \<comment> \<open>\<open>time.monotonic()\<close>\<close>
  e_getaddrinfo :: "string \<Rightarrow> nat \<Rightarrow> string list py"
  e_get :: "string \<Rightarrow> string \<Rightarrow> string \<Rightarrow> fetch_answer" \<comment> \<open>URL, Host header, TLS server name\<close>
  e_deadline :: "string \<Rightarrow> bool" \<comment> \<open>\<open>CIMD_TOTAL_LOOKUP_TIMEOUT\<close> fires\<close>

type_synonym cimd_cache = "(string \<times> rat \<times> string list option) list"

record cimd_state =
  s_cache :: cimd_cache
  s_requests :: "string list" \<comment> \<open>the URL of every request\<close>

section \<open>Which client ids are fetched\<close>

definition valid_cimd_client_id :: "string \<Rightarrow> bool" where
  "valid_cimd_client_id client_id =
     (case urlparse client_id of
        Inl _ \<Rightarrow> False
      | Inr parsed \<Rightarrow>
          (case url_port parsed of
             Inl _ \<Rightarrow> False
           | Inr _ \<Rightarrow>
               u_scheme parsed = ''https''
               \<and> url_hostname parsed \<noteq> None
               \<and> u_path parsed \<noteq> [] \<and> u_path parsed \<noteq> ''/''
               \<and> CHR ''#'' \<notin> set client_id
               \<and> url_username parsed = None \<and> url_password parsed = None
               \<and> \<not> list_ex (\<lambda>segment. segment = ''.'' \<or> segment = ''..'') (split_on (CHR ''/'') (u_path parsed))))"

section \<open>Resolution and the pinned fetch\<close>

definition resolve_public_addresses :: "cimd_env \<Rightarrow> string \<Rightarrow> nat \<Rightarrow> string list py" where
  "resolve_public_addresses env hostname port =
     (case e_getaddrinfo env hostname port of
        Inl e \<Rightarrow> if e \<in> {OSError, ValueError} then Inr [] else Inl e
      | Inr addresses \<Rightarrow>
          if list_all (\<lambda>a. case ip_address a of Some ip \<Rightarrow> ip_is_global ip | None \<Rightarrow> False) addresses
          then Inr (sort (remdups addresses)) else Inr [])"

definition pinned_url :: "url \<Rightarrow> string \<Rightarrow> string py" where
  "pinned_url parsed address =
     (let host = (if CHR '':'' \<in> set address then ''['' @ address @ '']'' else address) in
      py_bind (url_port parsed) (\<lambda>port.
        Inr (url_unparse (parsed\<lparr>u_netloc :=
          (case port of Some p \<Rightarrow> host @ '':'' @ show_nat p | None \<Rightarrow> host)\<rparr>))))"

fun read_cimd_chunks :: "bytes list \<Rightarrow> bytes \<Rightarrow> bytes option" where
  "read_cimd_chunks [] raw = Some raw"
| "read_cimd_chunks (c # cs) raw =
     (if cimd_max_bytes < length (raw @ c) then None else read_cimd_chunks cs (raw @ c))"

section \<open>Reading a document\<close>

definition secret_auth_methods :: "pyval list" where
  "secret_auth_methods =
     [PStr ''client_secret_basic'', PStr ''client_secret_jwt'', PStr ''client_secret_post'']"

definition cimd_uris :: "pyval \<Rightarrow> string list option" where
  "cimd_uris doc =
     (case pdict_get doc ''redirect_uris'' of
        Some (PList us) \<Rightarrow>
          (if us = [] then None
           else case str_items us of
             Some uris \<Rightarrow> if list_all is_valid_redirect_uri uris then Some uris else None
           | None \<Rightarrow> None)
      | _ \<Rightarrow> None)"

definition cimd_doc_ok :: "pyval \<Rightarrow> string \<Rightarrow> bool" where
  "cimd_doc_ok doc client_id \<longleftrightarrow>
     is_PDict doc
     \<and> pdict_get doc ''client_id'' = Some (PStr client_id)
     \<and> (case pdict_get doc ''client_name'' of Some (PStr n) \<Rightarrow> str_strip n \<noteq> [] | _ \<Rightarrow> False)
     \<and> pdict_get doc ''client_secret'' = None
     \<and> pdict_get doc ''client_secret_expires_at'' = None
     \<and> (case pdict_get doc ''token_endpoint_auth_method'' of
          Some m \<Rightarrow> m \<notin> set secret_auth_methods | None \<Rightarrow> True)"

definition parse_cimd :: "nat \<Rightarrow> bytes \<Rightarrow> string \<Rightarrow> string list option py" where
  "parse_cimd nest raw client_id =
     (case py_bind (utf8_decode raw) (json_loads False nest) of
        Inl e \<Rightarrow> if e \<in> {ValueError, RecursionError} then Inr None else Inl e
      | Inr doc \<Rightarrow> Inr (if cimd_doc_ok doc client_id then cimd_uris doc else None))"

definition fetch_pinned_cimd ::
  "cimd_env \<Rightarrow> string \<Rightarrow> url \<Rightarrow> string \<Rightarrow> cimd_state \<Rightarrow> (bool \<times> string list option) py \<times> cimd_state" where
  "fetch_pinned_cimd env client_id parsed address st =
     (case pinned_url parsed address of
        Inl e \<Rightarrow> (Inl e, st)
      | Inr url \<Rightarrow>
          ((case e_get env url (u_netloc parsed)
                 (case url_hostname parsed of Some h \<Rightarrow> h | None \<Rightarrow> []) of
              NoAnswer \<Rightarrow> Inr (False, None)
            | Answer status chunks broken \<Rightarrow>
                if status \<noteq> 200 then Inr (True, None)
                else (case read_cimd_chunks chunks [] of
                        None \<Rightarrow> Inr (True, None)
                      | Some raw \<Rightarrow>
                          if broken then Inr (False, None)
                          else py_bind (parse_cimd (e_nest env) raw client_id) (\<lambda>r. Inr (True, r)))),
           st\<lparr>s_requests := url # s_requests st\<rparr>))"

section \<open>The cache\<close>

fun evict_oldest :: "cimd_cache \<Rightarrow> cimd_cache" where
  "evict_oldest [] = []"
| "evict_oldest (e # c) = (if cimd_cache_max \<le> length (e # c) then evict_oldest c else e # c)"

definition cache_cimd :: "string \<Rightarrow> rat \<Rightarrow> string list option \<Rightarrow> cimd_cache \<Rightarrow> cimd_cache" where
  "cache_cimd client_id now result cache =
     (let c1 = dict_pop client_id cache;
          c2 = (if cimd_cache_max \<le> length c1 then filter (\<lambda>(_, expiry, _). \<not> expiry \<le> now) c1 else c1);
          c3 = evict_oldest c2
      in dict_set client_id
           (now + (if result \<noteq> None then cimd_cache_ttl else cimd_negative_ttl), result) c3)"

fun lookup_addresses ::
  "cimd_env \<Rightarrow> string \<Rightarrow> url \<Rightarrow> string list \<Rightarrow> cimd_state \<Rightarrow> string list option py \<times> cimd_state" where
  "lookup_addresses env client_id parsed [] st =
     (Inr None, st\<lparr>s_cache := cache_cimd client_id (e_now env) None (s_cache st)\<rparr>)"
| "lookup_addresses env client_id parsed (address # rest) st =
     (case fetch_pinned_cimd env client_id parsed address st of
        (Inl e, st') \<Rightarrow> (Inl e, st')
      | (Inr (reached, result), st') \<Rightarrow>
          if \<not> reached then lookup_addresses env client_id parsed rest st'
          else if result = None then (Inr None, st')
          else (Inr result, st'\<lparr>s_cache := cache_cimd client_id (e_now env) result (s_cache st')\<rparr>))"

definition lookup_cimd ::
  "cimd_env \<Rightarrow> string \<Rightarrow> url \<Rightarrow> cimd_state \<Rightarrow> string list option py \<times> cimd_state" where
  "lookup_cimd env client_id parsed st =
     (case py_bind (url_port parsed) (\<lambda>port.
             resolve_public_addresses env (case url_hostname parsed of Some h \<Rightarrow> h | None \<Rightarrow> [])
               (case port of Some p \<Rightarrow> if p = 0 then 443 else p | None \<Rightarrow> 443)) of
        Inl e \<Rightarrow> (Inl e, st)
      | Inr addresses \<Rightarrow> lookup_addresses env client_id parsed addresses st)"

text \<open>
  The deadline, when it fires, cancels the lookup: its own cache write is the only one. (The
  log then keeps every request the lookup could have made by that time.)
\<close>

definition lookup_under_deadline ::
  "cimd_env \<Rightarrow> string \<Rightarrow> url \<Rightarrow> cimd_state \<Rightarrow> string list option py \<times> cimd_state" where
  "lookup_under_deadline env client_id parsed st =
     (if e_deadline env client_id
      then (Inr None, (snd (lookup_cimd env client_id parsed st))
              \<lparr>s_cache := cache_cimd client_id (e_now env) None (s_cache st)\<rparr>)
      else lookup_cimd env client_id parsed st)"

definition fetch_cimd_redirects ::
  "cimd_env \<Rightarrow> string \<Rightarrow> cimd_state \<Rightarrow> string list option py \<times> cimd_state" where
  "fetch_cimd_redirects env client_id st =
     (if \<not> valid_cimd_client_id client_id then (Inr None, st)
      else case urlparse client_id of
        Inl e \<Rightarrow> (Inl e, st)
      | Inr parsed \<Rightarrow>
          (case url_hostname parsed of
             None \<Rightarrow> (Inl TypeError, st)
           | Some hostname \<Rightarrow>
               if is_loopback_host hostname then (Inr None, st)
               else if ip_address hostname \<noteq> None then (Inr None, st)
               else (case map_of (s_cache st) client_id of
                       Some (expiry, uris) \<Rightarrow>
                         if e_now env < expiry then (Inr uris, st)
                         else lookup_under_deadline env client_id parsed st
                     | None \<Rightarrow> lookup_under_deadline env client_id parsed st)))"

section \<open>The interface of the cache\<close>

text \<open>
  What the lookups rely on: a put is found again, other keys keep what they had or lose it, and
  the size never passes the bound.
\<close>

locale bounded_cache =
  fixes ok :: "'c \<Rightarrow> bool" and size_of :: "'c \<Rightarrow> nat" and get :: "'c \<Rightarrow> 'k \<Rightarrow> 'v option"
    and put :: "'k \<Rightarrow> 'v \<Rightarrow> 'c \<Rightarrow> 'c" and bound :: nat
  assumes put_ok: "ok c \<Longrightarrow> ok (put k v c)"
    and ok_bound: "ok c \<Longrightarrow> size_of c \<le> bound"
    and get_put: "get (put k v c) k = Some v"
    and get_other: "ok c \<Longrightarrow> k' \<noteq> k \<Longrightarrow> get (put k v c) k' \<in> {get c k', None}"
begin

definition all_values :: "('k \<Rightarrow> 'v \<Rightarrow> bool) \<Rightarrow> 'c \<Rightarrow> bool" where
  "all_values P c \<longleftrightarrow> (\<forall>k v. get c k = Some v \<longrightarrow> P k v)"

lemma all_values_put:
  assumes "ok c" "all_values P c" "P k v"
  shows "all_values P (put k v c)"
  unfolding all_values_def
proof (intro allI impI)
  fix k' v'
  assume g: "get (put k v c) k' = Some v'"
  then show "P k' v'"
    using assms get_put [of k v c] get_other [OF assms(1), of k' k v]
    by (cases "k' = k") (auto simp: all_values_def)
qed

end

definition cache_ok :: "cimd_cache \<Rightarrow> bool" where
  "cache_ok c \<longleftrightarrow> distinct (map fst c) \<and> length c \<le> cimd_cache_max"

lemma evict_oldest_shape: "\<exists>d. c = d @ evict_oldest c"
proof (induction c)
  case (Cons e c)
  then obtain d where "c = d @ evict_oldest c" by blast
  then have "cimd_cache_max \<le> length (e # c) \<Longrightarrow> e # c = (e # d) @ evict_oldest (e # c)" by simp
  moreover have "\<not> cimd_cache_max \<le> length (e # c) \<Longrightarrow> e # c = [] @ evict_oldest (e # c)" by simp
  ultimately show ?case by blast
qed simp

lemma evict_oldest_length: "length (evict_oldest c) < cimd_cache_max"
  by (induction c) (auto simp: cimd_cache_max_def)

lemma evict_oldest_distinct: "distinct (map fst c) \<Longrightarrow> distinct (map fst (evict_oldest c))"
  by (metis evict_oldest_shape map_append distinct_append)

lemma evict_oldest_get: "distinct (map fst c) \<Longrightarrow> map_of (evict_oldest c) k \<in> {map_of c k, None}"
proof -
  assume d: "distinct (map fst c)"
  obtain e where e: "c = e @ evict_oldest c" using evict_oldest_shape by blast
  show ?thesis
  proof (cases "map_of (evict_oldest c) k")
    case (Some v)
    then have "(k, v) \<in> set c" using e by (metis map_of_SomeD Un_iff set_append)
    then show ?thesis using Some d by simp
  qed simp
qed

lemma map_of_filter_sub: "distinct (map fst c) \<Longrightarrow> map_of (filter P c) k \<in> {map_of c k, None}"
proof (cases "map_of (filter P c) k")
  case (Some v)
  assume d: "distinct (map fst c)"
  from Some have "(k, v) \<in> set c" by (auto dest!: map_of_SomeD)
  then show ?thesis using Some d by simp
qed simp

lemma cache_cimd_ok: "cache_ok c \<Longrightarrow> cache_ok (cache_cimd k now r c)"
  by (auto simp: cache_ok_def cache_cimd_def Let_def distinct_dict_pop distinct_filter_keys
      evict_oldest_distinct distinct_dict_set evict_oldest_length Suc_leI
      intro!: le_trans [OF length_dict_set])

definition cache_entry :: "rat \<Rightarrow> string list option \<Rightarrow> rat \<times> string list option" where
  "cache_entry now r = (now + (if r \<noteq> None then cimd_cache_ttl else cimd_negative_ttl), r)"

lemma cache_cimd_get: "map_of (cache_cimd k now r c) k = Some (cache_entry now r)"
  by (simp add: cache_cimd_def Let_def cache_entry_def)

lemma cache_cimd_other:
  assumes "cache_ok c" "k' \<noteq> k"
  shows "map_of (cache_cimd k now r c) k' \<in> {map_of c k', None}"
proof -
  define c1 where "c1 = dict_pop k c"
  define c2 where "c2 = (if cimd_cache_max \<le> length c1 then filter (\<lambda>(_, expiry, _). \<not> expiry \<le> now) c1 else c1)"
  have d: "distinct (map fst c1)" "map_of c1 k' = map_of c k'"
    using assms by (simp_all add: c1_def cache_ok_def distinct_dict_pop)
  have e: "distinct (map fst c2)" "map_of c2 k' \<in> {map_of c k', None}"
    using d map_of_filter_sub [OF d(1), of "\<lambda>(_, expiry, _). \<not> expiry \<le> now" k']
    by (simp_all add: c2_def distinct_filter_keys)
  have "map_of (cache_cimd k now r c) k' = map_of (evict_oldest c2) k'"
    using assms(2) by (simp add: cache_cimd_def Let_def c1_def [symmetric] c2_def [symmetric])
  then show ?thesis using evict_oldest_get [OF e(1), of k'] e(2) by auto
qed

definition cache_put :: "string \<Rightarrow> rat \<times> string list option \<Rightarrow> cimd_cache \<Rightarrow> cimd_cache" where
  "cache_put k v c =
     cache_cimd k (fst v - (if snd v \<noteq> None then cimd_cache_ttl else cimd_negative_ttl)) (snd v) c"

interpretation cimd: bounded_cache cache_ok length "\<lambda>c k. map_of c k" cache_put cimd_cache_max
proof unfold_locales
  show "cache_ok c \<Longrightarrow> cache_ok (cache_put k v c)" for c k v
    by (simp only: cache_put_def cache_cimd_ok)
  show "cache_ok c \<Longrightarrow> length c \<le> cimd_cache_max" for c
    by (simp add: cache_ok_def)
  show "map_of (cache_put k v c) k = Some v" for k v c
    by (simp add: cache_put_def cache_cimd_get cache_entry_def)
  show "cache_ok c \<Longrightarrow> k' \<noteq> k \<Longrightarrow> map_of (cache_put k v c) k' \<in> {map_of c k', None}" for c k k' v
    unfolding cache_put_def by (rule cache_cimd_other)
qed

lemma cache_cimd_put: "cache_cimd k now r c = cache_put k (cache_entry now r) c"
  by (simp add: cache_put_def cache_entry_def)

text \<open>Every cached list is what a valid document can give: non-empty, of valid redirects.\<close>

definition uris_ok :: "string list option \<Rightarrow> bool" where
  "uris_ok r = (case r of None \<Rightarrow> True | Some us \<Rightarrow> us \<noteq> [] \<and> list_all is_valid_redirect_uri us)"

definition cache_valid :: "cimd_cache \<Rightarrow> bool" where
  "cache_valid c \<longleftrightarrow> (\<forall>k v. map_of c k = Some v \<longrightarrow> uris_ok (snd v))"

lemma cache_valid_put: "cache_ok c \<Longrightarrow> cache_valid c \<Longrightarrow> uris_ok r \<Longrightarrow> cache_valid (cache_cimd k now r c)"
  unfolding cache_valid_def
  using cimd.all_values_put [of c "\<lambda>_ v. uris_ok (snd v)" k "cache_entry now r"]
  by (simp add: cimd.all_values_def cache_cimd_put) (simp add: cache_entry_def)

section \<open>Facts on the lookups\<close>

lemma str_items_list_all: "str_items vs = Some us \<Longrightarrow> us = [] \<longleftrightarrow> vs = []"
  by (auto simp: str_items_Some)

lemma parse_cimd_ok: "parse_cimd nest raw cid = Inr r \<Longrightarrow> uris_ok r"
  by (auto simp: parse_cimd_def cimd_uris_def uris_ok_def str_items_Some
      split: sum.splits if_splits option.splits pyval.splits)

definition public_address :: "string \<Rightarrow> bool" where
  "public_address a = (case ip_address a of Some ip \<Rightarrow> ip_is_global ip | None \<Rightarrow> False)"

lemma resolve_public:
  "resolve_public_addresses env h p = Inr as \<Longrightarrow> list_all public_address as"
  by (auto simp: resolve_public_addresses_def public_address_def list_all_iff
      split: sum.splits if_splits)

text \<open>
  A request to a public address: the URL's authority is a globally routable address, in brackets
  when it has colons, with a port or none.
\<close>

definition asks_public :: "string \<Rightarrow> bool" where
  "asks_public url \<longleftrightarrow> (\<exists>address port rest. public_address address
     \<and> url = ''https://'' @ (if CHR '':'' \<in> set address then ''['' @ address @ '']'' else address) @ port @ ''/'' @ rest
     \<and> (port = [] \<or> (\<exists>n. port = '':'' @ show_nat n)))"

definition fetchable :: "url \<Rightarrow> bool" where
  "fetchable u \<longleftrightarrow> u_scheme u = ''https'' \<and> u_path u \<noteq> []"

lemma valid_fetchable: "valid_cimd_client_id cid \<Longrightarrow> urlparse cid = Inr u \<Longrightarrow> fetchable u"
  by (auto simp: valid_cimd_client_id_def fetchable_def split: sum.splits)

lemma pinned_public:
  assumes "pinned_url u a = Inr url" "fetchable u" "public_address a"
  shows "asks_public url"
proof -
  let ?host = "if CHR '':'' \<in> set a then ''['' @ a @ '']'' else a"
  obtain p where p: "url_port u = Inr p"
    and url: "url = url_unparse (u\<lparr>u_netloc := (case p of Some q \<Rightarrow> ?host @ '':'' @ show_nat q | None \<Rightarrow> ?host)\<rparr>)"
    using assms(1) by (auto simp: pinned_url_def Let_def py_iffs)
  define port where "port = (case p of Some q \<Rightarrow> '':'' @ show_nat q | None \<Rightarrow> [])"
  have n: "(case p of Some q \<Rightarrow> ?host @ '':'' @ show_nat q | None \<Rightarrow> ?host) = ?host @ port"
    by (simp add: port_def split: option.splits)
  define path where "path = u_path u @ (if u_params u = [] then [] else '';'' @ u_params u)"
  have "path \<noteq> []" using assms(2) by (simp add: path_def fetchable_def)
  then obtain rest where rest: "(if path \<noteq> [] \<and> \<not> startswith path ''/'' then ''/'' @ path else path) = ''/'' @ rest"
  proof (cases "startswith path ''/''")
    case True
    with that show thesis by (auto simp: startswith_iff)
  next
    case False
    with \<open>path \<noteq> []\<close> that show thesis by simp
  qed
  define tail where "tail = (if u_query u = [] then [] else ''?'' @ u_query u)
      @ (if u_fragment u = [] then [] else ''#'' @ u_fragment u)"
  have "url = ''https:'' @ ''//'' @ (?host @ port)
      @ (if path \<noteq> [] \<and> \<not> startswith path ''/'' then ''/'' @ path else path) @ tail"
    using assms(2) unfolding url n url_unparse_def path_def tail_def Let_def by (simp add: fetchable_def)
  then have "url = ''https://'' @ ?host @ port @ ''/'' @ rest @ tail" unfolding rest by simp
  moreover have "port = [] \<or> (\<exists>q. port = '':'' @ show_nat q)" by (auto simp: port_def split: option.splits)
  ultimately show ?thesis using assms(3) unfolding asks_public_def by blast
qed

lemma fetch_pinned_state:
  assumes "fetch_pinned_cimd env cid u a st = (res, st')"
  shows "s_cache st' = s_cache st"
    "set (s_requests st') \<subseteq> set (s_requests st) \<union> {url. pinned_url u a = Inr url}"
    "res = Inr (b, r) \<Longrightarrow> uris_ok r"
  using assms
  by (auto simp: fetch_pinned_cimd_def py_iffs parse_cimd_ok uris_ok_def
      split: sum.splits fetch_answer.splits if_splits option.splits dest: parse_cimd_ok)

text \<open>The state invariant: a bounded cache of valid outcomes, and requests to public addresses.\<close>

definition cimd_inv :: "cimd_state \<Rightarrow> bool" where
  "cimd_inv st \<longleftrightarrow> cache_ok (s_cache st) \<and> cache_valid (s_cache st)
     \<and> (\<forall>url \<in> set (s_requests st). asks_public url)"

lemma cimd_inv_cache:
  "cimd_inv st \<Longrightarrow> uris_ok r \<Longrightarrow> cimd_inv (st\<lparr>s_cache := cache_cimd k now r (s_cache st)\<rparr>)"
  by (simp add: cimd_inv_def cache_cimd_ok cache_valid_put)

lemma fetch_pinned_inv:
  assumes "fetch_pinned_cimd env cid u a st = (res, st')" "cimd_inv st" "public_address a" "fetchable u"
  shows "cimd_inv st'"
  using fetch_pinned_state(1,2) [OF assms(1)] assms(2) pinned_public [OF _ assms(4,3)]
  by (fastforce simp: cimd_inv_def)

lemma lookup_addresses_inv:
  assumes "list_all public_address as" "cimd_inv st" "fetchable u"
  shows "cimd_inv (snd (lookup_addresses env cid u as st))
    \<and> (\<forall>r. fst (lookup_addresses env cid u as st) = Inr r \<longrightarrow> uris_ok r)"
  using assms
proof (induction as arbitrary: st)
  case Nil
  have "uris_ok None" by (simp add: uris_ok_def)
  then show ?case using Nil by (simp add: cimd_inv_cache uris_ok_def)
next
  case (Cons a as)
  obtain res st' where f: "fetch_pinned_cimd env cid u a st = (res, st')" by fastforce
  have i: "cimd_inv st'" using fetch_pinned_inv [OF f] Cons.prems by simp
  show ?case
  proof (cases res)
    case (Inl e)
    then show ?thesis using f i by simp
  next
    case (Inr p)
    obtain b r where p: "p = (b, r)" by (cases p)
    have r: "uris_ok r" using fetch_pinned_state(3) [OF f] Inr p by blast
    have "cimd_inv (st'\<lparr>s_cache := cache_cimd cid (e_now env) r (s_cache st')\<rparr>)"
      using i r by (rule cimd_inv_cache)
    then show ?thesis using Cons f Inr p i r by (auto simp: uris_ok_def)
  qed
qed

lemma lookup_cimd_inv:
  assumes "cimd_inv st" "fetchable u"
  shows "cimd_inv (snd (lookup_cimd env cid u st))
    \<and> (\<forall>r. fst (lookup_cimd env cid u st) = Inr r \<longrightarrow> uris_ok r)"
  using assms lookup_addresses_inv resolve_public
  by (auto simp: lookup_cimd_def py_iffs split: sum.splits) blast+

lemma lookup_under_deadline_inv:
  assumes "cimd_inv st" "fetchable u"
  shows "cimd_inv (snd (lookup_under_deadline env cid u st))
    \<and> (\<forall>r. fst (lookup_under_deadline env cid u st) = Inr r \<longrightarrow> uris_ok r)"
proof (cases "e_deadline env cid")
  case True
  have n: "uris_ok None" by (simp add: uris_ok_def)
  have "cimd_inv (st\<lparr>s_cache := cache_cimd cid (e_now env) None (s_cache st)\<rparr>)"
    using assms(1) n by (rule cimd_inv_cache)
  moreover have "cimd_inv (snd (lookup_cimd env cid u st))" using lookup_cimd_inv [OF assms] by blast
  ultimately show ?thesis using True n by (simp add: lookup_under_deadline_def cimd_inv_def)
qed (use lookup_cimd_inv [OF assms] in \<open>simp add: lookup_under_deadline_def\<close>)

lemma fetch_cimd_inv:
  assumes "cimd_inv st"
  shows "cimd_inv (snd (fetch_cimd_redirects env cid st))"
    "fst (fetch_cimd_redirects env cid st) = Inr r \<Longrightarrow> uris_ok r"
proof -
  have c: "uris_ok r" if "map_of (s_cache st) cid = Some (x, r)" for x r
    using assms that by (auto simp: cimd_inv_def cache_valid_def)
  have l: "cimd_inv (snd (lookup_under_deadline env cid u st))
      \<and> (\<forall>r. fst (lookup_under_deadline env cid u st) = Inr r \<longrightarrow> uris_ok r)"
    if "valid_cimd_client_id cid" "urlparse cid = Inr u" for u
    using lookup_under_deadline_inv [OF assms valid_fetchable [OF that]] .
  show "cimd_inv (snd (fetch_cimd_redirects env cid st))"
    using assms l by (auto simp: fetch_cimd_redirects_def split: sum.splits option.splits)
  show "fst (fetch_cimd_redirects env cid st) = Inr r \<Longrightarrow> uris_ok r"
    using c l by (auto simp: fetch_cimd_redirects_def uris_ok_def [of None] split: sum.splits option.splits if_splits)
qed

section \<open>Properties of the document lookups\<close>

text \<open>C17: the state of the lookups stays sound whatever client id is presented and whatever the
  resolver and the servers answer: at most 64 cached outcomes, every cached or returned list is
  non-empty and of valid redirect URIs, and every request ever made asked for a URL with the scheme
  \<open>https\<close> whose authority is not a name but an address that parses as globally routable, with a
  port or none, so that no second resolution can lead it elsewhere.\<close>

theorem cimd_lookup_safe:
  assumes "length (s_cache st) \<le> cimd_cache_max" "distinct (map fst (s_cache st))"
    "cache_valid (s_cache st)" "\<forall>url \<in> set (s_requests st). asks_public url"
    "fetch_cimd_redirects env client_id st = (res, st')"
  shows "length (s_cache st') \<le> cimd_cache_max \<and> distinct (map fst (s_cache st'))
    \<and> cache_valid (s_cache st') \<and> (\<forall>url \<in> set (s_requests st'). asks_public url)
    \<and> (\<forall>us. res = Inr (Some us) \<longrightarrow> us \<noteq> [] \<and> list_all is_valid_redirect_uri us)"
proof -
  have i: "cimd_inv st" using assms(1-4) by (simp add: cimd_inv_def cache_ok_def)
  have "cimd_inv st'" using fetch_cimd_inv(1) [OF i, of env client_id] assms(5) by simp
  moreover have "uris_ok r" if "res = Inr r" for r
    using fetch_cimd_inv(2) [OF i, of env client_id r] assms(5) that by simp
  ultimately show ?thesis by (fastforce simp: cimd_inv_def cache_ok_def uris_ok_def)
qed

definition dark_env :: cimd_env where
  "dark_env = \<lparr>e_nest = 100, e_now = 0, e_getaddrinfo = (\<lambda>_ _. Inl OSError),
     e_get = (\<lambda>_ _ _. NoAnswer), e_deadline = (\<lambda>_. False)\<rparr>"

definition fresh_cimd :: cimd_state where
  "fresh_cimd = \<lparr>s_cache = [], s_requests = []\<rparr>"

text \<open>A resolver that answers, and a server that does not.\<close>

definition mute_env :: cimd_env where
  "mute_env = dark_env\<lparr>e_getaddrinfo := (\<lambda>_ _. Inr [''8.8.8.8''])\<rparr>"

theorem cimd_lookup_safe_witness:
  "s_requests (snd (fetch_cimd_redirects mute_env ''https://c.example/id'' fresh_cimd)) = [''https://8.8.8.8/id'']
   \<and> asks_public ''https://8.8.8.8/id''"
proof -
  have "s_requests (snd (fetch_cimd_redirects mute_env ''https://c.example/id'' fresh_cimd)) = [''https://8.8.8.8/id'']"
  proof -
    let ?u = "\<lparr>u_scheme = ''https'', u_netloc = ''c.example'', u_path = ''/id'', u_params = [], u_query = [], u_fragment = []\<rparr>"
    have "urlparse ''https://c.example/id'' = Inr ?u" "valid_cimd_client_id ''https://c.example/id''"
      "url_hostname ?u = Some ''c.example''" "url_port ?u = Inr None" "\<not> is_loopback_host ''c.example''"
      "ip_address ''c.example'' = None" "pinned_url ?u ''8.8.8.8'' = Inr ''https://8.8.8.8/id''"
      by code_simp+
    moreover have "public_address ''8.8.8.8''"
    proof -
      have "ipv4_parse ''8.8.8.8'' = Some 0x08080808"
        by (simp add: ipv4_parse_def ipv4_octet_def is_digit_def nat_of_digits_def digit_val_def startswith_def ord_def)
      then show ?thesis
        by (simp add: public_address_def ip_address_def ipv4_is_global_def ipv4_is_private_def in_net4_def)
    qed
    moreover from this have "resolve_public_addresses mute_env ''c.example'' 443 = Inr [''8.8.8.8'']"
      by (simp add: resolve_public_addresses_def mute_env_def public_address_def)
    ultimately show ?thesis
      by (simp add: fetch_cimd_redirects_def lookup_under_deadline_def lookup_cimd_def fetch_pinned_cimd_def
          mute_env_def dark_env_def fresh_cimd_def)
  qed
  with cimd_lookup_safe [of fresh_cimd mute_env "''https://c.example/id''"
      "fst (fetch_cimd_redirects mute_env ''https://c.example/id'' fresh_cimd)"
      "snd (fetch_cimd_redirects mute_env ''https://c.example/id'' fresh_cimd)"]
  show ?thesis by (simp add: fresh_cimd_def cache_valid_def)
qed

text \<open>a client id that is not an https URL with a path, or that carries a fragment,
  credentials, a dot segment or an IP literal or loopback host, causes no lookup at all.\<close>

theorem cimd_shape_floor:
  assumes "fetch_cimd_redirects env client_id st \<noteq> (Inr None, st)"
  shows "\<exists>u h. urlparse client_id = Inr u \<and> u_scheme u = ''https'' \<and> url_hostname u = Some h
    \<and> \<not> is_loopback_host h \<and> ip_address h = None \<and> u_path u \<notin> {[], ''/''}
    \<and> CHR ''#'' \<notin> set client_id \<and> url_username u = None \<and> url_password u = None
    \<and> (\<forall>seg \<in> set (split_on (CHR ''/'') (u_path u)). seg \<noteq> ''.'' \<and> seg \<noteq> ''..'')"
proof -
  have v: "valid_cimd_client_id client_id"
    using assms by (auto simp: fetch_cimd_redirects_def split: if_splits)
  then obtain u h where u: "urlparse client_id = Inr u" "url_hostname u = Some h"
    by (auto simp: valid_cimd_client_id_def split: sum.splits)
  moreover have "\<not> is_loopback_host h" "ip_address h = None"
    using assms v u by (auto simp: fetch_cimd_redirects_def split: if_splits)
  ultimately show ?thesis using v
    by (auto simp: valid_cimd_client_id_def list_ex_iff split: sum.splits)
qed

theorem cimd_shape_floor_witness:
  "\<exists>u h. urlparse ''https://c.example/id'' = Inr u \<and> url_hostname u = Some h \<and> \<not> is_loopback_host h"
proof -
  have "valid_cimd_client_id ''https://c.example/id''"
    "case urlparse ''https://c.example/id'' of
       Inr u \<Rightarrow> url_hostname u = Some ''c.example'' \<and> url_port u = Inr None | Inl _ \<Rightarrow> False"
    "\<not> is_loopback_host ''c.example''" "ip_address ''c.example'' = None"
    by code_simp+
  then have "s_cache (snd (fetch_cimd_redirects dark_env ''https://c.example/id'' fresh_cimd)) \<noteq> []"
    by (auto simp: fetch_cimd_redirects_def lookup_under_deadline_def lookup_cimd_def dark_env_def fresh_cimd_def
        resolve_public_addresses_def cache_cimd_def Let_def dict_pop_def cimd_cache_max_def
        split: sum.splits)
  then have "fetch_cimd_redirects dark_env ''https://c.example/id'' fresh_cimd \<noteq> (Inr None, fresh_cimd)"
    by (auto simp: fresh_cimd_def)
  from cimd_shape_floor [OF this] show ?thesis by blast
qed

text \<open>a document is accepted only if it is a JSON object naming the very client id, with a
  non-blank name, no client secret, no secret-based authentication method, and a non-empty list
  of redirect URIs that are all valid.\<close>

theorem cimd_document_rules:
  assumes "parse_cimd nest raw client_id = Inr (Some uris)"
  shows "\<exists>s d. utf8_decode raw = Inr s \<and> json_loads False nest s = Inr (PDict d)
    \<and> map_of d ''client_id'' = Some (PStr client_id)
    \<and> (\<exists>n. map_of d ''client_name'' = Some (PStr n) \<and> str_strip n \<noteq> [])
    \<and> map_of d ''client_secret'' = None \<and> map_of d ''client_secret_expires_at'' = None
    \<and> (\<forall>m. map_of d ''token_endpoint_auth_method'' = Some m \<longrightarrow> m \<notin> set secret_auth_methods)
    \<and> map_of d ''redirect_uris'' = Some (PList (map PStr uris))
    \<and> uris \<noteq> [] \<and> list_all is_valid_redirect_uri uris"
proof -
  obtain s doc where d: "utf8_decode raw = Inr s" "json_loads False nest s = Inr doc"
      "cimd_doc_ok doc client_id" "cimd_uris doc = Some uris"
    using assms by (auto simp: parse_cimd_def py_iffs split: sum.splits if_splits)
  then obtain d where doc: "doc = PDict d" by (cases doc) (auto simp: cimd_doc_ok_def is_PDict_def)
  then show ?thesis using d
    by (auto simp: cimd_doc_ok_def cimd_uris_def str_items_Some split: option.splits pyval.splits if_splits)
qed

definition sample_doc :: "(string \<times> pyval) list" where
  "sample_doc = [(''client_id'', PStr ''https://c.example/id''), (''client_name'', PStr ''C''),
     (''redirect_uris'', PList [PStr ''https://c.example/cb''])]"

lemma sample_redirect: "is_valid_redirect_uri ''https://c.example/cb''"
  by code_simp

lemma sample_doc_parse:
  "parse_cimd 2 (utf8_encode (json_compact (PDict sample_doc))) ''https://c.example/id''
     = Inr (Some [''https://c.example/cb''])"
proof -
  have "json_ok (PDict sample_doc)" "json_depth (PDict sample_doc) = 2" by (simp_all add: sample_doc_def)
  then have "json_loads False 2 (json_compact (PDict sample_doc)) = Inr (PDict sample_doc)"
    by (simp add: json_loads_compact)
  moreover have "str_strip ''C'' = ''C''" by code_simp
  ultimately show ?thesis
    by (simp add: parse_cimd_def cimd_doc_ok_def cimd_uris_def is_PDict_def)
      (simp add: sample_doc_def sample_redirect)
qed

theorem cimd_document_rules_witness:
  "list_all is_valid_redirect_uri [''https://c.example/cb'']"
  using cimd_document_rules [OF sample_doc_parse] by blast

text \<open>a server's definitive answer (a status other than 200, an oversized body or a document
  that fails a rule) ends the lookup without a list and is not cached, so a client that mends its
  document is served on its next request; no other address can override it.\<close>

theorem cimd_invalid_not_cached:
  assumes "fetch_pinned_cimd env client_id u a st = (Inr (True, None), st1)"
  shows "lookup_addresses env client_id u (a # rest) st = (Inr None, st1) \<and> s_cache st1 = s_cache st"
  using assms fetch_pinned_state(1) [OF assms] by simp

theorem cimd_invalid_not_cached_witness:
  "\<exists>st1. lookup_addresses (dark_env\<lparr>e_get := (\<lambda>_ _ _. Answer 404 [] False)\<rparr>) ''https://c.example/id''
     \<lparr>u_scheme = ''https'', u_netloc = ''c.example'', u_path = ''/id'', u_params = [], u_query = [], u_fragment = []\<rparr>
     [''8.8.8.8'', ''9.9.9.9''] fresh_cimd = (Inr None, st1) \<and> s_cache st1 = []"
proof -
  let ?u = "\<lparr>u_scheme = ''https'', u_netloc = ''c.example'', u_path = ''/id'', u_params = [], u_query = [], u_fragment = []\<rparr>"
  have "url_port ?u = Inr None" by code_simp
  then obtain w where "pinned_url ?u ''8.8.8.8'' = Inr w" by (simp add: pinned_url_def)
  then have "fetch_pinned_cimd (dark_env\<lparr>e_get := (\<lambda>_ _ _. Answer 404 [] False)\<rparr>) ''https://c.example/id'' ?u
      ''8.8.8.8'' fresh_cimd = (Inr (True, None), fresh_cimd\<lparr>s_requests := [w]\<rparr>)"
    by (simp add: fetch_pinned_cimd_def fresh_cimd_def)
  from cimd_invalid_not_cached [OF this] show ?thesis by (auto simp: fresh_cimd_def)
qed

end
