(* ===== verification/HaAuth.thy ===== *)
theory HaAuth
  imports Cimd
begin

text \<open>
  The rest of \<open>oauth_ha_auth.py\<close>: the translation of a client's identity into the one core
  accepts, the signed refresh envelope, revocation, the rewriting of core's token responses,
  and the re-derivation of a refresh identity for tokens older than the envelope.
\<close>

section \<open>Translation\<close>

definition origin_client_id :: "string \<Rightarrow> string py" where
  "origin_client_id redirect_uri =
     py_bind (normalized_origin redirect_uri) (\<lambda>origin.
       case origin of
         None \<Rightarrow> py_bind (urlparse redirect_uri) (\<lambda>parsed. Inr (u_scheme parsed @ ''://'' @ u_netloc parsed))
       | Some o' \<Rightarrow> Inr (canonical_origin_url o'))"

definition loopback_same :: "url \<Rightarrow> url \<Rightarrow> bool" where
  "loopback_same reg req \<longleftrightarrow>
     u_scheme reg = u_scheme req
     \<and> (case url_hostname reg of None \<Rightarrow> False | Some h \<Rightarrow> is_loopback_host h)
     \<and> url_hostname reg = url_hostname req
     \<and> u_path reg = u_path req \<and> u_params reg = u_params req \<and> u_query reg = u_query req"

fun any_loopback_same :: "string list \<Rightarrow> url \<Rightarrow> bool py" where
  "any_loopback_same [] req = Inr False"
| "any_loopback_same (entry # entries) req =
     py_bind (urlparse entry) (\<lambda>reg.
       if loopback_same reg req then Inr True else any_loopback_same entries req)"

definition redirect_matches :: "string list \<Rightarrow> string \<Rightarrow> bool py" where
  "redirect_matches registered redirect_uri =
     (if redirect_uri \<in> set registered then Inr True
      else py_bind (urlparse redirect_uri) (\<lambda>req.
        case url_hostname req of
          None \<Rightarrow> Inr False
        | Some h \<Rightarrow> if is_loopback_host h then any_loopback_same registered req else Inr False))"

fun web_origin_urls :: "string list \<Rightarrow> string set py" where
  "web_origin_urls [] = Inr {}"
| "web_origin_urls (uri # uris) =
     py_bind (urlparse uri) (\<lambda>parsed.
       if (case url_hostname parsed of None \<Rightarrow> True | Some h \<Rightarrow> is_loopback_host h)
       then web_origin_urls uris
       else py_bind (normalized_origin uri) (\<lambda>origin.
            py_bind (web_origin_urls uris) (\<lambda>os.
              Inr (case origin of Some o' \<Rightarrow> insert (canonical_origin_url o') os | None \<Rightarrow> os))))"

text \<open>\<open>origins.pop()\<close> of a set with one element is that element.\<close>

definition stable_translation_origin :: "string list \<Rightarrow> string option py" where
  "stable_translation_origin registered =
     py_bind (web_origin_urls registered) (\<lambda>origins.
       Inr (if card origins = 1 then Some (Min origins) else None))"

definition translation_for :: "string list \<Rightarrow> string \<Rightarrow> string \<Rightarrow> string py" where
  "translation_for registered client_id redirect_uri =
     py_bind (redirect_matches registered redirect_uri) (\<lambda>m.
       if m then origin_client_id redirect_uri else Inr client_id)"

definition same_origin :: "url \<Rightarrow> url \<Rightarrow> bool" where
  "same_origin a b \<longleftrightarrow> u_scheme a = u_scheme b \<and> str_lower (u_netloc a) = str_lower (u_netloc b)"

definition translate_cimd ::
  "cimd_env \<Rightarrow> bool \<Rightarrow> url \<Rightarrow> string \<Rightarrow> string \<Rightarrow> cimd_state \<Rightarrow> string py \<times> cimd_state" where
  "translate_cimd env session parsed_client client_id redirect_uri st =
     (if u_scheme parsed_client = ''https'' \<and> session then
        (case fetch_cimd_redirects env client_id st of
           (Inl e, st') \<Rightarrow> (Inl e, st')
         | (Inr None, st') \<Rightarrow> (Inr client_id, st')
         | (Inr (Some registered), st') \<Rightarrow> (translation_for registered client_id redirect_uri, st'))
      else (Inr client_id, st))"

definition resolve_forward_client_id ::
  "cimd_env \<Rightarrow> bool \<Rightarrow> bytes option \<Rightarrow> string \<Rightarrow> string \<Rightarrow> cimd_state \<Rightarrow> string py \<times> cimd_state" where
  "resolve_forward_client_id env session dcr_key client_id redirect_uri st =
     (if client_id = [] \<or> \<not> is_valid_redirect_uri redirect_uri then (Inr client_id, st)
      else case (urlparse client_id, urlparse redirect_uri) of
        (Inr parsed_client, Inr parsed_redirect) \<Rightarrow>
          (if (u_scheme parsed_client = ''http'' \<or> u_scheme parsed_client = ''https'')
              \<and> same_origin parsed_client parsed_redirect
           then (Inr client_id, st)
           else (case (case dcr_key of
                         None \<Rightarrow> Inr None
                       | Some key \<Rightarrow> client_redirect_uris (e_nest env) key client_id) of
                   Inl e \<Rightarrow> (Inl e, st)
                 | Inr (Some registered) \<Rightarrow> (translation_for registered client_id redirect_uri, st)
                 | Inr None \<Rightarrow> translate_cimd env session parsed_client client_id redirect_uri st))
      | _ \<Rightarrow> (Inr client_id, st))"

section \<open>The refresh envelope\<close>

definition refresh_envelope_prefix :: string where
  "refresh_envelope_prefix = ''espmcp-rt-''"

definition presented_client_hash :: "string \<Rightarrow> string" where
  "presented_client_hash client_id = b64url_encode (sha256 (utf8_encode client_id))"

definition envelope_payload :: "string \<Rightarrow> string \<Rightarrow> string \<Rightarrow> pyval" where
  "envelope_payload core_refresh_token forward_client_id presented_client_id =
     PDict [(''v'', PInt 1), (''t'', PStr core_refresh_token), (''c'', PStr forward_client_id),
            (''p'', PStr (presented_client_hash presented_client_id))]"

text \<open>The MAC covers the prefix too.\<close>

definition wrap_refresh_token :: "bytes \<Rightarrow> string \<Rightarrow> string \<Rightarrow> string \<Rightarrow> string" where
  "wrap_refresh_token signing_key core_refresh_token forward_client_id presented_client_id =
     refresh_envelope_prefix @ blob_text signing_key refresh_envelope_prefix
       (envelope_payload core_refresh_token forward_client_id presented_client_id)"

datatype unwrap_result = Unwrapped string string | EnvAbsent | EnvInvalid

text \<open>\<open>payload.get("v") == 1\<close>: \<open>True == 1\<close> in Python; a float version is outside the model.\<close>

definition version_is_one :: "pyval option \<Rightarrow> bool py" where
  "version_is_one v =
     (case v of
        Some (PInt i) \<Rightarrow> Inr (i = 1)
      | Some (PBool b) \<Rightarrow> Inr b
      | Some (PFloat _) \<Rightarrow> Inl OutOfModel
      | _ \<Rightarrow> Inr False)"

definition unwrap_payload :: "pyval \<Rightarrow> string option \<Rightarrow> unwrap_result py" where
  "unwrap_payload payload presented_client_id =
     (if \<not> is_PDict payload then Inr EnvInvalid
      else py_bind (version_is_one (pdict_get payload ''v'')) (\<lambda>one.
        if \<not> one then Inr EnvInvalid
        else case (pdict_get payload ''t'', pdict_get payload ''c'', pdict_get payload ''p'') of
          (Some (PStr core_refresh_token), Some (PStr forward_client_id), Some (PStr presenter)) \<Rightarrow>
            (case presented_client_id of
               None \<Rightarrow> Inr (Unwrapped core_refresh_token forward_client_id)
             | Some presented \<Rightarrow>
                 py_bind (compare_digest_str presenter (presented_client_hash presented)) (\<lambda>same.
                   Inr (if same then Unwrapped core_refresh_token forward_client_id else EnvInvalid)))
        | _ \<Rightarrow> Inr EnvInvalid))"

definition unwrap_refresh_token ::
  "nat \<Rightarrow> bytes \<Rightarrow> string \<Rightarrow> string option \<Rightarrow> unwrap_result py" where
  "unwrap_refresh_token nest signing_key token presented_client_id =
     (if \<not> startswith token refresh_envelope_prefix then Inr EnvAbsent
      else py_bind
        (verified_payload nest signing_key refresh_envelope_prefix (drop (length refresh_envelope_prefix) token))
        (\<lambda>payload. case payload of
           None \<Rightarrow> Inr EnvInvalid
         | Some v \<Rightarrow> unwrap_payload v presented_client_id))"

section \<open>Revocation\<close>

definition max_revoke_envelope_len :: nat where "max_revoke_envelope_len = 4096"

definition unverified_core_token :: "nat \<Rightarrow> string \<Rightarrow> string option py" where
  "unverified_core_token nest token =
     (if max_revoke_envelope_len < length token then Inr None
      else case rpartition_at (CHR ''.'') (drop (length refresh_envelope_prefix) token) of
        (body, sep, _) \<Rightarrow>
          if \<not> sep \<or> body = [] then Inr None
          else py_except
            (py_bind (py_bind (b64url_decode body) (json_loads_bytes nest)) (\<lambda>payload.
               Inr (case pdict_get payload ''t'' of Some (PStr t) \<Rightarrow> Some t | _ \<Rightarrow> None)))
            [ValueError, RecursionError] (Inr None))"

text \<open>The flag is \<open>_revoke_rotation_warned\<close>, which only chooses the level of a log line.\<close>

definition core_token_for_revocation ::
  "nat \<Rightarrow> bytes option \<Rightarrow> string \<Rightarrow> bool \<Rightarrow> string option py \<times> bool" where
  "core_token_for_revocation nest signing_key token warned =
     (case signing_key of
        None \<Rightarrow> (Inr None, warned)
      | Some key \<Rightarrow>
          (if \<not> startswith token refresh_envelope_prefix then (Inr None, warned)
           else case unwrap_refresh_token nest key token None of
             Inl e \<Rightarrow> (Inl e, warned)
           | Inr (Unwrapped core_refresh_token _) \<Rightarrow> (Inr (Some core_refresh_token), warned)
           | Inr _ \<Rightarrow>
               (case unverified_core_token nest token of
                  Inr (Some t) \<Rightarrow> (Inr (Some t), True)
                | r \<Rightarrow> (r, warned))))"

section \<open>Rewriting core's token response\<close>

fun has_float :: "pyval \<Rightarrow> bool" where
  "has_float (PFloat _) = True"
| "has_float (PList vs) = list_ex has_float vs"
| "has_float (PDict d) = list_ex (\<lambda>p. has_float (snd p)) d"
| "has_float _ = False"

text \<open>A float is printed by \<open>repr\<close>, which the model has only the literal of.\<close>

definition compact_dumps :: "pyval \<Rightarrow> string py" where
  "compact_dumps v = (if has_float v then Inl OutOfModel else Inr (json_compact v))"

definition rewrite_token_response_body ::
  "nat \<Rightarrow> bytes \<Rightarrow> bytes \<Rightarrow> string \<Rightarrow> string \<Rightarrow> bytes py" where
  "rewrite_token_response_body nest signing_key body forward_client_id presented_client_id =
     (case json_loads_bytes nest body of
        Inl e \<Rightarrow> if e \<in> {ValueError, RecursionError} then Inr body else Inl e
      | Inr parsed \<Rightarrow>
          (case parsed of
             PDict d \<Rightarrow>
               (case map_of d ''refresh_token'' of
                  Some (PStr core_refresh_token) \<Rightarrow>
                    py_bind (compact_dumps (PDict (dict_set ''refresh_token''
                        (PStr (wrap_refresh_token signing_key core_refresh_token forward_client_id
                                 presented_client_id)) d)))
                      (\<lambda>s. Inr (utf8_encode s))
                | _ \<Rightarrow> Inr body)
           | _ \<Rightarrow> Inr body))"

section \<open>Refresh identities older than the envelope\<close>

datatype refresh_identity = Passthrough | Unreproducible | TranslatedTo string

definition stable_origin_or_unreproducible :: "string list \<Rightarrow> refresh_identity py" where
  "stable_origin_or_unreproducible registered =
     py_bind (stable_translation_origin registered) (\<lambda>stable.
       Inr (case stable of None \<Rightarrow> Unreproducible | Some s \<Rightarrow> TranslatedTo s))"

fun origin_matches :: "url \<Rightarrow> string list \<Rightarrow> bool list py" where
  "origin_matches client [] = Inr []"
| "origin_matches client (uri # uris) =
     py_bind (urlparse uri) (\<lambda>parsed.
     py_bind (origin_matches client uris) (\<lambda>ms. Inr (same_origin parsed client # ms)))"

definition registered_refresh_identity :: "string list \<Rightarrow> string \<Rightarrow> refresh_identity py" where
  "registered_refresh_identity registered client_id =
     py_bind (refresh_identity_is_reproducible registered) (\<lambda>reproducible.
       if \<not> reproducible then Inr Unreproducible
       else case urlparse client_id of
         Inl _ \<Rightarrow> Inr Passthrough
       | Inr parsed \<Rightarrow>
           py_bind (origin_matches parsed registered) (\<lambda>matched.
             if list_all id matched then Inr Passthrough
             else if list_ex id matched then Inr Unreproducible
             else stable_origin_or_unreproducible registered))"

definition refresh_identity_of :: "string list option \<Rightarrow> string \<Rightarrow> refresh_identity py" where
  "refresh_identity_of registered client_id =
     (case registered of
        None \<Rightarrow> Inr Passthrough
      | Some us \<Rightarrow> if us = [] then Inr Passthrough else registered_refresh_identity us client_id)"

definition translated_client_id_for_refresh ::
  "cimd_env \<Rightarrow> bool \<Rightarrow> bytes option \<Rightarrow> string \<Rightarrow> cimd_state \<Rightarrow> refresh_identity py \<times> cimd_state" where
  "translated_client_id_for_refresh env session dcr_key client_id st =
     (case (case dcr_key of
              None \<Rightarrow> Inr None
            | Some key \<Rightarrow> client_redirect_uris (e_nest env) key client_id) of
        Inl e \<Rightarrow> (Inl e, st)
      | Inr (Some registered) \<Rightarrow> (refresh_identity_of (Some registered) client_id, st)
      | Inr None \<Rightarrow>
          (case urlparse client_id of
             Inl _ \<Rightarrow> (Inr Passthrough, st)
           | Inr parsed \<Rightarrow>
               (if u_scheme parsed = ''https'' \<and> session then
                  (case fetch_cimd_redirects env client_id st of
                     (Inl e, st') \<Rightarrow> (Inl e, st')
                   | (Inr registered, st') \<Rightarrow> (refresh_identity_of registered client_id, st'))
                else (Inr Passthrough, st))))"

section \<open>Where core is reached\<close>

text \<open>
  \<open>api\<close> is \<open>hass.config.api\<close> (TLS flag and port) and \<open>url\<close> what \<open>get_url\<close> answers, \<open>None\<close> for
  \<open>NoURLAvailableError\<close>. The request is not an argument.
\<close>

definition core_token_base_url :: "(bool \<times> nat) option \<Rightarrow> string option \<Rightarrow> string" where
  "core_token_base_url api url =
     (case api of
        Some (False, port) \<Rightarrow> ''http://127.0.0.1:'' @ show_nat port
      | _ \<Rightarrow>
          (case url of
             Some u \<Rightarrow> rstrip_by (\<lambda>c. c = CHR ''/'') u
           | None \<Rightarrow> ''https://127.0.0.1:'' @ show_nat (case api of Some (_, port) \<Rightarrow> port | None \<Rightarrow> 8123)))"

section \<open>Facts on the envelope\<close>

lemma prefix_ascii [simp]: "str_isascii refresh_envelope_prefix"
  by (simp add: refresh_envelope_prefix_def is_ascii_char_def ord_def)

lemma envelope_payload_json: "json_ok (envelope_payload t c p)" "json_depth (envelope_payload t c p) = 1"
  by (simp_all add: envelope_payload_def max_int_digits_def show_nat.simps [of "Suc 0"])

lemma presented_client_hash_ascii [simp]: "str_isascii (presented_client_hash c)"
  by (simp add: presented_client_hash_def)

lemma unwrap_payload_envelope:
  "unwrap_payload (envelope_payload t c p) q =
     Inr (if q = None \<or> presented_client_hash p = presented_client_hash (the q)
          then Unwrapped t c else EnvInvalid)"
  by (auto simp: unwrap_payload_def envelope_payload_def is_PDict_def version_is_one_def
      compare_digest_str_def split: option.splits)

lemma startswith_wrap [simp]: "startswith (wrap_refresh_token k t c p) refresh_envelope_prefix"
  by (simp add: wrap_refresh_token_def)

lemma drop_wrap: "drop (length refresh_envelope_prefix) (wrap_refresh_token k t c p)
    = blob_text k refresh_envelope_prefix (envelope_payload t c p)"
  by (simp add: wrap_refresh_token_def)

lemma unwrap_wrap:
  assumes "1 \<le> nest"
  shows "unwrap_refresh_token nest k (wrap_refresh_token k t c p) q =
     Inr (if q = None \<or> presented_client_hash p = presented_client_hash (the q)
          then Unwrapped t c else EnvInvalid)"
  using assms
  by (simp add: unwrap_refresh_token_def drop_wrap verified_payload_blob envelope_payload_json
      unwrap_payload_envelope)

text \<open>Under another key the same body is read, or nothing.\<close>

lemma verified_payload_other_key:
  assumes "json_ok v" "json_depth v \<le> nest" "str_isascii mp"
  shows "verified_payload nest k' mp (blob_text k mp v) \<in> {Inr None, Inr (Some v)}"
  using assms blob_body_not_Nil [OF assms(1)]
  by (simp add: verified_payload_def rpartition_blob ascii_encode_def)
    (simp add: blob_body_def json_loads_bytes_dumps)

lemma unwrap_wrap_other_key:
  assumes "1 \<le> nest"
  shows "unwrap_refresh_token nest k' (wrap_refresh_token k t c p) None \<in> {Inr (Unwrapped t c), Inr EnvInvalid}"
proof -
  have "verified_payload nest k' refresh_envelope_prefix
      (blob_text k refresh_envelope_prefix (envelope_payload t c p)) \<in> {Inr None, Inr (Some (envelope_payload t c p))}"
    using assms by (intro verified_payload_other_key) (simp_all add: envelope_payload_json)
  then show ?thesis
    by (auto simp: unwrap_refresh_token_def drop_wrap unwrap_payload_envelope)
qed

definition envelope_signed :: "string \<Rightarrow> bytes \<times> bytes py" where
  "envelope_signed token =
     blob_signed refresh_envelope_prefix (drop (length refresh_envelope_prefix) token)"

lemma unwrap_signed:
  assumes "unwrap_refresh_token nest k token q \<notin> {Inr EnvAbsent, Inr EnvInvalid}"
  shows "startswith token refresh_envelope_prefix
    \<and> snd (envelope_signed token) = Inr (hmac_sha256 k (fst (envelope_signed token)))"
proof -
  have s: "startswith token refresh_envelope_prefix"
    using assms by (auto simp: unwrap_refresh_token_def split: if_splits)
  have "verified_payload nest k refresh_envelope_prefix (drop (length refresh_envelope_prefix) token) \<noteq> Inr None"
    using assms s by (auto simp: unwrap_refresh_token_def)
  from verified_payload_signed [OF this] s show ?thesis by (simp add: envelope_signed_def)
qed

definition envelope_seal :: "bytes \<Rightarrow> string \<times> string \<Rightarrow> string" where
  "envelope_seal k x = wrap_refresh_token k (fst x) (snd x) []"

definition envelope_unseal :: "bytes \<Rightarrow> string \<Rightarrow> (string \<times> string) option" where
  "envelope_unseal k s = (case unwrap_refresh_token 1 k s None of Inr (Unwrapped t c) \<Rightarrow> Some (t, c) | _ \<Rightarrow> None)"

interpretation envelope: sealed_values "\<lambda>_. True" envelope_seal envelope_unseal envelope_signed hmac_sha256
proof unfold_locales
  show "envelope_unseal k (envelope_seal k x) = Some x" for k x
    by (simp add: envelope_unseal_def envelope_seal_def unwrap_wrap)
  show "snd (envelope_signed s) = Inr (hmac_sha256 k (fst (envelope_signed s)))"
    if "envelope_unseal k s = Some x" for k s x
    using that unwrap_signed [of 1 k s None]
    by (auto simp: envelope_unseal_def split: sum.splits unwrap_result.splits)
  show "snd (envelope_signed (envelope_seal k x)) = Inr (hmac_sha256 k (fst (envelope_signed (envelope_seal k x))))"
    for k x
    by (simp add: envelope_signed_def envelope_seal_def drop_wrap blob_signed_blob)
qed

lemma envelope_signed_wrap:
  "envelope_signed (wrap_refresh_token k t c p) =
     (refresh_envelope_prefix @ blob_body (envelope_payload t c p),
      Inr (hmac_sha256 k (refresh_envelope_prefix @ blob_body (envelope_payload t c p))))"
  by (simp add: envelope_signed_def drop_wrap blob_signed_blob)

lemma unverified_core_token_wrap:
  assumes "1 \<le> nest" "length (wrap_refresh_token k t c p) \<le> max_revoke_envelope_len"
  shows "unverified_core_token nest (wrap_refresh_token k t c p) = Inr (Some t)"
  using assms blob_body_not_Nil [OF envelope_payload_json(1), of t c p]
  by (simp add: unverified_core_token_def drop_wrap rpartition_blob)
    (simp add: blob_body_def json_loads_bytes_dumps envelope_payload_json, simp add: envelope_payload_def)

lemma core_token_for_revocation_wrap:
  assumes "1 \<le> nest" "length (wrap_refresh_token k t c p) \<le> max_revoke_envelope_len"
  shows "fst (core_token_for_revocation nest (Some k') (wrap_refresh_token k t c p) w) = Inr (Some t)"
  using unwrap_wrap_other_key [OF assms(1), of k' k t c p] unverified_core_token_wrap [OF assms]
  by (auto simp: core_token_for_revocation_def)

section \<open>Facts on valid redirects\<close>

lemma normalized_origin_valid:
  assumes "is_valid_redirect_uri r"
  shows "\<exists>ori. normalized_origin r = Inr (Some ori)"
  using assms by (rule is_valid_redirect_uriE) (auto simp: normalized_origin_def)

definition origin_of :: "string \<Rightarrow> origin" where
  "origin_of r = (case normalized_origin r of Inr (Some ori) \<Rightarrow> ori | _ \<Rightarrow> ([], [], 0))"

lemma normalized_origin_of: "is_valid_redirect_uri r \<Longrightarrow> normalized_origin r = Inr (Some (origin_of r))"
  using normalized_origin_valid [of r] by (auto simp: origin_of_def)

definition url_of :: "string \<Rightarrow> url" where
  "url_of r = (case urlparse r of Inr u \<Rightarrow> u
     | Inl _ \<Rightarrow> \<lparr>u_scheme = [], u_netloc = [], u_path = [], u_params = [], u_query = [], u_fragment = []\<rparr>)"

lemma urlparse_valid: "is_valid_redirect_uri r \<Longrightarrow> urlparse r = Inr (url_of r)"
  by (rule is_valid_redirect_uriE) (auto simp: url_of_def)

definition loopback_uri :: "string \<Rightarrow> bool" where
  "loopback_uri r = (case url_hostname (url_of r) of None \<Rightarrow> True | Some h \<Rightarrow> is_loopback_host h)"

lemma non_loopback_origins_valid:
  "list_all is_valid_redirect_uri rs \<Longrightarrow>
     non_loopback_origins rs = Inr (origin_of ` {r \<in> set rs. \<not> loopback_uri r})"
proof (induction rs)
  case (Cons r rs)
  then have "{x \<in> set (r # rs). \<not> loopback_uri x} =
      (if loopback_uri r then {x \<in> set rs. \<not> loopback_uri x} else insert r {x \<in> set rs. \<not> loopback_uri x})"
    by auto
  then show ?case using Cons
    by (simp add: urlparse_valid normalized_origin_of loopback_uri_def)
qed simp

lemma web_origin_urls_valid:
  "list_all is_valid_redirect_uri rs \<Longrightarrow>
     web_origin_urls rs = Inr (canonical_origin_url ` origin_of ` {r \<in> set rs. \<not> loopback_uri r})"
proof (induction rs)
  case (Cons r rs)
  then have "{x \<in> set (r # rs). \<not> loopback_uri x} =
      (if loopback_uri r then {x \<in> set rs. \<not> loopback_uri x} else insert r {x \<in> set rs. \<not> loopback_uri x})"
    by auto
  then show ?case using Cons
    by (simp add: urlparse_valid normalized_origin_of loopback_uri_def)
qed simp

lemma any_loopback_valid:
  "list_all is_valid_redirect_uri rs \<Longrightarrow> any_loopback rs = Inr (list_ex loopback_uri rs)"
  by (induction rs) (simp_all add: urlparse_valid loopback_uri_def)

lemma reproducible_valid:
  assumes "list_all is_valid_redirect_uri rs"
  shows "refresh_identity_is_reproducible rs =
    Inr (\<not> list_ex loopback_uri rs \<and> card (origin_of ` set rs) = 1)"
proof -
  have "{r \<in> set rs. \<not> loopback_uri r} = set rs" if "\<not> list_ex loopback_uri rs"
    using that by (auto simp: list_ex_iff)
  then show ?thesis
    using assms by (auto simp: refresh_identity_is_reproducible_def non_loopback_origins_valid any_loopback_valid)
qed

lemma origin_matches_valid:
  "list_all is_valid_redirect_uri rs \<Longrightarrow>
     origin_matches c rs = Inr (map (\<lambda>r. same_origin (url_of r) c) rs)"
  by (induction rs) (simp_all add: urlparse_valid)

lemma origin_client_id_valid:
  "is_valid_redirect_uri r \<Longrightarrow> origin_client_id r = Inr (canonical_origin_url (origin_of r))"
  by (simp add: origin_client_id_def normalized_origin_of)

lemma any_loopback_same_valid:
  "list_all is_valid_redirect_uri rs \<Longrightarrow>
     any_loopback_same rs req = Inr (\<exists>e \<in> set rs. loopback_same (url_of e) req)"
  by (induction rs) (simp_all add: urlparse_valid)

lemma redirect_matches_valid:
  assumes "list_all is_valid_redirect_uri rs" "is_valid_redirect_uri r"
  shows "redirect_matches rs r =
    Inr (r \<in> set rs \<or> loopback_uri r \<and> (\<exists>e \<in> set rs. loopback_same (url_of e) (url_of r)))"
proof -
  obtain u p h where "urlparse r = Inr u" "url_hostname u = Some h"
    using assms(2) by (rule is_valid_redirect_uriE)
  then show ?thesis using assms
    by (simp add: redirect_matches_def any_loopback_same_valid loopback_uri_def url_of_def)
qed

lemma translation_for_valid:
  assumes "list_all is_valid_redirect_uri rs" "is_valid_redirect_uri r"
  shows "\<exists>f. translation_for rs c r = Inr f"
  using assms by (auto simp: translation_for_def redirect_matches_valid origin_client_id_valid)

lemma translation_for_member:
  "is_valid_redirect_uri r \<Longrightarrow> r \<in> set rs \<Longrightarrow>
     translation_for rs c r = Inr (canonical_origin_url (origin_of r))"
  by (simp add: translation_for_def redirect_matches_def origin_client_id_valid)

lemma scheme_valid: "is_valid_redirect_uri r \<Longrightarrow> u_scheme (url_of r) \<in> {''http'', ''https''}"
  by (erule is_valid_redirect_uriE) (auto simp: url_of_def)

section \<open>What the refresh leg derives is what the other legs presented\<close>

lemma stable_origin_valid:
  assumes "list_all is_valid_redirect_uri rs" "\<not> list_ex loopback_uri rs" "card (origin_of ` set rs) = 1"
    and "r \<in> set rs"
  shows "stable_origin_or_unreproducible rs = Inr (TranslatedTo (canonical_origin_url (origin_of r)))"
proof -
  have s: "{r \<in> set rs. \<not> loopback_uri r} = set rs" using assms(2) by (auto simp: list_ex_iff)
  obtain ori where o: "origin_of ` set rs = {ori}" using assms(3) by (auto simp: card_1_singleton_iff)
  then have "origin_of r = ori" using assms(4) by auto
  then show ?thesis
    using assms(1) by (simp add: stable_origin_or_unreproducible_def stable_translation_origin_def
        web_origin_urls_valid s o)
qed

lemma refresh_identity_cases:
  assumes v: "list_all is_valid_redirect_uri rs" and r: "r \<in> set rs"
  shows "registered_refresh_identity rs cid = Inr (TranslatedTo s) \<Longrightarrow>
      (\<exists>u. urlparse cid = Inr u \<and> \<not> same_origin (url_of r) u) \<and> s = canonical_origin_url (origin_of r)"
    and "registered_refresh_identity rs cid = Inr Passthrough \<Longrightarrow>
      (\<exists>e. urlparse cid = Inl e) \<or> (\<exists>u. urlparse cid = Inr u \<and> same_origin (url_of r) u)"
  using v r stable_origin_valid [OF v _ _ r]
  by (auto simp: registered_refresh_identity_def reproducible_valid origin_matches_valid list_all_iff
      list_ex_iff py_iffs split: sum.splits if_splits)

lemma json_ok_no_float: "json_ok v \<Longrightarrow> \<not> has_float v"
  by (induction v) (auto simp: list_all_iff list_ex_iff)

lemma resolve_fast_path:
  assumes "is_valid_redirect_uri r" "urlparse cid = Inr u" "same_origin (url_of r) u"
  shows "fst (resolve_forward_client_id env session key cid r st) = Inr cid"
proof -
  have "same_origin u (url_of r)" "u_scheme u = ''http'' \<or> u_scheme u = ''https''"
    using assms(3) scheme_valid [OF assms(1)] by (auto simp: same_origin_def)
  then show ?thesis using assms by (simp add: resolve_forward_client_id_def urlparse_valid)
qed

lemma resolve_unparsable:
  "urlparse cid = Inl e \<Longrightarrow> fst (resolve_forward_client_id env session key cid r st) = Inr cid"
  by (simp add: resolve_forward_client_id_def)

lemma resolve_registered:
  assumes "is_valid_redirect_uri r" "cid \<noteq> []" "urlparse cid = Inr u" "\<not> same_origin (url_of r) u"
    "client_redirect_uris (e_nest env) key cid = Inr (Some rs)" "r \<in> set rs"
  shows "fst (resolve_forward_client_id env session (Some key) cid r st)
    = Inr (canonical_origin_url (origin_of r))"
proof -
  have "\<not> same_origin u (url_of r)" using assms(4) by (auto simp: same_origin_def)
  then show ?thesis using assms
    by (simp add: resolve_forward_client_id_def urlparse_valid translation_for_member)
qed

section \<open>Properties of the refresh envelope\<close>

text \<open>C14: an envelope gives back core's token and the forwarded client id to exactly the
  presenter it was minted for (two presenters are told apart unless SHA-256 collides on them).\<close>

theorem envelope_roundtrip:
  assumes "1 \<le> nest"
  shows "unwrap_refresh_token nest key (wrap_refresh_token key t c p) (Some q) =
    Inr (if sha256 (utf8_encode q) = sha256 (utf8_encode p) then Unwrapped t c else EnvInvalid)"
  using unwrap_wrap [OF assms, of key t c p "Some q"] by (auto simp: presented_client_hash_def)

theorem envelope_roundtrip_witness:
  "unwrap_refresh_token 1 ''k'' (wrap_refresh_token ''k'' ''tok'' ''https://a.example'' ''cid'') (Some ''cid'')
     = Inr (Unwrapped ''tok'' ''https://a.example'')"
  using envelope_roundtrip [of 1 "''k''" "''tok''" "''https://a.example''" "''cid''" "''cid''"] by simp

text \<open>C15: nothing is unwrapped, and no exception escapes, unless the value carries the prefix and
  an HMAC of prefix and body under the signing key: on every other value the anonymous refresh leg
  gets one of the two failure states.\<close>

theorem envelope_accept_signed:
  assumes "unwrap_refresh_token nest key token q \<notin> {Inr EnvAbsent, Inr EnvInvalid}"
  shows "\<exists>body sig. token = refresh_envelope_prefix @ body @ CHR ''.'' # sig
    \<and> b64url_decode sig = Inr (hmac_sha256 key (refresh_envelope_prefix @ body))"
proof -
  have s: "startswith token refresh_envelope_prefix"
    "snd (envelope_signed token) = Inr (hmac_sha256 key (fst (envelope_signed token)))"
    using unwrap_signed [OF assms] by simp_all
  obtain blob where c: "token = refresh_envelope_prefix @ blob" using s(1) startswithE by blast
  obtain body sep sig where r': "rpartition_at (CHR ''.'') blob = (body, sep, sig)"
    by (cases "rpartition_at (CHR ''.'') blob") auto
  have sep
    using assms by (rule contrapos_np) (simp add: c unwrap_refresh_token_def verified_payload_def r')
  with r' have r: "rpartition_at (CHR ''.'') blob = (body, True, sig)" by simp
  then have "blob = body @ CHR ''.'' # sig" by (metis rpartition_at_TrueD)
  moreover have "b64url_decode sig = Inr (hmac_sha256 key (refresh_envelope_prefix @ body))"
    using s(2) r by (simp add: envelope_signed_def c blob_signed_def)
  ultimately show ?thesis using c by blast
qed

theorem envelope_accept_signed_witness:
  "\<exists>body sig. wrap_refresh_token ''k'' ''tok'' ''c'' ''p'' = refresh_envelope_prefix @ body @ CHR ''.'' # sig
    \<and> b64url_decode sig = Inr (hmac_sha256 ''k'' (refresh_envelope_prefix @ body))"
  by (rule envelope_accept_signed [of 1 _ _ None]) (simp add: unwrap_wrap)

text \<open>after the signing key changes, an old envelope is invalid on the refresh leg for every
  presenter, unless the two keys give its message the same MAC.\<close>

theorem envelope_key_rotation:
  assumes "unwrap_refresh_token nest new_key (wrap_refresh_token old_key t c p) q \<noteq> Inr EnvInvalid"
  shows "hmac_sha256 new_key (refresh_envelope_prefix @ blob_body (envelope_payload t c p))
    = hmac_sha256 old_key (refresh_envelope_prefix @ blob_body (envelope_payload t c p))"
proof -
  have "unwrap_refresh_token nest new_key (wrap_refresh_token old_key t c p) q \<noteq> Inr EnvAbsent"
    by (auto simp: unwrap_refresh_token_def unwrap_payload_def py_iffs
        split: option.splits if_splits pyval.splits)
  with assms have "snd (envelope_signed (wrap_refresh_token old_key t c p)) =
      Inr (hmac_sha256 new_key (fst (envelope_signed (wrap_refresh_token old_key t c p))))"
    using unwrap_signed by blast
  then show ?thesis by (simp add: envelope_signed_wrap)
qed

theorem envelope_key_rotation_witness:
  "hmac_sha256 ''k'' (refresh_envelope_prefix @ blob_body (envelope_payload ''t'' ''c'' ''p''))
    = hmac_sha256 ''k'' (refresh_envelope_prefix @ blob_body (envelope_payload ''t'' ''c'' ''p''))"
  by (rule envelope_key_rotation [of 1 _ _ _ _ _ None]) (simp add: unwrap_wrap)

text \<open>the two families of signed blobs are disjoint: a client id is not an envelope and an
  envelope is not a client id, and exchanging the prefixes only helps a caller for whom one HMAC
  covers both the bare and the prefixed body.\<close>

theorem blob_families_disjoint:
  "unwrap_refresh_token nest key (mint_client_id key us iat) q = Inr EnvAbsent
   \<and> client_redirect_uris nest key (wrap_refresh_token key t c p) = Inr None
   \<and> (client_redirect_uris nest key (client_id_prefix @ drop (length refresh_envelope_prefix) (wrap_refresh_token key t c p)) = Inr None
      \<or> hmac_sha256 key (blob_body (envelope_payload t c p))
         = hmac_sha256 key (refresh_envelope_prefix @ blob_body (envelope_payload t c p)))"
proof (intro conjI)
  show "unwrap_refresh_token nest key (mint_client_id key us iat) q = Inr EnvAbsent"
    by (simp add: unwrap_refresh_token_def mint_client_id_def client_id_prefix_def refresh_envelope_prefix_def)
  show "client_redirect_uris nest key (wrap_refresh_token key t c p) = Inr None"
    by (simp add: client_redirect_uris_def wrap_refresh_token_def client_id_prefix_def refresh_envelope_prefix_def)
  have "hmac_sha256 key (blob_body (envelope_payload t c p))
      = hmac_sha256 key (refresh_envelope_prefix @ blob_body (envelope_payload t c p))"
    if "client_redirect_uris nest key (client_id_prefix @ drop (length refresh_envelope_prefix) (wrap_refresh_token key t c p)) \<noteq> Inr None"
    using client_redirect_uris_signed [OF that]
    by (simp add: client_id_signed_def drop_wrap blob_signed_blob)
  then show "client_redirect_uris nest key (client_id_prefix @ drop (length refresh_envelope_prefix) (wrap_refresh_token key t c p)) = Inr None
   \<or> hmac_sha256 key (blob_body (envelope_payload t c p))
      = hmac_sha256 key (refresh_envelope_prefix @ blob_body (envelope_payload t c p))"
    by blast
qed

lemma esc_length: "length (concat (map esc_char s)) \<le> 6 * length s"
proof (induction s)
  case (Cons c s)
  have "length (esc_char c) \<le> 6" by (simp add: esc_char_def)
  then show ?case using Cons by simp
qed simp

lemma chr_49: "chr 49 = CHR ''1''"
  by code_simp

lemma envelope_length:
  assumes "length t + length c \<le> 440"
  shows "length (wrap_refresh_token key t c p) \<le> max_revoke_envelope_len"
proof -
  have h: "length (presented_client_hash p) = 43"
    by (simp add: presented_client_hash_def b64url_encode_length)
  have "json_compact (envelope_payload t c p) = ''{'' @ dumps_str ''v'' @ '':1,'' @ dumps_str ''t'' @ '':'' @ dumps_str t
      @ '','' @ dumps_str ''c'' @ '':'' @ dumps_str c @ '','' @ dumps_str ''p'' @ '':'' @ dumps_str (presented_client_hash p) @ ''}''"
    by (simp add: json_compact_def envelope_payload_def show_int_def show_nat.simps [of "Suc 0"]
        digit_char_def chr_49)
  moreover have "length (dumps_str [x]) = 3" if "x = CHR ''v'' \<or> x = CHR ''t'' \<or> x = CHR ''c'' \<or> x = CHR ''p''" for x
    using that by (auto simp: dumps_str_def esc_char_def dq_def bs_def ord_def)
  moreover have "length (dumps_str s) \<le> 6 * length s + 2" for s
    using esc_length [of s] by (simp add: dumps_str_def)
  note this [of t] this [of c] this [of "presented_client_hash p"]
  ultimately have "length (json_compact (envelope_payload t c p)) \<le> 2940"
    using assms h by simp
  moreover have "utf8_encode (json_compact (envelope_payload t c p)) = json_compact (envelope_payload t c p)"
    unfolding json_compact_def
    by (intro utf8_encode_ascii dumps_json(1) envelope_payload_json) (simp_all add: json_char_def ord_def)
  ultimately have "length (blob_body (envelope_payload t c p)) \<le> (4 * 2940 + 2) div 3"
    unfolding blob_body_def b64url_encode_length by (intro div_le_mono) simp
  then show ?thesis
    by (simp add: wrap_refresh_token_def blob_text_def refresh_envelope_prefix_def b64url_encode_length
        max_revoke_envelope_len_def)
qed

text \<open>an envelope stays revocable: whatever key is configured now, revocation recovers core's
  own token from it, as long as token and forwarded client id have at most 440 characters
  together (core's tokens have 128).\<close>

theorem revocation_survives_rotation:
  assumes "1 \<le> nest" "length t + length c \<le> 440"
  shows "fst (core_token_for_revocation nest (Some new_key) (wrap_refresh_token old_key t c p) warned) = Inr (Some t)"
  by (rule core_token_for_revocation_wrap [OF assms(1) envelope_length [OF assms(2)]])

theorem revocation_survives_rotation_witness:
  "fst (core_token_for_revocation 1 (Some ''new'') (wrap_refresh_token ''old'' ''tok'' ''cid'' ''p'') False) = Inr (Some ''tok'')"
  by (rule revocation_survives_rotation) simp_all

lemma rewrite_response_facts:
  assumes "json_ok (PDict d)" "json_depth (PDict d) \<le> nest" "map_of d ''refresh_token'' = Some (PStr t)"
  shows "\<exists>body'. rewrite_token_response_body nest key (utf8_encode (json_compact (PDict d))) c p = Inr body'
    \<and> json_loads_bytes nest body' = Inr (PDict (dict_set ''refresh_token'' (PStr (wrap_refresh_token key t c p)) d))
    \<and> unwrap_refresh_token nest key (wrap_refresh_token key t c p) (Some p) = Inr (Unwrapped t c)"
proof -
  let ?e = "PStr (wrap_refresh_token key t c p)"
  have n: "1 \<le> nest" using assms(2) by simp
  have ok: "json_ok (PDict (dict_set k (PStr s) d'))" if "json_ok (PDict d')" for k s d'
    using that by (induction d') (auto simp: keys_dict_set)
  have depth: "json_depth (PDict (dict_set k (PStr s) d')) \<le> json_depth (PDict d') \<or> json_depth (PDict (dict_set k (PStr s) d')) \<le> 1"
    for k s d' by (induction d') (auto simp: le_max_iff_disj)
  have j: "json_loads_bytes nest (utf8_encode (json_compact (PDict d))) = Inr (PDict d)"
    using assms by (intro json_loads_bytes_dumps)
  have j': "json_loads_bytes nest (utf8_encode (json_compact (PDict (dict_set ''refresh_token'' ?e d))))
      = Inr (PDict (dict_set ''refresh_token'' ?e d))"
  proof (rule json_loads_bytes_dumps)
    show "json_ok (PDict (dict_set ''refresh_token'' ?e d))" by (rule ok [OF assms(1)])
    show "json_depth (PDict (dict_set ''refresh_token'' ?e d)) \<le> nest"
      using depth [of "''refresh_token''" "wrap_refresh_token key t c p" d] assms(2) n by linarith
  qed
  have nf: "\<not> has_float (PDict (dict_set ''refresh_token'' ?e d))"
    using ok [OF assms(1)] json_ok_no_float by blast
  have "rewrite_token_response_body nest key (utf8_encode (json_compact (PDict d))) c p
      = Inr (utf8_encode (json_compact (PDict (dict_set ''refresh_token'' ?e d))))"
    using nf by (simp add: rewrite_token_response_body_def j assms(3) compact_dumps_def)
  then show ?thesis using j' unwrap_wrap [OF n, of key t c p "Some p"] by simp
qed

text \<open>a token response of core keeps every field and its order when it is rewritten, and its
  refresh token becomes the envelope that unwraps, for this presenter, to core's token and the
  client id core bound it to.\<close>

theorem rewrite_token_response:
  assumes "json_ok (PDict d)" "json_depth (PDict d) \<le> nest" "map_of d ''refresh_token'' = Some (PStr t)"
  shows "\<exists>body'. rewrite_token_response_body nest key (utf8_encode (json_compact (PDict d))) c p = Inr body'
    \<and> json_loads_bytes nest body' = Inr (PDict (dict_set ''refresh_token'' (PStr (wrap_refresh_token key t c p)) d))
    \<and> unwrap_refresh_token nest key (wrap_refresh_token key t c p) (Some p) = Inr (Unwrapped t c)"
  by (rule rewrite_response_facts [OF assms])

theorem rewrite_token_response_witness:
  "\<exists>body'. rewrite_token_response_body 1 ''k'' (utf8_encode (json_compact (PDict [(''refresh_token'', PStr ''tok'')]))) ''c'' ''p'' = Inr body'"
  using rewrite_token_response [of "[(''refresh_token'', PStr ''tok'')]" 1 "''tok''" "''k''" "''c''" "''p''"]
  by auto

text \<open>a response with no refresh token to wrap (not JSON, not an object, no such field or not
  a string) is relayed byte for byte.\<close>

theorem rewrite_leaves_others:
  assumes "\<forall>d t. json_loads_bytes nest body = Inr (PDict d) \<longrightarrow> map_of d ''refresh_token'' \<noteq> Some (PStr t)"
    "json_loads_bytes nest body \<noteq> Inl OutOfModel"
  shows "rewrite_token_response_body nest key body c p = Inr body"
  using assms json_loads_bytes_errors [of nest body]
  by (auto simp: rewrite_token_response_body_def split: sum.splits pyval.splits option.splits)

theorem rewrite_leaves_others_witness: "rewrite_token_response_body 1 ''k'' [] ''c'' ''p'' = Inr []"
proof -
  have "json_loads_bytes 1 [] = Inl ValueError" by code_simp
  then show ?thesis by (intro rewrite_leaves_others) simp_all
qed

section \<open>Properties of the translation\<close>

text \<open>C16: translation grants nothing new: the client id presented to core is the client's own,
  or the canonical origin of the presented redirect, and then a signed registration or a fetched
  document of that very client id lists a redirect that matches it.\<close>

theorem translation_sound:
  assumes "resolve_forward_client_id env session dcr_key client_id redirect_uri st = (Inr f, st')" "f \<noteq> client_id"
  shows "\<exists>rs. ((\<exists>key. dcr_key = Some key \<and> client_redirect_uris (e_nest env) key client_id = Inr (Some rs))
        \<or> (session \<and> fst (fetch_cimd_redirects env client_id st) = Inr (Some rs)))
    \<and> redirect_matches rs redirect_uri = Inr True
    \<and> is_valid_redirect_uri redirect_uri \<and> f = canonical_origin_url (origin_of redirect_uri)"
proof -
  have v: "is_valid_redirect_uri redirect_uri"
    using assms by (auto simp: resolve_forward_client_id_def split: if_splits)
  have ne: "client_id \<noteq> []" using assms by (auto simp: resolve_forward_client_id_def)
  obtain u where u: "urlparse client_id = Inr u"
    using assms ne v by (cases "urlparse client_id") (auto simp: resolve_forward_client_id_def)
  have tr: "redirect_matches rs redirect_uri = Inr True \<and> f = canonical_origin_url (origin_of redirect_uri)"
    if "translation_for rs client_id redirect_uri = Inr f" for rs
    using that assms(2) v by (auto simp: translation_for_def py_iffs origin_client_id_valid split: if_splits)
  define reg where "reg = (case dcr_key of None \<Rightarrow> Inr None | Some key \<Rightarrow> client_redirect_uris (e_nest env) key client_id)"
  consider (dcr) rs where "reg = Inr (Some rs)" "translation_for rs client_id redirect_uri = Inr f"
    | (cimd) "translate_cimd env session u client_id redirect_uri st = (Inr f, st')"
    using assms v u ne unfolding reg_def
    by (auto simp: resolve_forward_client_id_def urlparse_valid split: if_splits sum.splits option.splits)
  then show ?thesis
  proof cases
    case dcr
    then show ?thesis using tr v by (auto simp: reg_def split: option.splits)
  next
    case cimd
    then obtain rs where "session" "fst (fetch_cimd_redirects env client_id st) = Inr (Some rs)"
        "translation_for rs client_id redirect_uri = Inr f"
      using assms(2) by (auto simp: translate_cimd_def split: if_splits prod.splits sum.splits option.splits)
    then show ?thesis using tr v by blast
  qed
qed

lemma mint_client_id_chars: "list_all (\<lambda>c. is_b64url c \<or> c = CHR ''.'') (mint_client_id key us iat)"
proof -
  have "list_all (\<lambda>c. is_b64url c \<or> c = CHR ''.'') (b64url_encode x)" for x
    using b64url_encode_chars [of x] by (simp add: list_all_iff)
  moreover have "list_all (\<lambda>c. is_b64url c \<or> c = CHR ''.'') client_id_prefix"
    unfolding client_id_prefix_def by code_simp
  ultimately show ?thesis by (simp add: mint_client_id_def blob_text_def blob_body_def)
qed

lemma urlparse_relative:
  assumes "list_all (\<lambda>c. is_b64url c \<or> c = CHR ''.'') s"
  shows "\<exists>u. urlparse s = Inr u \<and> u_scheme u = []"
proof -
  have c: "32 < ord c \<and> c \<noteq> CHR '':'' \<and> c \<noteq> CHR ''/''" if "is_b64url c \<or> c = CHR ''.''" for c
    using that by (auto simp: is_b64url_def is_alnum_ascii_def is_alpha_ascii_def is_upper_ascii_def
        is_lower_ascii_def is_digit_def) (simp_all add: ord_def)
  have sc: "32 < ord x \<and> x \<noteq> CHR '':'' \<and> x \<noteq> CHR ''/''" if "x \<in> set s" for x
    using assms that c [of x] by (simp add: list_all_iff)
  have "url_clean s = s" using sc by (intro url_clean_id) (simp add: list_all_iff)
  moreover have "CHR '':'' \<notin> set s" using sc by blast
  then have "split_scheme s = ([], s)" by (simp add: split_scheme_def)
  moreover have "\<not> startswith s ''//''"
  proof
    assume "startswith s ''//''"
    then have "CHR ''/'' \<in> set s" by (auto simp: startswith_iff)
    then show False using sc by blast
  qed
  then have "split_netloc s = ([], s)" by (simp add: split_netloc_def)
  ultimately show ?thesis by (simp add: urlparse_def Let_def netloc_ok_def split: prod.splits)
qed

lemma minted_not_same_origin:
  assumes "is_valid_redirect_uri r"
  obtains u where "urlparse (mint_client_id key us iat) = Inr u" "u_scheme u = []"
    "\<not> same_origin (url_of r) u"
proof -
  obtain u where u: "urlparse (mint_client_id key us iat) = Inr u" "u_scheme u = []"
    using urlparse_relative [OF mint_client_id_chars] by blast
  moreover have "\<not> same_origin (url_of r) u" using u scheme_valid [OF assms] by (auto simp: same_origin_def)
  ultimately show thesis by (rule that)
qed

lemma mint_not_Nil [simp]: "mint_client_id key us iat \<noteq> []"
  by (simp add: mint_client_id_def client_id_prefix_def)

lemma resolve_minted:
  assumes "2 \<le> e_nest env" "iat_ok iat" "is_valid_redirect_uri r" "r \<in> set us"
  shows "fst (resolve_forward_client_id env session (Some key) (mint_client_id key us iat) r st)
    = Inr (canonical_origin_url (origin_of r))"
  using minted_not_same_origin [OF assms(3), of key us iat]
    resolve_registered [OF assms(3) mint_not_Nil _ _ client_redirect_uris_mint [OF assms(1,2)] assms(4)]
  by metis

definition sample_cid :: string where
  "sample_cid = mint_client_id ''k'' [''https://c.example/cb''] 5"

lemma sample_origin: "canonical_origin_url (origin_of ''https://c.example/cb'') = ''https://c.example''"
  by code_simp

lemma sample_resolve:
  "resolve_forward_client_id dark_env False (Some ''k'') sample_cid ''https://c.example/cb'' fresh_cimd
     = (Inr ''https://c.example'', fresh_cimd)"
proof -
  have "fst (resolve_forward_client_id dark_env False (Some ''k'') sample_cid ''https://c.example/cb'' fresh_cimd)
     = Inr ''https://c.example''"
    using resolve_minted [of dark_env 5 "''https://c.example/cb''" "[''https://c.example/cb'']" False "''k''" fresh_cimd]
    by (simp add: sample_cid_def sample_origin sample_iat sample_redirect dark_env_def)
  moreover have "snd (resolve_forward_client_id dark_env False (Some ''k'') cid r fresh_cimd) = fresh_cimd" for cid r
    by (simp add: resolve_forward_client_id_def translate_cimd_def split: sum.splits option.splits)
  ultimately show ?thesis by (metis prod.collapse)
qed

lemma sample_cid_not_origin: "''https://c.example'' \<noteq> sample_cid"
  by (simp add: sample_cid_def mint_client_id_def client_id_prefix_def)

theorem translation_sound_witness:
  "\<exists>rs. redirect_matches rs ''https://c.example/cb'' = Inr True"
  using translation_sound [OF sample_resolve sample_cid_not_origin] by blast

text \<open>the translated identity is the redirect's own origin: read back as a URL it names the
  same scheme, host and port (hosts without brackets or colons, that is names and IPv4).\<close>

theorem translated_identity_origin:
  assumes "is_valid_redirect_uri r" "origin_client_id r = Inr f"
    "normalized_origin r = Inr (Some (s, h, p))"
    "CHR '':'' \<notin> set h" "CHR ''['' \<notin> set h" "CHR '']'' \<notin> set h"
  shows "normalized_origin f = normalized_origin r"
proof -
  have "f = canonical_origin_url (s, h, p)" using assms(2,3) by (simp add: origin_client_id_def)
  then show ?thesis using canonical_origin_url_roundtrip [OF assms(1,3,4,5,6)] assms(3) by simp
qed

theorem translated_identity_origin_witness:
  "normalized_origin ''https://c.example'' = normalized_origin ''https://c.example/cb''"
proof -
  have n: "normalized_origin ''https://c.example/cb'' = Inr (Some (''https'', ''c.example'', 443))" by code_simp
  have "origin_client_id ''https://c.example/cb'' = Inr ''https://c.example''"
    using origin_client_id_valid [OF sample_redirect] sample_origin by simp
  from translated_identity_origin [OF sample_redirect this n] show ?thesis by simp
qed

text \<open>redirect matching is exact, except that a loopback redirect matches a registered
  loopback redirect that differs from it in nothing but the port (and credentials).\<close>

theorem redirect_matching:
  assumes "list_all is_valid_redirect_uri rs" "is_valid_redirect_uri r"
  shows "redirect_matches rs r = Inr (r \<in> set rs \<or>
    (\<exists>e \<in> set rs. \<exists>h. url_hostname (url_of r) = Some h \<and> is_loopback_host h \<and> url_hostname (url_of e) = Some h
       \<and> u_scheme (url_of e) = u_scheme (url_of r) \<and> u_path (url_of e) = u_path (url_of r)
       \<and> u_params (url_of e) = u_params (url_of r) \<and> u_query (url_of e) = u_query (url_of r)))"
proof -
  obtain u p h where u: "urlparse r = Inr u" "url_hostname u = Some h"
    using assms(2) by (rule is_valid_redirect_uriE)
  have "loopback_uri r \<and> loopback_same (url_of e) (url_of r) \<longleftrightarrow>
      (\<exists>h. url_hostname (url_of r) = Some h \<and> is_loopback_host h \<and> url_hostname (url_of e) = Some h
       \<and> u_scheme (url_of e) = u_scheme (url_of r) \<and> u_path (url_of e) = u_path (url_of r)
       \<and> u_params (url_of e) = u_params (url_of r) \<and> u_query (url_of e) = u_query (url_of r))" for e
    using u by (auto simp: loopback_uri_def loopback_same_def url_of_def split: option.splits)
  then show ?thesis unfolding redirect_matches_valid [OF assms] by auto
qed

theorem redirect_matching_witness:
  "redirect_matches [''http://localhost/cb''] ''http://localhost:8/cb'' = Inr True"
proof -
  have v: "is_valid_redirect_uri ''http://localhost/cb''" by code_simp
  have "snd (url_hostinfo (url_of ''http://localhost:8/cb'')) = ''8''" by code_simp
  then have p: "url_port (url_of ''http://localhost:8/cb'') = Inr (Some 8)"
    by (simp add: url_port_def nat_of_digits_def digit_val_def is_digit_def ord_def)
  have "urlparse ''http://localhost:8/cb'' = Inr (url_of ''http://localhost:8/cb'')"
    "url_hostname (url_of ''http://localhost:8/cb'') = Some ''localhost''"
    "list_all authority_char (u_netloc (url_of ''http://localhost:8/cb''))"
    "u_fragment (url_of ''http://localhost:8/cb'') = []"
    "u_scheme (url_of ''http://localhost:8/cb'') = ''http'' \<and> is_loopback_host ''localhost''"
    by code_simp+
  then have w: "is_valid_redirect_uri ''http://localhost:8/cb''"
    using p by (intro is_valid_redirect_uriI [of _ "url_of ''http://localhost:8/cb''" "Some 8" "''localhost''"]) simp_all
  have "url_hostname (url_of ''http://localhost/cb'') = Some ''localhost''"
    "url_hostname (url_of ''http://localhost:8/cb'') = Some ''localhost''" "is_loopback_host ''localhost''"
    "u_scheme (url_of ''http://localhost/cb'') = u_scheme (url_of ''http://localhost:8/cb'')"
    "u_path (url_of ''http://localhost/cb'') = u_path (url_of ''http://localhost:8/cb'')"
    "u_params (url_of ''http://localhost/cb'') = u_params (url_of ''http://localhost:8/cb'')"
    "u_query (url_of ''http://localhost/cb'') = u_query (url_of ''http://localhost:8/cb'')"
    by code_simp+
  then show ?thesis using redirect_matching [of "[''http://localhost/cb'']" "''http://localhost:8/cb''"] v w by simp
qed

text \<open>
  What a leg knows of a client: the redirects of its signed registration or, when there is none,
  those of the document fetched for it.
\<close>

definition known_as :: "cimd_env \<Rightarrow> bool \<Rightarrow> bytes option \<Rightarrow> string \<Rightarrow> cimd_state \<Rightarrow> string list \<Rightarrow> bool" where
  "known_as env session dcr_key client_id st rs \<longleftrightarrow>
     (let dcr = (case dcr_key of None \<Rightarrow> Inr None | Some key \<Rightarrow> client_redirect_uris (e_nest env) key client_id) in
      dcr = Inr (Some rs) \<or> dcr = Inr None \<and> session \<and> fst (fetch_cimd_redirects env client_id st) = Inr (Some rs))"

lemma fetched_https:
  assumes "fst (fetch_cimd_redirects env cid st) = Inr (Some rs)"
  shows "\<exists>u. urlparse cid = Inr u \<and> u_scheme u = ''https''"
proof -
  have "valid_cimd_client_id cid" using assms by (auto simp: fetch_cimd_redirects_def split: if_splits)
  then show ?thesis by (auto simp: valid_cimd_client_id_def split: sum.splits)
qed

lemma refresh_of_known:
  assumes "known_as env session dcr_key cid st rs" "rs \<noteq> []"
  shows "fst (translated_client_id_for_refresh env session dcr_key cid st) = registered_refresh_identity rs cid"
  using assms fetched_https [of env cid st rs]
  by (cases "fetch_cimd_redirects env cid st")
    (auto simp: known_as_def Let_def translated_client_id_for_refresh_def refresh_identity_of_def
      split: sum.splits option.splits)

lemma resolve_known:
  assumes k: "known_as env session dcr_key cid st rs" and "is_valid_redirect_uri r" "cid \<noteq> []" "urlparse cid = Inr u"
    "\<not> same_origin (url_of r) u" "r \<in> set rs"
  shows "fst (resolve_forward_client_id env session dcr_key cid r st) = Inr (canonical_origin_url (origin_of r))"
proof -
  have "\<not> same_origin u (url_of r)" using assms(5) by (auto simp: same_origin_def)
  with assms fetched_https [of env cid st rs] show ?thesis
    by (cases "fetch_cimd_redirects env cid st")
      (auto simp: known_as_def Let_def resolve_forward_client_id_def translate_cimd_def urlparse_valid translation_for_member
        split: sum.splits option.splits)
qed

text \<open>C38: The refresh leg and the authorize leg agree on a client that both know by the same list of
  valid redirects, each from its signed registration or, when there is none, from its document,
  at whatever times and whatever the network does otherwise: when the identity re-derived without
  a redirect is an origin, the authorize leg translates every registered redirect to that origin,
  and when it is the raw client id, it translates none. A client whose document one leg cannot
  fetch is not covered: then that leg passes the id through.\<close>

theorem refresh_identity_agrees:
  assumes "known_as env session dcr_key cid st rs" and "known_as env' session' dcr_key cid st' rs"
    and "list_all is_valid_redirect_uri rs" and "cid \<noteq> []" and "r \<in> set rs"
    and "fst (translated_client_id_for_refresh env session dcr_key cid st) = Inr ident"
    and "ident \<noteq> Unreproducible"
  shows "fst (resolve_forward_client_id env' session' dcr_key cid r st')
    = Inr (case ident of TranslatedTo s \<Rightarrow> s | _ \<Rightarrow> cid)"
proof -
  have v: "is_valid_redirect_uri r" using assms(3,5) by (auto simp: list_all_iff)
  have "rs \<noteq> []" using assms(5) by auto
  with assms(6) refresh_of_known [OF assms(1)] have i: "registered_refresh_identity rs cid = Inr ident" by simp
  show ?thesis
  proof (cases ident)
    case Passthrough
    then show ?thesis
      using refresh_identity_cases(2) [OF assms(3,5), of cid] i resolve_fast_path [OF v] resolve_unparsable by auto
  next
    case (TranslatedTo s)
    then show ?thesis
      using refresh_identity_cases(1) [OF assms(3,5), of cid s] i resolve_known [OF assms(2) v assms(4) _ _ assms(5)]
      by auto
  qed (use assms(7) in simp)
qed

theorem refresh_identity_agrees_witness:
  "fst (translated_client_id_for_refresh dark_env False (Some ''k'') sample_cid fresh_cimd)
     = Inr (TranslatedTo ''https://c.example'')
   \<and> fst (resolve_forward_client_id dark_env False (Some ''k'') sample_cid ''https://c.example/cb'' fresh_cimd)
     = Inr ''https://c.example''"
proof -
  have c: "client_redirect_uris (e_nest dark_env) ''k'' sample_cid = Inr (Some [''https://c.example/cb''])"
    by (simp add: sample_cid_def client_redirect_uris_mint sample_iat dark_env_def)
  have n: "\<not> loopback_uri ''https://c.example/cb''" by code_simp
  obtain u where u: "urlparse sample_cid = Inr u" "\<not> same_origin (url_of ''https://c.example/cb'') u"
    unfolding sample_cid_def using minted_not_same_origin [OF sample_redirect] by metis
  have "stable_origin_or_unreproducible [''https://c.example/cb''] = Inr (TranslatedTo ''https://c.example'')"
    using stable_origin_valid [of "[''https://c.example/cb'']" "''https://c.example/cb''"] sample_redirect n sample_origin
    by simp
  then have t: "fst (translated_client_id_for_refresh dark_env False (Some ''k'') sample_cid fresh_cimd)
     = Inr (TranslatedTo ''https://c.example'')"
    using u n sample_redirect
    by (simp add: translated_client_id_for_refresh_def c refresh_identity_of_def registered_refresh_identity_def
        reproducible_valid origin_matches_valid urlparse_valid)
  have k: "known_as dark_env False (Some ''k'') sample_cid fresh_cimd [''https://c.example/cb'']"
    by (simp add: known_as_def c)
  show ?thesis
    using refresh_identity_agrees [OF k k _ _ _ t, of "''https://c.example/cb''"] sample_redirect t
    by (simp add: sample_cid_def)
qed

end
