(* ===== verification/AutoApprove.thy ===== *)
theory AutoApprove
  imports HaAuth
begin

text \<open>
  \<open>oauth_autoapprove.py\<close>: the unified authorize, token and revoke views, which dispatch per
  request to none mode (an invisible PKCE flow over the code store) or to ha_auth mode
  (redirects into core, and forwarding of rewritten forms). Parameters of the model, gathered
  in \<open>oauth_env\<close>, are yarl's URL building, the answer of core to a forwarded form and core's
  own address; the state is what the handlers can change.
\<close>

section \<open>State, effects and the request\<close>

datatype core_answer = CoreSilent | CoreAnswered nat bytes string

record oauth_env =
  x_cimd :: cimd_env
  x_update_query :: "string \<Rightarrow> (string \<times> string) list \<Rightarrow> string py" \<comment> \<open>\<open>yarl.URL(u).update_query\<close>\<close>
  x_with_query :: "string \<Rightarrow> multidict \<Rightarrow> string py" \<comment> \<open>\<open>yarl.URL(u).with_query\<close>\<close>
  x_api :: "(bool \<times> nat) option"
  x_url :: "string option"
  x_core_post :: "string \<Rightarrow> multidict \<Rightarrow> core_answer"

record oauth_state =
  o_hass :: hass_data
  o_cimd :: cimd_state
  o_warned :: bool \<comment> \<open>\<open>_revoke_rotation_warned\<close>\<close>

record request =
  q_query :: multidict
  q_form :: "raw_form py" \<comment> \<open>what \<open>request.post()\<close> gives or raises\<close>
  q_headers :: multidict
  q_scheme :: string

definition with_cimd ::
  "(cimd_state \<Rightarrow> 'a py \<times> cimd_state) \<Rightarrow> oauth_state \<Rightarrow> 'a py \<times> oauth_state" where
  "with_cimd m st = (case m (o_cimd st) of (r, c) \<Rightarrow> (r, st\<lparr>o_cimd := c\<rparr>))"

section \<open>The public base URL and the issuer\<close>

definition build_base_url :: "request \<Rightarrow> string" where
  "build_base_url request =
     (let host = (case header_get (q_headers request) ''X-Forwarded-Host'' of
                    Some h \<Rightarrow> if h = [] then (case header_get (q_headers request) ''Host'' of Some h' \<Rightarrow> h' | None \<Rightarrow> [])
                              else h
                  | None \<Rightarrow> (case header_get (q_headers request) ''Host'' of Some h' \<Rightarrow> h' | None \<Rightarrow> []));
          scheme = (case header_get (q_headers request) ''X-Forwarded-Proto'' of
                      Some s \<Rightarrow> s | None \<Rightarrow> q_scheme request)
      in scheme @ ''://'' @ host)"

definition oauth_issuer :: "string \<Rightarrow> string" where
  "oauth_issuer base = base @ oauth_base"

definition issuer_for_request :: "request \<Rightarrow> string" where
  "issuer_for_request request = oauth_issuer (build_base_url request)"

section \<open>Responses\<close>

definition json_error :: "string \<Rightarrow> nat \<Rightarrow> string option \<Rightarrow> response" where
  "json_error error status description =
     json_response (PDict ((''error'', PStr error)
         # (case description of None \<Rightarrow> [] | Some d \<Rightarrow> [(''error_description'', PStr d)])))
       status token_response_headers"

definition redirect_with :: "oauth_env \<Rightarrow> string \<Rightarrow> (string \<times> string) list \<Rightarrow> response py" where
  "redirect_with env redirect_uri params =
     py_bind (x_update_query env redirect_uri params) (\<lambda>url.
       Inr (bare_response 302 [(''Location'', url)]))"

definition unavailable :: "string \<Rightarrow> bool \<Rightarrow> response" where
  "unavailable description revocation =
     (let response = json_error ''temporarily_unavailable'' 503 (Some description)
      in if revocation
         then response\<lparr>r_headers := r_headers response @ [(''Retry-After'', ''5'')]\<rparr>
         else response)"

section \<open>The provider of none mode\<close>

text \<open>
  \<open>AutoApproveProvider\<close> delegates to its store and so meets the same contract, the interface the
  none-mode flow rests on.
\<close>

definition provider_issue :: "rat \<Rightarrow> string \<Rightarrow> string \<Rightarrow> string \<Rightarrow> code_table \<Rightarrow> string option \<times> code_table" where
  "provider_issue now fresh redirect_uri code_challenge store = issue_code now fresh redirect_uri code_challenge store"

definition provider_consume :: "rat \<Rightarrow> string \<Rightarrow> string \<Rightarrow> string \<Rightarrow> code_table \<Rightarrow> bool py \<times> code_table" where
  "provider_consume now code redirect_uri code_verifier store = consume_code now code redirect_uri code_verifier store"

interpretation provider: code_store codes_inv code_pending provider_issue provider_consume
    pkce_verifier_ok pkce_derive auth_code_ttl
  unfolding provider_issue_def [abs_def] provider_consume_def [abs_def] by (rule pkce.code_store_axioms)

section \<open>None mode\<close>

definition set_provider :: "code_table \<Rightarrow> webhook_cfg \<Rightarrow> oauth_state \<Rightarrow> oauth_state" where
  "set_provider codes cfg st =
     st\<lparr>o_hass := (o_hass st)\<lparr>d_webhook := Some (cfg\<lparr>w_provider := Some codes\<rparr>)\<rparr>\<rparr>"

definition validate_autoapprove_authorize :: "multidict \<Rightarrow> response option" where
  "validate_autoapprove_authorize params =
     (if md_get params ''response_type'' \<noteq> ''code''
      then Some (json_error ''unsupported_response_type'' 400 None)
      else if md_get params ''code_challenge_method'' \<noteq> ''S256''
      then Some (json_error ''invalid_request'' 400 (Some ''code_challenge_method must be S256''))
      else if \<not> pkce_challenge_ok (md_get params ''code_challenge'')
      then Some (json_error ''invalid_request'' 400 (Some ''invalid code_challenge (43-char base64url)''))
      else if \<not> is_valid_redirect_uri (md_get params ''redirect_uri'')
      then Some (json_error ''invalid_request'' 400 (Some ''invalid redirect_uri''))
      else None)"

text \<open>\<open>now\<close> is \<open>time.time()\<close> and \<open>fresh\<close> the random code drawn.\<close>

definition autoapprove_authorize ::
  "oauth_env \<Rightarrow> rat \<Rightarrow> string \<Rightarrow> webhook_cfg \<Rightarrow> code_table \<Rightarrow> request \<Rightarrow> oauth_state
     \<Rightarrow> response py \<times> oauth_state" where
  "autoapprove_authorize env now fresh cfg codes request st =
     (let params = q_query request;
          redirect_uri = md_get params ''redirect_uri'';
          state = md_get params ''state'';
          code_challenge = md_get params ''code_challenge'' in
      case validate_autoapprove_authorize params of
        Some err \<Rightarrow> (Inr err, st)
      | None \<Rightarrow>
          (let iss = issuer_for_request request in
           case provider_issue now fresh redirect_uri code_challenge codes of
             (None, codes') \<Rightarrow>
               (redirect_with env redirect_uri
                  [(''error'', ''temporarily_unavailable''), (''state'', state), (''iss'', iss)],
                set_provider codes' cfg st)
           | (Some code, codes') \<Rightarrow>
               (redirect_with env redirect_uri
                  ([(''code'', code), (''iss'', iss)] @ (if state \<noteq> [] then [(''state'', state)] else [])),
                set_provider codes' cfg st)))"

text \<open>\<open>dict(raw_form)\<close> keeps the first value of a key; \<open>str()\<close> renders what is not text.\<close>

definition form_field :: "raw_form \<Rightarrow> string \<Rightarrow> string" where
  "form_field form k = (case map_of form k of Some v \<Rightarrow> form_str v | None \<Rightarrow> [])"

definition access_token_response :: "string \<Rightarrow> response" where
  "access_token_response token =
     json_response (PDict [(''access_token'', PStr token), (''token_type'', PStr ''Bearer''),
       (''expires_in'', PInt access_token_ttl)]) 200 token_response_headers"

definition autoapprove_token ::
  "rat \<Rightarrow> string \<Rightarrow> webhook_cfg \<Rightarrow> code_table \<Rightarrow> request \<Rightarrow> oauth_state \<Rightarrow> response py \<times> oauth_state" where
  "autoapprove_token now fresh cfg codes request st =
     (case read_form (q_form request) of
        Inl e \<Rightarrow> (Inl e, st)
      | Inr None \<Rightarrow> (Inr (json_error ''invalid_request'' 400 None), st)
      | Inr (Some form) \<Rightarrow>
          (if map_of form ''grant_type'' \<noteq> Some (FText ''authorization_code'')
           then (Inr (json_error ''unsupported_grant_type'' 400 None), st)
           else
             (let code = form_field form ''code'';
                  redirect_uri = form_field form ''redirect_uri'';
                  code_verifier = form_field form ''code_verifier'' in
              if code = [] \<or> redirect_uri = [] \<or> code_verifier = []
              then (Inr (json_error ''invalid_request'' 400 None), st)
              else (case provider_consume now code redirect_uri code_verifier codes of
                      (ok, codes') \<Rightarrow>
                        (py_bind ok (\<lambda>consumed.
                           Inr (if \<not> consumed then json_error ''invalid_grant'' 400 None
                                else access_token_response fresh)),
                         set_provider codes' cfg st)))))"

section \<open>ha_auth mode: the authorize leg\<close>

definition ha_auth_authorize ::
  "oauth_env \<Rightarrow> webhook_cfg \<Rightarrow> request \<Rightarrow> oauth_state \<Rightarrow> response py \<times> oauth_state" where
  "ha_auth_authorize env cfg request =
     (let params = q_query request;
          client_id = md_get params ''client_id'';
          redirect_uri = md_get params ''redirect_uri'' in
      sbind (with_cimd (resolve_forward_client_id (x_cimd env) (w_cimd_session cfg \<noteq> None) (w_dcr_key cfg)
               client_id redirect_uri)) (\<lambda>forward_id.
        let params' = (if forward_id \<noteq> client_id
                       then md_set ''client_id'' forward_id (md_popall ''client_id'' params) else params)
        in slift (py_bind (x_with_query env ''/auth/authorize'' params') (\<lambda>target.
             Inr (bare_response 302 [(''Location'', target)])))))"

definition authorize_get ::
  "oauth_env \<Rightarrow> rat \<Rightarrow> string \<Rightarrow> request \<Rightarrow> oauth_state \<Rightarrow> response py \<times> oauth_state" where
  "authorize_get env now fresh request st =
     (case webhook_cfg_of (o_hass st) of
        None \<Rightarrow> (Inr json_not_found, st)
      | Some cfg \<Rightarrow>
          (if w_resource_server cfg \<noteq> None then ha_auth_authorize env cfg request st
           else case w_provider cfg of
             None \<Rightarrow> (Inr json_not_found, st)
           | Some codes \<Rightarrow> autoapprove_authorize env now fresh cfg codes request st))"

section \<open>ha_auth mode: forms on their way to core\<close>

definition revoke_rewrite ::
  "nat \<Rightarrow> bytes option \<Rightarrow> multidict \<Rightarrow> oauth_state \<Rightarrow> (bool \<times> multidict) py \<times> oauth_state" where
  "revoke_rewrite nest dcr_key form st =
     (if dcr_key = None then (Inr (False, form), st)
      else case core_token_for_revocation nest dcr_key (md_get form ''token'') (o_warned st) of
        (r, w) \<Rightarrow>
          (py_bind r (\<lambda>token.
             Inr (case token of
                    None \<Rightarrow> (False, form)
                  | Some core_refresh_token \<Rightarrow>
                      (True, md_set ''token'' core_refresh_token (md_popall ''token'' form)))),
           st\<lparr>o_warned := w\<rparr>))"

text \<open>A grant answered here, or the client id core gets and whether proxying is forced.\<close>

datatype forward = Local response | Forward string bool

definition invalid_envelope_response :: response where
  "invalid_envelope_response = json_error ''invalid_grant'' 400
     (Some ''re-authorize: this refresh token could not be verified against this server's current signing key'')"

definition predates_envelope_response :: response where
  "predates_envelope_response = json_error ''invalid_grant'' 400
     (Some (''re-authorize once: this refresh token predates the signed identity envelope, and its client's ''
            @ ''registration names no single reproducible web origin to re-derive it from''))"

definition envelope_identity ::
  "nat \<Rightarrow> bytes option \<Rightarrow> multidict \<Rightarrow> string \<Rightarrow> (forward option \<times> multidict) py" where
  "envelope_identity nest dcr_key form client_id =
     (case dcr_key of
        None \<Rightarrow> Inr (None, form)
      | Some key \<Rightarrow>
          py_bind (unwrap_refresh_token nest key (md_get form ''refresh_token'') (Some client_id)) (\<lambda>envelope.
            Inr (case envelope of
              Unwrapped core_refresh_token forward_id \<Rightarrow>
                (Some (Forward forward_id True),
                 md_set ''refresh_token'' core_refresh_token (md_popall ''refresh_token'' form))
            | EnvInvalid \<Rightarrow> (Some (Local invalid_envelope_response), form)
            | EnvAbsent \<Rightarrow> (None, form))))"

definition pre_envelope_refresh_identity ::
  "oauth_env \<Rightarrow> webhook_cfg \<Rightarrow> bytes option \<Rightarrow> string \<Rightarrow> oauth_state \<Rightarrow> forward py \<times> oauth_state" where
  "pre_envelope_refresh_identity env cfg dcr_key client_id =
     sbind (with_cimd (translated_client_id_for_refresh (x_cimd env) (w_cimd_session cfg \<noteq> None) dcr_key client_id))
       (\<lambda>translated. sreturn (case translated of
            Unreproducible \<Rightarrow> Local predates_envelope_response
          | Passthrough \<Rightarrow> Forward client_id False
          | TranslatedTo origin \<Rightarrow> Forward origin False))"

definition code_leg_forces_proxy ::
  "oauth_env \<Rightarrow> webhook_cfg \<Rightarrow> bytes option \<Rightarrow> string \<Rightarrow> oauth_state \<Rightarrow> bool py \<times> oauth_state" where
  "code_leg_forces_proxy env cfg dcr_key client_id =
     (if dcr_key = None then sreturn False
      else case urlparse client_id of
        Inl _ \<Rightarrow> sreturn False
      | Inr parsed \<Rightarrow>
          if u_scheme parsed \<noteq> ''https'' then sreturn False
          else sbind (with_cimd (translated_client_id_for_refresh (x_cimd env) (w_cimd_session cfg \<noteq> None)
                        dcr_key client_id))
                 (\<lambda>disposition. sreturn (disposition = Unreproducible)))"

definition ha_auth_forward_identity ::
  "oauth_env \<Rightarrow> webhook_cfg \<Rightarrow> multidict \<Rightarrow> string \<Rightarrow> bytes option \<Rightarrow> oauth_state
     \<Rightarrow> (forward \<times> multidict) py \<times> oauth_state" where
  "ha_auth_forward_identity env cfg form client_id dcr_key =
     (let grant_type = md_get form ''grant_type'';
          redirect_uri = md_get form ''redirect_uri'';
          nest = e_nest (x_cimd env) in
      if map_of form ''action'' = Some ''revoke''
      then sbind (revoke_rewrite nest dcr_key form) (\<lambda>(proxy, form'). sreturn (Forward client_id proxy, form'))
      else sbind (slift (if grant_type = ''refresh_token'' then envelope_identity nest dcr_key form client_id
                         else Inr (None, form))) (\<lambda>(envelope, form').
        case envelope of
          Some forward \<Rightarrow> sreturn (forward, form')
        | None \<Rightarrow>
            if client_id = [] then sreturn (Forward client_id False, form')
            else if grant_type = ''refresh_token'' \<and> redirect_uri = []
            then sbind (pre_envelope_refresh_identity env cfg dcr_key client_id) (\<lambda>f. sreturn (f, form'))
            else sbind (with_cimd (resolve_forward_client_id (x_cimd env) (w_cimd_session cfg \<noteq> None) dcr_key
                          client_id redirect_uri)) (\<lambda>forward_id.
              if grant_type = ''authorization_code'' \<and> forward_id = client_id
              then sbind (code_leg_forces_proxy env cfg dcr_key client_id) (\<lambda>proxy.
                     sreturn (Forward client_id proxy, form'))
              else sreturn (Forward forward_id False, form'))))"

datatype forwarded = Answered response | Relayed nat bytes string

definition forward_to_core :: "oauth_env \<Rightarrow> webhook_cfg \<Rightarrow> string \<Rightarrow> multidict \<Rightarrow> forwarded" where
  "forward_to_core env cfg path form =
     (let revocation = (path = ''/auth/revoke'' \<or> map_of form ''action'' = Some ''revoke'') in
      if w_session cfg = None
      then Answered (unavailable ''token forwarding is not available'' revocation)
      else case x_core_post env (core_token_base_url (x_api env) (x_url env) @ path) form of
        CoreSilent \<Rightarrow> Answered (unavailable ''core did not answer the token request'' revocation)
      | CoreAnswered status body content_type \<Rightarrow>
          Relayed status body (if content_type = [] then ''application/json'' else content_type))"

definition proxy_token_to_core ::
  "oauth_env \<Rightarrow> webhook_cfg \<Rightarrow> multidict \<Rightarrow> string \<Rightarrow> string \<Rightarrow> bytes option \<Rightarrow> response py" where
  "proxy_token_to_core env cfg form forward_id client_id dcr_key =
     (case forward_to_core env cfg ''/auth/token'' form of
        Answered response \<Rightarrow> Inr response
      | Relayed status body content_type \<Rightarrow>
          py_bind (case dcr_key of
                     Some key \<Rightarrow>
                       if status = 200 \<and> map_of form ''action'' \<noteq> Some ''revoke''
                       then rewrite_token_response_body (e_nest (x_cimd env)) key body forward_id client_id
                       else Inr body
                   | None \<Rightarrow> Inr body)
            (\<lambda>body'. Inr (raw_response status body' content_type token_response_headers)))"

definition see_core :: "string \<Rightarrow> response" where
  "see_core path = bare_response 307 [(''Location'', path), (''Cache-Control'', ''no-store'')]"

definition ha_auth_token ::
  "oauth_env \<Rightarrow> webhook_cfg \<Rightarrow> request \<Rightarrow> oauth_state \<Rightarrow> response py \<times> oauth_state" where
  "ha_auth_token env cfg request =
     sbind (slift (read_form (q_form request))) (\<lambda>posted.
       case posted of
         None \<Rightarrow> sreturn (json_error ''invalid_request'' 400 None)
       | Some raw_form \<Rightarrow>
           (let form = coerce_form raw_form;
                dcr_key = w_dcr_key cfg;
                client_id = md_get form ''client_id'' in
            sbind (ha_auth_forward_identity env cfg form client_id dcr_key) (\<lambda>(resolved, form').
              case resolved of
                Local response \<Rightarrow> sreturn response
              | Forward forward_id proxy_required \<Rightarrow>
                  if forward_id = client_id \<and> \<not> proxy_required then sreturn (see_core ''/auth/token'')
                  else slift (proxy_token_to_core env cfg
                         (md_set ''client_id'' forward_id (md_popall ''client_id'' form'))
                         forward_id client_id dcr_key))))"

definition token_post ::
  "oauth_env \<Rightarrow> rat \<Rightarrow> string \<Rightarrow> request \<Rightarrow> oauth_state \<Rightarrow> response py \<times> oauth_state" where
  "token_post env now fresh request st =
     (case webhook_cfg_of (o_hass st) of
        None \<Rightarrow> (Inr json_not_found, st)
      | Some cfg \<Rightarrow>
          (if w_resource_server cfg \<noteq> None then ha_auth_token env cfg request st
           else case w_provider cfg of
             None \<Rightarrow> (Inr json_not_found, st)
           | Some codes \<Rightarrow> autoapprove_token now fresh cfg codes request st))"

section \<open>The revoke view\<close>

definition revoke_post :: "oauth_env \<Rightarrow> request \<Rightarrow> oauth_state \<Rightarrow> response py \<times> oauth_state" where
  "revoke_post env request st =
     (case webhook_cfg_of (o_hass st) of
        None \<Rightarrow> (Inr json_not_found, st)
      | Some cfg \<Rightarrow>
          (if w_resource_server cfg = None then (Inr json_not_found, st)
           else sbind (slift (read_form (q_form request))) (\<lambda>posted.
             case posted of
               None \<Rightarrow> sreturn (json_error ''invalid_request'' 400 None)
             | Some raw_form \<Rightarrow>
                 sbind (revoke_rewrite (e_nest (x_cimd env)) (w_dcr_key cfg) (coerce_form raw_form))
                   (\<lambda>(proxy, form).
                     sreturn (if \<not> proxy then see_core ''/auth/revoke''
                       else (case forward_to_core env cfg ''/auth/revoke'' form of
                               Answered response \<Rightarrow> response
                             | Relayed status body content_type \<Rightarrow>
                                 raw_response status body content_type token_response_headers)))) st))"

definition bind_autoapprove_views :: "hass_data \<Rightarrow> hass_data" where
  "bind_autoapprove_views hass =
     (if d_autoapprove_bound hass then hass else hass\<lparr>d_autoapprove_bound := True\<rparr>)"

section \<open>Facts on the handlers\<close>

lemma with_cimd_Inr:
  "fst (m (o_cimd st)) = Inr x \<Longrightarrow> with_cimd m st = (Inr x, st\<lparr>o_cimd := snd (m (o_cimd st))\<rparr>)"
  by (cases "m (o_cimd st)") (simp add: with_cimd_def)

lemma read_form_Inr [simp]: "read_form (Inr f) = Inr (Some f)"
  by (simp add: read_form_def)

lemma webhook_cfg_set_provider [simp]:
  "d_domain (o_hass st) \<Longrightarrow>
     webhook_cfg_of (o_hass (set_provider codes cfg st)) = Some (cfg\<lparr>w_provider := Some codes\<rparr>)"
  by (simp add: webhook_cfg_of_def set_provider_def)

lemma webhook_cfg_of_Some: "webhook_cfg_of hass = Some cfg \<Longrightarrow> d_domain hass \<and> d_webhook hass = Some cfg"
  by (auto simp: webhook_cfg_of_def split: if_splits)

lemma autoapprove_issue:
  assumes "webhook_cfg_of (o_hass st) = Some cfg" "w_resource_server cfg = None" "w_provider cfg = Some codes"
    "validate_autoapprove_authorize (q_query req) = None"
    "provider_issue now fresh (md_get (q_query req) ''redirect_uri'') (md_get (q_query req) ''code_challenge'') codes
       = (Some fresh, codes')"
  shows "snd (authorize_get env now fresh req st) = set_provider codes' cfg st"
  using assms by (simp add: authorize_get_def autoapprove_authorize_def Let_def)

lemma autoapprove_redeem:
  assumes "webhook_cfg_of (o_hass st) = Some cfg" "w_resource_server cfg = None" "w_provider cfg = Some codes"
    "q_form req = Inr form" "map_of form ''grant_type'' = Some (FText ''authorization_code'')"
    "form_field form ''code'' = code" "form_field form ''redirect_uri'' = r" "form_field form ''code_verifier'' = v"
    "code \<noteq> []" "r \<noteq> []" "v \<noteq> []"
  shows "token_post env now tok req st =
    (py_bind (fst (provider_consume now code r v codes)) (\<lambda>ok.
       Inr (if \<not> ok then json_error ''invalid_grant'' 400 None else access_token_response tok)),
     set_provider (snd (provider_consume now code r v codes)) cfg st)"
  using assms by (simp add: token_post_def autoapprove_token_def Let_def split: prod.splits)

lemma valid_redirect_not_Nil: "is_valid_redirect_uri r \<Longrightarrow> r \<noteq> []"
  by (auto simp: is_valid_redirect_uri_def)

lemma envelope_identity_wrap:
  assumes "1 \<le> nest" "md_get form ''refresh_token'' = wrap_refresh_token key t c p"
  shows "envelope_identity nest (Some key) form p =
    Inr (Some (Forward c True), md_popall ''refresh_token'' form @ [(''refresh_token'', t)])"
  using unwrap_wrap [OF assms(1), of key t c p "Some p"] assms(2)
  by (simp add: envelope_identity_def md_set_popall)

lemma map_of_coerce: "map_of (coerce_form raw) k = map_option form_str (map_of raw k)"
  by (induction raw) (auto simp: coerce_form_def)

section \<open>Properties of none mode\<close>

text \<open>C31: the invisible flow completes: an authorization with valid parameters while the store is
  below its cap is followed, within five minutes, by a token exchange that presents the code, the
  same redirect URI and the matching verifier, and that exchange is answered with the token.\<close>

theorem none_mode_end_to_end:
  assumes "webhook_cfg_of (o_hass st) = Some cfg" "w_resource_server cfg = None"
    "w_provider cfg = Some codes" "length codes < max_pending_codes"
    "validate_autoapprove_authorize (q_query req) = None"
    "md_get (q_query req) ''code_challenge'' = pkce_derive v" "pkce_verifier_ok v"
    "q_form req2 = Inr form" "map_of form ''grant_type'' = Some (FText ''authorization_code'')"
    "form_field form ''code'' = code" "code \<noteq> []"
    "form_field form ''redirect_uri'' = md_get (q_query req) ''redirect_uri''"
    "form_field form ''code_verifier'' = v" "t2 \<le> t1 + auth_code_ttl"
  shows "fst (token_post env t2 tok req2 (snd (authorize_get env t1 code req st)))
    = Inr (access_token_response tok)"
proof -
  let ?r = "md_get (q_query req) ''redirect_uri''"
  have r: "?r \<noteq> []"
    using assms(5) valid_redirect_not_Nil by (auto simp: validate_autoapprove_authorize_def split: if_splits)
  have v: "v \<noteq> []" using assms(7) by (auto simp: pkce_verifier_ok_def pkce_verifier_min_def)
  have "\<not> max_pending_codes \<le> length (filter (\<lambda>(_, e). t1 < p_expires e) codes)"
    using assms(4) length_filter_le [of "\<lambda>(_, e). t1 < p_expires e" codes] by linarith
  then obtain codes' where i: "provider_issue t1 code ?r (pkce_derive v) codes = (Some code, codes')"
    by (simp add: provider_issue_def issue_code_def Let_def)
  have s: "snd (authorize_get env t1 code req st) = set_provider codes' cfg st"
    using autoapprove_issue [OF assms(1,2,3,5), of t1 code codes' env] i assms(6) by simp
  have "webhook_cfg_of (o_hass (set_provider codes' cfg st)) = Some (cfg\<lparr>w_provider := Some codes'\<rparr>)"
    using webhook_cfg_of_Some [OF assms(1)] by simp
  from autoapprove_redeem [OF this _ _ assms(8,9,10,12,13,11) r v]
  show ?thesis
    using provider.issue_then_consume [OF i assms(7,14)] assms(2) by (simp add: s)
qed

text \<open>the none-mode token endpoint never answers 200 unless the code store accepted the
  presented code, redirect URI and verifier; whatever it answers, the redeemed code is gone.\<close>

theorem none_mode_token_sound:
  assumes "webhook_cfg_of (o_hass st) = Some cfg" "w_resource_server cfg = None"
    "w_provider cfg = Some codes" "token_post env now tok req st = (Inr resp, st')" "r_status resp = 200"
  shows "\<exists>form code r v. q_form req = Inr form \<and> form_field form ''code'' = code
    \<and> form_field form ''redirect_uri'' = r \<and> form_field form ''code_verifier'' = v
    \<and> fst (consume_code now code r v codes) = Inr True
    \<and> st' = set_provider (dict_pop code codes) cfg st"
proof -
  obtain form where f: "q_form req = Inr form"
    using assms by (cases "q_form req")
      (auto simp: token_post_def autoapprove_token_def read_form_def json_error_def py_except_def split: if_splits)
  have "fst (consume_code now (form_field form ''code'') (form_field form ''redirect_uri'')
      (form_field form ''code_verifier'') codes) = Inr True
    \<and> st' = set_provider (snd (consume_code now (form_field form ''code'') (form_field form ''redirect_uri'')
      (form_field form ''code_verifier'') codes)) cfg st"
    using assms f
    by (auto simp: token_post_def autoapprove_token_def Let_def json_error_def py_iffs provider_consume_def
        split: if_splits prod.splits)
  moreover from this have "pkce_verifier_ok (form_field form ''code_verifier'')"
    by (simp add: pkce.consume_True)
  ultimately show ?thesis using f by (simp add: pkce_attempt_effect)
qed

text \<open>no view of the unified OAuth surface serves while no mode is live, and revocation is not
  served in none mode.\<close>

theorem views_gated:
  "webhook_cfg_of (o_hass st) = None \<or>
     (\<exists>cfg. webhook_cfg_of (o_hass st) = Some cfg \<and> w_resource_server cfg = None \<and> w_provider cfg = None)
   \<Longrightarrow> authorize_get env now fresh req st = (Inr json_not_found, st)
     \<and> token_post env now fresh req st = (Inr json_not_found, st)
     \<and> revoke_post env req st = (Inr json_not_found, st)"
  by (auto simp: authorize_get_def token_post_def revoke_post_def)

section \<open>Properties of ha_auth mode\<close>

text \<open>a refresh grant whose envelope is invalid is answered here with invalid_grant, the same
  whatever core would say, and changes nothing.\<close>

theorem invalid_envelope_answered_locally:
  assumes "w_dcr_key cfg = Some key" "q_form req = Inr raw"
    "map_of (coerce_form raw) ''action'' \<noteq> Some ''revoke''"
    "md_get (coerce_form raw) ''grant_type'' = ''refresh_token''"
    "unwrap_refresh_token (e_nest (x_cimd env)) key (md_get (coerce_form raw) ''refresh_token'')
       (Some (md_get (coerce_form raw) ''client_id'')) = Inr EnvInvalid"
  shows "ha_auth_token env cfg req st = (Inr invalid_envelope_response, st)"
  using assms
  by (simp add: ha_auth_token_def ha_auth_forward_identity_def envelope_identity_def sbind_def Let_def)

definition refreshed_form :: "multidict \<Rightarrow> string \<Rightarrow> string \<Rightarrow> multidict" where
  "refreshed_form form t c =
     md_popall ''client_id'' (md_popall ''refresh_token'' form @ [(''refresh_token'', t)]) @ [(''client_id'', c)]"

lemma refreshed_form_props:
  "md_get (refreshed_form form t c) ''refresh_token'' = t"
  "md_get (refreshed_form form t c) ''client_id'' = c"
  "k \<notin> {''client_id'', ''refresh_token''} \<Longrightarrow> (k, x) \<in> set (refreshed_form form t c) \<longleftrightarrow> (k, x) \<in> set form"
  by (auto simp: refreshed_form_def md_popall_mem)

lemma refresh_leg_facts:
  assumes "1 \<le> e_nest (x_cimd env)" "w_dcr_key cfg = Some key" "q_form req = Inr raw"
    "map_of (coerce_form raw) ''action'' \<noteq> Some ''revoke''"
    "md_get (coerce_form raw) ''grant_type'' = ''refresh_token''"
    "md_get (coerce_form raw) ''refresh_token'' = wrap_refresh_token key t c p"
    "md_get (coerce_form raw) ''client_id'' = p"
  shows "ha_auth_token env cfg req st =
      (proxy_token_to_core env cfg (refreshed_form (coerce_form raw) t c) c p (Some key), st)
    \<and> md_get (refreshed_form (coerce_form raw) t c) ''refresh_token'' = t
    \<and> md_get (refreshed_form (coerce_form raw) t c) ''client_id'' = c"
  using assms(2-5,7) envelope_identity_wrap [OF assms(1,6)]
  by (simp add: ha_auth_token_def ha_auth_forward_identity_def sbind_def Let_def refreshed_form_props)
    (simp add: refreshed_form_def md_set_popall)

text \<open>the refresh leg hands core exactly the pair the envelope names: a grant that presents
  the envelope with the client id it was minted for is proxied with core's own refresh token and
  the client id core bound it to, everything else of the form unchanged.\<close>

theorem refresh_leg_unwraps:
  assumes "1 \<le> e_nest (x_cimd env)" "w_dcr_key cfg = Some key" "q_form req = Inr raw"
    "map_of (coerce_form raw) ''action'' \<noteq> Some ''revoke''"
    "md_get (coerce_form raw) ''grant_type'' = ''refresh_token''"
    "md_get (coerce_form raw) ''refresh_token'' = wrap_refresh_token key t c p"
    "md_get (coerce_form raw) ''client_id'' = p"
  shows "\<exists>form. ha_auth_token env cfg req st = (proxy_token_to_core env cfg form c p (Some key), st)
    \<and> md_get form ''refresh_token'' = t \<and> md_get form ''client_id'' = c
    \<and> (\<forall>k x. k \<notin> {''client_id'', ''refresh_token''} \<longrightarrow> ((k, x) \<in> set form \<longleftrightarrow> (k, x) \<in> set (coerce_form raw)))"
  using refresh_leg_facts [OF assms] refreshed_form_props(3) by blast

text \<open>A configuration with a key and a relay session, for the witnesses.\<close>

definition sample_cfg :: webhook_cfg where
  "sample_cfg = \<lparr>w_webhook_id = ''w'', w_target_url = ''t'', w_session = Some 1, w_cimd_session = None,
     w_auth_mode = ''ha_auth'', w_resource_server = Some ''w'', w_provider = None, w_dcr_key = Some ''k''\<rparr>"

definition sample_state :: oauth_state where
  "sample_state = \<lparr>o_hass = \<lparr>d_domain = True, d_webhook = Some sample_cfg, d_dcr_bound = True,
       d_autoapprove_bound = True, d_metadata_bound = True\<rparr>, o_cimd = fresh_cimd, o_warned = False\<rparr>"

definition sample_env :: oauth_env where
  "sample_env = \<lparr>x_cimd = dark_env, x_update_query = (\<lambda>u ps. Inr u), x_with_query = (\<lambda>u ps. Inr u),
     x_api = Some (False, 8123), x_url = None, x_core_post = (\<lambda>u f. CoreSilent)\<rparr>"

definition posted :: "raw_form \<Rightarrow> request" where
  "posted form = \<lparr>q_query = [], q_form = Inr form, q_headers = [], q_scheme = ''http''\<rparr>"

lemma samples [simp]:
  "w_dcr_key sample_cfg = Some ''k''" "w_session sample_cfg = Some 1" "w_cimd_session sample_cfg = None"
  "w_resource_server sample_cfg = Some ''w''" "w_provider sample_cfg = None"
  "q_form (posted f) = Inr f" "x_cimd sample_env = dark_env" "e_nest dark_env = 100"
  "x_core_post sample_env = (\<lambda>u f. CoreSilent)" "o_hass sample_state =
    \<lparr>d_domain = True, d_webhook = Some sample_cfg, d_dcr_bound = True, d_autoapprove_bound = True, d_metadata_bound = True\<rparr>"
  "webhook_cfg_of \<lparr>d_domain = True, d_webhook = Some sample_cfg, d_dcr_bound = True,
     d_autoapprove_bound = True, d_metadata_bound = True\<rparr> = Some sample_cfg"
  by (simp_all add: sample_cfg_def posted_def sample_env_def dark_env_def sample_state_def webhook_cfg_of_def)

theorem refresh_leg_unwraps_witness:
  "\<exists>form. ha_auth_token sample_env sample_cfg (posted [(''grant_type'', FText ''refresh_token''),
       (''refresh_token'', FText (wrap_refresh_token ''k'' ''tok'' ''c'' ''p'')), (''client_id'', FText ''p'')]) sample_state
      = (proxy_token_to_core sample_env sample_cfg form ''c'' ''p'' (Some ''k''), sample_state)
    \<and> md_get form ''refresh_token'' = ''tok'' \<and> md_get form ''client_id'' = ''c''"
  using refresh_leg_unwraps [of sample_env sample_cfg "''k''" "posted [(''grant_type'', FText ''refresh_token''),
       (''refresh_token'', FText (wrap_refresh_token ''k'' ''tok'' ''c'' ''p'')), (''client_id'', FText ''p'')]"
     "[(''grant_type'', FText ''refresh_token''),
       (''refresh_token'', FText (wrap_refresh_token ''k'' ''tok'' ''c'' ''p'')), (''client_id'', FText ''p'')]"
     "''tok''" "''c''" "''p''" sample_state]
  by (auto simp: coerce_form_def md_get_def)

lemma broken_envelope: "unwrap_refresh_token n key ''espmcp-rt-x'' q = Inr EnvInvalid"
proof -
  have "rpartition_at (CHR ''.'') ''x'' = ([], False, ''x'')" by (rule rpartition_at_none) simp
  then show ?thesis by (simp add: unwrap_refresh_token_def refresh_envelope_prefix_def verified_payload_def)
qed

theorem invalid_envelope_answered_locally_witness:
  "ha_auth_token sample_env sample_cfg (posted [(''grant_type'', FText ''refresh_token''),
       (''refresh_token'', FText ''espmcp-rt-x''), (''client_id'', FText ''p'')]) sample_state
     = (Inr invalid_envelope_response, sample_state)"
  by (rule invalid_envelope_answered_locally [where raw = "[(''grant_type'', FText ''refresh_token''),
       (''refresh_token'', FText ''espmcp-rt-x''), (''client_id'', FText ''p'')]" and key = "''k''"])
    (simp_all add: coerce_form_def md_get_def broken_envelope)

text \<open>The form the code leg sends to core for a registered client.\<close>

definition code_form :: "multidict \<Rightarrow> string \<Rightarrow> multidict" where
  "code_form form f = md_popall ''client_id'' form @ [(''client_id'', f)]"

lemma code_leg_proxies:
  assumes "2 \<le> e_nest (x_cimd env)" "iat_ok iat" "w_dcr_key cfg = Some key" "q_form req = Inr raw"
    "map_of (coerce_form raw) ''action'' \<noteq> Some ''revoke''"
    "md_get (coerce_form raw) ''grant_type'' = ''authorization_code''"
    "md_get (coerce_form raw) ''client_id'' = mint_client_id key us iat"
    "md_get (coerce_form raw) ''redirect_uri'' = r" "is_valid_redirect_uri r" "r \<in> set us"
  shows "fst (ha_auth_token env cfg req st) = proxy_token_to_core env cfg
     (code_form (coerce_form raw) (canonical_origin_url (origin_of r)))
     (canonical_origin_url (origin_of r)) (mint_client_id key us iat) (Some key)"
proof -
  let ?f = "canonical_origin_url (origin_of r)"
  have f: "fst (resolve_forward_client_id (x_cimd env) session (Some key) (mint_client_id key us iat) r (o_cimd st)) = Inr ?f"
    for session
    using resolve_minted [OF assms(1,2,9,10)] .
  have ne: "?f \<noteq> mint_client_id key us iat"
  proof -
    have s: "u_scheme (url_of r) \<in> {''http'', ''https''}" by (rule scheme_valid [OF assms(9)])
    obtain u h p where "urlparse r = Inr u" "url_hostname u = Some h" "url_port u = Inr p"
      using assms(9) by (rule is_valid_redirect_uriE)
    then have "\<exists>h p. origin_of r = (u_scheme (url_of r), h, p)"
      using s by (auto simp: origin_of_def normalized_origin_def url_of_def)
    then have "startswith ?f ''http''" using s by (auto simp: canonical_origin_url_split)
    moreover have "\<not> startswith (mint_client_id key us iat) ''http''"
      by (simp add: mint_client_id_def client_id_prefix_def)
    ultimately show ?thesis by auto
  qed
  show ?thesis
    using assms(3-8) ne with_cimd_Inr [where m = "resolve_forward_client_id (x_cimd env) (w_cimd_session cfg \<noteq> None)
        (Some key) (mint_client_id key us iat) r" and st = st, OF f]
    by (simp add: ha_auth_token_def ha_auth_forward_identity_def sbind_def Let_def code_form_def md_set_popall)
qed

text \<open>C1: the whole round of a registered client: core gets the code exchange with the redirect's
  origin as client id; the refresh token of its answer comes back wrapped, all other fields as
  they were; and the later refresh that presents it is proxied with the same client id and core's
  own refresh token, with no lookup and no change of state.\<close>

theorem code_then_refresh:
  assumes "2 \<le> e_nest (x_cimd env)" "iat_ok iat" "w_dcr_key cfg = Some key" "w_session cfg = Some sn"
    "q_form req = Inr raw" "map_of (coerce_form raw) ''action'' \<noteq> Some ''revoke''"
    "md_get (coerce_form raw) ''grant_type'' = ''authorization_code''"
    "md_get (coerce_form raw) ''client_id'' = mint_client_id key us iat"
    "md_get (coerce_form raw) ''redirect_uri'' = r" "is_valid_redirect_uri r" "r \<in> set us"
    "x_core_post env (core_token_base_url (x_api env) (x_url env) @ ''/auth/token'')
       (code_form (coerce_form raw) (canonical_origin_url (origin_of r)))
       = CoreAnswered 200 (utf8_encode (json_compact (PDict d))) ct"
    "json_ok (PDict d)" "json_depth (PDict d) \<le> e_nest (x_cimd env)" "map_of d ''refresh_token'' = Some (PStr t)"
    "q_form req2 = Inr raw2" "map_of (coerce_form raw2) ''action'' \<noteq> Some ''revoke''"
    "md_get (coerce_form raw2) ''grant_type'' = ''refresh_token''"
    "md_get (coerce_form raw2) ''client_id'' = mint_client_id key us iat"
  shows "\<exists>resp body tok. fst (ha_auth_token env cfg req st) = Inr resp \<and> r_status resp = 200 \<and> r_body resp = RawBody body
    \<and> json_loads_bytes (e_nest (x_cimd env)) body = Inr (PDict (dict_set ''refresh_token'' (PStr tok) d))
    \<and> (md_get (coerce_form raw2) ''refresh_token'' = tok \<longrightarrow>
        (\<exists>form. ha_auth_token env cfg req2 st2 =
            (proxy_token_to_core env cfg form (canonical_origin_url (origin_of r)) (mint_client_id key us iat) (Some key), st2)
          \<and> md_get form ''refresh_token'' = t \<and> md_get form ''client_id'' = canonical_origin_url (origin_of r)))"
proof -
  let ?f = "canonical_origin_url (origin_of r)" and ?cid = "mint_client_id key us iat"
  let ?tok = "wrap_refresh_token key t ?f ?cid"
  have n1: "1 \<le> e_nest (x_cimd env)" using assms(1) by simp
  obtain body' where b: "rewrite_token_response_body (e_nest (x_cimd env)) key (utf8_encode (json_compact (PDict d))) ?f ?cid = Inr body'"
      "json_loads_bytes (e_nest (x_cimd env)) body' = Inr (PDict (dict_set ''refresh_token'' (PStr ?tok) d))"
    using rewrite_response_facts [OF assms(13,14,15)] by blast
  have a: "map_of (code_form (coerce_form raw) ?f) ''action'' \<noteq> Some ''revoke''"
    using assms(6) by (cases "map_of (coerce_form raw) ''action''") (simp_all add: code_form_def map_add_def)
  have "fst (ha_auth_token env cfg req st) = Inr (raw_response 200 body' (if ct = [] then ''application/json'' else ct) token_response_headers)"
    using code_leg_proxies [OF assms(1,2,3,5-11)] assms(4,12) a b(1)
    by (simp add: proxy_token_to_core_def forward_to_core_def)
  moreover have "\<exists>form. ha_auth_token env cfg req2 st2 = (proxy_token_to_core env cfg form ?f ?cid (Some key), st2)
          \<and> md_get form ''refresh_token'' = t \<and> md_get form ''client_id'' = ?f"
    if "md_get (coerce_form raw2) ''refresh_token'' = ?tok"
    using refresh_leg_facts [OF n1 assms(3,16,17,18) that assms(19), of st2] by blast
  ultimately show ?thesis using b(2) by (intro exI [of _ "raw_response 200 body' _ token_response_headers"] exI [of _ body'] exI [of _ ?tok]) auto
qed

definition sample_dict :: "(string \<times> pyval) list" where
  "sample_dict = [(''access_token'', PStr ''a''), (''refresh_token'', PStr ''tok'')]"

definition answering_env :: oauth_env where
  "answering_env = sample_env\<lparr>x_core_post :=
     (\<lambda>u f. CoreAnswered 200 (utf8_encode (json_compact (PDict sample_dict))) ''application/json'')\<rparr>"

lemma answering_env_simps [simp]:
  "x_cimd answering_env = dark_env"
  "x_core_post answering_env =
     (\<lambda>u f. CoreAnswered 200 (utf8_encode (json_compact (PDict sample_dict))) ''application/json'')"
  by (simp_all add: answering_env_def)

definition code_request :: raw_form where
  "code_request = [(''grant_type'', FText ''authorization_code''), (''code'', FText ''x''),
     (''client_id'', FText sample_cid), (''redirect_uri'', FText ''https://c.example/cb'')]"

definition refresh_request :: raw_form where
  "refresh_request = [(''grant_type'', FText ''refresh_token''), (''client_id'', FText sample_cid),
     (''refresh_token'', FText (wrap_refresh_token ''k'' ''tok'' ''https://c.example'' sample_cid))]"

theorem code_then_refresh_witness:
  "\<exists>resp. fst (ha_auth_token answering_env sample_cfg (posted code_request) sample_state) = Inr resp \<and> r_status resp = 200"
proof -
  have "json_ok (PDict sample_dict)" "json_depth (PDict sample_dict) \<le> 100"
      "map_of sample_dict ''refresh_token'' = Some (PStr ''tok'')"
    by (simp_all add: sample_dict_def)
  note c = code_then_refresh [of answering_env 5 sample_cfg "''k''" 1 "posted code_request" code_request
      "[''https://c.example/cb'']" "''https://c.example/cb''" sample_dict "''application/json''" "''tok''"
      "posted refresh_request" refresh_request sample_state sample_state]
  show ?thesis
    using c sample_iat sample_redirect \<open>json_ok (PDict sample_dict)\<close> \<open>json_depth (PDict sample_dict) \<le> 100\<close>
      \<open>map_of sample_dict ''refresh_token'' = Some (PStr ''tok'')\<close>
    by (auto simp: code_request_def refresh_request_def coerce_form_def md_get_def sample_cid_def)
qed

text \<open>revocation through either surface reaches core as core's own token: an envelope presented
  to the scoped view, whatever key minted it, is posted to core's revocation endpoint with the
  token behind it and nothing else of the form changed.\<close>

theorem revoke_reaches_core:
  assumes "webhook_cfg_of (o_hass st) = Some cfg" "w_resource_server cfg = Some w" "w_dcr_key cfg = Some key"
    "w_session cfg = Some sn" "1 \<le> e_nest (x_cimd env)" "q_form req = Inr raw"
    "md_get (coerce_form raw) ''token'' = wrap_refresh_token old_key t c p" "length t + length c \<le> 440"
    "x_core_post env (core_token_base_url (x_api env) (x_url env) @ ''/auth/revoke'')
       (md_popall ''token'' (coerce_form raw) @ [(''token'', t)]) = CoreAnswered status body ct"
  shows "fst (revoke_post env req st) =
    Inr (raw_response status body (if ct = [] then ''application/json'' else ct) token_response_headers)"
proof -
  obtain w' where "core_token_for_revocation (e_nest (x_cimd env)) (Some key) (wrap_refresh_token old_key t c p)
      (o_warned st) = (Inr (Some t), w')"
    using core_token_for_revocation_wrap [where k = old_key and k' = key and p = p and w = "o_warned st",
        OF assms(5) envelope_length [OF assms(8)]]
    by (metis prod.collapse)
  then show ?thesis
    using assms(1-4,6,7,9)
    by (simp add: revoke_post_def revoke_rewrite_def sbind_def md_set_popall forward_to_core_def Let_def)
qed

theorem revoke_reaches_core_witness:
  "fst (revoke_post answering_env (posted [(''token'', FText (wrap_refresh_token ''old'' ''tok'' ''cid'' ''p''))]) sample_state)
     = Inr (raw_response 200 (utf8_encode (json_compact (PDict sample_dict))) ''application/json'' token_response_headers)"
  using revoke_reaches_core [of sample_state sample_cfg "''w''" "''k''" 1 answering_env
      "posted [(''token'', FText (wrap_refresh_token ''old'' ''tok'' ''cid'' ''p''))]"
      "[(''token'', FText (wrap_refresh_token ''old'' ''tok'' ''cid'' ''p''))]" "''old''" "''tok''" "''cid''" "''p''"
      200 "utf8_encode (json_compact (PDict sample_dict))" "''application/json''"]
  by (simp add: coerce_form_def md_get_def)

text \<open>a token that is not ours is never proxied on revocation: the client is redirected to
  core's own endpoint by a relative 307 and the state is unchanged.\<close>

theorem foreign_revocation_redirected:
  assumes "webhook_cfg_of (o_hass st) = Some cfg" "w_resource_server cfg = Some w" "q_form req = Inr raw"
    "w_dcr_key cfg = None \<or> \<not> startswith (md_get (coerce_form raw) ''token'') refresh_envelope_prefix"
  shows "revoke_post env req st = (Inr (see_core ''/auth/revoke''), st)"
  using assms
  by (auto simp: revoke_post_def revoke_rewrite_def sbind_def core_token_for_revocation_def split: option.splits)

theorem foreign_revocation_redirected_witness:
  "revoke_post answering_env (posted [(''token'', FText ''plain'')]) sample_state
     = (Inr (see_core ''/auth/revoke''), sample_state)"
  by (rule foreign_revocation_redirected [of _ sample_cfg "''w''" _ "[(''token'', FText ''plain'')]"])
    (simp_all add: coerce_form_def md_get_def refresh_envelope_prefix_def)

text \<open>without a signing key and without a document pool, every token request is left to core:
  a well-formed form always gets the relative 307 and nothing is posted or changed.\<close>

theorem unmanaged_requests_redirected:
  assumes "w_dcr_key cfg = None" "w_cimd_session cfg = None" "q_form req = Inr raw"
  shows "ha_auth_token env cfg req st = (Inr (see_core ''/auth/token''), st)"
proof -
  have r: "with_cimd (resolve_forward_client_id (x_cimd env) False None cid r) st = (Inr cid, st)" for cid r
    by (simp add: with_cimd_def resolve_forward_client_id_def translate_cimd_def split: sum.splits)
  have t: "with_cimd (translated_client_id_for_refresh (x_cimd env) False None cid) st = (Inr Passthrough, st)" for cid
    by (simp add: with_cimd_def translated_client_id_for_refresh_def split: sum.splits)
  show ?thesis
    using assms r t
    by (auto simp: ha_auth_token_def ha_auth_forward_identity_def sbind_def Let_def revoke_rewrite_def
        envelope_identity_def pre_envelope_refresh_identity_def code_leg_forces_proxy_def)
qed

theorem unmanaged_requests_redirected_witness:
  "ha_auth_token sample_env (sample_cfg\<lparr>w_dcr_key := None\<rparr>) (posted code_request) sample_state
     = (Inr (see_core ''/auth/token''), sample_state)"
  by (rule unmanaged_requests_redirected [of _ _ code_request]) simp_all

text \<open>a failed forward is a 503, and it carries Retry-After exactly when the request is a
  revocation, on the scoped endpoint and as action=revoke on the token endpoint alike.\<close>

theorem forward_failure_answer:
  assumes "w_session cfg = None \<or>
    x_core_post env (core_token_base_url (x_api env) (x_url env) @ path) form = CoreSilent"
  shows "\<exists>resp. forward_to_core env cfg path form = Answered resp \<and> r_status resp = 503
    \<and> ((''Retry-After'', ''5'') \<in> set (r_headers resp) \<longleftrightarrow>
        path = ''/auth/revoke'' \<or> map_of form ''action'' = Some ''revoke'')"
  using assms
  by (auto simp: forward_to_core_def unavailable_def json_error_def json_response_def Let_def
      token_response_headers_def split: option.splits)

theorem forward_failure_answer_witness:
  "\<exists>resp. forward_to_core sample_env sample_cfg ''/auth/token'' [(''action'', ''revoke'')] = Answered resp
     \<and> (''Retry-After'', ''5'') \<in> set (r_headers resp)"
  using forward_failure_answer [of sample_cfg sample_env "''/auth/token''" "[(''action'', ''revoke'')]"] by auto

definition none_cfg :: "code_table \<Rightarrow> webhook_cfg" where
  "none_cfg codes = sample_cfg\<lparr>w_resource_server := None, w_provider := Some codes, w_auth_mode := ''none''\<rparr>"

definition none_state :: "code_table \<Rightarrow> oauth_state" where
  "none_state codes = sample_state\<lparr>o_hass := \<lparr>d_domain = True, d_webhook = Some (none_cfg codes), d_dcr_bound = True,
       d_autoapprove_bound = True, d_metadata_bound = True\<rparr>\<rparr>"

lemma none_samples [simp]:
  "webhook_cfg_of (o_hass (none_state codes)) = Some (none_cfg codes)"
  "w_resource_server (none_cfg codes) = None" "w_provider (none_cfg codes) = Some codes"
  by (simp_all add: none_state_def none_cfg_def webhook_cfg_of_def)

definition authorize_request :: request where
  "authorize_request = \<lparr>q_query = [(''response_type'', ''code''), (''code_challenge_method'', ''S256''),
     (''code_challenge'', pkce_derive sample_verifier), (''redirect_uri'', ''https://c.example/cb'')],
     q_form = Inr [], q_headers = [], q_scheme = ''https''\<rparr>"

definition redeem_request :: request where
  "redeem_request = posted [(''grant_type'', FText ''authorization_code''), (''code'', FText ''code''),
     (''redirect_uri'', FText ''https://c.example/cb''), (''code_verifier'', FText sample_verifier)]"

lemma redeem_answer: "fst (token_post sample_env 20 ''tok'' redeem_request (none_state sample_store))
    = Inr (access_token_response ''tok'')"
proof -
  have "sample_verifier \<noteq> []" by (simp add: sample_verifier_def)
  from autoapprove_redeem [OF none_samples(1,2,3), of redeem_request _ "''code''" "''https://c.example/cb''" sample_verifier]
  show ?thesis using sample_store_consume [of 20] \<open>sample_verifier \<noteq> []\<close>
    by (simp add: redeem_request_def form_field_def provider_consume_def)
qed

theorem none_mode_end_to_end_witness:
  "fst (token_post sample_env 20 ''tok'' redeem_request (snd (authorize_get sample_env 10 ''code'' authorize_request (none_state []))))
    = Inr (access_token_response ''tok'')"
  by (rule none_mode_end_to_end [OF none_samples(1,2,3), where v = sample_verifier and form =
        "[(''grant_type'', FText ''authorization_code''), (''code'', FText ''code''),
          (''redirect_uri'', FText ''https://c.example/cb''), (''code_verifier'', FText sample_verifier)]"])
    (simp_all add: max_pending_codes_def authorize_request_def redeem_request_def validate_autoapprove_authorize_def
      md_get_def sample_redirect sample_verifier_ok form_field_def auth_code_ttl_def)

theorem none_mode_token_sound_witness:
  "\<exists>code r v. fst (consume_code 20 code r v sample_store) = Inr True"
proof -
  have "token_post sample_env 20 ''tok'' redeem_request (none_state sample_store) =
      (Inr (access_token_response ''tok''), snd (token_post sample_env 20 ''tok'' redeem_request (none_state sample_store)))"
    using redeem_answer by (metis prod.collapse)
  from none_mode_token_sound [OF none_samples(1,2,3) this] show ?thesis
    by (auto simp: access_token_response_def)
qed

theorem views_gated_witness:
  "revoke_post sample_env redeem_request (none_state []\<lparr>o_hass := \<lparr>d_domain = False, d_webhook = None, d_dcr_bound = True,
       d_autoapprove_bound = True, d_metadata_bound = True\<rparr>\<rparr>)
   = (Inr json_not_found, none_state []\<lparr>o_hass := \<lparr>d_domain = False, d_webhook = None, d_dcr_bound = True,
       d_autoapprove_bound = True, d_metadata_bound = True\<rparr>\<rparr>)"
  using views_gated by (simp add: webhook_cfg_of_def)

end
