(* ===== verification/Webhook.thy ===== *)
theory Webhook
  imports AutoApprove
begin

text \<open>
  \<open>mcp_webhook.py\<close>: the resource server's admin gate, the discovery documents and their views,
  the forwarding handler, and the registration of the webhook with its two fail policies. What
  Home Assistant's token validator and the loopback server answer, and which of the platform's
  calls fail, are parameters.
\<close>

section \<open>The resource server\<close>

text \<open>A user object by the attributes the gate reads (an absent attribute reads as its default).\<close>

record auth_user =
  a_system_generated :: bool
  a_is_active :: bool
  a_is_admin :: bool

datatype validation =
    ValidatorRaises
  | NoToken
  | ValidToken "auth_user option"

definition bearer_token :: "request \<Rightarrow> string" where
  "bearer_token request =
     (let header = (case header_get (q_headers request) ''Authorization'' of Some h \<Rightarrow> h | None \<Rightarrow> [])
      in if startswith (str_lower header) ''bearer '' then str_strip (drop 7 header) else [])"

definition validate_request :: "(string \<Rightarrow> validation) \<Rightarrow> request \<Rightarrow> bool" where
  "validate_request validator request =
     (if bearer_token request = [] then False
      else case validator (bearer_token request) of
        ValidToken (Some user) \<Rightarrow>
          (if a_system_generated user then False
           else if \<not> a_is_active user then False
           else a_is_admin user)
      | _ \<Rightarrow> False)"

section \<open>The live mode\<close>

definition active_webhook_cfg :: "hass_data \<Rightarrow> webhook_cfg option" where
  "active_webhook_cfg hass = (if d_domain hass then d_webhook hass else None)"

definition active_auth_mode :: "hass_data \<Rightarrow> string option" where
  "active_auth_mode hass =
     (case active_webhook_cfg hass of
        None \<Rightarrow> None
      | Some cfg \<Rightarrow>
          if w_resource_server cfg \<noteq> None then Some ''ha_auth''
          else if w_provider cfg \<noteq> None then Some ''none''
          else None)"

definition active_webhook_id :: "hass_data \<Rightarrow> string option" where
  "active_webhook_id hass =
     (if active_auth_mode hass = None then None
      else map_option w_webhook_id (active_webhook_cfg hass))"

section \<open>The documents\<close>

definition authorization_server_document :: "string \<Rightarrow> pyval" where
  "authorization_server_document base = PDict
     [(''issuer'', PStr (base @ oauth_base)),
      (''authorization_endpoint'', PStr (base @ oauth_base @ ''/authorize'')),
      (''token_endpoint'', PStr (base @ oauth_base @ ''/token'')),
      (''registration_endpoint'', PStr (base @ oauth_base @ ''/register'')),
      (''revocation_endpoint'', PStr (base @ oauth_base @ ''/revoke'')),
      (''revocation_endpoint_auth_methods_supported'', PList [PStr ''none'']),
      (''response_types_supported'', PList [PStr ''code'']),
      (''grant_types_supported'', PList [PStr ''authorization_code'', PStr ''refresh_token'']),
      (''code_challenge_methods_supported'', PList [PStr ''S256'']),
      (''token_endpoint_auth_methods_supported'', PList [PStr ''none'']),
      (''client_id_metadata_document_supported'', PBool True)]"

definition none_mode_authorization_server_document :: "string \<Rightarrow> pyval" where
  "none_mode_authorization_server_document base = PDict
     [(''issuer'', PStr (oauth_issuer base)),
      (''authorization_response_iss_parameter_supported'', PBool True),
      (''authorization_endpoint'', PStr (base @ oauth_base @ ''/authorize'')),
      (''token_endpoint'', PStr (base @ oauth_base @ ''/token'')),
      (''registration_endpoint'', PStr (base @ oauth_base @ ''/register'')),
      (''response_types_supported'', PList [PStr ''code'']),
      (''grant_types_supported'', PList [PStr ''authorization_code'']),
      (''code_challenge_methods_supported'', PList [PStr ''S256'']),
      (''token_endpoint_auth_methods_supported'', PList [PStr ''none'']),
      (''client_id_metadata_document_supported'', PBool True)]"

definition protected_resource_document :: "string \<Rightarrow> string \<Rightarrow> pyval" where
  "protected_resource_document webhook_id base = PDict
     [(''resource'', PStr (base @ ''/api/webhook/'' @ webhook_id)),
      (''authorization_servers'', PList [PStr (base @ oauth_base)]),
      (''bearer_methods_supported'', PList [PStr ''header'']),
      (''resource_documentation'', PStr ''https://github.com/kingpanther13/esphome-mcp'')]"

section \<open>The discovery views\<close>

definition protected_resource_get :: "hass_data \<Rightarrow> request \<Rightarrow> response" where
  "protected_resource_get hass request =
     (if active_auth_mode hass \<noteq> Some ''ha_auth'' then json_not_found
      else case active_webhook_id hass of
        None \<Rightarrow> json_not_found
      | Some webhook_id \<Rightarrow>
          json_response (protected_resource_document webhook_id (build_base_url request)) 200 [])"

definition authorization_server_get :: "hass_data \<Rightarrow> request \<Rightarrow> response" where
  "authorization_server_get hass request =
     (case active_auth_mode hass of
        None \<Rightarrow> json_not_found
      | Some mode \<Rightarrow>
          let base = build_base_url request
          in if mode = ''none'' then json_response (none_mode_authorization_server_document base) 200 []
             else json_response (authorization_server_document base) 200 [])"

definition wellknown_protected_resource_get :: "hass_data \<Rightarrow> string \<Rightarrow> request \<Rightarrow> response" where
  "wellknown_protected_resource_get hass webhook_id request =
     (case active_webhook_id hass of
        None \<Rightarrow> json_not_found
      | Some active_id \<Rightarrow>
          if webhook_id \<noteq> active_id then json_not_found
          else json_response (protected_resource_document active_id (build_base_url request)) 200 [])"

definition metadata_view_urls :: "string list" where
  "metadata_view_urls =
     [oauth_base @ ''/protected-resource'', oauth_base @ ''/authorization-server'',
      ''/.well-known/oauth-protected-resource/api/webhook/{webhook_id}'',
      ''/.well-known/oauth-authorization-server'' @ oauth_base,
      ''/.well-known/openid-configuration'' @ oauth_base,
      oauth_base @ ''/.well-known/openid-configuration'',
      oauth_base @ ''/.well-known/oauth-authorization-server'']"

definition unauthorized_response :: "request \<Rightarrow> response" where
  "unauthorized_response request =
     text_response 401 ''Unauthorized''
       [(''WWW-Authenticate'', ''Bearer realm='' @ [dq] @ ''ESPHome MCP'' @ [dq] @ '', resource_metadata=''
           @ [dq] @ build_base_url request @ oauth_base @ ''/protected-resource'' @ [dq])]"

section \<open>The forwarding handler\<close>

definition stripped_request_headers :: "string list" where
  "stripped_request_headers =
     [''host'', ''content-length'', ''transfer-encoding'', ''connection'', ''cookie'', ''authorization'']"

definition allowed_content_types :: "string list" where
  "allowed_content_types = [''application/json'', ''text/event-stream'', ''text/plain'']"

text \<open>
  The loopback server: no answer (a client error), another exception, or an answer with the
  chunks of its body, after which reading may still fail.
\<close>

datatype upstream =
    UpstreamError
  | UpstreamBoom
  | UpstreamAnswer nat multidict "bytes list" bool

record upstream_request =
  r_method :: string
  r_url :: string
  r_forward_headers :: "(string \<times> string) list"
  r_data :: "bytes option"

definition forward_headers :: "multidict \<Rightarrow> (string \<times> string) list" where
  "forward_headers headers =
     dict_of (filter (\<lambda>(k, v). str_lower k \<notin> set stripped_request_headers) headers)"

definition relayed_content_type :: "string \<Rightarrow> string" where
  "relayed_content_type content_type =
     (if list_ex (\<lambda>ct. str_in ct content_type) allowed_content_types then content_type
      else ''application/json'')"

definition relay_headers :: "multidict \<Rightarrow> (string \<times> string) list" where
  "relay_headers headers =
     [(''Cache-Control'', ''no-cache, no-transform''), (''Content-Encoding'', ''identity'')]
     @ (case header_get headers ''Mcp-Session-Id'' of
          Some s \<Rightarrow> if s = [] then [] else [(''Mcp-Session-Id'', s)] | None \<Rightarrow> [])"

text \<open>
  A streamed answer keeps its status and whatever chunks arrived, also when the stream breaks;
  any other answer is read in full first.
\<close>

definition relay_answer :: "upstream \<Rightarrow> response" where
  "relay_answer answer =
     (case answer of
        UpstreamError \<Rightarrow> text_response 502 ''ESPHome MCP server unavailable'' []
      | UpstreamBoom \<Rightarrow> text_response 500 ''ESPHome MCP server internal error'' []
      | UpstreamAnswer status headers chunks broken \<Rightarrow>
          (let content_type = (case header_get headers ''Content-Type'' of Some c \<Rightarrow> c | None \<Rightarrow> []) in
           if str_in ''text/event-stream'' content_type
           then raw_response status (concat chunks) ''text/event-stream''
                  (relay_headers headers @ [(''Content-Type'', ''text/event-stream''), (''X-Accel-Buffering'', ''no'')])
           else if broken then text_response 502 ''ESPHome MCP server unavailable'' []
           else raw_response status (concat chunks) (relayed_content_type content_type)
                  (relay_headers headers @ [(''Content-Type'', relayed_content_type content_type)])))"

definition check_webhook_auth ::
  "(string \<Rightarrow> validation) \<Rightarrow> request \<Rightarrow> webhook_cfg \<Rightarrow> response option" where
  "check_webhook_auth validator request cfg =
     (if w_resource_server cfg \<noteq> None \<and> \<not> validate_request validator request
      then Some (unauthorized_response request) else None)"

text \<open>The handler's answer, and the request it sent upstream if it sent one.\<close>

definition handle_webhook ::
  "(string \<Rightarrow> validation) \<Rightarrow> (upstream_request \<Rightarrow> upstream) \<Rightarrow> hass_data \<Rightarrow> string \<Rightarrow> bytes \<Rightarrow> request
     \<Rightarrow> response \<times> upstream_request option" where
  "handle_webhook validator server hass request_method body request =
     (case active_webhook_cfg hass of
        None \<Rightarrow> (text_response 503 ''ESPHome MCP server is not available'' [], None)
      | Some cfg \<Rightarrow>
          (case check_webhook_auth validator request cfg of
             Some response \<Rightarrow> (response, None)
           | None \<Rightarrow>
               (let sent = \<lparr>r_method = request_method, r_url = w_target_url cfg,
                            r_forward_headers = forward_headers (q_headers request),
                            r_data = (if body = [] then None else Some body)\<rparr>
                in (relay_answer (server sent), Some sent))))"

section \<open>Registration\<close>

text \<open>Which of the platform's calls fail.\<close>

record failures =
  f_session :: bool
  f_cimd_session :: bool
  f_register :: bool
  f_metadata_views :: bool
  f_autoapprove_views :: bool
  f_dcr_view :: bool

record web_state =
  t_hass :: hass_data
  t_registered :: "string list" \<comment> \<open>webhook ids with a live handler\<close>
  t_open :: "nat list" \<comment> \<open>open client sessions\<close>
  t_next :: nat

definition is_ascii_space :: "char \<Rightarrow> bool" where
  "is_ascii_space c \<longleftrightarrow> ord c = 32 \<or> (9 \<le> ord c \<and> ord c \<le> 13)"

text \<open>\<open>bytes.fromhex\<close>\<close>

fun bytes_fromhex :: "string \<Rightarrow> bytes py" where
  "bytes_fromhex [] = Inr []"
| "bytes_fromhex [c] = (if is_ascii_space c then Inr [] else Inl ValueError)"
| "bytes_fromhex (c # d # s) =
     (if is_ascii_space c then bytes_fromhex (d # s)
      else if is_hex c \<and> is_hex d
      then py_bind (bytes_fromhex s) (\<lambda>b. Inr (chr (16 * hex_val c + hex_val d) # b))
      else Inl ValueError)"

definition register_metadata_views :: "failures \<Rightarrow> hass_data \<Rightarrow> unit py \<times> hass_data" where
  "register_metadata_views f hass =
     (if d_metadata_bound hass then (Inr (), hass)
      else if f_metadata_views f then (Inl ValueError, hass)
      else (Inr (), hass\<lparr>d_metadata_bound := True\<rparr>))"

definition try_bind_autoapprove :: "failures \<Rightarrow> hass_data \<Rightarrow> unit py \<times> hass_data" where
  "try_bind_autoapprove f hass =
     (if d_autoapprove_bound hass \<or> \<not> f_autoapprove_views f then (Inr (), bind_autoapprove_views hass)
      else (Inl ValueError, hass))"

definition try_bind_dcr :: "failures \<Rightarrow> hass_data \<Rightarrow> unit py \<times> hass_data" where
  "try_bind_dcr f hass =
     (if d_dcr_bound hass \<or> \<not> f_dcr_view f then (Inr (), bind_dcr_view hass) else (Inl ValueError, hass))"

definition bind_views :: "failures \<Rightarrow> hass_data \<Rightarrow> unit py \<times> hass_data" where
  "bind_views f =
     sbind (register_metadata_views f) (\<lambda>_. sbind (try_bind_autoapprove f) (\<lambda>_. try_bind_dcr f))"

definition parsed_key :: "string \<Rightarrow> bytes option py" where
  "parsed_key dcr_signing_key =
     (if dcr_signing_key = [] then Inr None
      else py_bind (bytes_fromhex dcr_signing_key) (\<lambda>k. Inr (Some k)))"

definition bind_ha_auth_surface ::
  "failures \<Rightarrow> webhook_cfg \<Rightarrow> string \<Rightarrow> hass_data \<Rightarrow> webhook_cfg py \<times> hass_data" where
  "bind_ha_auth_surface f cfg dcr_signing_key =
     sbind (bind_views f) (\<lambda>_.
       slift (py_bind (parsed_key dcr_signing_key) (\<lambda>key.
         Inr (cfg\<lparr>w_resource_server := Some (w_webhook_id cfg),
                  w_dcr_key := (case key of Some k \<Rightarrow> Some k | None \<Rightarrow> w_dcr_key cfg)\<rparr>))))"

definition bind_none_surface ::
  "failures \<Rightarrow> webhook_cfg \<Rightarrow> string \<Rightarrow> hass_data \<Rightarrow> webhook_cfg py \<times> hass_data" where
  "bind_none_surface f cfg dcr_signing_key hass =
     (case sbind (bind_views f) (\<lambda>_.
             slift (py_bind (parsed_key dcr_signing_key) (\<lambda>key.
               Inr (cfg\<lparr>w_dcr_key := (case key of Some k \<Rightarrow> Some k | None \<Rightarrow> w_dcr_key cfg),
                        w_provider := Some []\<rparr>)))) hass of
        (Inl _, hass') \<Rightarrow> (Inr cfg, hass')
      | r \<Rightarrow> r)"

definition close_session :: "nat option \<Rightarrow> web_state \<Rightarrow> web_state" where
  "close_session s st = (case s of None \<Rightarrow> st | Some n \<Rightarrow> st\<lparr>t_open := filter (\<lambda>m. m \<noteq> n) (t_open st)\<rparr>)"

definition open_session :: "web_state \<Rightarrow> nat \<times> web_state" where
  "open_session st = (t_next st, st\<lparr>t_open := t_next st # t_open st, t_next := Suc (t_next st)\<rparr>)"

definition unregister_id :: "string \<Rightarrow> web_state \<Rightarrow> web_state" where
  "unregister_id webhook_id st = st\<lparr>t_registered := filter (\<lambda>w. w \<noteq> webhook_id) (t_registered st)\<rparr>"

definition register_handler :: "failures \<Rightarrow> string \<Rightarrow> web_state \<Rightarrow> unit py \<times> web_state" where
  "register_handler f webhook_id st =
     (if f_register f \<or> webhook_id \<in> set (t_registered st) then (Inl ValueError, st)
      else (Inr (), st\<lparr>t_registered := webhook_id # t_registered st\<rparr>))"

definition on_hass :: "(hass_data \<Rightarrow> 'a py \<times> hass_data) \<Rightarrow> web_state \<Rightarrow> 'a py \<times> web_state" where
  "on_hass m st = (case m (t_hass st) of (r, h) \<Rightarrow> (r, st\<lparr>t_hass := h\<rparr>))"

definition new_cfg :: "string \<Rightarrow> string \<Rightarrow> string \<Rightarrow> nat \<Rightarrow> nat option \<Rightarrow> webhook_cfg" where
  "new_cfg webhook_id target_url auth_mode session cimd_session =
     \<lparr>w_webhook_id = webhook_id, w_target_url = target_url, w_session = Some session,
      w_cimd_session = cimd_session, w_auth_mode = auth_mode, w_resource_server = None,
      w_provider = None, w_dcr_key = None\<rparr>"

text \<open>The part under \<open>try\<close>: the handler and the surface of the mode.\<close>

definition install_handler ::
  "failures \<Rightarrow> webhook_cfg \<Rightarrow> string \<Rightarrow> web_state \<Rightarrow> webhook_cfg py \<times> web_state" where
  "install_handler f cfg dcr_signing_key =
     sbind (register_handler f (w_webhook_id cfg)) (\<lambda>_.
       on_hass (if w_auth_mode cfg = ''ha_auth'' then bind_ha_auth_surface f cfg dcr_signing_key
                else bind_none_surface f cfg dcr_signing_key))"

definition finish_registration ::
  "failures \<Rightarrow> webhook_cfg \<Rightarrow> string \<Rightarrow> web_state \<Rightarrow> unit py \<times> web_state" where
  "finish_registration f cfg dcr_signing_key st =
     (case install_handler f cfg dcr_signing_key st of
        (Inl e, st') \<Rightarrow>
          (Inl e, close_session (w_cimd_session cfg) (close_session (w_session cfg)
                    (unregister_id (w_webhook_id cfg) st')))
      | (Inr cfg', st') \<Rightarrow>
          (Inr (), st'\<lparr>t_hass := (t_hass st')\<lparr>d_domain := True, d_webhook := Some cfg'\<rparr>\<rparr>))"

definition register_webhook ::
  "failures \<Rightarrow> string \<Rightarrow> int \<Rightarrow> string \<Rightarrow> string \<Rightarrow> string \<Rightarrow> web_state \<Rightarrow> unit py \<times> web_state" where
  "register_webhook f webhook_id port secret_path auth_mode dcr_signing_key st0 =
     (if auth_mode \<noteq> ''none'' \<and> auth_mode \<noteq> ''ha_auth'' then (Inl ValueError, st0)
      else
        (let st1 = unregister_id webhook_id st0;
             target_url = ''http://127.0.0.1:'' @ show_int port @ secret_path in
         if f_session f then (Inl OSError, st1)
         else
           (let (session, st2) = open_session st1 in
            if auth_mode = ''ha_auth'' then
              (if f_cimd_session f then (Inl OSError, close_session (Some session) st2)
               else (let (cimd, st3) = open_session st2
                     in finish_registration f (new_cfg webhook_id target_url auth_mode session (Some cimd))
                          dcr_signing_key st3))
            else finish_registration f (new_cfg webhook_id target_url auth_mode session None)
                   dcr_signing_key st2)))"

definition unregister_webhook :: "web_state \<Rightarrow> web_state" where
  "unregister_webhook st =
     (case active_webhook_cfg (t_hass st) of
        None \<Rightarrow> st
      | Some cfg \<Rightarrow>
          (let st1 = st\<lparr>t_hass := (t_hass st)\<lparr>d_webhook := None\<rparr>\<rparr>;
               st2 = (if w_webhook_id cfg = [] then st1 else unregister_id (w_webhook_id cfg) st1)
           in close_session (w_cimd_session cfg) (close_session (w_session cfg) st2)))"


section \<open>Lemmas: the gate and the relay\<close>

lemma active_webhook_cfg_eq: "active_webhook_cfg = webhook_cfg_of"
  by (rule ext) (simp add: active_webhook_cfg_def webhook_cfg_of_def)

lemma validate_request_iff:
  "validate_request validator request \<longleftrightarrow>
     bearer_token request \<noteq> [] \<and>
     (\<exists>user. validator (bearer_token request) = ValidToken (Some user) \<and>
             a_is_active user \<and> a_is_admin user \<and> \<not> a_system_generated user)"
  by (auto simp: validate_request_def split: validation.splits option.splits)

lemma set_dict_set: "p \<in> set (dict_set k v d) \<Longrightarrow> p = (k, v) \<or> p \<in> set d"
  by (induction k v d rule: dict_set.induct) (auto split: if_splits)

lemma set_dict_fold:
  "p \<in> set (fold (\<lambda>(k, v) d. dict_set k v d) ps d) \<Longrightarrow> p \<in> set ps \<or> p \<in> set d"
  by (induction ps arbitrary: d) (auto dest: set_dict_set)

lemma set_dict_of: "p \<in> set (dict_of ps) \<Longrightarrow> p \<in> set ps"
  using set_dict_fold [of p ps "[]"] by (simp add: dict_of_def)

lemma forward_headers_stripped:
  "(k, v) \<in> set (forward_headers headers) \<Longrightarrow>
     (k, v) \<in> set headers \<and> str_lower k \<notin> set stripped_request_headers"
  using set_dict_of [of "(k, v)"] by (fastforce simp: forward_headers_def)

lemma handle_webhook_sent:
  "handle_webhook validator server hass m body request = (response, Some sent) \<longleftrightarrow>
     (\<exists>cfg. active_webhook_cfg hass = Some cfg
        \<and> (w_resource_server cfg \<noteq> None \<longrightarrow> validate_request validator request)
        \<and> sent = \<lparr>r_method = m, r_url = w_target_url cfg,
                   r_forward_headers = forward_headers (q_headers request),
                   r_data = (if body = [] then None else Some body)\<rparr>
        \<and> response = relay_answer (server sent))"
  by (auto simp: handle_webhook_def check_webhook_auth_def Let_def split: option.splits if_splits)

text \<open>C39: A request reaches the loopback server exactly when the webhook is configured and, in
  ha_auth mode, the request carries a non-empty bearer token that Home Assistant resolves to an
  active, human administrator. What is sent goes to the configured address, and the headers it
  carries are headers of the request, never the caller's credentials, cookies or hop-by-hop
  headers; the answer is the relayed one.\<close>

theorem webhook_forward_gated:
  "(handle_webhook validator server hass m body request = (response, Some sent)) =
     (\<exists>cfg. webhook_cfg_of hass = Some cfg
        \<and> (w_resource_server cfg = None \<or>
           (bearer_token request \<noteq> [] \<and>
            (\<exists>user. validator (bearer_token request) = ValidToken (Some user)
               \<and> a_is_active user \<and> a_is_admin user \<and> \<not> a_system_generated user)))
        \<and> r_method sent = m \<and> r_url sent = w_target_url cfg
        \<and> r_data sent = (if body = [] then None else Some body)
        \<and> r_forward_headers sent = forward_headers (q_headers request)
        \<and> response = relay_answer (server sent))
   \<and> list_all (\<lambda>(k, v). (k, v) \<in> set (q_headers request) \<and>
        str_lower k \<notin> {''authorization'', ''cookie'', ''host'', ''connection'', ''content-length'',
                        ''transfer-encoding''}) (forward_headers (q_headers request))"
  by (cases sent)
    (auto simp: handle_webhook_sent validate_request_iff active_webhook_cfg_eq list_all_iff
      stripped_request_headers_def dest: forward_headers_stripped)

lemma relayed_content_type_cases:
  "relayed_content_type ct = ''application/json''
   \<or> (\<exists>allowed \<in> set allowed_content_types. str_in allowed ct \<and> relayed_content_type ct = ct)"
  by (auto simp: relayed_content_type_def list_ex_iff)

text \<open>The test is a substring test, so a header that merely mentions an allowed type passes.\<close>

lemma html_content_type_passes:
  "relayed_content_type ''text/html; x=text/plain'' = ''text/html; x=text/plain''"
  by code_simp

lemma str_in_self: "str_in p p"
  by (cases p) (simp_all add: startswith_def)

text \<open>The relay answers with the status and the exact body the loopback server sent, as a
  stream when the answer is an event stream (cut short when the upstream breaks), whole
  otherwise; only when the upstream fails before that does it answer 502 or 500 itself. Every
  relayed answer forbids caching and transformation, and its content type is either JSON or one
  that contains an allowed type.\<close>

theorem relay_answer_faithful:
  "(\<exists>ct hs. relay_answer (UpstreamAnswer status headers chunks broken) =
       (if broken \<and> \<not> str_in ''text/event-stream''
              (case header_get headers ''Content-Type'' of Some c \<Rightarrow> c | None \<Rightarrow> [])
        then text_response 502 ''ESPHome MCP server unavailable'' []
        else raw_response status (concat chunks) ct hs)
     \<and> list_ex (\<lambda>allowed. str_in allowed ct) [''application/json'', ''text/event-stream'', ''text/plain'']
     \<and> {(''Cache-Control'', ''no-cache, no-transform''), (''Content-Type'', ct)} \<subseteq> set hs)
   \<and> r_status (relay_answer UpstreamError) = 502 \<and> r_status (relay_answer UpstreamBoom) = 500"
proof -
  define ct0 where "ct0 = (case header_get headers ''Content-Type'' of Some c \<Rightarrow> c | None \<Rightarrow> [])"
  have b: "r_status (relay_answer UpstreamError) = 502 \<and> r_status (relay_answer UpstreamBoom) = 500"
    by (simp add: relay_answer_def)
  have "str_in ''application/json'' ''application/json''" by (rule str_in_self)
  then have k: "list_ex (\<lambda>allowed. str_in allowed (relayed_content_type ct0)) allowed_content_types"
    by (auto simp: relayed_content_type_def allowed_content_types_def simp del: str_in.simps)
  have j: "list_ex (\<lambda>allowed. str_in allowed ''text/event-stream'') allowed_content_types"
    using str_in_self [of "''text/event-stream''"]
    by (simp add: allowed_content_types_def del: str_in.simps)
  show ?thesis
  proof (cases "str_in ''text/event-stream'' ct0")
    case True
    with j b show ?thesis unfolding relay_answer_def Let_def allowed_content_types_def ct0_def
      by (intro conjI exI [of _ "''text/event-stream''"] exI)
        (auto simp: relay_headers_def simp del: str_in.simps)
  next
    case False
    with k b show ?thesis unfolding relay_answer_def Let_def allowed_content_types_def ct0_def
      by (intro conjI exI [of _ "relayed_content_type ct0"] exI)
        (auto simp: relay_headers_def ct0_def simp del: str_in.simps)
  qed
qed

section \<open>Lemmas: discovery\<close>

lemma issuer_prefix: "issuer_for_request request = build_base_url request @ oauth_base"
  by (simp add: issuer_for_request_def oauth_issuer_def)

text \<open>In none mode, where the webhook id is the only credential, no document at a fixed path
  reveals it: the protected-resource view answers 404, and every view's answer is the same when
  the id is replaced by another, save that the path-scoped view serves exactly the requests that
  already name the id.\<close>

theorem none_mode_hides_webhook_id:
  assumes "active_webhook_cfg hass = Some cfg" and "active_auth_mode hass = Some ''none''"
    and "hass' = hass\<lparr>d_webhook := Some (cfg\<lparr>w_webhook_id := other\<rparr>)\<rparr>"
  shows "protected_resource_get hass request = json_not_found
    \<and> protected_resource_get hass' request = protected_resource_get hass request
    \<and> authorization_server_get hass' request = authorization_server_get hass request
    \<and> (r_status (wellknown_protected_resource_get hass guess request) = 200) = (guess = w_webhook_id cfg)
    \<and> (guess \<in> {w_webhook_id cfg, other} \<or>
         wellknown_protected_resource_get hass' guess request
           = wellknown_protected_resource_get hass guess request)"
proof -
  from assms(1) have d: "d_domain hass" "d_webhook hass = Some cfg"
    by (auto simp: active_webhook_cfg_def split: if_splits)
  from assms(2) d have m: "w_resource_server cfg = None" "w_provider cfg \<noteq> None"
    by (auto simp: active_auth_mode_def active_webhook_cfg_def split: if_splits)
  have "active_auth_mode hass' = Some ''none''" "active_webhook_id hass' = Some other"
    "active_webhook_id hass = Some (w_webhook_id cfg)"
    using d m assms(2) by (simp_all add: assms(3) active_auth_mode_def active_webhook_cfg_def
        active_webhook_id_def)
  then show ?thesis
    using assms(2) by (auto simp: protected_resource_get_def authorization_server_get_def
        wellknown_protected_resource_get_def)
qed

definition sample_hass :: "bool \<Rightarrow> hass_data" where
  "sample_hass ha_auth =
     \<lparr>d_domain = True,
      d_webhook = Some \<lparr>w_webhook_id = ''secret'', w_target_url = ''http://127.0.0.1:9590/x'',
        w_session = Some 1, w_cimd_session = (if ha_auth then Some 2 else None),
        w_auth_mode = (if ha_auth then ''ha_auth'' else ''none''),
        w_resource_server = (if ha_auth then Some ''secret'' else None),
        w_provider = (if ha_auth then None else Some []), w_dcr_key = None\<rparr>,
      d_dcr_bound = True, d_autoapprove_bound = True, d_metadata_bound = True\<rparr>"

definition sample_request :: request where
  "sample_request = \<lparr>q_query = [], q_form = Inr [], q_headers = [(''Host'', ''ha.example'')],
     q_scheme = ''https''\<rparr>"

theorem none_mode_hides_webhook_id_witness:
  "r_status (wellknown_protected_resource_get (sample_hass False) ''secret'' sample_request) = 200
   \<and> r_status (wellknown_protected_resource_get (sample_hass False) ''guess'' sample_request) \<noteq> 200"
proof -
  have a: "active_webhook_cfg (sample_hass False) = Some (the (d_webhook (sample_hass False)))"
    and b: "active_auth_mode (sample_hass False) = Some ''none''"
    and c: "w_webhook_id (the (d_webhook (sample_hass False))) = ''secret''"
    by (simp_all add: sample_hass_def active_webhook_cfg_def active_auth_mode_def)
  note h = none_mode_hides_webhook_id [OF a b refl, where request = sample_request]
  show ?thesis using h [of _ "''secret''"] h [of _ "''guess''"] by (simp add: c)
qed

text \<open>Discovery is consistent: whichever mode is live, the authorization-server document
  names as issuer exactly the \<open>iss\<close> this request's authorize redirect carries, every endpoint it
  lists lies under the issuer, and the protected-resource document points to that issuer.\<close>

theorem discovery_consistent:
  assumes "active_auth_mode hass = Some mode"
  shows "\<exists>d. authorization_server_get hass request = json_response (PDict d) 200 []
    \<and> map_of d ''issuer'' = Some (PStr (issuer_for_request request))
    \<and> map_of d ''authorization_endpoint'' = Some (PStr (issuer_for_request request @ ''/authorize''))
    \<and> map_of d ''token_endpoint'' = Some (PStr (issuer_for_request request @ ''/token''))
    \<and> map_of d ''registration_endpoint'' = Some (PStr (issuer_for_request request @ ''/register''))
    \<and> map_of d ''revocation_endpoint'' =
        (if mode = ''none'' then None else Some (PStr (issuer_for_request request @ ''/revoke'')))
    \<and> map_of d ''code_challenge_methods_supported'' = Some (PList [PStr ''S256''])
    \<and> (\<exists>r. wellknown_protected_resource_get hass (the (active_webhook_id hass)) request
              = json_response (PDict r) 200 []
           \<and> map_of r ''authorization_servers'' = Some (PList [PStr (issuer_for_request request)]))"
proof -
  from assms have "\<exists>wid. active_webhook_id hass = Some wid"
    by (auto simp: active_webhook_id_def active_auth_mode_def split: option.splits)
  then obtain wid where w: "active_webhook_id hass = Some wid" by blast
  let ?base = "build_base_url request"
  have "authorization_server_get hass request = json_response
      (if mode = ''none'' then none_mode_authorization_server_document ?base
       else authorization_server_document ?base) 200 []"
    by (simp add: authorization_server_get_def assms Let_def)
  moreover have "wellknown_protected_resource_get hass (the (active_webhook_id hass)) request
      = json_response (protected_resource_document wid ?base) 200 []"
    by (simp add: wellknown_protected_resource_get_def w)
  moreover have "\<exists>r. protected_resource_document wid ?base = PDict r
      \<and> map_of r ''authorization_servers'' = Some (PList [PStr (issuer_for_request request)])"
    by (simp add: protected_resource_document_def issuer_prefix)
  moreover have "\<exists>d. none_mode_authorization_server_document ?base = PDict d
      \<and> map_of d ''issuer'' = Some (PStr (issuer_for_request request))
      \<and> map_of d ''authorization_endpoint'' = Some (PStr (issuer_for_request request @ ''/authorize''))
      \<and> map_of d ''token_endpoint'' = Some (PStr (issuer_for_request request @ ''/token''))
      \<and> map_of d ''registration_endpoint'' = Some (PStr (issuer_for_request request @ ''/register''))
      \<and> map_of d ''revocation_endpoint'' = None
      \<and> map_of d ''code_challenge_methods_supported'' = Some (PList [PStr ''S256''])"
    by (simp add: none_mode_authorization_server_document_def issuer_prefix oauth_issuer_def)
  moreover have "\<exists>d. authorization_server_document ?base = PDict d
      \<and> map_of d ''issuer'' = Some (PStr (issuer_for_request request))
      \<and> map_of d ''authorization_endpoint'' = Some (PStr (issuer_for_request request @ ''/authorize''))
      \<and> map_of d ''token_endpoint'' = Some (PStr (issuer_for_request request @ ''/token''))
      \<and> map_of d ''registration_endpoint'' = Some (PStr (issuer_for_request request @ ''/register''))
      \<and> map_of d ''revocation_endpoint'' = Some (PStr (issuer_for_request request @ ''/revoke''))
      \<and> map_of d ''code_challenge_methods_supported'' = Some (PList [PStr ''S256''])"
    by (simp add: authorization_server_document_def issuer_prefix)
  ultimately show ?thesis by (cases "mode = ''none''") (auto simp: json_response_def)
qed

theorem discovery_consistent_witness:
  "\<exists>d. authorization_server_get (sample_hass True) sample_request = json_response (PDict d) 200 []
     \<and> map_of d ''issuer'' = Some (PStr (issuer_for_request sample_request))"
proof -
  have "active_auth_mode (sample_hass True) = Some ''ha_auth''"
    by (simp add: sample_hass_def active_webhook_cfg_def active_auth_mode_def)
  from discovery_consistent [OF this, of sample_request] show ?thesis by blast
qed

section \<open>Lemmas: registration\<close>

definition views_bound :: "hass_data \<Rightarrow> bool" where
  "views_bound hass \<longleftrightarrow> d_metadata_bound hass \<and> d_autoapprove_bound hass \<and> d_dcr_bound hass"

definition same_entry :: "hass_data \<Rightarrow> hass_data \<Rightarrow> bool" where
  "same_entry h h' \<longleftrightarrow> d_webhook h' = d_webhook h \<and> d_domain h' = d_domain h"

lemma bind_views_frame: "bind_views f h = (r, h') \<Longrightarrow> same_entry h h'"
  by (auto simp: bind_views_def sbind_def register_metadata_views_def try_bind_autoapprove_def
      try_bind_dcr_def bind_autoapprove_views_def bind_dcr_view_def same_entry_def
      split: if_splits)

lemma bind_views_bound: "bind_views f h = (Inr u, h') \<Longrightarrow> views_bound h'"
  by (auto simp: bind_views_def sbind_def register_metadata_views_def try_bind_autoapprove_def
      try_bind_dcr_def bind_autoapprove_views_def bind_dcr_view_def views_bound_def
      split: if_splits)

definition same_target :: "webhook_cfg \<Rightarrow> webhook_cfg \<Rightarrow> bool" where
  "same_target cfg cfg' \<longleftrightarrow> w_webhook_id cfg' = w_webhook_id cfg \<and> w_target_url cfg' = w_target_url cfg
     \<and> w_session cfg' = w_session cfg \<and> w_cimd_session cfg' = w_cimd_session cfg
     \<and> w_auth_mode cfg' = w_auth_mode cfg"

lemma bind_ha_auth_surface_frame:
  "bind_ha_auth_surface f cfg key h = (r, h') \<Longrightarrow> same_entry h h'"
  by (auto simp: bind_ha_auth_surface_def sbind_def slift_def split: prod.splits sum.splits
      dest: bind_views_frame)

lemma bind_ha_auth_surface_ok:
  "bind_ha_auth_surface f cfg key h = (Inr cfg', h') \<Longrightarrow>
     views_bound h' \<and> same_target cfg cfg' \<and> w_resource_server cfg' = Some (w_webhook_id cfg)"
  by (auto simp: bind_ha_auth_surface_def sbind_def slift_def same_target_def py_iffs
      split: prod.splits sum.splits dest: bind_views_bound)

lemma bind_none_surface_frame:
  assumes "bind_none_surface f cfg key h = (r, h')"
  shows "same_entry h h'"
  using assms by (auto simp: bind_none_surface_def sbind_def slift_def
      split: prod.splits sum.splits dest: bind_views_frame)

lemma bind_none_surface_ok:
  assumes "bind_none_surface f cfg key h = (r, h')" "w_resource_server cfg = None" "w_provider cfg = None"
  shows "\<exists>cfg'. r = Inr cfg' \<and> same_target cfg cfg' \<and> w_resource_server cfg' = None
     \<and> (w_provider cfg' = None \<or> w_provider cfg' = Some [] \<and> views_bound h' \<and> (\<exists>k. parsed_key key = Inr k))"
  using assms by (auto simp: bind_none_surface_def sbind_def slift_def same_target_def py_iffs
      split: prod.splits sum.splits dest: bind_views_bound)

definition bind_surface ::
  "failures \<Rightarrow> webhook_cfg \<Rightarrow> string \<Rightarrow> hass_data \<Rightarrow> webhook_cfg py \<times> hass_data" where
  "bind_surface f cfg key =
     (if w_auth_mode cfg = ''ha_auth'' then bind_ha_auth_surface f cfg key else bind_none_surface f cfg key)"

lemma bind_surface_frame: "bind_surface f cfg key h = (r, h') \<Longrightarrow> same_entry h h'"
  by (auto simp: bind_surface_def dest: bind_ha_auth_surface_frame bind_none_surface_frame split: if_splits)

lemma bind_surface_target:
  assumes "bind_surface f cfg key h = (Inr cfg', h')" "w_resource_server cfg = None" "w_provider cfg = None"
  shows "same_target cfg cfg'"
proof (cases "w_auth_mode cfg = ''ha_auth''")
  case True
  with assms(1) show ?thesis by (auto simp: bind_surface_def dest: bind_ha_auth_surface_ok)
next
  case False
  with assms(1) have "bind_none_surface f cfg key h = (Inr cfg', h')" by (simp add: bind_surface_def)
  from bind_none_surface_ok [OF this assms(2,3)] show ?thesis by auto
qed

lemma install_handler_cases:
  assumes "install_handler f cfg key st = (r, st')"
  obtains (refused) "r = Inl ValueError" "st' = st" "f_register f \<or> w_webhook_id cfg \<in> set (t_registered st)"
  | (bound) h' where "\<not> f_register f" "w_webhook_id cfg \<notin> set (t_registered st)"
      "bind_surface f cfg key (t_hass st) = (r, h')"
      "st' = st\<lparr>t_registered := w_webhook_id cfg # t_registered st, t_hass := h'\<rparr>"
proof (cases "f_register f \<or> w_webhook_id cfg \<in> set (t_registered st)")
  case True
  with assms show ?thesis by (intro refused) (auto simp: install_handler_def sbind_def register_handler_def)
next
  case False
  obtain q h' where s: "bind_surface f cfg key (t_hass st) = (q, h')" by fastforce
  from False s assms show ?thesis
    by (intro bound [of h'])
      (auto simp: install_handler_def sbind_def register_handler_def on_hass_def bind_surface_def
        split: if_splits)
qed

definition web_ok :: "web_state \<Rightarrow> bool" where
  "web_ok st \<longleftrightarrow> (\<forall>n \<in> set (t_open st). n < t_next st)"

lemma filter_fresh: "n \<notin> set xs \<Longrightarrow> filter (\<lambda>m. m \<noteq> n) xs = xs"
  by (rule filter_True) auto

lemma filter_fresh2: "n \<notin> set xs \<Longrightarrow> k \<notin> set xs \<Longrightarrow> filter (\<lambda>m. m \<noteq> n \<and> m \<noteq> k) xs = xs"
  by (rule filter_True) auto

lemma close_session_simps [simp]:
  "t_hass (close_session s st) = t_hass st" "t_registered (close_session s st) = t_registered st"
  "t_next (close_session s st) = t_next st"
  by (simp_all add: close_session_def split: option.splits)

lemma unregister_id_simps [simp]:
  "t_hass (unregister_id w st) = t_hass st" "t_open (unregister_id w st) = t_open st"
  "t_next (unregister_id w st) = t_next st"
  "t_registered (unregister_id w st) = filter (\<lambda>v. v \<noteq> w) (t_registered st)"
  by (simp_all add: unregister_id_def)

lemma web_ok_not_open: "web_ok st \<Longrightarrow> t_next st \<le> n \<Longrightarrow> n \<notin> set (t_open st)"
  unfolding web_ok_def by (meson leD)

lemma finish_registration_err:
  assumes "finish_registration f cfg key st = (Inl e, st')"
  shows "same_entry (t_hass st) (t_hass st')
    \<and> t_registered st' = filter (\<lambda>v. v \<noteq> w_webhook_id cfg) (t_registered st)
    \<and> t_open st' = t_open (close_session (w_cimd_session cfg) (close_session (w_session cfg) st))
    \<and> t_next st' = t_next st"
proof -
  from assms obtain st1 where i: "install_handler f cfg key st = (Inl e, st1)"
    and s: "st' = close_session (w_cimd_session cfg) (close_session (w_session cfg)
                    (unregister_id (w_webhook_id cfg) st1))"
    by (auto simp: finish_registration_def split: prod.splits sum.splits)
  from i show ?thesis
    by (cases rule: install_handler_cases)
      (auto simp: s same_entry_def close_session_def unregister_id_def
        dest: bind_surface_frame split: option.splits)
qed

lemma finish_registration_ok:
  assumes "finish_registration f cfg key st = (Inr u, st')"
  obtains cfg' h' where "\<not> f_register f" "w_webhook_id cfg \<notin> set (t_registered st)"
    "bind_surface f cfg key (t_hass st) = (Inr cfg', h')"
    "st' = st\<lparr>t_registered := w_webhook_id cfg # t_registered st,
              t_hass := h'\<lparr>d_domain := True, d_webhook := Some cfg'\<rparr>\<rparr>"
proof -
  from assms obtain cfg' st1 where i: "install_handler f cfg key st = (Inr cfg', st1)"
    and s: "st' = st1\<lparr>t_hass := (t_hass st1)\<lparr>d_domain := True, d_webhook := Some cfg'\<rparr>\<rparr>"
    by (auto simp: finish_registration_def split: prod.splits sum.splits)
  from i show thesis by (cases rule: install_handler_cases) (auto simp: s intro: that)
qed

lemma new_cfg_simps [simp]:
  "w_webhook_id (new_cfg w u m s c) = w" "w_target_url (new_cfg w u m s c) = u"
  "w_session (new_cfg w u m s c) = Some s" "w_cimd_session (new_cfg w u m s c) = c"
  "w_auth_mode (new_cfg w u m s c) = m" "w_resource_server (new_cfg w u m s c) = None"
  "w_provider (new_cfg w u m s c) = None" "w_dcr_key (new_cfg w u m s c) = None"
  by (simp_all add: new_cfg_def)

text \<open>The sessions a registration opens: the relay's, and in ha_auth mode the document pool.\<close>

definition opened :: "string \<Rightarrow> web_state \<Rightarrow> nat list" where
  "opened mode st = (if mode = ''ha_auth'' then [Suc (t_next st), t_next st] else [t_next st])"

definition registration_cfg :: "string \<Rightarrow> int \<Rightarrow> string \<Rightarrow> string \<Rightarrow> web_state \<Rightarrow> webhook_cfg" where
  "registration_cfg wid port path mode st =
     new_cfg wid (''http://127.0.0.1:'' @ show_int port @ path) mode (t_next st)
       (if mode = ''ha_auth'' then Some (Suc (t_next st)) else None)"

lemma register_webhook_ok:
  assumes "register_webhook f wid port path mode key st = (Inr u, st')"
  obtains cfg' h' where "mode \<in> {''none'', ''ha_auth''}" "\<not> f_session f" "\<not> f_register f"
    "mode = ''ha_auth'' \<Longrightarrow> \<not> f_cimd_session f"
    "bind_surface f (registration_cfg wid port path mode st) key (t_hass st) = (Inr cfg', h')"
    "st' = st\<lparr>t_registered := wid # filter (\<lambda>v. v \<noteq> wid) (t_registered st),
              t_open := opened mode st @ t_open st, t_next := t_next st + length (opened mode st),
              t_hass := h'\<lparr>d_domain := True, d_webhook := Some cfg'\<rparr>\<rparr>"
proof -
  have v: "mode \<in> {''none'', ''ha_auth''} \<and> \<not> f_session f \<and> (mode = ''ha_auth'' \<longrightarrow> \<not> f_cimd_session f)"
    using assms by (auto simp: register_webhook_def Let_def split: if_splits prod.splits)
  define st1 where "st1 = st\<lparr>t_registered := filter (\<lambda>v. v \<noteq> wid) (t_registered st),
    t_open := opened mode st @ t_open st, t_next := t_next st + length (opened mode st)\<rparr>"
  have "finish_registration f (registration_cfg wid port path mode st) key st1 = (Inr u, st')"
    using assms v by (auto simp: register_webhook_def Let_def open_session_def unregister_id_def
        registration_cfg_def opened_def st1_def split: if_splits)
  then show thesis
    by (rule finish_registration_ok) (use v that in \<open>auto simp: st1_def registration_cfg_def\<close>)
qed

lemma register_webhook_err:
  assumes ok: "web_ok st" and mode: "mode \<in> {''none'', ''ha_auth''}"
    and reg: "register_webhook f wid port path mode key st = (Inl e, st')"
  shows "same_entry (t_hass st) (t_hass st') \<and> t_open st' = t_open st
    \<and> t_registered st' = filter (\<lambda>v. v \<noteq> wid) (t_registered st) \<and> t_next st \<le> t_next st'"
proof -
  note n = web_ok_not_open [OF ok]
  consider (session) "f_session f" | (pool) "\<not> f_session f" "mode = ''ha_auth''" "f_cimd_session f"
    | (finish) "\<not> f_session f" "mode = ''ha_auth'' \<longrightarrow> \<not> f_cimd_session f" by blast
  then show ?thesis
  proof cases
    case session
    with reg mode show ?thesis by (auto simp: register_webhook_def Let_def same_entry_def)
  next
    case pool
    with reg show ?thesis
      by (auto simp: register_webhook_def Let_def same_entry_def open_session_def close_session_def
          filter_fresh n)
  next
    case finish
    define st1 where "st1 = st\<lparr>t_registered := filter (\<lambda>v. v \<noteq> wid) (t_registered st),
      t_open := opened mode st @ t_open st, t_next := t_next st + length (opened mode st)\<rparr>"
    have "finish_registration f (registration_cfg wid port path mode st) key st1 = (Inl e, st')"
      using reg mode finish by (auto simp: register_webhook_def Let_def open_session_def unregister_id_def
          registration_cfg_def opened_def st1_def split: if_splits)
    from finish_registration_err [OF this] show ?thesis
      by (auto simp: st1_def registration_cfg_def opened_def close_session_def same_entry_def
          filter_fresh n split: if_splits)
  qed
qed

definition no_failures :: failures where
  "no_failures = \<lparr>f_session = False, f_cimd_session = False, f_register = False,
     f_metadata_views = False, f_autoapprove_views = False, f_dcr_view = False\<rparr>"

definition fresh_web :: web_state where
  "fresh_web = \<lparr>t_hass = \<lparr>d_domain = True, d_webhook = None, d_dcr_bound = False,
       d_autoapprove_bound = False, d_metadata_bound = False\<rparr>,
     t_registered = [''other''], t_open = [7], t_next = 8\<rparr>"

lemma registration_succeeds:
  assumes "parsed_key key = Inr k"
  shows "\<exists>u st'. register_webhook no_failures wid port path ''ha_auth'' key st = (Inr u, st')"
  using assms
  by (auto simp: register_webhook_def Let_def open_session_def unregister_id_def no_failures_def
      finish_registration_def install_handler_def sbind_def slift_def register_handler_def on_hass_def
      bind_ha_auth_surface_def bind_views_def register_metadata_views_def try_bind_autoapprove_def
      try_bind_dcr_def split: if_splits prod.splits sum.splits)

text \<open>A registration that raises leaves nothing behind: no client session stays open, the
  configuration the views resolve is the one before, the webhook id has no live handler, and no
  other id is touched; an unknown authentication mode changes nothing at all.\<close>

theorem register_fail_closed:
  assumes "web_ok st" and "register_webhook f wid port path mode key st = (Inl e, st')"
  shows "t_open st' = t_open st \<and> webhook_cfg_of (t_hass st') = webhook_cfg_of (t_hass st)
    \<and> web_ok st'
    \<and> (if mode \<in> {''none'', ''ha_auth''}
       then t_registered st' = filter (\<lambda>v. v \<noteq> wid) (t_registered st) else st' = st)"
proof (cases "mode \<in> {''none'', ''ha_auth''}")
  case True
  from register_webhook_err [OF assms(1) this assms(2)] assms(1) True show ?thesis
    by (auto simp: same_entry_def webhook_cfg_of_def web_ok_def)
next
  case False
  with assms show ?thesis by (auto simp: register_webhook_def)
qed

theorem register_fail_closed_witness:
  "t_open (snd (register_webhook (no_failures\<lparr>f_register := True\<rparr>) ''id'' 9590 ''/p'' ''ha_auth'' ''00'' fresh_web)) = [7]
   \<and> t_registered (snd (register_webhook (no_failures\<lparr>f_register := True\<rparr>) ''id'' 9590 ''/p'' ''ha_auth'' ''00''
        fresh_web)) = [''other'']"
proof -
  let ?r = "register_webhook (no_failures\<lparr>f_register := True\<rparr>) ''id'' 9590 ''/p'' ''ha_auth'' ''00'' fresh_web"
  have "\<exists>e st'. ?r = (Inl e, st')"
    by (simp add: register_webhook_def Let_def open_session_def no_failures_def
        finish_registration_def install_handler_def sbind_def register_handler_def)
  then obtain e st' where r: "?r = (Inl e, st')" by blast
  have "web_ok fresh_web" by (simp add: web_ok_def fresh_web_def)
  from register_fail_closed [OF this r] show ?thesis
    unfolding r by (simp add: fresh_web_def)
qed

text \<open>C40: The gate of ha_auth mode cannot be lost: after a registration in ha_auth mode that
  returns, every view is bound, the mode is live, and whatever configuration was there before, a
  request without an administrator's bearer token is answered with the 401 challenge and
  nothing is sent to the server.\<close>

theorem ha_auth_registration_gates:
  assumes "register_webhook f wid port path ''ha_auth'' key st = (Inr u, st')"
    and "\<not> validate_request validator request"
  shows "handle_webhook validator server (t_hass st') m body request = (unauthorized_response request, None)
    \<and> active_auth_mode (t_hass st') = Some ''ha_auth'' \<and> active_webhook_id (t_hass st') = Some wid
    \<and> views_bound (t_hass st') \<and> wid \<in> set (t_registered st')"
proof -
  from assms(1) obtain cfg' h' where
    b: "bind_surface f (registration_cfg wid port path ''ha_auth'' st) key (t_hass st) = (Inr cfg', h')"
    and s: "t_hass st' = h'\<lparr>d_domain := True, d_webhook := Some cfg'\<rparr>" "wid \<in> set (t_registered st')"
    by (rule register_webhook_ok) auto
  from b have "views_bound h'" "w_resource_server cfg' = Some wid" "w_webhook_id cfg' = wid"
    by (auto simp: bind_surface_def registration_cfg_def same_target_def dest: bind_ha_auth_surface_ok)
  with s assms(2) show ?thesis
    by (simp add: handle_webhook_def check_webhook_auth_def active_webhook_cfg_def active_auth_mode_def
        active_webhook_id_def views_bound_def)
qed

theorem ha_auth_registration_gates_witness:
  "\<exists>u st'. register_webhook no_failures ''id'' 9590 ''/p'' ''ha_auth'' ''00'' fresh_web = (Inr u, st')
     \<and> handle_webhook (\<lambda>_. NoToken) (\<lambda>_. UpstreamBoom) (t_hass st') ''POST'' [] sample_request
       = (unauthorized_response sample_request, None)"
proof -
  let ?r = "register_webhook no_failures ''id'' 9590 ''/p'' ''ha_auth'' ''00'' fresh_web"
  have "parsed_key ''00'' = Inr (Some [chr 0])"
    by (simp add: parsed_key_def is_ascii_space_def is_hex_def is_digit_def hex_val_def ord_def)
  from registration_succeeds [OF this] obtain u st' where r: "?r = (Inr u, st')" by blast
  have "\<not> validate_request (\<lambda>_. NoToken) sample_request" by (simp add: validate_request_def)
  from ha_auth_registration_gates [OF r this] r show ?thesis by blast
qed

text \<open>None mode fails open: its registration returns exactly when the client session opens
  and the platform takes the handler, whatever happens to the views or the signing key; the
  auto-approve surface is live afterwards only when every view is bound and the key parsed, and
  otherwise no OAuth mode is live and the webhook forwards as a plain proxy.\<close>

theorem none_mode_fails_open:
  assumes "register_webhook f wid port path ''none'' key st = (r, st')"
  shows "(r = Inr ()) = (\<not> f_session f \<and> \<not> f_register f)
    \<and> (r = Inr () \<longrightarrow>
        (\<exists>cfg. webhook_cfg_of (t_hass st') = Some cfg \<and> w_resource_server cfg = None
           \<and> w_target_url cfg = ''http://127.0.0.1:'' @ show_int port @ path)
        \<and> (active_auth_mode (t_hass st') = None
           \<or> active_auth_mode (t_hass st') = Some ''none'' \<and> views_bound (t_hass st')
             \<and> (\<exists>k. parsed_key key = Inr k)))"
proof -
  let ?cfg = "registration_cfg wid port path ''none'' st"
  obtain q h' where q: "bind_surface f ?cfg key (t_hass st) = (q, h')" by fastforce
  then have b: "bind_none_surface f ?cfg key (t_hass st) = (q, h')"
    by (simp add: bind_surface_def registration_cfg_def)
  have n: "w_resource_server ?cfg = None" "w_provider ?cfg = None"
    by (simp_all add: registration_cfg_def)
  from bind_none_surface_ok [OF b n] obtain cfg' where
    c: "q = Inr cfg'" "same_target ?cfg cfg'" "w_resource_server cfg' = None"
    "w_provider cfg' = None \<or> w_provider cfg' = Some [] \<and> views_bound h' \<and> (\<exists>k. parsed_key key = Inr k)"
    by blast
  have iff: "(r = Inr ()) = (\<not> f_session f \<and> \<not> f_register f)"
    using assms b c(1)
    by (auto simp: register_webhook_def Let_def open_session_def unregister_id_def
        finish_registration_def install_handler_def sbind_def register_handler_def on_hass_def
        registration_cfg_def split: if_splits)
  moreover have "(\<exists>cfg. webhook_cfg_of (t_hass st') = Some cfg \<and> w_resource_server cfg = None
           \<and> w_target_url cfg = ''http://127.0.0.1:'' @ show_int port @ path)
        \<and> (active_auth_mode (t_hass st') = None
           \<or> active_auth_mode (t_hass st') = Some ''none'' \<and> views_bound (t_hass st')
             \<and> (\<exists>k. parsed_key key = Inr k))" if "r = Inr ()"
  proof -
    from assms that obtain cfg'' h'' where
      "bind_surface f ?cfg key (t_hass st) = (Inr cfg'', h'')"
      "t_hass st' = h''\<lparr>d_domain := True, d_webhook := Some cfg''\<rparr>"
      by (auto elim!: register_webhook_ok)
    with q c n show ?thesis
      by (auto simp: webhook_cfg_of_def active_auth_mode_def active_webhook_cfg_def views_bound_def
          same_target_def registration_cfg_def)
  qed
  ultimately show ?thesis by blast
qed

theorem none_mode_fails_open_witness:
  "fst (register_webhook (no_failures\<lparr>f_metadata_views := True\<rparr>) ''id'' 9590 ''/p'' ''none'' ''zz'' fresh_web) = Inr ()"
proof -
  obtain r st' where r: "register_webhook (no_failures\<lparr>f_metadata_views := True\<rparr>) ''id'' 9590 ''/p'' ''none''
      ''zz'' fresh_web = (r, st')" by fastforce
  from none_mode_fails_open [OF r] have "r = Inr ()" by (simp add: no_failures_def)
  with r show ?thesis by simp
qed

text \<open>Unregistering undoes registering: the sessions that registration opened are closed again
  and no others, the id has no live handler, the stored configuration is gone, so every view
  answers as unconfigured and the handler answers 503; a second unregistration changes nothing.\<close>

theorem unregister_undoes_register:
  assumes "web_ok st" and "register_webhook f wid port path mode key st = (Inr u, st')"
    and "wid \<noteq> []"
  shows "t_open (unregister_webhook st') = t_open st
    \<and> t_registered (unregister_webhook st') = filter (\<lambda>v. v \<noteq> wid) (t_registered st)
    \<and> webhook_cfg_of (t_hass (unregister_webhook st')) = None
    \<and> active_auth_mode (t_hass (unregister_webhook st')) = None
    \<and> r_status (fst (handle_webhook validator server (t_hass (unregister_webhook st')) m body request)) = 503
    \<and> unregister_webhook (unregister_webhook st') = unregister_webhook st'"
proof -
  note n = web_ok_not_open [OF assms(1)]
  from assms(2) obtain cfg' h' where
    b: "mode \<in> {''none'', ''ha_auth''}"
      "bind_surface f (registration_cfg wid port path mode st) key (t_hass st) = (Inr cfg', h')"
    and s: "st' = st\<lparr>t_registered := wid # filter (\<lambda>v. v \<noteq> wid) (t_registered st),
              t_open := opened mode st @ t_open st, t_next := t_next st + length (opened mode st),
              t_hass := h'\<lparr>d_domain := True, d_webhook := Some cfg'\<rparr>\<rparr>"
    by (rule register_webhook_ok) auto
  have "same_target (registration_cfg wid port path mode st) cfg'"
    by (rule bind_surface_target [OF b(2)]) (simp_all add: registration_cfg_def)
  then have c: "w_webhook_id cfg' = wid" "w_session cfg' = Some (t_next st)"
    "w_cimd_session cfg' = (if mode = ''ha_auth'' then Some (Suc (t_next st)) else None)"
    by (simp_all add: same_target_def registration_cfg_def)
  have w: "webhook_cfg_of (t_hass (unregister_webhook st')) = None"
    by (simp add: unregister_webhook_def s active_webhook_cfg_eq webhook_cfg_of_def Let_def)
  have a: "active_webhook_cfg (t_hass st') = Some cfg'"
    by (simp add: s active_webhook_cfg_def)
  have "t_open (unregister_webhook st') = t_open st"
    unfolding unregister_webhook_def a
    by (simp add: s c opened_def close_session_def Let_def filter_fresh filter_fresh2 n)
  moreover have "t_registered (unregister_webhook st') = filter (\<lambda>v. v \<noteq> wid) (t_registered st)"
    unfolding unregister_webhook_def a using assms(3) by (simp add: s c Let_def)
  ultimately show ?thesis using w
    by (simp add: active_auth_mode_def active_webhook_cfg_eq handle_webhook_def
        unregister_webhook_def [of "unregister_webhook st'"])
qed

theorem unregister_undoes_register_witness:
  "t_open (unregister_webhook (snd (register_webhook no_failures ''id'' 9590 ''/p'' ''ha_auth'' ''00'' fresh_web))) = [7]"
proof -
  let ?r = "register_webhook no_failures ''id'' 9590 ''/p'' ''ha_auth'' ''00'' fresh_web"
  have "parsed_key ''00'' = Inr (Some [chr 0])"
    by (simp add: parsed_key_def is_ascii_space_def is_hex_def is_digit_def hex_val_def ord_def)
  from registration_succeeds [OF this] obtain u st' where r: "?r = (Inr u, st')" by blast
  have "web_ok fresh_web" by (simp add: web_ok_def fresh_web_def)
  from unregister_undoes_register [OF this r] show ?thesis
    unfolding r by (simp add: fresh_web_def)
qed

end
