(* ===== verification/Entry.thy ===== *)
theory Entry
  imports Webhook
begin

text \<open>
  The configuration entry, \<open>_ensure_secrets\<close> and \<open>_prebind_oauth_views\<close> of
  \<open>embedded_entry.py\<close>, and the options flow's \<open>_normalize\<close> of \<open>config_flow.py\<close>. The values of
  an entry's data and options are those the options form and this code store: text, numbers,
  flags and nothing. The random strings drawn are arguments.
\<close>

section \<open>Entries\<close>

datatype opt = ONone | OBool bool | OInt int | OStr string

type_synonym opts = "(string \<times> opt) list"

fun opt_truthy :: "opt \<Rightarrow> bool" where
  "opt_truthy ONone = False"
| "opt_truthy (OBool b) = b"
| "opt_truthy (OInt i) = (i \<noteq> 0)"
| "opt_truthy (OStr s) = (s \<noteq> [])"

text \<open>\<open>str()\<close> of a value\<close>

fun opt_str :: "opt \<Rightarrow> string" where
  "opt_str ONone = ''None''"
| "opt_str (OBool b) = (if b then ''True'' else ''False'')"
| "opt_str (OInt i) = show_int i"
| "opt_str (OStr s) = s"

text \<open>\<open>int()\<close> of a value; text other than plain decimal digits is outside the model.\<close>

fun opt_int :: "opt \<Rightarrow> int py" where
  "opt_int ONone = Inl TypeError"
| "opt_int (OBool b) = Inr (if b then 1 else 0)"
| "opt_int (OInt i) = Inr i"
| "opt_int (OStr s) = (if s = [] then Inl ValueError
     else if list_all is_digit s then Inr (int (nat_of_digits s)) else Inl OutOfModel)"

definition opt_get :: "opts \<Rightarrow> string \<Rightarrow> opt" where
  "opt_get d k = dict_get k ONone d"

definition opt_flag :: "opts \<Rightarrow> string \<Rightarrow> bool" where
  \<comment> \<open>\<open>bool(options.get(k, True))\<close>\<close>
  "opt_flag d k = opt_truthy (dict_get k (OBool True) d)"

text \<open>\<open>str(options.get(k) or "")\<close>\<close>

definition opt_text :: "opts \<Rightarrow> string \<Rightarrow> string" where
  "opt_text d k = (if opt_truthy (opt_get d k) then opt_str (opt_get d k) else [])"

record config_entry =
  e_data :: opts
  e_options :: opts

section \<open>Secrets\<close>

record fresh_secrets =
  n_webhook :: string \<comment> \<open>\<open>token_hex(16)\<close>\<close>
  n_path :: string \<comment> \<open>\<open>token_urlsafe(16)\<close>\<close>
  n_key :: string \<comment> \<open>\<open>token_bytes(32).hex()\<close>\<close>

definition regenerate_secrets :: "fresh_secrets \<Rightarrow> config_entry \<Rightarrow> config_entry" where
  "regenerate_secrets fresh entry = entry
     \<lparr>e_data := dict_set ''dcr_signing_key'' (OStr (n_key fresh))
        (dict_set ''secret_path'' (OStr (''/private_'' @ n_path fresh))
          (dict_set ''webhook_id'' (OStr (''esp_mcp_'' @ n_webhook fresh)) (e_data entry))),
      e_options := dict_set ''secret_path_override'' (OStr [])
        (dict_set ''webhook_id_override'' (OStr [])
          (dict_set ''regenerate_secrets'' (OBool False) (e_options entry)))\<rparr>"

definition set_when :: "bool \<Rightarrow> string \<Rightarrow> string \<Rightarrow> opts \<times> bool \<Rightarrow> opts \<times> bool" where
  "set_when c k v = (\<lambda>(data, changed). if c then (dict_set k (OStr v) data, True) else (data, changed))"

definition rooted :: "string \<Rightarrow> string" where
  "rooted path = (if startswith path ''/'' then path else CHR ''/'' # path)"

definition apply_overrides :: "opts \<Rightarrow> opts \<times> bool \<Rightarrow> opts \<times> bool" where
  "apply_overrides options = (\<lambda>(data, changed).
     let webhook_override = str_strip (opt_text options ''webhook_id_override'');
         path_override = str_strip (opt_text options ''secret_path_override'');
         (data1, changed1) =
           set_when (webhook_override \<noteq> [] \<and> map_of data ''webhook_id'' \<noteq> Some (OStr webhook_override))
             ''webhook_id'' webhook_override (data, changed)
     in set_when (path_override \<noteq> [] \<and> map_of data1 ''secret_path'' \<noteq> Some (OStr (rooted path_override)))
          ''secret_path'' (rooted path_override) (data1, changed1))"

definition fill_missing :: "fresh_secrets \<Rightarrow> opts \<times> bool \<Rightarrow> opts \<times> bool" where
  "fill_missing fresh dc =
     (let dc1 = set_when (\<not> opt_truthy (opt_get (fst dc) ''webhook_id''))
                  ''webhook_id'' (''esp_mcp_'' @ n_webhook fresh) dc;
          dc2 = set_when (\<not> opt_truthy (opt_get (fst dc1) ''secret_path''))
                  ''secret_path'' (''/private_'' @ n_path fresh) dc1
      in set_when (\<not> opt_truthy (opt_get (fst dc2) ''dcr_signing_key''))
           ''dcr_signing_key'' (n_key fresh) dc2)"

text \<open>The entry afterwards, and whether it was updated.\<close>

definition ensure_secrets :: "fresh_secrets \<Rightarrow> config_entry \<Rightarrow> config_entry \<times> bool" where
  "ensure_secrets fresh entry =
     (if opt_truthy (opt_get (e_options entry) ''regenerate_secrets'')
      then (regenerate_secrets fresh entry, True)
      else (case fill_missing fresh (apply_overrides (e_options entry) (e_data entry, False)) of
              (data, changed) \<Rightarrow> (if changed then entry\<lparr>e_data := data\<rparr> else entry, changed)))"

section \<open>Binding the views before bring-up\<close>

definition entry_auth_mode :: "config_entry \<Rightarrow> string" where
  "entry_auth_mode entry = opt_str (dict_get ''webhook_auth'' (OStr ''none'') (e_options entry))"

definition prebind_oauth_views :: "failures \<Rightarrow> config_entry \<Rightarrow> hass_data \<Rightarrow> unit py \<times> hass_data" where
  "prebind_oauth_views f entry hass =
     (if \<not> opt_flag (e_options entry) ''enable_webhook'' then (Inr (), hass)
      else if entry_auth_mode entry \<notin> {''none'', ''ha_auth''} then (Inr (), hass)
      else case bind_views f hass of
        (Inl e, hass') \<Rightarrow> (if entry_auth_mode entry = ''ha_auth'' then Inl e else Inr (), hass')
      | (Inr _, hass') \<Rightarrow> (Inr (), hass'))"

section \<open>The options flow\<close>

definition rstrip_slash :: "string \<Rightarrow> string" where
  "rstrip_slash s = rstrip_by (\<lambda>c. c = CHR ''/'') s"

definition normalize_options :: "opts \<Rightarrow> opts" where
  "normalize_options user_input =
     (let clean = (\<lambda>k d. dict_set k (OStr (str_strip (opt_text d k))) d);
          cleaned = clean ''secret_path_override'' (clean ''webhook_id_override''
                      (clean ''external_url'' (dict_pop ''pip_spec'' user_input)))
      in dict_set ''external_url'' (OStr (rstrip_slash (opt_text cleaned ''external_url''))) cleaned)"

section \<open>Lemmas\<close>

lemma opt_get_set [simp]: "opt_get (dict_set k v d) k' = (if k' = k then v else opt_get d k')"
  by (simp add: opt_get_def dict_get_def)

lemma opt_text_set [simp]: "opt_text (dict_set k (OStr s) d) k' = (if k' = k then s else opt_text d k')"
  by (simp add: opt_text_def)

lemma opt_get_map: "map_of d k = Some v \<Longrightarrow> opt_get d k = v"
  by (simp add: opt_get_def dict_get_def)

definition secrets_set :: "opts \<Rightarrow> bool" where
  "secrets_set data \<longleftrightarrow> list_all (\<lambda>k. opt_truthy (opt_get data k)) [''webhook_id'', ''secret_path'', ''dcr_signing_key'']"

lemma fill_missing_set: "n_key fresh \<noteq> [] \<Longrightarrow> secrets_set (fst (fill_missing fresh dc))"
  by (cases dc) (simp add: fill_missing_def set_when_def secrets_set_def Let_def)

lemma fill_missing_done: "secrets_set data \<Longrightarrow> fill_missing fresh (data, c) = (data, c)"
  by (simp add: fill_missing_def set_when_def secrets_set_def Let_def)

lemma rooted_startswith: "startswith (rooted p) ''/''"
  by (simp add: rooted_def)

text \<open>The overrides are in force in \<open>data\<close>.\<close>

definition overridden :: "opts \<Rightarrow> opts \<Rightarrow> bool" where
  "overridden options data \<longleftrightarrow>
     (let w = str_strip (opt_text options ''webhook_id_override'');
          p = str_strip (opt_text options ''secret_path_override'') in
      (w = [] \<or> map_of data ''webhook_id'' = Some (OStr w))
      \<and> (p = [] \<or> map_of data ''secret_path'' = Some (OStr (rooted p))))"

lemma apply_overrides_done: "overridden options data \<Longrightarrow> apply_overrides options (data, c) = (data, c)"
  by (auto simp: overridden_def apply_overrides_def set_when_def Let_def)

lemma apply_overrides_overridden: "overridden options (fst (apply_overrides options (data, c)))"
  by (auto simp: overridden_def apply_overrides_def set_when_def Let_def)

lemma set_when_overridden:
  assumes "overridden options (fst dc)" and "c \<Longrightarrow> \<not> opt_truthy (opt_get (fst dc) k)"
  shows "overridden options (fst (set_when c k v dc))"
proof (cases c)
  case True
  with assms(2) have k: "map_of (fst dc) k \<noteq> Some (OStr s)" if "s \<noteq> []" for s
    using that opt_get_map [of "fst dc" k "OStr s"] by auto
  have "rooted p \<noteq> []" for p by (auto simp: rooted_def)
  with k True assms(1) show ?thesis
    by (cases dc) (auto simp: overridden_def set_when_def Let_def)
qed (use assms(1) in \<open>cases dc, simp add: set_when_def\<close>)

lemma fill_missing_overridden:
  "overridden options (fst dc) \<Longrightarrow> overridden options (fst (fill_missing fresh dc))"
  unfolding fill_missing_def Let_def by (intro set_when_overridden) simp_all

lemma unchanged_set_when: "\<not> snd (set_when c k v dc) \<Longrightarrow> set_when c k v dc = dc"
  by (cases dc) (simp add: set_when_def split: if_splits)

lemma unchanged_fill: "\<not> snd (fill_missing fresh dc) \<Longrightarrow> fill_missing fresh dc = dc"
  unfolding fill_missing_def Let_def by (metis unchanged_set_when)

lemma unchanged_overrides: "\<not> snd (apply_overrides options (d, c)) \<Longrightarrow> apply_overrides options (d, c) = (d, c)"
  by (auto simp: apply_overrides_def set_when_def Let_def split: if_splits)

lemma ensure_secrets_data:
  assumes "\<not> opt_truthy (opt_get (e_options entry) ''regenerate_secrets'')"
  shows "e_data (fst (ensure_secrets fresh entry))
      = fst (fill_missing fresh (apply_overrides (e_options entry) (e_data entry, False)))
    \<and> e_options (fst (ensure_secrets fresh entry)) = e_options entry"
proof -
  obtain d c where a: "apply_overrides (e_options entry) (e_data entry, False) = (d, c)" by fastforce
  obtain d' c' where f: "fill_missing fresh (d, c) = (d', c')" by fastforce
  have "d' = e_data entry" if "\<not> c'"
    using unchanged_fill [of fresh "(d, c)"] unchanged_overrides [of "e_options entry" "e_data entry" False]
      a f that by auto
  with assms a f show ?thesis by (auto simp: ensure_secrets_def)
qed

text \<open>After \<open>_ensure_secrets\<close> the entry has a webhook id, a secret path and a signing key, the
  overrides (once trimmed) are in force, and the entry is only written when something changed;
  running it again, whatever is drawn then, changes nothing.\<close>

theorem ensure_secrets_stable:
  assumes "n_key fresh \<noteq> []"
  shows "secrets_set (e_data (fst (ensure_secrets fresh entry)))
    \<and> overridden (e_options (fst (ensure_secrets fresh entry))) (e_data (fst (ensure_secrets fresh entry)))
    \<and> (snd (ensure_secrets fresh entry) \<or> fst (ensure_secrets fresh entry) = entry)
    \<and> ensure_secrets fresh' (fst (ensure_secrets fresh entry)) = (fst (ensure_secrets fresh entry), False)"
proof -
  define entry' where "entry' = fst (ensure_secrets fresh entry)"
  have k: "secrets_set (e_data entry') \<and> overridden (e_options entry') (e_data entry')
      \<and> \<not> opt_truthy (opt_get (e_options entry') ''regenerate_secrets'')"
  proof (cases "opt_truthy (opt_get (e_options entry) ''regenerate_secrets'')")
    case True
    with assms show ?thesis
      by (simp add: entry'_def ensure_secrets_def regenerate_secrets_def secrets_set_def
          overridden_def str_strip_def rstrip_by_def lstrip_by_def)
  next
    case False
    obtain d c where a: "apply_overrides (e_options entry) (e_data entry, False) = (d, c)" by fastforce
    have "overridden (e_options entry) d"
      using apply_overrides_overridden [of "e_options entry" "e_data entry" False] by (simp add: a)
    with ensure_secrets_data [OF False, of fresh] False assms show ?thesis
      by (simp add: entry'_def a fill_missing_set fill_missing_overridden)
  qed
  then have "ensure_secrets fresh' entry' = (entry', False)"
    by (simp add: ensure_secrets_def apply_overrides_done fill_missing_done)
  moreover have "snd (ensure_secrets fresh entry) \<or> entry' = entry"
    by (auto simp: entry'_def ensure_secrets_def split: prod.splits)
  ultimately show ?thesis using k by (simp add: entry'_def)
qed

definition sample_secrets :: fresh_secrets where
  "sample_secrets = \<lparr>n_webhook = ''ab'', n_path = ''cd'', n_key = ''00ff''\<rparr>"

theorem ensure_secrets_stable_witness:
  "secrets_set (e_data (fst (ensure_secrets sample_secrets
     \<lparr>e_data = [], e_options = [(''webhook_id_override'', OStr '' w '')]\<rparr>)))"
proof -
  have "n_key sample_secrets \<noteq> []" by (simp add: sample_secrets_def)
  from ensure_secrets_stable [OF this] show ?thesis by blast
qed

end
