(* ===== verification/Manager.thy ===== *)
theory Manager
  imports Entry
begin

text \<open>
  \<open>embedded_server.py\<close>: the manager of the server thread. What the thread does is observed by
  the event loop as a sequence of polls (the clock, the thread's exception and liveness, the
  probe of the port); what an import attempt gives is a parameter. The waiting loop is a partial
  function, so that not returning is a value; the search of an exception chain is a total one.
\<close>

section \<open>Failures\<close>

datatype failure_kind = KPackage | KRestart | KStart

text \<open>What code on either thread can raise: the error of this module, an import error, another
  exception, or an exit request, which \<open>except Exception\<close> does not catch.\<close>

datatype raised = EmbeddedError failure_kind | ImportRaised | OtherRaised | ExitRaised

section \<open>Module-lock deadlocks\<close>

text \<open>A heap of exception objects; following \<open>__cause__ or __context__\<close> may cycle.\<close>

record exc =
  x_runtime :: bool \<comment> \<open>a \<open>RuntimeError\<close>\<close>
  x_str :: string
  x_cause :: "nat option"
  x_context :: "nat option"

type_synonym exc_heap = "(nat \<times> exc) list"

definition module_lock_text :: string where
  "module_lock_text = ''deadlock detected by _ModuleLock''"

definition lock_exc :: "exc \<Rightarrow> bool" where
  "lock_exc e \<longleftrightarrow> x_runtime e \<and> str_in module_lock_text (x_str e)"

definition next_exc :: "exc \<Rightarrow> nat option" where
  "next_exc e = (case x_cause e of None \<Rightarrow> x_context e | Some c \<Rightarrow> Some c)"

function deadlock_from :: "exc_heap \<Rightarrow> nat option \<Rightarrow> nat list \<Rightarrow> bool" where
  "deadlock_from heap None seen = False"
| "deadlock_from heap (Some i) seen =
     (if i \<in> set seen then False
      else case map_of heap i of
        None \<Rightarrow> False
      | Some e \<Rightarrow> if lock_exc e then True else deadlock_from heap (next_exc e) (i # seen))"
  by pat_completeness auto
termination
proof (relation "measure (\<lambda>(heap, current, seen). card (fst ` set heap - set seen))")
  fix heap :: exc_heap and i seen e
  assume i: "i \<notin> set seen" and e: "map_of heap i = Some e"
  from map_of_SomeD [OF e] have "i \<in> fst ` set heap" by force
  with i have "card (fst ` set heap - insert i (set seen)) < card (fst ` set heap - set seen)"
    by (intro psubset_card_mono) auto
  then show "((heap, next_exc e, i # seen), (heap, Some i, seen))
      \<in> measure (\<lambda>(heap, current, seen). card (fst ` set heap - set seen))" by simp
qed simp

definition is_module_lock_deadlock :: "exc_heap \<Rightarrow> nat \<Rightarrow> bool" where
  "is_module_lock_deadlock heap err = deadlock_from heap (Some err) []"

section \<open>Importing the server\<close>

datatype import_outcome = Imported | RuntimeErr exc_heap nat | OtherErr raised

definition retry_delays :: "rat list" where
  "retry_delays = [1/4, 1/2, 1, 2]"

text \<open>
  The attempts, numbered; the delays still available, the last attempt having none. The result
  and the delays slept.
\<close>

fun import_runtime :: "(nat \<Rightarrow> import_outcome) \<Rightarrow> nat \<Rightarrow> rat list \<Rightarrow> (raised + unit) \<times> rat list" where
  "import_runtime attempt n [] =
     (case attempt n of
        Imported \<Rightarrow> (Inr (), [])
      | OtherErr r \<Rightarrow> (Inl r, [])
      | RuntimeErr heap err \<Rightarrow>
          (Inl (if is_module_lock_deadlock heap err then EmbeddedError KRestart else OtherRaised), []))"
| "import_runtime attempt n (delay # delays) =
     (case attempt n of
        Imported \<Rightarrow> (Inr (), [])
      | OtherErr r \<Rightarrow> (Inl r, [])
      | RuntimeErr heap err \<Rightarrow>
          (if is_module_lock_deadlock heap err
           then (case import_runtime attempt (Suc n) delays of (r, slept) \<Rightarrow> (r, delay # slept))
           else (Inl OtherRaised, [])))"

text \<open>The exception the thread leaves for the event loop.\<close>

definition thread_exc_of :: "raised + unit \<Rightarrow> raised option" where
  "thread_exc_of outcome =
     (case outcome of
        Inr _ \<Rightarrow> None
      | Inl (EmbeddedError k) \<Rightarrow> Some (EmbeddedError k)
      | Inl ImportRaised \<Rightarrow> Some (EmbeddedError KPackage)
      | Inl OtherRaised \<Rightarrow> Some OtherRaised
      | Inl ExitRaised \<Rightarrow> None)"

text \<open>
  \<open>_serve\<close>: once the stop event and the server's end race, a stop asks the server to exit and
  waits for it; otherwise the server's own result counts.
\<close>

datatype serve_race = StopFirst "raised + unit" | ServerFirst "raised + unit"

definition serve :: "serve_race \<Rightarrow> (raised + unit) \<times> bool" where
  \<comment> \<open>the outcome, and whether the server was asked to exit\<close>
  "serve race = (case race of StopFirst r \<Rightarrow> (r, True) | ServerFirst r \<Rightarrow> (r, False))"

definition thread_main :: "(nat \<Rightarrow> import_outcome) \<Rightarrow> serve_race \<Rightarrow> raised option" where
  "thread_main attempt race =
     (case fst (import_runtime attempt 1 retry_delays) of
        Inl r \<Rightarrow> thread_exc_of (Inl r)
      | Inr _ \<Rightarrow> thread_exc_of (fst (serve race)))"

section \<open>Waiting for the port\<close>

record poll =
  p_time :: rat \<comment> \<open>\<open>loop.time()\<close> at the loop's test\<close>
  p_cancel :: bool \<comment> \<open>the task is cancelled in this round\<close>
  p_exc :: "raised option"
  p_alive :: "bool option" \<comment> \<open>the thread, if there is one, is alive\<close>
  p_probe :: bool

datatype wait_result = Ready | Failed failure_kind | TimedOut | WaitCancelled

definition ready_timeout :: rat where "ready_timeout = 30"
definition ready_poll_interval :: rat where "ready_poll_interval = 1/2"

definition startup_kind :: "raised \<Rightarrow> failure_kind" where
  "startup_kind e = (case e of EmbeddedError k \<Rightarrow> k | _ \<Rightarrow> KStart)"

text \<open>One round: a result, or \<open>None\<close> to sleep and go on.\<close>

definition poll_result :: "rat \<Rightarrow> poll \<Rightarrow> wait_result option" where
  "poll_result deadline p =
     (if \<not> p_time p < deadline then Some TimedOut
      else case p_exc p of
        Some e \<Rightarrow> Some (Failed (startup_kind e))
      | None \<Rightarrow>
          if p_alive p = Some False then Some (Failed KStart)
          else if p_cancel p then Some WaitCancelled
          else if p_probe p then Some Ready else None)"

partial_function (option) wait_until_ready ::
  "(nat \<Rightarrow> poll) \<Rightarrow> rat \<Rightarrow> nat \<Rightarrow> (wait_result \<times> nat) option" where
  "wait_until_ready polls deadline n =
     (case poll_result deadline (polls n) of
        Some r \<Rightarrow> Some (r, n)
      | None \<Rightarrow> wait_until_ready polls deadline (Suc n))"

section \<open>The manager\<close>

record manager =
  m_port :: int
  m_bind_host :: string
  m_secret_path :: string
  m_thread :: "nat option"
  m_thread_exc :: "raised option"

definition manager_of :: "config_entry \<Rightarrow> manager py" where
  "manager_of entry =
     py_bind (opt_int (dict_get ''server_port'' (OInt 9590) (e_options entry))) (\<lambda>port.
       Inr \<lparr>m_port = port,
            m_bind_host = opt_str (dict_get ''bind_host'' (OStr ''0.0.0.0'') (e_options entry)),
            m_secret_path = opt_str (dict_get ''secret_path'' (OStr []) (e_data entry)),
            m_thread = None, m_thread_exc = None\<rparr>)"

definition legacy_runtime_keys :: "string list" where
  "legacy_runtime_keys = [''last_pip_spec'', ''owned_runtime_url'']"

definition drop_legacy_runtime_data :: "config_entry \<Rightarrow> config_entry" where
  "drop_legacy_runtime_data entry =
     (if list_ex (\<lambda>k. map_of (e_data entry) k \<noteq> None) legacy_runtime_keys
      then entry\<lparr>e_data := filter (\<lambda>(k, _). k \<notin> set legacy_runtime_keys) (e_data entry)\<rparr>
      else entry)"

text \<open>
  Stopping: the thread is told, if it can be, and joined for a limited time. \<open>joins n\<close> says whether
  that join finds thread \<open>n\<close> ended; the manager forgets the thread even when it does not. The thread
  that was seen to end, and the manager.
\<close>

definition async_stop :: "(nat \<Rightarrow> bool) \<Rightarrow> manager \<Rightarrow> nat option \<times> manager" where
  "async_stop joins m =
     (case m_thread m of
        None \<Rightarrow> (None, m)
      | Some n \<Rightarrow> (if joins n then Some n else None, m\<lparr>m_thread := None, m_thread_exc := None\<rparr>))"

definition end_thread :: "nat option \<Rightarrow> nat list \<Rightarrow> nat list" where
  "end_thread ended threads = filter (\<lambda>n. ended \<noteq> Some n) threads"

datatype dirs_result = DirsMade | DirsFailed | DirsCancelled

datatype start_result = Started | StartFailed failure_kind | StartRaised | StartCancelled

text \<open>
  \<open>thread\<close> is the new thread, \<open>t0\<close> the clock when the wait begins. The threads are those this start
  leaves running as far as it has seen. No result means that the wait does not return.
\<close>

definition async_start ::
  "(nat \<Rightarrow> bool) \<Rightarrow> dirs_result \<Rightarrow> nat \<Rightarrow> (nat \<Rightarrow> poll) \<Rightarrow> rat \<Rightarrow> config_entry \<Rightarrow> manager
     \<Rightarrow> (start_result \<times> config_entry \<times> manager \<times> nat list) option" where
  "async_start joins dirs thread polls t0 entry m =
     (if m_secret_path m = [] then Some (StartFailed KStart, entry, m, [])
      else
        (let entry' = drop_legacy_runtime_data entry;
             m' = m\<lparr>m_thread := Some thread, m_thread_exc := None\<rparr> in
         case dirs of
           DirsFailed \<Rightarrow> Some (StartRaised, entry', m, [])
         | DirsCancelled \<Rightarrow> Some (StartCancelled, entry', m, [])
         | DirsMade \<Rightarrow>
             (case wait_until_ready polls (t0 + ready_timeout) 0 of
                None \<Rightarrow> None
              | Some (Ready, _) \<Rightarrow> Some (Started, entry', m', [thread])
              | Some (Failed k, n) \<Rightarrow>
                  Some (StartFailed k, entry', m'\<lparr>m_thread_exc := p_exc (polls n)\<rparr>, [thread])
              | Some (TimedOut, _) \<Rightarrow>
                  (case async_stop joins m' of
                     (ended, m'') \<Rightarrow> Some (StartFailed KStart, entry', m'', end_thread ended [thread]))
              | Some (WaitCancelled, _) \<Rightarrow> Some (StartCancelled, entry', m', [thread]))))"

section \<open>Lemmas: the exception chain\<close>

text \<open>The chain of an exception, as a relation.\<close>

inductive chained :: "exc_heap \<Rightarrow> nat \<Rightarrow> nat \<Rightarrow> bool" for heap where
  chain_here: "map_of heap i = Some e \<Longrightarrow> chained heap i i"
| chain_next: "map_of heap i = Some e \<Longrightarrow> next_exc e = Some k \<Longrightarrow> chained heap k j \<Longrightarrow> chained heap i j"

inductive_cases chainedE: "chained heap i j"

lemma deadlock_from_sound:
  "deadlock_from heap c seen \<Longrightarrow>
     \<exists>i j e. c = Some i \<and> chained heap i j \<and> map_of heap j = Some e \<and> lock_exc e"
proof (induction heap c seen rule: deadlock_from.induct)
  case (1 heap seen)
  then show ?case by simp
next
  case (2 heap i seen)
  from 2(2) obtain e where e: "i \<notin> set seen" "map_of heap i = Some e"
    "lock_exc e \<or> deadlock_from heap (next_exc e) (i # seen)"
    by (auto split: if_splits option.splits)
  show ?case
  proof (cases "lock_exc e")
    case True
    with e show ?thesis by (auto intro: chain_here)
  next
    case False
    with e have "deadlock_from heap (next_exc e) (i # seen)" by simp
    from 2(1) [OF e(1,2) False this] e(2) show ?thesis by (auto intro: chain_next)
  qed
qed

text \<open>What was seen holds no deadlock and leads only to what was seen or to the current one.\<close>

definition seen_ok :: "exc_heap \<Rightarrow> nat option \<Rightarrow> nat list \<Rightarrow> bool" where
  "seen_ok heap c seen \<longleftrightarrow> (\<forall>i \<in> set seen. \<exists>e. map_of heap i = Some e \<and> \<not> lock_exc e
     \<and> (next_exc e = None \<or> next_exc e = c \<or> (\<exists>k \<in> set seen. next_exc e = Some k)))"

lemma chained_mapped: "chained heap i j \<Longrightarrow> map_of heap i \<noteq> None"
  by (auto elim: chainedE)

lemma closed_no_deadlock:
  assumes "chained heap i j" "i \<in> S" "map_of heap j = Some e"
    and closed: "\<And>i. i \<in> S \<Longrightarrow> \<exists>e. map_of heap i = Some e \<and> \<not> lock_exc e
          \<and> (\<forall>k. next_exc e = Some k \<longrightarrow> k \<in> S \<or> map_of heap k = None)"
  shows "\<not> lock_exc e"
  using assms(1-3)
proof (induction rule: chained.induct)
  case (chain_here i e')
  with closed [of i] show ?case by auto
next
  case (chain_next i e' k j)
  with closed [of i] chained_mapped [of heap k j] show ?case by auto
qed

lemma seen_ok_Cons:
  assumes "seen_ok heap (Some i) seen" "map_of heap i = Some e" "\<not> lock_exc e"
  shows "seen_ok heap (next_exc e) (i # seen)"
  using assms by (fastforce simp: seen_ok_def)

lemma deadlock_from_complete:
  assumes "\<not> deadlock_from heap c seen" "seen_ok heap c seen" "c = Some i" "chained heap i j"
    "map_of heap j = Some e"
  shows "\<not> lock_exc e"
  using assms
proof (induction heap c seen arbitrary: i rule: deadlock_from.induct)
  case (1 heap seen)
  then show ?case by simp
next
  case (2 heap i' seen i)
  then have i: "i' = i" by simp
  show ?case
  proof (cases "i \<in> set seen")
    case True
    show ?thesis
    proof (rule closed_no_deadlock [OF 2(5) True 2(6)])
      fix k
      assume "k \<in> set seen"
      with 2(3) True i show "\<exists>e. map_of heap k = Some e \<and> \<not> lock_exc e
          \<and> (\<forall>k. next_exc e = Some k \<longrightarrow> k \<in> set seen \<or> map_of heap k = None)"
        by (fastforce simp: seen_ok_def)
    qed
  next
    case False
    from chained_mapped [OF 2(5)] obtain ei where ei: "map_of heap i = Some ei" by auto
    with 2(2) False i have n: "\<not> lock_exc ei" "\<not> deadlock_from heap (next_exc ei) (i # seen)"
      by (auto split: if_splits)
    from 2(5) have "j = i \<or> (\<exists>k. next_exc ei = Some k \<and> chained heap k j)"
      by (rule chainedE) (use ei in auto)
    then show ?thesis
    proof
      assume "j = i"
      with ei n(1) 2(6) show ?thesis by simp
    next
      assume "\<exists>k. next_exc ei = Some k \<and> chained heap k j"
      then obtain k where k: "next_exc ei = Some k" "chained heap k j" by blast
      from 2(3) i have "seen_ok heap (next_exc ei) (i # seen)" by (intro seen_ok_Cons [OF _ ei n(1)]) simp
      with "2.IH" [of ei k] False ei n k 2(6) i show ?thesis by simp
    qed
  qed
qed

text \<open>C34: The deadlock test is exact and always answers, also on a cyclic chain: it holds precisely
  when some exception reached by following \<open>__cause__ or __context__\<close> is a \<open>RuntimeError\<close> whose
  text reports a module-lock deadlock.\<close>

theorem module_lock_deadlock_iff:
  "is_module_lock_deadlock heap err \<longleftrightarrow>
     (\<exists>j e. chained heap err j \<and> map_of heap j = Some e \<and> x_runtime e \<and> str_in module_lock_text (x_str e))"
proof
  assume "is_module_lock_deadlock heap err"
  then show "\<exists>j e. chained heap err j \<and> map_of heap j = Some e \<and> x_runtime e \<and> str_in module_lock_text (x_str e)"
    using deadlock_from_sound [of heap "Some err" "[]"]
    by (auto simp: is_module_lock_deadlock_def lock_exc_def)
next
  assume "\<exists>j e. chained heap err j \<and> map_of heap j = Some e \<and> x_runtime e \<and> str_in module_lock_text (x_str e)"
  then obtain j e where j: "chained heap err j" "map_of heap j = Some e" "lock_exc e"
    by (auto simp: lock_exc_def)
  have "seen_ok heap (Some err) []" by (simp add: seen_ok_def)
  from deadlock_from_complete [OF _ this refl j(1,2)] j(3) show "is_module_lock_deadlock heap err"
    unfolding is_module_lock_deadlock_def by blast
qed

section \<open>Lemmas: the import attempts\<close>

definition locked :: "import_outcome \<Rightarrow> bool" where
  "locked outcome = (case outcome of RuntimeErr heap err \<Rightarrow> is_module_lock_deadlock heap err | _ \<Rightarrow> False)"

definition settled :: "import_outcome \<Rightarrow> raised + unit" where
  "settled outcome =
     (case outcome of
        Imported \<Rightarrow> Inr () | OtherErr r \<Rightarrow> Inl r
      | RuntimeErr heap err \<Rightarrow> Inl (if is_module_lock_deadlock heap err then EmbeddedError KRestart else OtherRaised))"

lemma import_runtime_cases:
  "import_runtime attempt n delays =
     (case find (\<lambda>k. \<not> locked (attempt (n + k))) [0..<length delays] of
        Some k \<Rightarrow> (settled (attempt (n + k)), take k delays)
      | None \<Rightarrow> (settled (attempt (n + length delays)), delays))"
proof (induction delays arbitrary: n)
  case Nil
  then show ?case by (auto simp: settled_def split: import_outcome.splits)
next
  case (Cons d ds)
  have f: "find P [0..<Suc m] = (if P 0 then Some 0 else map_option Suc (find (\<lambda>k. P (Suc k)) [0..<m]))"
    for P :: "nat \<Rightarrow> bool" and m
  proof -
    have "find P (map Suc xs) = map_option Suc (find (\<lambda>k. P (Suc k)) xs)" for xs
      by (induction xs) auto
    then show ?thesis by (simp add: upt_conv_Cons map_Suc_upt [symmetric] del: upt_Suc)
  qed
  show ?case
    by (auto simp: f locked_def settled_def Cons.IH split: import_outcome.splits option.splits simp del: upt_Suc)
qed

lemma import_retry_cases:
  "\<exists>k \<le> 4. (\<forall>i < k. locked (attempt (Suc i)))
     \<and> (locked (attempt (Suc k)) \<longrightarrow> k = 4)
     \<and> import_runtime attempt 1 retry_delays = (settled (attempt (Suc k)), take k retry_delays)"
proof -
  have len: "length retry_delays = 4" by (simp add: retry_delays_def)
  have five: "1 + 4 = (5::nat)" by simp
  let ?f = "find (\<lambda>k. \<not> locked (attempt (1 + k))) [0..<4]"
  have c: "import_runtime attempt 1 retry_delays =
     (case ?f of Some k \<Rightarrow> (settled (attempt (1 + k)), take k retry_delays)
      | None \<Rightarrow> (settled (attempt 5), retry_delays))"
    using import_runtime_cases [of attempt 1 retry_delays] unfolding len five .
  show ?thesis
  proof (cases ?f)
    case None
    then have "\<forall>i < 4. locked (attempt (Suc i))" by (auto simp: find_None_iff)
    with c None len show ?thesis by (intro exI [of _ 4]) simp
  next
    case (Some k)
    then obtain i where "i < 4" "k = i" "\<not> locked (attempt (Suc i))" "\<forall>j < i. locked (attempt (Suc j))"
      by (auto simp: find_Some_iff)
    with c Some show ?thesis by (intro exI [of _ k]) auto
  qed
qed

text \<open>At most five import attempts are made, with at most 3.75 seconds of sleep between them. The
  result is that of the first attempt that is no module-lock deadlock, whatever it is, and only
  five deadlocks in a row ask for a restart.\<close>

theorem import_retry:
  "\<exists>k \<le> 4. (\<forall>i < k. locked (attempt (Suc i)))
     \<and> (locked (attempt (Suc k)) \<longrightarrow> k = 4)
     \<and> import_runtime attempt 1 retry_delays = (settled (attempt (Suc k)), take k retry_delays)
     \<and> sum_list (take k retry_delays) \<le> 15 / 4"
proof -
  have "sum_list (take k retry_delays) \<le> 15 / 4" if "k \<le> 4" for k
    using that by (auto simp: retry_delays_def le_Suc_eq numeral_eq_Suc)
  with import_retry_cases [of attempt] show ?thesis by blast
qed

theorem import_retry_witness:
  "\<exists>k \<le> 4. import_runtime (\<lambda>_. Imported) 1 retry_delays = (settled Imported, take k retry_delays)"
  using import_retry [of "\<lambda>_. Imported"] by blast

section \<open>Lemmas: the wait\<close>

text \<open>The clock: every round that sleeps takes at least the poll interval.\<close>

definition clock_ok :: "(nat \<Rightarrow> poll) \<Rightarrow> bool" where
  "clock_ok polls \<longleftrightarrow> (\<forall>n. p_time (polls n) + ready_poll_interval \<le> p_time (polls (Suc n)))"

lemma clock_after: "clock_ok polls \<Longrightarrow> p_time (polls 0) + of_nat n * ready_poll_interval \<le> p_time (polls n)"
proof (induction n)
  case 0
  then show ?case by simp
next
  case (Suc n)
  from Suc(2) have "p_time (polls n) + ready_poll_interval \<le> p_time (polls (Suc n))" by (simp add: clock_ok_def)
  with Suc show ?case by (simp add: algebra_simps)
qed

lemma wait_stops:
  assumes "poll_result deadline (polls m) \<noteq> None" "n \<le> m"
  shows "\<exists>k r. n \<le> k \<and> k \<le> m \<and> poll_result deadline (polls k) = Some r
     \<and> (\<forall>i. n \<le> i \<and> i < k \<longrightarrow> poll_result deadline (polls i) = None)
     \<and> wait_until_ready polls deadline n = Some (r, k)"
  using assms(2)
proof (induction "m - n" arbitrary: n)
  case 0
  with assms(1) show ?case
    by (intro exI [of _ n]) (auto simp: wait_until_ready.simps [of polls deadline n])
next
  case (Suc d)
  show ?case
  proof (cases "poll_result deadline (polls n)")
    case (Some r)
    with Suc.prems show ?thesis
      by (intro exI [of _ n]) (auto simp: wait_until_ready.simps [of polls deadline n])
  next
    case None
    with assms(1) Suc.prems have "n \<noteq> m" by auto
    with Suc have "\<exists>k r. Suc n \<le> k \<and> k \<le> m \<and> poll_result deadline (polls k) = Some r
       \<and> (\<forall>i. Suc n \<le> i \<and> i < k \<longrightarrow> poll_result deadline (polls i) = None)
       \<and> wait_until_ready polls deadline (Suc n) = Some (r, k)"
      by (intro Suc.hyps(1)) auto
    then obtain k r where k: "Suc n \<le> k" "k \<le> m" "poll_result deadline (polls k) = Some r"
      "\<forall>i. Suc n \<le> i \<and> i < k \<longrightarrow> poll_result deadline (polls i) = None"
      "wait_until_ready polls deadline (Suc n) = Some (r, k)" by blast
    have "poll_result deadline (polls i) = None" if "n \<le> i" "i < k" for i
      using k(4) None that by (cases "i = n") auto
    with k None show ?thesis
      by (intro exI [of _ k] exI [of _ r]) (auto simp: wait_until_ready.simps [of polls deadline n])
  qed
qed

lemma wait_returns:
  assumes "clock_ok polls" and "t0 \<le> p_time (polls 0)"
  shows "\<exists>n r. wait_until_ready polls (t0 + ready_timeout) 0 = Some (r, n) \<and> n \<le> 60
     \<and> poll_result (t0 + ready_timeout) (polls n) = Some r
     \<and> (\<forall>i < n. poll_result (t0 + ready_timeout) (polls i) = None)"
proof -
  have "t0 + ready_timeout \<le> p_time (polls 60)"
    using clock_after [OF assms(1), of 60] assms(2) by (simp add: ready_timeout_def ready_poll_interval_def)
  then have "poll_result (t0 + ready_timeout) (polls 60) \<noteq> None" by (simp add: poll_result_def)
  from wait_stops [where polls = polls and m = 60 and n = 0, OF this] show ?thesis by (metis zero_le)
qed

text \<open>Waiting for the server ends: with a clock that advances by the poll interval in every round
  that sleeps, at most 60 rounds pass, and the answer is the one the last of them gives, all
  earlier rounds having found neither a listening port nor a reason to give up.\<close>

theorem wait_terminates:
  assumes "clock_ok polls" and "t0 \<le> p_time (polls 0)"
  shows "\<exists>n r. wait_until_ready polls (t0 + ready_timeout) 0 = Some (r, n) \<and> n \<le> 60
     \<and> poll_result (t0 + ready_timeout) (polls n) = Some r
     \<and> (\<forall>i < n. poll_result (t0 + ready_timeout) (polls i) = None)"
  using assms by (rule wait_returns)

definition ticking :: "nat \<Rightarrow> poll" where
  "ticking n = \<lparr>p_time = of_nat n, p_cancel = False, p_exc = None, p_alive = Some True, p_probe = (n = 3)\<rparr>"

theorem wait_terminates_witness:
  "\<exists>n r. wait_until_ready ticking (0 + ready_timeout) 0 = Some (r, n) \<and> n \<le> 60"
proof -
  have "clock_ok ticking" "0 \<le> p_time (ticking 0)"
    by (simp_all add: clock_ok_def ticking_def ready_poll_interval_def)
  from wait_terminates [OF this] show ?thesis by blast
qed

end
