(* ===== verification/Setup.thy ===== *)
theory Setup
  imports Manager
begin

text \<open>
  \<open>embedded_setup.py\<close> and the rest of \<open>embedded_entry.py\<close>: bringing the server up and down, the
  connect URLs and the notification, repair issues, and the setup, unload and removal of the
  entry; with the connect-URL hint of \<open>config_flow.py\<close>. The state is everything these change:
  the entry, the webhook registration, the manager, its thread, the notification and the issues.
\<close>

section \<open>Connect URLs\<close>

datatype cloud = NoCloud | CloudOff | CloudBase string

record url_env =
  v_cloud :: cloud
  v_local :: "string option" \<comment> \<open>\<open>get_url\<close>, or \<open>NoURLAvailableError\<close>\<close>

definition direct_url_host :: "string option \<Rightarrow> string" where
  "direct_url_host host =
     (case host of
        None \<Rightarrow> ''<home-assistant-ip>''
      | Some h \<Rightarrow>
          if h = [] then ''<home-assistant-ip>''
          else case ip_address h of
            None \<Rightarrow> h
          | Some (IPv6 _) \<Rightarrow> ''['' @ h @ '']''
          | Some (IPv4 _) \<Rightarrow> h)"

definition hook_path :: "opt \<Rightarrow> string" where
  "hook_path webhook_id = ''/api/webhook/'' @ opt_str webhook_id"

definition local_url :: "url_env \<Rightarrow> opt \<Rightarrow> (string option \<times> string list) py" where
  "local_url v webhook_id =
     (case v_local v of
        None \<Rightarrow> Inr (None, [])
      | Some base \<Rightarrow> py_bind (urlparse base) (\<lambda>u.
          Inr (url_hostname u, if opt_truthy webhook_id then [base @ hook_path webhook_id] else [])))"

definition build_connect_urls :: "url_env \<Rightarrow> config_entry \<Rightarrow> bool \<Rightarrow> string list py" where
  "build_connect_urls v entry webhook_enabled =
     (let webhook_id = (if webhook_enabled then opt_get (e_data entry) ''webhook_id'' else ONone);
          external = (if webhook_enabled then rstrip_slash (opt_text (e_options entry) ''external_url'') else []);
          urls1 = (if external \<noteq> [] then [external @ hook_path webhook_id] else []);
          urls2 = (case v_cloud v of
                     CloudBase base \<Rightarrow> if opt_truthy webhook_id then [base @ hook_path webhook_id] else []
                   | _ \<Rightarrow> []) in
      py_bind (local_url v webhook_id) (\<lambda>(local_host, urls3).
        let urls = urls1 @ urls2 @ urls3;
            urls' = (if urls = [] \<and> opt_truthy webhook_id
                     then [hook_path webhook_id @ ''  (prefix with your Home Assistant URL)''] else urls) in
        py_bind (opt_int (dict_get ''server_port'' (OInt 9590) (e_options entry))) (\<lambda>port.
          let bind_host = opt_str (dict_get ''bind_host'' (OStr ''0.0.0.0'') (e_options entry));
              secret_path = opt_get (e_data entry) ''secret_path'' in
          Inr (urls' @
            (if bind_host = ''0.0.0.0'' \<and> opt_truthy secret_path
             then [''http://'' @ direct_url_host local_host @ '':'' @ show_int port @ opt_str secret_path
                     @ '' (direct access)'']
             else [])))))"

definition nl :: string where "nl = [chr 10]"

definition static_hint :: "config_entry \<Rightarrow> string" where
  "static_hint entry =
     (let webhook_id = opt_get (e_data entry) ''webhook_id'';
          secret_path = opt_get (e_data entry) ''secret_path'';
          port = opt_str (dict_get ''server_port'' (OInt 9590) (e_options entry));
          external = rstrip_slash (opt_text (e_options entry) ''external_url'') in
      if \<not> opt_flag (e_options entry) ''enable_webhook''
      then ''Remote access via webhook is disabled (local-only mode).'' @
           (if opt_truthy secret_path
            then nl @ ''Direct access from the Home Assistant machine: http://127.0.0.1:'' @ port
                   @ opt_str secret_path else [])
      else
        (if external \<noteq> [] then ''Remote connect URL: '' @ external @ hook_path webhook_id
         else ''Remote connect URL: '' @ hook_path webhook_id @
              '' (Home Assistant URL unavailable; enable Nabu Casa Remote UI or set External URL)'')
        @ (if opt_truthy secret_path
           then nl @ ''Local/LAN (when bind host is 0.0.0.0): http://<home-assistant-ip>:'' @ port
                  @ opt_str secret_path else []))"

definition connect_url_hint :: "url_env option \<Rightarrow> config_entry \<Rightarrow> string" where
  \<comment> \<open>\<open>None\<close>: the flow has no \<open>hass\<close>\<close>
  "connect_url_hint v entry =
     (if \<not> opt_truthy (opt_get (e_data entry) ''webhook_id'')
      then ''The remote connect URL will appear once the server starts.''
      else case v of
        None \<Rightarrow> static_hint entry
      | Some v \<Rightarrow>
          (case build_connect_urls v entry (opt_flag (e_options entry) ''enable_webhook'') of
             Inr (u # us) \<Rightarrow> ''Connect URL(s):'' @ concat (map (\<lambda>url. nl @ ''- '' @ url) (u # us))
           | _ \<Rightarrow> static_hint entry))"

section \<open>The component\<close>

record component =
  c_entry :: config_entry
  c_web :: web_state
  c_manager :: "manager option"
  c_threads :: "nat list" \<comment> \<open>server threads started and not seen to end\<close>
  c_joins :: "nat \<Rightarrow> bool" \<comment> \<open>whether the join of a thread finds it ended: of the world, never changed\<close>
  c_next_thread :: nat
  c_notification :: "string option"
  c_issues :: "string list"
  c_loaded :: bool
  c_pending :: bool \<comment> \<open>the bring-up task exists and is not done\<close>
  c_last_options :: "opts option"

definition issue_ids :: "string list" where
  "issue_ids = [''server_package_import_failed'', ''server_restart_required'', ''server_start_failed'']"

fun issue_by_kind :: "failure_kind \<Rightarrow> string" where
  "issue_by_kind KPackage = ''server_package_import_failed''"
| "issue_by_kind KRestart = ''server_restart_required''"
| "issue_by_kind KStart = ''server_start_failed''"

definition clear_issues :: "component \<Rightarrow> component" where
  "clear_issues st = st\<lparr>c_issues := filter (\<lambda>i. i \<notin> set issue_ids) (c_issues st)\<rparr>"

definition create_issue :: "failure_kind \<Rightarrow> component \<Rightarrow> component" where
  "create_issue kind st = st\<lparr>c_issues := List.insert (issue_by_kind kind) (c_issues st)\<rparr>"

definition teardown_server :: "component \<Rightarrow> component" where
  "teardown_server st = st
     \<lparr>c_web := unregister_webhook (c_web st), c_manager := None,
      c_threads := (case c_manager st of
                      Some m \<Rightarrow> end_thread (fst (async_stop (c_joins st) m)) (c_threads st)
                    | None \<Rightarrow> c_threads st),
      c_notification := None\<rparr>"

definition remove_server :: "component \<Rightarrow> component" where
  "remove_server st = (clear_issues st)\<lparr>c_notification := None\<rparr>"

definition auth_note :: "string \<Rightarrow> bool \<Rightarrow> string" where
  "auth_note auth_mode webhook_enabled =
     (if \<not> webhook_enabled then ''Webhook access is disabled (local-only mode).''
      else if auth_mode = ''none'' then ''The webhook URL is the shared secret (no bearer required).''
      else ''Clients authenticate with a Home Assistant administrator account (ha_auth).'')"

definition notification_message :: "string \<Rightarrow> string" where
  "notification_message note =
     ''The ESPHome MCP server is running inside Home Assistant.'' @ nl @ nl
     @ ''Manage server and connection settings from ''
     @ ''[Settings > Devices & services](/config/integrations/integration/esphome_mcp), ''
     @ ''then select Configure.'' @ nl @ nl
     @ ''The connect URL is shown there and in the Home Assistant log. The Configure ''
     @ ''screen is administrator-only because the secret URL is a credential in the ''
     @ ''default mode.'' @ nl @ nl @ note @ nl"

definition surface_connect_urls :: "url_env \<Rightarrow> string \<Rightarrow> bool \<Rightarrow> component \<Rightarrow> unit py \<times> component" where
  "surface_connect_urls v auth_mode webhook_enabled st =
     (case build_connect_urls v (c_entry st) webhook_enabled of
        Inl e \<Rightarrow> (Inl e, st)
      | Inr _ \<Rightarrow>
          (if \<not> opt_flag (e_options (c_entry st)) ''enable_persistent_notification''
           then (Inr (), st\<lparr>c_notification := None\<rparr>)
           else (Inr (), st\<lparr>c_notification := Some (notification_message (auth_note auth_mode webhook_enabled))\<rparr>)))"

section \<open>Bring-up\<close>

text \<open>What the surroundings decide during one bring-up.\<close>

record bring_env =
  b_dirs :: dirs_result
  b_polls :: "nat \<Rightarrow> poll"
  b_t0 :: rat
  b_failures :: failures
  b_urls :: url_env

definition data_str :: "config_entry \<Rightarrow> string \<Rightarrow> string py" where
  "data_str entry k = (case map_of (e_data entry) k of None \<Rightarrow> Inl KeyError | Some v \<Rightarrow> Inr (opt_str v))"

definition on_web :: "(web_state \<Rightarrow> 'a py \<times> web_state) \<Rightarrow> component \<Rightarrow> 'a py \<times> component" where
  "on_web m st = (case m (c_web st) of (r, w) \<Rightarrow> (r, st\<lparr>c_web := w\<rparr>))"

text \<open>After the server listens: the webhook, if enabled, and the connect URLs.\<close>

definition expose_server :: "bring_env \<Rightarrow> manager \<Rightarrow> component \<Rightarrow> unit py \<times> component" where
  "expose_server env m st =
     (let entry = c_entry st; auth_mode = entry_auth_mode entry;
          webhook_enabled = opt_flag (e_options entry) ''enable_webhook'' in
      case data_str entry ''secret_path'' of
        Inl e \<Rightarrow> (Inl e, st)
      | Inr secret_path \<Rightarrow>
          sbind (if webhook_enabled
                 then (case (data_str entry ''dcr_signing_key'', data_str entry ''webhook_id'') of
                         (Inr key, Inr webhook_id) \<Rightarrow>
                           on_web (register_webhook (b_failures env) webhook_id (m_port m) secret_path auth_mode key)
                       | _ \<Rightarrow> slift (Inl KeyError))
                 else sreturn ())
            (\<lambda>_. surface_connect_urls (b_urls env) auth_mode webhook_enabled) st)"

datatype bring_result = BringDone | BringCancelled | BringRaised exn

text \<open>The state once the manager has tried to start.\<close>

definition with_manager :: "config_entry \<Rightarrow> manager \<Rightarrow> nat list \<Rightarrow> component \<Rightarrow> component" where
  "with_manager entry m running st = st
     \<lparr>c_entry := entry, c_manager := Some m, c_threads := running @ c_threads st,
      c_next_thread := Suc (c_next_thread st)\<rparr>"

definition ensure_domain :: "component \<Rightarrow> component" where
  "ensure_domain st = st\<lparr>c_web := (c_web st)\<lparr>t_hass := (t_hass (c_web st))\<lparr>d_domain := True,
     d_webhook := webhook_cfg_of (t_hass (c_web st))\<rparr>\<rparr>\<rparr>"

definition bring_up_server :: "bring_env \<Rightarrow> component \<Rightarrow> (bring_result \<times> component) option" where
  "bring_up_server env st0 =
     (let st1 = clear_issues st0 in
      case manager_of (c_entry st1) of
        Inl e \<Rightarrow> Some (BringRaised e, st1)
      | Inr m \<Rightarrow>
          (case async_start (c_joins st1) (b_dirs env) (c_next_thread st1) (b_polls env) (b_t0 env)
                  (c_entry st1) m of
             None \<Rightarrow> None
           | Some (outcome, entry, m', running) \<Rightarrow>
               (let st2 = with_manager entry m' running (ensure_domain st1) in
                case outcome of
                  StartCancelled \<Rightarrow> Some (BringCancelled, teardown_server st2)
                | StartFailed kind \<Rightarrow> Some (BringDone, create_issue kind (teardown_server st2))
                | StartRaised \<Rightarrow> Some (BringDone, create_issue KStart (teardown_server st2))
                | Started \<Rightarrow>
                    (case expose_server env m' st2 of
                       (Inl _, st3) \<Rightarrow> Some (BringDone, create_issue KStart (teardown_server st3))
                     | (Inr _, st3) \<Rightarrow> Some (BringDone, st3)))))"

section \<open>The entry's life\<close>

definition setup_server_entry :: "failures \<Rightarrow> fresh_secrets \<Rightarrow> component \<Rightarrow> unit py \<times> component" where
  "setup_server_entry f fresh st =
     (let st1 = st\<lparr>c_entry := fst (ensure_secrets fresh (c_entry st))\<rparr> in
      sbind (on_web (on_hass (prebind_oauth_views f (c_entry st1))))
        (\<lambda>_ st2. (Inr (), (ensure_domain st2)\<lparr>c_last_options := Some (e_options (c_entry st2)),
                    c_pending := True, c_loaded := True\<rparr>)) st1)"

definition unload_server_entry :: "component \<Rightarrow> component" where
  "unload_server_entry st = (teardown_server (st\<lparr>c_pending := False\<rparr>))
     \<lparr>c_last_options := None, c_loaded := False\<rparr>"

text \<open>The update listener: does it reload the entry?\<close>

definition options_updated :: "component \<Rightarrow> bool" where
  "options_updated st \<longleftrightarrow> c_last_options st \<noteq> Some (e_options (c_entry st))"

text \<open>
  The steps the entry can take, in the orders the platform allows: a set-up entry may be brought up
  once; unloading cancels a bring-up that is still pending, at its first step or at any point where
  it awaits; options may be saved at any time; an unloaded entry may be set up again or removed.
\<close>

inductive life_step :: "component \<Rightarrow> component \<Rightarrow> bool" where
  set_up: "\<not> c_loaded st \<Longrightarrow> setup_server_entry f fresh st = (r, st') \<Longrightarrow> life_step st st'"
| bring: "c_loaded st \<Longrightarrow> c_pending st \<Longrightarrow> bring_up_server env st = Some (r, st') \<Longrightarrow> r \<noteq> BringCancelled \<Longrightarrow>
    life_step st (st'\<lparr>c_pending := False\<rparr>)"
| unload_entry: "c_loaded st \<Longrightarrow> life_step st (unload_server_entry st)"
| unload_cancel: "c_loaded st \<Longrightarrow> c_pending st \<Longrightarrow> bring_up_server env st = Some (BringCancelled, st') \<Longrightarrow>
    life_step st (unload_server_entry st')"
| save_options: "life_step st (st\<lparr>c_entry := (c_entry st)\<lparr>e_options := normalize_options input\<rparr>\<rparr>)"
| remove_entry: "\<not> c_loaded st \<Longrightarrow> life_step st (remove_server st)"

definition initial_component :: "config_entry \<Rightarrow> component" where
  "initial_component entry =
     \<lparr>c_entry = entry,
      c_web = \<lparr>t_hass = \<lparr>d_domain = False, d_webhook = None, d_dcr_bound = False,
                 d_autoapprove_bound = False, d_metadata_bound = False\<rparr>,
               t_registered = [], t_open = [], t_next = 0\<rparr>,
      c_manager = None, c_threads = [], c_joins = (\<lambda>_. True), c_next_thread = 0, c_notification = None, c_issues = [],
      c_loaded = False, c_pending = False, c_last_options = None\<rparr>"

inductive reachable :: "config_entry \<Rightarrow> component \<Rightarrow> bool" for entry where
  start: "reachable entry ((initial_component entry)\<lparr>c_joins := joins\<rparr>)"
| step: "reachable entry st \<Longrightarrow> life_step st st' \<Longrightarrow> reachable entry st'"

section \<open>Lemmas: what is live\<close>

definition cfg_sessions :: "webhook_cfg \<Rightarrow> nat list" where
  "cfg_sessions cfg = (case w_cimd_session cfg of Some c \<Rightarrow> [c] | None \<Rightarrow> [])
     @ (case w_session cfg of Some s \<Rightarrow> [s] | None \<Rightarrow> [])"

text \<open>Exactly what the stored configuration accounts for is open and registered.\<close>

definition web_live :: "web_state \<Rightarrow> bool" where
  "web_live w \<longleftrightarrow> web_ok w \<and>
     (case webhook_cfg_of (t_hass w) of
        None \<Rightarrow> t_open w = [] \<and> t_registered w = []
      | Some cfg \<Rightarrow> t_open w = cfg_sessions cfg \<and> t_registered w = [w_webhook_id cfg] \<and> w_webhook_id cfg \<noteq> [])"

definition web_quiet :: "web_state \<Rightarrow> bool" where
  "web_quiet w \<longleftrightarrow> web_ok w \<and> webhook_cfg_of (t_hass w) = None \<and> t_open w = [] \<and> t_registered w = []"

definition manager_threads :: "manager option \<Rightarrow> nat list" where
  "manager_threads m = (case m of None \<Rightarrow> [] | Some m \<Rightarrow> (case m_thread m of None \<Rightarrow> [] | Some n \<Rightarrow> [n]))"

text \<open>
  Which threads are accounted for: the manager's own, and before it those whose join timed out,
  which the code no longer knows. Numbers of threads are not used twice.
\<close>

definition threads_ok :: "component \<Rightarrow> bool" where
  "threads_ok st \<longleftrightarrow> (\<exists>left. c_threads st = manager_threads (c_manager st) @ left \<and> (\<forall>n \<in> set left. \<not> c_joins st n))
     \<and> distinct (c_threads st) \<and> (\<forall>n \<in> set (c_threads st). n < c_next_thread st)"

lemma threads_ok_frame [simp]:
  "threads_ok (st\<lparr>c_entry := e\<rparr>) = threads_ok st" "threads_ok (st\<lparr>c_web := w\<rparr>) = threads_ok st"
  "threads_ok (st\<lparr>c_notification := no\<rparr>) = threads_ok st" "threads_ok (st\<lparr>c_issues := is\<rparr>) = threads_ok st"
  "threads_ok (st\<lparr>c_loaded := b\<rparr>) = threads_ok st" "threads_ok (st\<lparr>c_pending := b\<rparr>) = threads_ok st"
  "threads_ok (st\<lparr>c_last_options := os\<rparr>) = threads_ok st"
  by (simp_all add: threads_ok_def)

definition quiet :: "component \<Rightarrow> bool" where
  "quiet st \<longleftrightarrow> web_quiet (c_web st) \<and> c_manager st = None \<and> threads_ok st \<and> c_notification st = None"

definition live :: "component \<Rightarrow> bool" where
  "live st \<longleftrightarrow> web_live (c_web st) \<and> threads_ok st
     \<and> (webhook_cfg_of (t_hass (c_web st)) = None \<or> manager_threads (c_manager st) \<noteq> [])"

definition has_secrets :: "config_entry \<Rightarrow> bool" where
  "has_secrets entry \<longleftrightarrow> opt_truthy (opt_get (e_data entry) ''webhook_id'')"

definition life_ok :: "component \<Rightarrow> bool" where
  "life_ok st \<longleftrightarrow> (if c_loaded st \<and> \<not> c_pending st then live st else quiet st)
     \<and> (\<not> c_loaded st \<or> has_secrets (c_entry st)) \<and> (\<not> c_pending st \<or> c_loaded st)"

lemma web_quiet_live: "web_quiet w \<Longrightarrow> web_live w"
  by (simp add: web_quiet_def web_live_def)

lemma quiet_live: "quiet st \<Longrightarrow> live st"
  by (simp add: quiet_def live_def web_quiet_live web_quiet_def)

lemma web_live_unregister: "web_live w \<Longrightarrow> web_quiet (unregister_webhook w)"
  by (auto simp: web_live_def web_quiet_def unregister_webhook_def active_webhook_cfg_eq Let_def
      cfg_sessions_def close_session_def unregister_id_def web_ok_def webhook_cfg_of_def
      split: option.splits if_splits)

lemma end_thread_other [simp]: "n \<notin> set threads \<Longrightarrow> end_thread (Some n) threads = threads"
  by (auto simp: end_thread_def filter_id_conv)

lemma end_thread_simps [simp]:
  "end_thread None threads = threads" "end_thread (Some n) (n # threads) = end_thread (Some n) threads"
  by (simp_all add: end_thread_def)

lemma live_teardown: "live st \<Longrightarrow> quiet (teardown_server st)"
  by (auto simp: live_def quiet_def threads_ok_def teardown_server_def async_stop_def manager_threads_def
      web_live_unregister split: option.splits)

lemma teardown_simps [simp]:
  "c_entry (teardown_server st) = c_entry st" "c_issues (teardown_server st) = c_issues st"
  "c_loaded (teardown_server st) = c_loaded st" "c_pending (teardown_server st) = c_pending st"
  by (simp_all add: teardown_server_def)

lemma issue_simps [simp]:
  "quiet (create_issue k st) = quiet st" "live (create_issue k st) = live st"
  "quiet (clear_issues st) = quiet st" "c_entry (create_issue k st) = c_entry st"
  "c_entry (clear_issues st) = c_entry st" "c_loaded (create_issue k st) = c_loaded st"
  "c_pending (create_issue k st) = c_pending st" "c_loaded (clear_issues st) = c_loaded st"
  "c_pending (clear_issues st) = c_pending st"
  by (simp_all add: quiet_def live_def create_issue_def clear_issues_def)

lemma quiet_ensure_domain: "quiet st \<Longrightarrow> quiet (ensure_domain st)"
  by (simp add: quiet_def ensure_domain_def web_quiet_def webhook_cfg_of_def web_ok_def)

text \<open>What a start leaves: the manager's own thread, or one it gave up on.\<close>

definition left_by_start :: "(nat \<Rightarrow> bool) \<Rightarrow> nat \<Rightarrow> manager \<Rightarrow> nat list \<Rightarrow> bool" where
  "left_by_start joins thread m running \<longleftrightarrow>
     m_thread m = Some thread \<and> running = [thread]
     \<or> m_thread m = None \<and> (running = [] \<or> running = [thread] \<and> \<not> joins thread)"

lemma quiet_with_manager:
  assumes "quiet st" "left_by_start (c_joins st) (c_next_thread st) m running"
  shows "live (with_manager entry m running st)"
  using assms by (auto simp: quiet_def live_def threads_ok_def left_by_start_def with_manager_def
      web_quiet_live web_quiet_def manager_threads_def less_Suc_eq split: option.splits)

lemma opt_str_nonempty: "opt_truthy v \<Longrightarrow> opt_str v \<noteq> []"
  by (cases v) (auto simp: show_int_def)

lemma register_quiet_ok:
  assumes "web_quiet w" "register_webhook f wid port path mode key w = (Inr u, w')" "wid \<noteq> []"
  shows "web_live w' \<and> (\<exists>cfg. webhook_cfg_of (t_hass w') = Some cfg \<and> w_webhook_id cfg = wid)"
proof -
  from assms(2) obtain cfg' h' where
    b: "mode \<in> {''none'', ''ha_auth''}"
      "bind_surface f (registration_cfg wid port path mode w) key (t_hass w) = (Inr cfg', h')"
    and s: "w' = w\<lparr>t_registered := wid # filter (\<lambda>v. v \<noteq> wid) (t_registered w),
              t_open := opened mode w @ t_open w, t_next := t_next w + length (opened mode w),
              t_hass := h'\<lparr>d_domain := True, d_webhook := Some cfg'\<rparr>\<rparr>"
    by (rule register_webhook_ok) auto
  have "same_target (registration_cfg wid port path mode w) cfg'"
    by (rule bind_surface_target [OF b(2)]) (simp_all add: registration_cfg_def)
  then have "w_webhook_id cfg' = wid" "w_session cfg' = Some (t_next w)"
    "w_cimd_session cfg' = (if mode = ''ha_auth'' then Some (Suc (t_next w)) else None)"
    by (simp_all add: same_target_def registration_cfg_def)
  with assms(1,3) show ?thesis
    by (auto simp: s web_live_def web_quiet_def webhook_cfg_of_def cfg_sessions_def opened_def web_ok_def)
qed

lemma register_quiet_err:
  assumes "web_quiet w" "register_webhook f wid port path mode key w = (Inl e, w')"
  shows "web_quiet w'"
proof (cases "mode \<in> {''none'', ''ha_auth''}")
  case True
  with register_webhook_err [OF _ this assms(2)] assms(1) show ?thesis
    by (auto simp: web_quiet_def same_entry_def webhook_cfg_of_def web_ok_def)
next
  case False
  with assms show ?thesis by (auto simp: register_webhook_def)
qed

section \<open>Lemmas: bring-up\<close>

text \<open>Everything but the web state and the notification is the same.\<close>

definition same_core :: "component \<Rightarrow> component \<Rightarrow> bool" where
  "same_core st st' \<longleftrightarrow> c_entry st' = c_entry st \<and> c_manager st' = c_manager st \<and> c_threads st' = c_threads st
     \<and> c_joins st' = c_joins st \<and> c_next_thread st' = c_next_thread st
     \<and> c_issues st' = c_issues st \<and> c_loaded st' = c_loaded st \<and> c_pending st' = c_pending st"

lemma surface_frame:
  "surface_connect_urls v a w st = (r, st') \<Longrightarrow> same_core st st' \<and> c_web st' = c_web st"
  by (auto simp: surface_connect_urls_def same_core_def split: sum.splits if_splits)

text \<open>The web half of \<open>expose_server\<close>.\<close>

definition expose_webhook :: "bring_env \<Rightarrow> manager \<Rightarrow> component \<Rightarrow> unit py \<times> component" where
  "expose_webhook env m st =
     (if opt_flag (e_options (c_entry st)) ''enable_webhook''
      then (case (data_str (c_entry st) ''secret_path'', data_str (c_entry st) ''dcr_signing_key'',
                  data_str (c_entry st) ''webhook_id'') of
              (Inr path, Inr key, Inr wid) \<Rightarrow>
                on_web (register_webhook (b_failures env) wid (m_port m) path (entry_auth_mode (c_entry st)) key) st
            | _ \<Rightarrow> (Inl KeyError, st))
      else (Inr (), st))"

lemma data_str_secrets: "has_secrets entry \<Longrightarrow> data_str entry ''webhook_id'' = Inr wid \<Longrightarrow> wid \<noteq> []"
  by (auto simp: has_secrets_def data_str_def opt_get_def dict_get_def opt_str_nonempty split: option.splits)

lemma expose_webhook_web:
  assumes q: "web_quiet (c_web st)" and h: "has_secrets (c_entry st)"
    and e: "expose_webhook env m st = (r, st')"
  shows "same_core st st' \<and> web_live (c_web st') \<and> ((\<exists>e. r = Inl e) \<longrightarrow> web_quiet (c_web st'))
    \<and> (r = Inr () \<longrightarrow> (webhook_cfg_of (t_hass (c_web st')) \<noteq> None)
          = opt_flag (e_options (c_entry st)) ''enable_webhook'')"
proof (cases "opt_flag (e_options (c_entry st)) ''enable_webhook''")
  case False
  with e q show ?thesis by (auto simp: expose_webhook_def same_core_def web_quiet_live web_quiet_def)
next
  case True
  consider (lookup) "r = Inl KeyError" "st' = st"
    | (registered) path key wid where "data_str (c_entry st) ''webhook_id'' = Inr wid"
        "on_web (register_webhook (b_failures env) wid (m_port m) path (entry_auth_mode (c_entry st)) key) st = (r, st')"
    using e True by (auto simp: expose_webhook_def split: sum.splits)
  then show ?thesis
  proof cases
    case lookup
    with q show ?thesis by (auto simp: same_core_def web_quiet_live)
  next
    case registered
    note wid = data_str_secrets [OF h registered(1)]
    obtain w' where w: "register_webhook (b_failures env) wid (m_port m) path (entry_auth_mode (c_entry st)) key
        (c_web st) = (r, w')" "st' = st\<lparr>c_web := w'\<rparr>"
      using registered(2) by (auto simp: on_web_def split: prod.splits)
    show ?thesis
    proof (cases r)
      case (Inl x)
      with register_quiet_err [OF q w(1) [unfolded Inl]] w(2) show ?thesis
        by (simp add: same_core_def web_quiet_live)
    next
      case (Inr u)
      with register_quiet_ok [OF q w(1) [unfolded Inr] wid] w(2) True show ?thesis
        by (auto simp: same_core_def)
    qed
  qed
qed

lemma same_core_threads: "same_core st st' \<Longrightarrow> threads_ok st' = threads_ok st"
  by (simp add: same_core_def threads_ok_def)

lemma expose_server_split:
  "expose_server env m st =
     (case data_str (c_entry st) ''secret_path'' of
        Inl e \<Rightarrow> (Inl e, st)
      | Inr _ \<Rightarrow> sbind (expose_webhook env m)
          (\<lambda>_. surface_connect_urls (b_urls env) (entry_auth_mode (c_entry st))
                 (opt_flag (e_options (c_entry st)) ''enable_webhook'')) st)"
  by (auto simp: expose_server_def expose_webhook_def Let_def sbind_def sreturn_def slift_def
      split: sum.splits)

lemma expose_server_live:
  assumes q: "web_quiet (c_web st)" and h: "has_secrets (c_entry st)"
    and t: "threads_ok st" "manager_threads (c_manager st) \<noteq> []"
    and e: "expose_server env m st = (r, st')"
  shows "live st' \<and> same_core st st' \<and> (r = Inr () \<longrightarrow> (webhook_cfg_of (t_hass (c_web st')) \<noteq> None)
          = opt_flag (e_options (c_entry st)) ''enable_webhook'')"
proof (cases "data_str (c_entry st) ''secret_path''")
  case (Inl x)
  with e q t show ?thesis by (auto simp: expose_server_split live_def same_core_def web_quiet_live)
next
  case (Inr p)
  obtain r1 st1 where w: "expose_webhook env m st = (r1, st1)" by fastforce
  note x = expose_webhook_web [OF q h w]
  show ?thesis
  proof (cases r1)
    case (Inl z)
    with w Inr e have "st' = st1" "r = Inl z" by (auto simp: expose_server_split)
    with x t same_core_threads [of st st1] show ?thesis by (auto simp: live_def same_core_def)
  next
    case (Inr u)
    with w \<open>data_str _ _ = Inr p\<close> e have "surface_connect_urls (b_urls env) (entry_auth_mode (c_entry st))
        (opt_flag (e_options (c_entry st)) ''enable_webhook'') st1 = (r, st')"
      by (auto simp: expose_server_split)
    from surface_frame [OF this] x t Inr same_core_threads [of st st1] same_core_threads [of st1 st']
    show ?thesis by (auto simp: live_def same_core_def)
  qed
qed

lemma drop_legacy_get:
  assumes "k \<notin> set legacy_runtime_keys"
  shows "opt_get (e_data (drop_legacy_runtime_data entry)) k = opt_get (e_data entry) k"
proof -
  have "map_of (filter (\<lambda>(k, _). k \<notin> set legacy_runtime_keys) d) k = map_of d k" for d :: opts
    using assms by (induction d) auto
  then show ?thesis by (simp add: drop_legacy_runtime_data_def opt_get_def dict_get_def)
qed

lemma drop_legacy_secrets: "has_secrets (drop_legacy_runtime_data entry) = has_secrets entry"
  by (simp add: has_secrets_def drop_legacy_get legacy_runtime_keys_def)

lemma async_start_facts:
  assumes "async_start joins dirs thread polls t0 entry m = Some (outcome, entry', m', running)" "m_thread m = None"
  shows "(entry' = entry \<or> entry' = drop_legacy_runtime_data entry)
    \<and> left_by_start joins thread m' running \<and> (outcome = Started \<longrightarrow> m_thread m' = Some thread)"
  using assms by (auto simp: async_start_def left_by_start_def async_stop_def Let_def split: if_splits dirs_result.splits option.splits
      wait_result.splits prod.splits)

lemma manager_of_thread: "manager_of entry = Inr m \<Longrightarrow> m_thread m = None"
  by (auto simp: manager_of_def py_iffs)

text \<open>What a bring-up of a quiet component ends in.\<close>

lemma bring_up_cases:
  assumes q: "quiet st" and h: "has_secrets (c_entry st)"
    and b: "bring_up_server env st = Some (r, st')"
  shows "has_secrets (c_entry st') \<and> c_loaded st' = c_loaded st \<and> c_pending st' = c_pending st \<and>
    (case r of
       BringRaised e \<Rightarrow> manager_of (c_entry st) = Inl e \<and> quiet st' \<and> set (c_issues st') \<inter> set issue_ids = {}
     | BringCancelled \<Rightarrow> quiet st' \<and> set (c_issues st') \<inter> set issue_ids = {}
     | BringDone \<Rightarrow>
         (quiet st' \<and> (\<exists>k. set (c_issues st') \<inter> set issue_ids = {issue_by_kind k}))
         \<or> (live st' \<and> manager_threads (c_manager st') \<noteq> [] \<and> set (c_issues st') \<inter> set issue_ids = {}
            \<and> (webhook_cfg_of (t_hass (c_web st')) \<noteq> None)
                = opt_flag (e_options (c_entry st')) ''enable_webhook''))"
proof -
  define st1 where "st1 = clear_issues st"
  have q1: "quiet st1" "has_secrets (c_entry st1)" "c_loaded st1 = c_loaded st" "c_pending st1 = c_pending st"
    using q h by (simp_all add: st1_def)
  have i1: "set (c_issues st1) \<inter> set issue_ids = {}" by (auto simp: st1_def clear_issues_def)
  have issue: "set (c_issues (create_issue k s)) \<inter> set issue_ids = {issue_by_kind k}"
    if "c_issues s = c_issues st1" for k s
    using i1 that by (cases k) (auto simp: create_issue_def issue_ids_def)
  have stopped: ?thesis if r: "r = BringDone" and s: "st' = create_issue k (teardown_server s)"
    and l: "live s" and e: "c_issues s = c_issues st1" "has_secrets (c_entry s)"
      "c_loaded s = c_loaded st" "c_pending s = c_pending st" for k s
  proof -
    have "quiet st'" using l by (simp add: s live_teardown)
    moreover have "set (c_issues st') \<inter> set issue_ids = {issue_by_kind k}"
      unfolding s using e(1) by (intro issue) simp
    moreover have "has_secrets (c_entry st') \<and> c_loaded st' = c_loaded st \<and> c_pending st' = c_pending st"
      using e by (simp add: s)
    ultimately show ?thesis unfolding r by (simp only: bring_result.case) blast
  qed
  show ?thesis
  proof (cases "manager_of (c_entry st1)")
    case (Inl e)
    moreover have "c_entry st1 = c_entry st" by (simp add: st1_def)
    ultimately show ?thesis using b q1 i1 by (auto simp: bring_up_server_def Let_def st1_def [symmetric])
  next
    case (Inr m)
    then obtain outcome entry m' running where
      s: "async_start (c_joins st1) (b_dirs env) (c_next_thread st1) (b_polls env) (b_t0 env) (c_entry st1) m
            = Some (outcome, entry, m', running)"
      using b by (auto simp: bring_up_server_def Let_def st1_def [symmetric] split: option.splits)
    define st2 where "st2 = with_manager entry m' running (ensure_domain st1)"
    have "c_joins (ensure_domain st1) = c_joins st1" "c_next_thread (ensure_domain st1) = c_next_thread st1"
      by (simp_all add: ensure_domain_def)
    with async_start_facts [OF s manager_of_thread [OF Inr]] have l2: "live st2"
      unfolding st2_def by (intro quiet_with_manager quiet_ensure_domain q1) simp
    have w2: "web_quiet (c_web st2)"
      using quiet_ensure_domain [OF q1(1)] by (simp add: st2_def with_manager_def quiet_def)
    have e2: "has_secrets (c_entry st2)" "c_issues st2 = c_issues st1" "c_loaded st2 = c_loaded st"
      "c_pending st2 = c_pending st"
      using async_start_facts [OF s manager_of_thread [OF Inr]] q1
      by (auto simp: st2_def with_manager_def drop_legacy_secrets ensure_domain_def)
    have down: "quiet (teardown_server st2)" using l2 by (rule live_teardown)
    show ?thesis
    proof (cases outcome)
      case StartCancelled
      with b Inr s e2 down i1 show ?thesis
        by (auto simp: bring_up_server_def Let_def st1_def [symmetric] st2_def [symmetric])
    next
      case (StartFailed k)
      with b Inr s have "r = BringDone" "st' = create_issue k (teardown_server st2)"
        by (auto simp: bring_up_server_def Let_def st1_def [symmetric] st2_def [symmetric])
      with e2 l2 show ?thesis by (intro stopped)
    next
      case StartRaised
      with b Inr s have "r = BringDone" "st' = create_issue KStart (teardown_server st2)"
        by (auto simp: bring_up_server_def Let_def st1_def [symmetric] st2_def [symmetric])
      with e2 l2 show ?thesis by (intro stopped)
    next
      case Started
      have t2: "threads_ok st2" using l2 by (simp add: live_def)
      have n2: "manager_threads (c_manager st2) \<noteq> []"
        using async_start_facts [OF s manager_of_thread [OF Inr]] Started
        by (auto simp: st2_def with_manager_def manager_threads_def)
      obtain x st3 where e: "expose_server env m' st2 = (x, st3)" by fastforce
      note el = expose_server_live [OF w2 e2(1) t2 n2 e]
      have st': "r = BringDone \<and> st' = (case x of Inl _ \<Rightarrow> create_issue KStart (teardown_server st3) | Inr _ \<Rightarrow> st3)"
        using b Inr s e Started
        by (auto simp: bring_up_server_def Let_def st1_def [symmetric] st2_def [symmetric] split: sum.splits)
      show ?thesis
      proof (cases x)
        case (Inl z)
        with st' have s': "r = BringDone" "st' = create_issue KStart (teardown_server st3)" by auto
        with el e2 show ?thesis by (intro stopped [of KStart st3]) (simp_all add: same_core_def)
      next
        case (Inr u)
        with st' have s': "r = BringDone" "st' = st3" by auto
        from el Inr e2 i1 n2 have
          "has_secrets (c_entry st') \<and> c_loaded st' = c_loaded st \<and> c_pending st' = c_pending st"
          "live st' \<and> manager_threads (c_manager st') \<noteq> [] \<and> set (c_issues st') \<inter> set issue_ids = {}
            \<and> (webhook_cfg_of (t_hass (c_web st')) \<noteq> None)
                = opt_flag (e_options (c_entry st')) ''enable_webhook''"
          by (simp_all add: s' same_core_def)
        then show ?thesis unfolding s'(1) by (simp only: bring_result.case) blast
      qed
    qed
  qed
qed

section \<open>Lemmas: the life of the entry\<close>

lemma prebind_frame: "prebind_oauth_views f entry h = (r, h') \<Longrightarrow> same_entry h h'"
  by (auto simp: prebind_oauth_views_def same_entry_def split: if_splits prod.splits sum.splits
      dest: bind_views_frame)

lemma ensure_has_secrets: "has_secrets (fst (ensure_secrets fresh entry))"
proof (cases "opt_truthy (opt_get (e_options entry) ''regenerate_secrets'')")
  case True
  then show ?thesis by (simp add: ensure_secrets_def regenerate_secrets_def has_secrets_def)
next
  case False
  have "opt_truthy (opt_get (fst (fill_missing fresh dc)) ''webhook_id'')" for dc
    by (cases dc) (simp add: fill_missing_def set_when_def Let_def)
  with ensure_secrets_data [OF False, of fresh] show ?thesis by (simp add: has_secrets_def)
qed

lemma web_quiet_hass:
  "web_quiet w \<Longrightarrow> same_entry (t_hass w) h \<Longrightarrow> web_quiet (w\<lparr>t_hass := h\<rparr>)"
  by (auto simp: web_quiet_def web_ok_def same_entry_def webhook_cfg_of_def split: if_splits)

lemma setup_server_entry_ok:
  assumes q: "quiet st" "\<not> c_loaded st" "\<not> c_pending st" and s: "setup_server_entry f fresh st = (r, st')"
  shows "quiet st' \<and> has_secrets (c_entry st') \<and> (c_loaded st' \<longleftrightarrow> r = Inr ()) \<and> (c_pending st' \<longleftrightarrow> r = Inr ())"
proof -
  define entry where "entry = fst (ensure_secrets fresh (c_entry st))"
  obtain x h where p: "prebind_oauth_views f entry (t_hass (c_web st)) = (x, h)" by fastforce
  define st1 where "st1 = st\<lparr>c_entry := entry, c_web := (c_web st)\<lparr>t_hass := h\<rparr>\<rparr>"
  have q1: "quiet st1" using q(1) web_quiet_hass [OF _ prebind_frame [OF p]] by (simp add: st1_def quiet_def)
  have h1: "has_secrets (c_entry st1)" by (simp add: st1_def entry_def ensure_has_secrets)
  have "(r, st') = (case x of Inl e \<Rightarrow> (Inl e, st1)
      | Inr _ \<Rightarrow> (Inr (), (ensure_domain st1)\<lparr>c_last_options := Some (e_options (c_entry st1)),
                    c_pending := True, c_loaded := True\<rparr>))"
    using s p by (auto simp: setup_server_entry_def Let_def sbind_def on_web_def on_hass_def
        entry_def [symmetric] st1_def split: sum.splits)
  with q1 h1 q(2,3) quiet_ensure_domain [OF q1] show ?thesis
    by (cases x) (auto simp: st1_def quiet_def ensure_domain_def)
qed

lemma unload_ok: "live st \<or> quiet st \<Longrightarrow> life_ok (unload_server_entry st)"
proof -
  assume "live st \<or> quiet st"
  then have "live (st\<lparr>c_pending := False\<rparr>)" using quiet_live [of st] by (auto simp: live_def)
  from live_teardown [OF this] show ?thesis
    by (simp add: life_ok_def unload_server_entry_def quiet_def)
qed

lemma life_step_ok: "life_step st st' \<Longrightarrow> life_ok st \<Longrightarrow> life_ok st'"
proof (induction rule: life_step.induct)
  case (set_up st f fresh r st')
  then have "quiet st" "\<not> c_pending st" by (auto simp: life_ok_def)
  from setup_server_entry_ok [OF this(1) set_up(1) this(2) set_up(2)] show ?case
    by (auto simp: life_ok_def)
next
  case (bring st env r st')
  then have "quiet st" "has_secrets (c_entry st)" by (auto simp: life_ok_def)
  from bring_up_cases [OF this bring(3)] bring(1,2,4) have
    "has_secrets (c_entry st')" "c_loaded st'" "quiet st' \<or> live st'"
    by (auto split: bring_result.splits)
  then show ?case using quiet_live [of st'] by (auto simp: life_ok_def live_def)
next
  case (unload_entry st)
  then show ?case by (intro unload_ok) (auto simp: life_ok_def split: if_splits)
next
  case (unload_cancel st env st')
  then have "quiet st" "has_secrets (c_entry st)" by (auto simp: life_ok_def)
  from bring_up_cases [OF this unload_cancel(3)] show ?case by (intro unload_ok) auto
next
  case (save_options st input)
  then show ?case by (auto simp: life_ok_def quiet_def live_def has_secrets_def)
next
  case (remove_entry st)
  then show ?case
    by (auto simp: life_ok_def remove_server_def quiet_def clear_issues_def)
qed

lemma reachable_life_ok: "reachable entry st \<Longrightarrow> life_ok st"
proof (induction rule: reachable.induct)
  case (start joins)
  show ?case by (simp add: life_ok_def initial_component_def quiet_def threads_ok_def manager_threads_def web_quiet_def web_ok_def webhook_cfg_of_def)
next
  case (step st st')
  then show ?case by (blast intro: life_step_ok)
qed

text \<open>C2: Over every sequence of setups, bring-ups with any outcome, cancellations, option changes,
  unloads and removals, nothing leaks but a thread that does not stop in time: the open client
  sessions and registered handlers are exactly those of the stored webhook configuration; the
  server threads not seen to end are the manager's own and, besides, only threads whose join timed
  out (none when every join finds its thread ended); a webhook is configured only while the manager
  has a thread; and an entry that is unloaded or not yet brought up has no webhook, session,
  manager or notification, so no thread but such a left one.\<close>

theorem lifecycle_no_leak:
  assumes "reachable entry st"
  shows "t_open (c_web st) =
      (case webhook_cfg_of (t_hass (c_web st)) of None \<Rightarrow> [] | Some cfg \<Rightarrow> cfg_sessions cfg)
    \<and> t_registered (c_web st) =
      (case webhook_cfg_of (t_hass (c_web st)) of None \<Rightarrow> [] | Some cfg \<Rightarrow> [w_webhook_id cfg])
    \<and> (\<exists>left. c_threads st = manager_threads (c_manager st) @ left \<and> (\<forall>n \<in> set left. \<not> c_joins st n))
    \<and> (webhook_cfg_of (t_hass (c_web st)) = None \<or> manager_threads (c_manager st) \<noteq> [])
    \<and> ((c_loaded st \<and> \<not> c_pending st) \<or>
         webhook_cfg_of (t_hass (c_web st)) = None \<and> c_manager st = None \<and> c_notification st = None)"
proof -
  from reachable_life_ok [OF assms] have "live st" "(c_loaded st \<and> \<not> c_pending st) \<or> quiet st"
    using quiet_live by (auto simp: life_ok_def split: if_splits)
  then show ?thesis
    by (auto simp: live_def threads_ok_def web_live_def quiet_def web_quiet_def split: option.splits)
qed

lemma bring_up_returns:
  assumes "clock_ok (b_polls env)" "b_t0 env \<le> p_time (b_polls env 0)"
  shows "\<exists>r st'. bring_up_server env st = Some (r, st')"
proof -
  obtain n w where w: "wait_until_ready (b_polls env) (b_t0 env + ready_timeout) 0 = Some (w, n)"
    using wait_returns [OF assms] by blast
  have "\<exists>o' e m' running. async_start joins (b_dirs env) t (b_polls env) (b_t0 env) entry m = Some (o', e, m', running)"
    for joins t entry m
    by (cases "b_dirs env"; cases w) (auto simp: async_start_def Let_def w split: prod.splits)
  then show ?thesis
    unfolding bring_up_server_def Let_def
    by (auto split: sum.splits option.splits start_result.splits prod.splits) (metis option.distinct(1))
qed

text \<open>C4: A bring-up of an entry that was set up always ends, and in one of four ways: the manager has
  its thread and the webhook is configured exactly when enabled, with no repair issue; or
  everything is down again and exactly one repair issue names the kind of failure; or it was
  cancelled and everything is down with no issue; or, before anything was started, the port of the
  options is no integer, and the exception is raised with everything down and no issue. Down means
  no webhook, session, manager or notification, and no thread but those whose join timed out.\<close>

theorem bring_up_outcome:
  assumes "quiet st" and "has_secrets (c_entry st)"
    and "clock_ok (b_polls env)" and "b_t0 env \<le> p_time (b_polls env 0)"
  shows "\<exists>r st'. bring_up_server env st = Some (r, st') \<and>
    (case r of
       BringDone \<Rightarrow>
         (quiet st' \<and> (\<exists>k. set (c_issues st') \<inter> set issue_ids = {issue_by_kind k}))
         \<or> (live st' \<and> manager_threads (c_manager st') \<noteq> [] \<and> set (c_issues st') \<inter> set issue_ids = {}
            \<and> (webhook_cfg_of (t_hass (c_web st')) \<noteq> None)
                = opt_flag (e_options (c_entry st')) ''enable_webhook'')
     | BringCancelled \<Rightarrow> quiet st' \<and> set (c_issues st') \<inter> set issue_ids = {}
     | BringRaised e \<Rightarrow> manager_of (c_entry st) = Inl e \<and> quiet st' \<and> set (c_issues st') \<inter> set issue_ids = {})"
proof -
  obtain r st' where b: "bring_up_server env st = Some (r, st')" using bring_up_returns [OF assms(3,4)] by blast
  from bring_up_cases [OF assms(1,2) b] b show ?thesis by (cases r) auto
qed

definition sample_entry :: config_entry where
  "sample_entry = \<lparr>e_data = [], e_options = [(''webhook_auth'', OStr ''ha_auth'')]\<rparr>"

definition ready_env :: bring_env where
  "ready_env = \<lparr>b_dirs = DirsMade,
     b_polls = (\<lambda>n. \<lparr>p_time = of_nat n, p_cancel = False, p_exc = None, p_alive = Some True, p_probe = True\<rparr>),
     b_t0 = 0, b_failures = no_failures, b_urls = \<lparr>v_cloud = NoCloud, v_local = None\<rparr>\<rparr>"

definition set_up_component :: component where
  "set_up_component = snd (setup_server_entry no_failures sample_secrets (initial_component sample_entry))"

lemma set_up_component_ok: "quiet set_up_component" "has_secrets (c_entry set_up_component)"
  "reachable sample_entry set_up_component"
proof -
  obtain r where r: "setup_server_entry no_failures sample_secrets (initial_component sample_entry) = (r, set_up_component)"
    by (metis prod.collapse set_up_component_def)
  have "quiet (initial_component sample_entry)" "\<not> c_loaded (initial_component sample_entry)"
    "\<not> c_pending (initial_component sample_entry)"
    using reachable_life_ok [OF reachable.start [of sample_entry "\<lambda>_. True"]] by (simp_all add: life_ok_def initial_component_def)
  from setup_server_entry_ok [OF this r] show "quiet set_up_component" "has_secrets (c_entry set_up_component)" by auto
  have "(initial_component sample_entry)\<lparr>c_joins := \<lambda>_. True\<rparr> = initial_component sample_entry"
    by (simp add: initial_component_def)
  with reachable.start [of sample_entry "\<lambda>_. True"] have "reachable sample_entry (initial_component sample_entry)" by simp
  from reachable.step [OF this set_up [OF \<open>\<not> c_loaded _\<close> r]] show "reachable sample_entry set_up_component" .
qed

theorem lifecycle_no_leak_witness:
  "t_open (c_web set_up_component) = []
     \<and> (\<exists>left. c_threads set_up_component = left \<and> (\<forall>n \<in> set left. \<not> c_joins set_up_component n))"
  using lifecycle_no_leak [OF set_up_component_ok(3)] set_up_component_ok(1)
  by (auto simp: quiet_def web_quiet_def manager_threads_def)

theorem bring_up_outcome_witness:
  "\<exists>r st'. bring_up_server ready_env set_up_component = Some (r, st')"
proof -
  have "clock_ok (b_polls ready_env)" "b_t0 ready_env \<le> p_time (b_polls ready_env 0)"
    by (simp_all add: clock_ok_def ready_env_def ready_poll_interval_def)
  from bring_up_outcome [OF set_up_component_ok(1,2) this] show ?thesis by blast
qed

section \<open>Lemmas: what is shown\<close>

text \<open>The notification gives no secret away: it depends on the authentication mode and the
  options alone, so two entries that differ in webhook id, secret path or key get the same one.\<close>

theorem notification_hides_secrets:
  assumes "surface_connect_urls v a w st = (Inr u, st')"
    and "surface_connect_urls v a w (st\<lparr>c_entry := (c_entry st)\<lparr>e_data := other\<rparr>\<rparr>) = (Inr u', st'')"
  shows "c_notification st' = c_notification st''
    \<and> c_notification st' =
        (if opt_flag (e_options (c_entry st)) ''enable_persistent_notification''
         then Some (notification_message (auth_note a w)) else None)"
  using assms by (auto simp: surface_connect_urls_def split: sum.splits if_splits)

theorem notification_hides_secrets_witness:
  "c_notification (snd (surface_connect_urls (b_urls ready_env) ''none'' True
      (initial_component \<lparr>e_data = [(''webhook_id'', OStr ''secret'')], e_options = []\<rparr>)))
   = Some (notification_message (auth_note ''none'' True))"
proof -
  let ?st = "initial_component \<lparr>e_data = [(''webhook_id'', OStr ''secret'')], e_options = []\<rparr>"
  have s: "\<exists>st'. surface_connect_urls (b_urls ready_env) ''none'' True (?st\<lparr>c_entry := (c_entry ?st)\<lparr>e_data := d\<rparr>\<rparr>) = (Inr (), st')" for d
    by (simp add: surface_connect_urls_def build_connect_urls_def local_url_def ready_env_def
        initial_component_def Let_def dict_get_def)
  from s [of "[(''webhook_id'', OStr ''secret'')]"] obtain st' where
    a: "surface_connect_urls (b_urls ready_env) ''none'' True ?st = (Inr (), st')"
    by (auto simp: initial_component_def)
  from s [of "[]"] obtain st'' where
    b: "surface_connect_urls (b_urls ready_env) ''none'' True (?st\<lparr>c_entry := (c_entry ?st)\<lparr>e_data := []\<rparr>\<rparr>) = (Inr (), st'')"
    by blast
  have f: "opt_flag (e_options (c_entry ?st)) ''enable_persistent_notification''"
    by (simp add: initial_component_def opt_flag_def dict_get_def)
  from conjunct2 [OF notification_hides_secrets [OF a b]] f show ?thesis
    unfolding a by (simp only: if_True snd_conv)
qed

text \<open>What a listed URL can be: the webhook under some base, or the direct address.\<close>

definition webhook_url :: "config_entry \<Rightarrow> string \<Rightarrow> bool" where
  "webhook_url entry url \<longleftrightarrow> (\<exists>base suffix. suffix \<in> {[], ''  (prefix with your Home Assistant URL)''}
     \<and> url = base @ hook_path (opt_get (e_data entry) ''webhook_id'') @ suffix)"

lemma build_connect_urls_shape:
  assumes "build_connect_urls v entry enabled = Inr urls"
  shows "\<exists>hooks direct. urls = hooks @ direct
    \<and> (\<forall>u \<in> set hooks. enabled \<and> webhook_url entry u)
    \<and> (enabled \<and> has_secrets entry \<longrightarrow> hooks \<noteq> [])
    \<and> (direct = [] \<or> opt_str (dict_get ''bind_host'' (OStr ''0.0.0.0'') (e_options entry)) = ''0.0.0.0''
         \<and> opt_truthy (opt_get (e_data entry) ''secret_path'')
         \<and> (\<exists>host port. direct = [''http://'' @ direct_url_host host @ '':'' @ show_int port
              @ opt_str (opt_get (e_data entry) ''secret_path'') @ '' (direct access)'']))"
proof -
  let ?wid = "if enabled then opt_get (e_data entry) ''webhook_id'' else ONone"
  let ?urls1 = "if (if enabled then rstrip_slash (opt_text (e_options entry) ''external_url'') else []) \<noteq> []
     then [(if enabled then rstrip_slash (opt_text (e_options entry) ''external_url'') else []) @ hook_path ?wid] else []"
  let ?urls2 = "case v_cloud v of CloudBase base \<Rightarrow> if opt_truthy ?wid then [base @ hook_path ?wid] else [] | _ \<Rightarrow> []"
  from assms obtain lh urls3 where l: "local_url v ?wid = Inr (lh, urls3)"
    by (auto simp: build_connect_urls_def Let_def py_iffs)
  let ?all = "?urls1 @ ?urls2 @ urls3"
  let ?hooks = "if ?all = [] \<and> opt_truthy ?wid
     then [hook_path ?wid @ ''  (prefix with your Home Assistant URL)''] else ?all"
  from assms l obtain direct where u: "urls = ?hooks @ direct" and
    d: "direct = [] \<or> opt_str (dict_get ''bind_host'' (OStr ''0.0.0.0'') (e_options entry)) = ''0.0.0.0''
         \<and> opt_truthy (opt_get (e_data entry) ''secret_path'')
         \<and> (\<exists>host port. direct = [''http://'' @ direct_url_host host @ '':'' @ show_int port
              @ opt_str (opt_get (e_data entry) ''secret_path'') @ '' (direct access)''])"
    by (fastforce simp: build_connect_urls_def Let_def py_iffs split: if_splits)
  have t: "webhook_url entry (base @ hook_path (opt_get (e_data entry) ''webhook_id''))" for base
    unfolding webhook_url_def by (intro exI [of _ base] exI [of _ "[]"]) simp
  have f: "webhook_url entry (hook_path (opt_get (e_data entry) ''webhook_id'')
      @ ''  (prefix with your Home Assistant URL)'')"
    unfolding webhook_url_def by (intro exI [of _ "[]"] exI [of _ "''  (prefix with your Home Assistant URL)''"]) simp
  have u3: "set urls3 \<subseteq> {base @ hook_path ?wid |base. opt_truthy ?wid}"
    using l by (auto simp: local_url_def py_iffs split: option.splits if_splits)
  have "\<forall>x \<in> set ?hooks. enabled \<and> webhook_url entry x"
    using u3 t f by (auto split: if_splits cloud.splits)
  moreover have "enabled \<and> has_secrets entry \<longrightarrow> ?hooks \<noteq> []" by (auto simp: has_secrets_def)
  ultimately show ?thesis using u d by blast
qed

text \<open>The connect URLs match what is exposed: a webhook URL is listed only when the webhook is
  enabled and names the entry's own id, an entry with an id always gets one then, and the
  direct address with the secret path is listed at most once, last, and only when the server
  listens on all interfaces.\<close>

theorem connect_urls_exposed:
  assumes "build_connect_urls v entry enabled = Inr urls"
  shows "\<exists>hooks direct. urls = hooks @ direct
    \<and> (\<forall>u \<in> set hooks. enabled \<and> webhook_url entry u)
    \<and> (enabled \<and> has_secrets entry \<longrightarrow> hooks \<noteq> [])
    \<and> (direct = [] \<or> opt_str (dict_get ''bind_host'' (OStr ''0.0.0.0'') (e_options entry)) = ''0.0.0.0''
         \<and> opt_truthy (opt_get (e_data entry) ''secret_path'')
         \<and> (\<exists>host port. direct = [''http://'' @ direct_url_host host @ '':'' @ show_int port
              @ opt_str (opt_get (e_data entry) ''secret_path'') @ '' (direct access)'']))"
  using assms by (rule build_connect_urls_shape)

theorem connect_urls_exposed_witness:
  "\<exists>hooks direct. [hook_path (OStr ''w'') @ ''  (prefix with your Home Assistant URL)''] = hooks @ direct \<and> hooks \<noteq> []"
proof -
  let ?e = "\<lparr>e_data = [(''webhook_id'', OStr ''w'')], e_options = []\<rparr>"
  have "build_connect_urls (b_urls ready_env) ?e True = Inr [hook_path (OStr ''w'') @ ''  (prefix with your Home Assistant URL)'']"
    by (simp add: build_connect_urls_def local_url_def ready_env_def Let_def opt_get_def dict_get_def
        opt_text_def rstrip_slash_def rstrip_by_def)
  moreover have "has_secrets ?e" by (simp add: has_secrets_def opt_get_def dict_get_def)
  ultimately show ?thesis using connect_urls_exposed by blast
qed

end
