(* ===== verification/Flow.thy ===== *)
theory Flow
  imports Setup
begin

text \<open>
  \<open>config_flow.py\<close>: the step that creates the one entry, and the options form with its fields,
  their defaults and their checks. Validating a submission against the form is voluptuous' and
  Home Assistant's work: it is a parameter, with what the code relies on as the hypothesis
  \<open>form_contract\<close>. Normalising the input and the connect-URL hint are in \<open>Entry\<close> and \<open>Setup\<close>.
\<close>

section \<open>Forms\<close>

datatype check = IntIn int int | Choice "string list" | Flag | TextField

record option_field =
  i_key :: string
  i_required :: bool
  i_default :: opt
  i_check :: check

type_synonym form = "option_field list"

definition field :: "string \<Rightarrow> bool \<Rightarrow> opt \<Rightarrow> check \<Rightarrow> option_field" where
  "field k required v c = \<lparr>i_key = k, i_required = required, i_default = v, i_check = c\<rparr>"

definition options_form :: "opts \<Rightarrow> form" where
  "options_form opts =
     [field ''server_port'' True (dict_get ''server_port'' (OInt 9590) opts) (IntIn 1 65535),
      field ''bind_host'' True (dict_get ''bind_host'' (OStr ''0.0.0.0'') opts) (Choice [''0.0.0.0'', ''127.0.0.1'']),
      field ''webhook_auth'' True (dict_get ''webhook_auth'' (OStr ''none'') opts) (Choice [''none'', ''ha_auth'']),
      field ''enable_webhook'' True (OBool (opt_flag opts ''enable_webhook'')) Flag,
      field ''enable_persistent_notification'' True (OBool (opt_flag opts ''enable_persistent_notification'')) Flag,
      field ''external_url'' False (dict_get ''external_url'' (OStr []) opts) TextField,
      field ''webhook_id_override'' False (dict_get ''webhook_id_override'' (OStr []) opts) TextField,
      field ''secret_path_override'' False (dict_get ''secret_path_override'' (OStr []) opts) TextField,
      field ''regenerate_secrets'' False (OBool False) Flag]"

section \<open>The steps\<close>

datatype flow_result =
    CreateEntry string opts opts \<comment> \<open>title, data, options\<close>
  | CreateOptions opts
  | ShowForm string form string \<comment> \<open>step, fields, the placeholder \<open>connect_url\<close>\<close>
  | AbortFlow string

text \<open>\<open>configured\<close>: an entry with the component's unique id exists.\<close>

definition step_user :: "bool \<Rightarrow> opts option \<Rightarrow> flow_result" where
  "step_user configured user_input =
     (if configured then AbortFlow ''already_configured''
      else if user_input \<noteq> None then CreateEntry ''ESPHome MCP Server'' [] []
      else ShowForm ''user'' [] [])"

definition step_init :: "url_env option \<Rightarrow> config_entry \<Rightarrow> opts option \<Rightarrow> flow_result" where
  "step_init v entry user_input =
     (case user_input of
        Some d \<Rightarrow> CreateOptions (normalize_options d)
      | None \<Rightarrow> ShowForm ''init'' (options_form (e_options entry)) (connect_url_hint v entry))"

section \<open>What validation promises\<close>

fun passes :: "check \<Rightarrow> opt \<Rightarrow> bool" where
  "passes (IntIn lo hi) (OInt i) = (lo \<le> i \<and> i \<le> hi)"
| "passes (Choice cs) (OStr s) = (s \<in> set cs)"
| "passes Flag (OBool b) = True"
| "passes TextField (OStr s) = True"
| "passes c v = False"

text \<open>
  What an accepted submission has: exactly the fields of the form, each with a value that passes
  its check, and the default, when that passes, for a field that was left out.
\<close>

definition form_contract :: "(form \<Rightarrow> opts \<Rightarrow> opts option) \<Rightarrow> bool" where
  "form_contract validate \<longleftrightarrow> (\<forall>form input out. validate form input = Some out \<longrightarrow>
     dom (map_of out) = i_key ` set form
     \<and> (\<forall>f \<in> set form. \<exists>v. map_of out (i_key f) = Some v \<and> passes (i_check f) v
          \<and> (i_key f \<notin> dom (map_of input) \<longrightarrow> passes (i_check f) (i_default f) \<longrightarrow> v = i_default f)))"

definition form_keys :: "string list" where
  "form_keys = [''server_port'', ''bind_host'', ''webhook_auth'', ''enable_webhook'',
     ''enable_persistent_notification'', ''external_url'', ''webhook_id_override'',
     ''secret_path_override'', ''regenerate_secrets'']"

lemma options_form_keys: "i_key ` set (options_form opts) = set form_keys"
  by (simp add: options_form_def field_def form_keys_def)

text \<open>Options that passed the form's checks.\<close>

definition options_ok :: "opts \<Rightarrow> bool" where
  "options_ok d \<longleftrightarrow> dom (map_of d) = set form_keys
     \<and> (\<exists>port. map_of d ''server_port'' = Some (OInt port) \<and> 1 \<le> port \<and> port \<le> 65535)
     \<and> (\<exists>host. map_of d ''bind_host'' = Some (OStr host) \<and> host \<in> {''0.0.0.0'', ''127.0.0.1''})
     \<and> (\<exists>mode. map_of d ''webhook_auth'' = Some (OStr mode) \<and> mode \<in> {''none'', ''ha_auth''})
     \<and> (\<exists>b. map_of d ''enable_webhook'' = Some (OBool b))
     \<and> (\<exists>b. map_of d ''enable_persistent_notification'' = Some (OBool b))
     \<and> (\<exists>s. map_of d ''external_url'' = Some (OStr s))
     \<and> (\<exists>s. map_of d ''webhook_id_override'' = Some (OStr s))
     \<and> (\<exists>s. map_of d ''secret_path_override'' = Some (OStr s))
     \<and> (\<exists>b. map_of d ''regenerate_secrets'' = Some (OBool b))"

lemma passes_cases:
  "passes (IntIn lo hi) v \<Longrightarrow> \<exists>i. v = OInt i \<and> lo \<le> i \<and> i \<le> hi"
  "passes (Choice cs) v \<Longrightarrow> \<exists>s. v = OStr s \<and> s \<in> set cs"
  "passes Flag v \<Longrightarrow> \<exists>b. v = OBool b"
  "passes TextField v \<Longrightarrow> \<exists>s. v = OStr s"
  by (cases v; simp)+

lemma validated_field:
  assumes "form_contract validate" "validate form input = Some out" "f \<in> set form"
  obtains v where "map_of out (i_key f) = Some v" "passes (i_check f) v"
    "i_key f \<notin> dom (map_of input) \<Longrightarrow> passes (i_check f) (i_default f) \<Longrightarrow> v = i_default f"
  using assms unfolding form_contract_def by blast

lemma form_contract_dom:
  "form_contract validate \<Longrightarrow> validate form input = Some out \<Longrightarrow> dom (map_of out) = i_key ` set form"
  by (simp add: form_contract_def)

lemma validated_ok:
  assumes "form_contract validate" "validate (options_form opts) input = Some out"
  shows "options_ok out"
proof -
  from assms have d: "dom (map_of out) = i_key ` set (options_form opts)"
    and "\<forall>f \<in> set (options_form opts). \<exists>v. map_of out (i_key f) = Some v \<and> passes (i_check f) v"
    unfolding form_contract_def by blast+
  then have "\<exists>v. map_of out ''server_port'' = Some v \<and> passes (IntIn 1 65535) v"
    "\<exists>v. map_of out ''bind_host'' = Some v \<and> passes (Choice [''0.0.0.0'', ''127.0.0.1'']) v"
    "\<exists>v. map_of out ''webhook_auth'' = Some v \<and> passes (Choice [''none'', ''ha_auth'']) v"
    "\<exists>v. map_of out ''enable_webhook'' = Some v \<and> passes Flag v"
    "\<exists>v. map_of out ''enable_persistent_notification'' = Some v \<and> passes Flag v"
    "\<exists>v. map_of out ''external_url'' = Some v \<and> passes TextField v"
    "\<exists>v. map_of out ''webhook_id_override'' = Some v \<and> passes TextField v"
    "\<exists>v. map_of out ''secret_path_override'' = Some v \<and> passes TextField v"
    "\<exists>v. map_of out ''regenerate_secrets'' = Some v \<and> passes Flag v"
    by (simp_all add: options_form_def field_def)
  note fields = this
  have "\<exists>port. map_of out ''server_port'' = Some (OInt port) \<and> 1 \<le> port \<and> port \<le> 65535"
    using fields(1) by (auto dest: passes_cases(1))
  moreover have "\<exists>host. map_of out ''bind_host'' = Some (OStr host) \<and> host \<in> {''0.0.0.0'', ''127.0.0.1''}"
    using fields(2) by (auto dest: passes_cases(2))
  moreover have "\<exists>mode. map_of out ''webhook_auth'' = Some (OStr mode) \<and> mode \<in> {''none'', ''ha_auth''}"
    using fields(3) by (auto dest: passes_cases(2))
  moreover have "\<exists>b. map_of out k = Some (OBool b)" if "\<exists>v. map_of out k = Some v \<and> passes Flag v" for k
    using that by (auto dest: passes_cases(3))
  moreover have "\<exists>s. map_of out k = Some (OStr s)" if "\<exists>v. map_of out k = Some v \<and> passes TextField v" for k
    using that by (auto dest: passes_cases(4))
  ultimately show ?thesis
    unfolding options_ok_def using d fields(4-9) by (simp add: options_form_keys)
qed

section \<open>What saving options gives\<close>

lemma normalize_map:
  "map_of (normalize_options d) = (map_of d)(''pip_spec'' := None,
     ''external_url'' \<mapsto> OStr (rstrip_slash (str_strip (opt_text d ''external_url''))),
     ''webhook_id_override'' \<mapsto> OStr (str_strip (opt_text d ''webhook_id_override'')),
     ''secret_path_override'' \<mapsto> OStr (str_strip (opt_text d ''secret_path_override'')))"
proof -
  have pop: "opt_text (dict_pop ''pip_spec'' d) k = opt_text d k" if "k \<noteq> ''pip_spec''" for k
    using that by (simp add: opt_text_def opt_get_def dict_get_def)
  show ?thesis
    by (simp add: normalize_options_def Let_def pop fun_upd_twist)
qed

lemma options_ok_normalize:
  assumes "options_ok d"
  shows "options_ok (normalize_options d)"
proof -
  from assms have "dom (map_of d) = set form_keys" by (simp add: options_ok_def)
  then have "dom (map_of (normalize_options d)) = set form_keys"
    by (auto simp: normalize_map form_keys_def)
  with assms show ?thesis
    by (simp add: options_ok_def normalize_map)
qed

lemma options_ok_get:
  assumes "options_ok d"
  obtains port where "dict_get ''server_port'' v1 d = OInt port" "1 \<le> port" "port \<le> 65535"
    and "dict_get ''bind_host'' v2 d \<in> {OStr ''0.0.0.0'', OStr ''127.0.0.1''}"
    and "dict_get ''webhook_auth'' v3 d \<in> {OStr ''none'', OStr ''ha_auth''}"
  using assms by (auto simp: options_ok_def dict_get_def)

text \<open>The options saved, field by field, from a submission that passed.\<close>

lemma saved_fields:
  assumes "options_ok out"
  shows "dom (map_of (normalize_options out)) = set form_keys"
    and "k \<in> {''enable_webhook'', ''enable_persistent_notification'', ''regenerate_secrets''} \<Longrightarrow>
      \<exists>b. map_of out k = Some (OBool b) \<and> map_of (normalize_options out) k = Some (OBool b)"
    and "k \<in> {''webhook_id_override'', ''secret_path_override''} \<Longrightarrow>
      \<exists>s. map_of out k = Some (OStr s) \<and> map_of (normalize_options out) k = Some (OStr (str_strip s))"
    and "\<exists>s. map_of out ''external_url'' = Some (OStr s)
      \<and> map_of (normalize_options out) ''external_url'' = Some (OStr (rstrip_slash (str_strip s)))"
proof -
  have empty: "str_strip [] = []" by (simp add: str_strip_def lstrip_by_def rstrip_by_def)
  have t: "opt_text out k = s" if "map_of out k = Some (OStr s)" for k s
    using that by (simp add: opt_text_def opt_get_def dict_get_def)
  note o = assms [unfolded options_ok_def]
  show "dom (map_of (normalize_options out)) = set form_keys"
    using options_ok_normalize [OF assms] by (simp add: options_ok_def)
  show "\<exists>b. map_of out k = Some (OBool b) \<and> map_of (normalize_options out) k = Some (OBool b)"
    if "k \<in> {''enable_webhook'', ''enable_persistent_notification'', ''regenerate_secrets''}"
  proof -
    from that consider "k = ''enable_webhook''" | "k = ''enable_persistent_notification''" | "k = ''regenerate_secrets''" by blast
    then show ?thesis using o by cases (simp_all add: normalize_map)
  qed
  show "\<exists>s. map_of out k = Some (OStr s) \<and> map_of (normalize_options out) k = Some (OStr (str_strip s))"
    if "k \<in> {''webhook_id_override'', ''secret_path_override''}"
  proof -
    from that o obtain s where s: "map_of out k = Some (OStr s)" by blast
    from that consider "k = ''webhook_id_override''" | "k = ''secret_path_override''" by blast
    then show ?thesis using s t [OF s] by cases (simp_all add: normalize_map)
  qed
  show "\<exists>s. map_of out ''external_url'' = Some (OStr s)
      \<and> map_of (normalize_options out) ''external_url'' = Some (OStr (rstrip_slash (str_strip s)))"
  proof -
    from o obtain s where s: "map_of out ''external_url'' = Some (OStr s)" by blast
    then show ?thesis using t [OF s] by (simp add: normalize_map)
  qed
qed

text \<open>C35: Whatever the options were before and whatever is submitted, what the form saves is usable
  in every field, and is what was submitted. The fields saved are exactly the nine of the form. The
  manager reads from them the submitted port, between 1 and 65535, and one of the two hosts; the
  authentication mode is one of the two that registering the webhook accepts; the three flags are
  the submitted Booleans; the two overrides are the submitted strings stripped of white space, and
  the external URL likewise and without the slashes at its end; and a bring-up with these options
  never fails at reading them.\<close>

theorem saved_options_usable:
  assumes "form_contract validate" "validate (options_form (e_options entry)) input = Some out"
    and "step_init v entry (Some out) = CreateOptions opts"
  shows "\<exists>m. manager_of (entry\<lparr>e_options := opts\<rparr>) = Inr m \<and> 1 \<le> m_port m \<and> m_port m \<le> 65535
     \<and> map_of out ''server_port'' = Some (OInt (m_port m))
     \<and> map_of out ''bind_host'' = Some (OStr (m_bind_host m))
     \<and> map_of out ''webhook_auth'' = Some (OStr (entry_auth_mode (entry\<lparr>e_options := opts\<rparr>)))
     \<and> dom (map_of opts) = set form_keys
     \<and> (\<forall>k \<in> {''enable_webhook'', ''enable_persistent_notification'', ''regenerate_secrets''}.
          \<exists>b. map_of out k = Some (OBool b) \<and> map_of opts k = Some (OBool b))
     \<and> (\<forall>k \<in> {''webhook_id_override'', ''secret_path_override''}.
          \<exists>s. map_of out k = Some (OStr s) \<and> map_of opts k = Some (OStr (str_strip s)))
     \<and> (\<exists>s. map_of out ''external_url'' = Some (OStr s)
          \<and> map_of opts ''external_url'' = Some (OStr (rstrip_slash (str_strip s))))
     \<and> m_bind_host m \<in> {''0.0.0.0'', ''127.0.0.1''}
     \<and> entry_auth_mode (entry\<lparr>e_options := opts\<rparr>) \<in> {''none'', ''ha_auth''}
     \<and> (\<forall>env st e st'. c_entry st = entry\<lparr>e_options := opts\<rparr> \<longrightarrow> bring_up_server env st \<noteq> Some (BringRaised e, st'))"
proof -
  from assms(3) have "opts = normalize_options out" by (simp add: step_init_def)
  note out = validated_ok [OF assms(1,2)]
  note saved = saved_fields [OF out, folded \<open>opts = normalize_options out\<close>]
  have "options_ok opts" using out by (simp add: options_ok_normalize \<open>opts = normalize_options out\<close>)
  then obtain port where g: "dict_get ''server_port'' (OInt 9590) opts = OInt port" "1 \<le> port" "port \<le> 65535"
    "dict_get ''bind_host'' (OStr ''0.0.0.0'') opts \<in> {OStr ''0.0.0.0'', OStr ''127.0.0.1''}"
    "dict_get ''webhook_auth'' (OStr ''none'') opts \<in> {OStr ''none'', OStr ''ha_auth''}"
    by (rule options_ok_get)
  then obtain m where m: "manager_of (entry\<lparr>e_options := opts\<rparr>) = Inr m" "m_port m = port"
    "m_bind_host m \<in> {''0.0.0.0'', ''127.0.0.1''}"
    by (auto simp: manager_of_def)
  have "bring_up_server env st \<noteq> Some (BringRaised e, st')" if "c_entry st = entry\<lparr>e_options := opts\<rparr>" for env st e st'
    using that m(1) by (auto simp: bring_up_server_def Let_def clear_issues_def split: option.splits start_result.splits prod.splits sum.splits)
  moreover have "map_of out ''server_port'' = Some (OInt (m_port m))"
    "map_of out ''bind_host'' = Some (OStr (m_bind_host m))"
    "map_of out ''webhook_auth'' = Some (OStr (entry_auth_mode (entry\<lparr>e_options := opts\<rparr>)))"
  proof -
    from out obtain p h w where f: "map_of out ''server_port'' = Some (OInt p)" "map_of out ''bind_host'' = Some (OStr h)"
      "map_of out ''webhook_auth'' = Some (OStr w)"
      unfolding options_ok_def by blast
    then have "dict_get ''server_port'' (OInt 9590) opts = OInt p" "dict_get ''bind_host'' (OStr ''0.0.0.0'') opts = OStr h"
      "dict_get ''webhook_auth'' (OStr ''none'') opts = OStr w"
      unfolding \<open>opts = normalize_options out\<close> by (simp_all add: dict_get_def normalize_map)
    with m f show "map_of out ''server_port'' = Some (OInt (m_port m))" "map_of out ''bind_host'' = Some (OStr (m_bind_host m))"
      "map_of out ''webhook_auth'' = Some (OStr (entry_auth_mode (entry\<lparr>e_options := opts\<rparr>)))"
      by (auto simp: manager_of_def entry_auth_mode_def)
  qed
  moreover have "entry_auth_mode (entry\<lparr>e_options := opts\<rparr>) \<in> {''none'', ''ha_auth''}"
    using g(5) by (auto simp: entry_auth_mode_def)
  ultimately show ?thesis
    using m g(2,3) saved by (intro exI [of _ m] conjI ballI) (simp_all del: insert_iff)
qed

lemma refill:
  assumes "m p = None" "m w = Some a" "m q = Some b" and "a = a'" "b = b'" "distinct [p, w, q, r, u]"
  shows "m(r \<mapsto> x, p := None, u \<mapsto> y, w \<mapsto> a', q \<mapsto> b') = m(r \<mapsto> x, u \<mapsto> y)"
  using assms by (intro ext) auto

text \<open>What an untouched form gives: the defaults, which are the options shown.\<close>

lemma untouched_submission:
  assumes "form_contract validate" "options_ok opts" "validate (options_form opts) [] = Some again"
  shows "map_of again = (map_of opts)(''regenerate_secrets'' \<mapsto> OBool False)"
proof -
  have "map_of again k = map_of (dict_set ''regenerate_secrets'' (OBool False) opts) k" for k
  proof (cases "k \<in> set form_keys")
    case True
    have "\<forall>f \<in> set (options_form opts). passes (i_check f) (i_default f)"
      using assms(2) by (auto simp: options_ok_def options_form_def field_def dict_get_def opt_flag_def)
    with assms(1,3) have "\<forall>f \<in> set (options_form opts). map_of again (i_key f) = Some (i_default f)"
      unfolding form_contract_def by fastforce
    then have "\<forall>f \<in> set (options_form opts). map_of again (i_key f)
        = map_of (dict_set ''regenerate_secrets'' (OBool False) opts) (i_key f)"
      using assms(2) by (auto simp: options_ok_def options_form_def field_def dict_get_def opt_flag_def)
    moreover obtain f where "f \<in> set (options_form opts)" "k = i_key f"
      using True options_form_keys [of opts] by (metis imageE)
    ultimately show ?thesis by simp
  next
    case False
    have "dom (map_of again) = set form_keys"
      using form_contract_dom [OF assms(1,3)] options_form_keys [of opts] by simp
    with False have "map_of again k = None" by (metis domIff)
    moreover have "map_of opts k = None" using assms(2) False unfolding options_ok_def by (metis domIff)
    moreover have "k \<noteq> ''regenerate_secrets''" using False by (auto simp: form_keys_def)
    ultimately show ?thesis by simp
  qed
  then show ?thesis by auto
qed

text \<open>Opening the options form and submitting it untouched changes nothing but what it has to:
  every field keeps the value it was saved with, a pending request to regenerate the secrets is
  taken back, and the external URL is normalised once more.\<close>

theorem options_form_roundtrip:
  assumes "form_contract validate" "validate (options_form opts0) input = Some out"
    and "validate (options_form (normalize_options out)) [] = Some again"
  shows "map_of (normalize_options again) = (map_of (normalize_options out))(''regenerate_secrets'' \<mapsto> OBool False,
     ''external_url'' \<mapsto> OStr (rstrip_slash (str_strip (opt_text (normalize_options out) ''external_url''))))"
proof -
  let ?o = "normalize_options out"
  have o: "options_ok ?o" using validated_ok [OF assms(1,2)] by (rule options_ok_normalize)
  have again: "map_of again = (map_of ?o)(''regenerate_secrets'' \<mapsto> OBool False)"
    using assms(1) o assms(3) by (rule untouched_submission)
  have t: "opt_text again k = opt_text ?o k" if "k \<noteq> ''regenerate_secrets''" for k
    using that by (simp add: opt_text_def opt_get_def dict_get_def again)
  have empty: "str_strip [] = []" by (simp add: str_strip_def lstrip_by_def rstrip_by_def)
  have stripped: "map_of ?o ''webhook_id_override'' = Some (OStr (str_strip (opt_text ?o ''webhook_id_override'')))"
    "map_of ?o ''secret_path_override'' = Some (OStr (str_strip (opt_text ?o ''secret_path_override'')))"
    "map_of ?o ''pip_spec'' = None"
    by (simp_all add: normalize_map opt_text_def opt_get_def dict_get_def empty)
  have same: "opt_text again ''external_url'' = opt_text ?o ''external_url''"
    "opt_text again ''webhook_id_override'' = opt_text ?o ''webhook_id_override''"
    "opt_text again ''secret_path_override'' = opt_text ?o ''secret_path_override''"
    by (rule t, simp)+
  show ?thesis
    unfolding normalize_map [of again] again same
    by (rule refill [of "map_of ?o", OF stripped(3,1,2) refl refl]) simp
qed

text \<open>Normalising is not idempotent on the external URL: what a slash hid may end in a space.\<close>

lemma external_url_keeps_space:
  "map_of (normalize_options [(''external_url'', OStr ''https://h /'')]) ''external_url'' = Some (OStr ''https://h '')"
  by code_simp

section \<open>A concrete form\<close>

text \<open>A validator that takes what is given, and the default for what is not.\<close>

definition lab_validate :: "form \<Rightarrow> opts \<Rightarrow> opts option" where
  "lab_validate form input =
     (let out = map (\<lambda>f. (i_key f, dict_get (i_key f) (i_default f) input)) form in
      if list_all (\<lambda>(k, _). k \<in> i_key ` set form) input
        \<and> list_all (\<lambda>f. passes (i_check f) (dict_get (i_key f) (i_default f) input)) form \<and> distinct (map i_key form)
      then Some out else None)"

lemma map_of_fields: "distinct (map i_key form) \<Longrightarrow> f \<in> set form \<Longrightarrow> map_of (map (\<lambda>f. (i_key f, g f)) form) (i_key f) = Some (g f)"
  by (induction form) (auto simp: rev_image_eqI)

lemma lab_validate_contract: "form_contract lab_validate"
  unfolding form_contract_def
proof (intro allI impI)
  fix form input out
  assume v: "lab_validate form input = Some out"
  then have d: "distinct (map i_key form)" and o: "out = map (\<lambda>f. (i_key f, dict_get (i_key f) (i_default f) input)) form"
    and p: "list_all (\<lambda>f. passes (i_check f) (dict_get (i_key f) (i_default f) input)) form"
    by (auto simp: lab_validate_def Let_def split: if_splits)
  have "dom (map_of out) = i_key ` set form" by (simp add: o dom_map_of_conv_image_fst image_image)
  moreover have "\<exists>v. map_of out (i_key f) = Some v \<and> passes (i_check f) v
      \<and> (i_key f \<notin> dom (map_of input) \<longrightarrow> passes (i_check f) (i_default f) \<longrightarrow> v = i_default f)" if "f \<in> set form" for f
  proof (intro exI [of _ "dict_get (i_key f) (i_default f) input"] conjI impI)
    show "map_of out (i_key f) = Some (dict_get (i_key f) (i_default f) input)"
      unfolding o by (rule map_of_fields [OF d that])
    show "passes (i_check f) (dict_get (i_key f) (i_default f) input)" using p that by (simp add: list_all_iff)
    show "dict_get (i_key f) (i_default f) input = i_default f" if "i_key f \<notin> dom (map_of input)"
      using that by (simp add: dict_get_def domIff)
  qed
  ultimately show "dom (map_of out) = i_key ` set form \<and> (\<forall>f \<in> set form. \<exists>v. map_of out (i_key f) = Some v
      \<and> passes (i_check f) v \<and> (i_key f \<notin> dom (map_of input) \<longrightarrow> passes (i_check f) (i_default f) \<longrightarrow> v = i_default f))"
    by blast
qed

definition lab_input :: opts where
  "lab_input = [(''server_port'', OInt 80), (''external_url'', OStr '' https://h/ ''), (''regenerate_secrets'', OBool True)]"

definition lab_options :: opts where
  "lab_options = the (lab_validate (options_form []) lab_input)"

lemma lab_options: "lab_validate (options_form []) lab_input = Some lab_options"
proof -
  have "lab_validate (options_form []) lab_input \<noteq> None" by code_simp
  then show ?thesis by (auto simp: lab_options_def)
qed

lemma saved_options_usable_witness:
  "\<exists>m. manager_of \<lparr>e_data = [], e_options = normalize_options lab_options\<rparr> = Inr m \<and> m_port m = 80"
proof -
  have "lab_validate (options_form (e_options \<lparr>e_data = [], e_options = []\<rparr>)) lab_input = Some lab_options"
    by (simp add: lab_options)
  from saved_options_usable [OF lab_validate_contract this, of None]
  obtain m where m: "manager_of \<lparr>e_data = [], e_options = normalize_options lab_options\<rparr> = Inr m"
    by (auto simp: step_init_def)
  have "dict_get ''server_port'' (OInt 9590) (normalize_options lab_options) = OInt 80" by code_simp
  with m show ?thesis by (auto simp: manager_of_def)
qed

lemma options_form_roundtrip_witness:
  "\<exists>again. lab_validate (options_form (normalize_options lab_options)) [] = Some again
     \<and> map_of (normalize_options again) ''external_url'' = Some (OStr ''https://h'')
     \<and> map_of (normalize_options again) ''regenerate_secrets'' = Some (OBool False)"
proof -
  have "lab_validate (options_form (normalize_options lab_options)) [] \<noteq> None" by code_simp
  then obtain again where a: "lab_validate (options_form (normalize_options lab_options)) [] = Some again" by blast
  have "rstrip_slash (str_strip (opt_text (normalize_options lab_options) ''external_url'')) = ''https://h''" by code_simp
  with a options_form_roundtrip [OF lab_validate_contract lab_options a] show ?thesis by simp
qed

end
