(* ===== verification/Pool.thy ===== *)
theory Pool
  imports Cimd
begin

text \<open>
  Concurrent lookups of client metadata documents: \<open>fetch_cimd_redirects\<close> and \<open>_lookup_cimd\<close> of
  \<open>oauth_ha_auth.py\<close> as tasks that interleave at their awaits, over the module's cache and its
  semaphore of four slots, each under its own deadline. \<open>Cimd\<close> has the same code as one step;
  here a lookup is a state that \<open>advance\<close> moves from await to await, and the event loop is the
  relation \<open>pool_step\<close>. The world may answer every await differently.
\<close>

definition lookup_slots :: nat where "lookup_slots = 4"
definition total_lookup_timeout :: rat where "total_lookup_timeout = 12"

section \<open>One lookup\<close>

text \<open>Resolving the host; about to try the addresses left; awaiting the answer of one.\<close>

datatype lookup_phase = Resolving | Trying "string list" | Fetching string "string list"

record cimd_lookup =
  o_client :: string
  o_url :: url
  o_start :: rat
  o_phase :: lookup_phase

definition conclude :: "cimd_lookup \<Rightarrow> string list option \<Rightarrow> cimd_state \<Rightarrow> cimd_state" where
  "conclude l result st = st\<lparr>s_cache := cache_cimd (o_client l) (o_start l) result (s_cache st)\<rparr>"

text \<open>From one await to the next: the lookup goes on, or it has its result.\<close>

definition advance ::
  "cimd_env \<Rightarrow> cimd_lookup \<Rightarrow> cimd_state \<Rightarrow> (cimd_lookup + string list option py) \<times> cimd_state" where
  "advance env l st =
     (case o_phase l of
        Resolving \<Rightarrow>
          (case py_bind (url_port (o_url l)) (\<lambda>port.
                  resolve_public_addresses env (case url_hostname (o_url l) of Some h \<Rightarrow> h | None \<Rightarrow> [])
                    (case port of Some p \<Rightarrow> if p = 0 then 443 else p | None \<Rightarrow> 443)) of
             Inl e \<Rightarrow> (Inr (Inl e), st)
           | Inr addresses \<Rightarrow> (Inl (l\<lparr>o_phase := Trying addresses\<rparr>), st))
      | Trying [] \<Rightarrow> (Inr (Inr None), conclude l None st)
      | Trying (address # rest) \<Rightarrow>
          (case pinned_url (o_url l) address of
             Inl e \<Rightarrow> (Inr (Inl e), st)
           | Inr url \<Rightarrow> (Inl (l\<lparr>o_phase := Fetching address rest\<rparr>), st\<lparr>s_requests := url # s_requests st\<rparr>))
      | Fetching address rest \<Rightarrow>
          (case fst (fetch_pinned_cimd env (o_client l) (o_url l) address st) of
             Inl e \<Rightarrow> (Inr (Inl e), st)
           | Inr (reached, result) \<Rightarrow>
               if \<not> reached then (Inl (l\<lparr>o_phase := Trying rest\<rparr>), st)
               else if result = None then (Inr (Inr None), st)
               else (Inr (Inr result), conclude l result st)))"

section \<open>The pool\<close>

record pool =
  q_store :: cimd_state
  q_clock :: rat
  q_free :: nat \<comment> \<open>the value of \<open>_CIMD_LOOKUP_SLOTS\<close>, which \<open>acquire\<close> takes one of and \<open>release\<close> gives back\<close>
  q_waiting :: "cimd_lookup list" \<comment> \<open>for a slot, the oldest first\<close>
  q_running :: "cimd_lookup list" \<comment> \<open>holding a slot\<close>
  q_results :: "(string \<times> string list option py) list" \<comment> \<open>the newest first\<close>

text \<open>The client ids that are looked up, with their URL.\<close>

definition looked_up :: "string \<Rightarrow> url option" where
  "looked_up client_id =
     (if \<not> valid_cimd_client_id client_id then None
      else case urlparse client_id of
        Inl _ \<Rightarrow> None
      | Inr u \<Rightarrow>
          (case url_hostname u of
             None \<Rightarrow> None
           | Some h \<Rightarrow> if is_loopback_host h \<or> ip_address h \<noteq> None then None else Some u))"

definition cached :: "pool \<Rightarrow> string \<Rightarrow> string list option option" where
  "cached p client_id =
     (case map_of (s_cache (q_store p)) client_id of
        Some (expiry, uris) \<Rightarrow> if q_clock p < expiry then Some uris else None
      | None \<Rightarrow> None)"

definition answer :: "string \<Rightarrow> string list option py \<Rightarrow> pool \<Rightarrow> pool" where
  "answer client_id r p = p\<lparr>q_results := (client_id, r) # q_results p\<rparr>"

definition due :: "rat \<Rightarrow> cimd_lookup \<Rightarrow> bool" where
  "due now l \<longleftrightarrow> o_start l + total_lookup_timeout \<le> now"

definition expire :: "cimd_lookup \<Rightarrow> pool \<Rightarrow> pool" where
  "expire l p = answer (o_client l) (Inr None) (p\<lparr>q_store := conclude l None (q_store p)\<rparr>)"

text \<open>
  What the event loop does next: a request comes in (and is answered at once, or waits for a
  slot), a free slot is taken by the one that waited longest, a lookup moves on, or ends and gives
  its slot back, a deadline that is due fires, a caller goes away, or time passes. When a due
  deadline fires is up to the event loop: nothing is assumed of it.
\<close>

inductive pool_step :: "pool \<Rightarrow> pool \<Rightarrow> bool" where
  refused: "looked_up cid = None \<Longrightarrow> pool_step p (answer cid (Inr None) p)"
| hit: "looked_up cid = Some u \<Longrightarrow> cached p cid = Some uris \<Longrightarrow> pool_step p (answer cid (Inr uris) p)"
| miss: "looked_up cid = Some u \<Longrightarrow> cached p cid = None \<Longrightarrow>
    pool_step p (p\<lparr>q_waiting := q_waiting p
      @ [\<lparr>o_client = cid, o_url = u, o_start = q_clock p, o_phase = Resolving\<rparr>]\<rparr>)"
| admit: "q_waiting p = l # ls \<Longrightarrow> q_free p = Suc n \<Longrightarrow>
    pool_step p (p\<lparr>q_waiting := ls, q_running := q_running p @ [l], q_free := n\<rparr>)"
| move: "q_running p = xs @ l # ys \<Longrightarrow> advance env l (q_store p) = (Inl l', st) \<Longrightarrow>
    pool_step p (p\<lparr>q_store := st, q_running := xs @ l' # ys\<rparr>)"
| finish: "q_running p = xs @ l # ys \<Longrightarrow> advance env l (q_store p) = (Inr r, st) \<Longrightarrow>
    pool_step p (answer (o_client l) r (p\<lparr>q_store := st, q_running := xs @ ys, q_free := Suc (q_free p)\<rparr>))"
| expire_running: "q_running p = xs @ l # ys \<Longrightarrow> due (q_clock p) l \<Longrightarrow>
    pool_step p (expire l (p\<lparr>q_running := xs @ ys, q_free := Suc (q_free p)\<rparr>))"
| expire_waiting: "q_waiting p = xs @ l # ys \<Longrightarrow> due (q_clock p) l \<Longrightarrow>
    pool_step p (expire l (p\<lparr>q_waiting := xs @ ys\<rparr>))"
| leave_running: "q_running p = xs @ l # ys \<Longrightarrow>
    pool_step p (p\<lparr>q_running := xs @ ys, q_free := Suc (q_free p)\<rparr>)"
| leave_waiting: "q_waiting p = xs @ l # ys \<Longrightarrow> pool_step p (p\<lparr>q_waiting := xs @ ys\<rparr>)"
| tick: "0 < dt \<Longrightarrow> pool_step p (p\<lparr>q_clock := q_clock p + dt\<rparr>)"

definition idle :: "rat \<Rightarrow> cimd_state \<Rightarrow> pool" where
  "idle now st = \<lparr>q_store = st, q_clock = now, q_free = lookup_slots, q_waiting = [], q_running = [], q_results = []\<rparr>"

inductive pool_reach :: "rat \<Rightarrow> pool \<Rightarrow> bool" for now where
  pool_start: "pool_reach now (idle now \<lparr>s_cache = [], s_requests = []\<rparr>)"
| pool_more: "pool_reach now p \<Longrightarrow> pool_step p p' \<Longrightarrow> pool_reach now p'"

section \<open>What every schedule keeps\<close>

definition phase_public :: "lookup_phase \<Rightarrow> bool" where
  "phase_public ph = (case ph of Resolving \<Rightarrow> True | Trying as \<Rightarrow> list_all public_address as
     | Fetching a as \<Rightarrow> list_all public_address (a # as))"

definition lookup_ok :: "rat \<Rightarrow> cimd_lookup \<Rightarrow> bool" where
  "lookup_ok now l \<longleftrightarrow> looked_up (o_client l) = Some (o_url l) \<and> phase_public (o_phase l)
     \<and> o_start l \<le> now"

definition result_ok :: "string list option py \<Rightarrow> bool" where
  "result_ok r = (case r of Inr v \<Rightarrow> uris_ok v | Inl _ \<Rightarrow> True)"

definition pool_ok :: "pool \<Rightarrow> bool" where
  "pool_ok p \<longleftrightarrow> cimd_inv (q_store p) \<and> q_free p + length (q_running p) = lookup_slots
     \<and> list_all (lookup_ok (q_clock p)) (q_waiting p @ q_running p)
     \<and> list_all (\<lambda>(_, r). result_ok r) (q_results p)
     \<and> list_all (\<lambda>e. fst (snd e) \<le> q_clock p + cimd_cache_ttl) (s_cache (q_store p))"

lemma uris_ok_None [simp]: "uris_ok None"
  by (simp add: uris_ok_def)

lemma result_ok_simps [simp]: "result_ok (Inl e)" "result_ok (Inr v) = uris_ok v"
  by (simp_all add: result_ok_def)

lemma cimd_inv_conclude: "cimd_inv st \<Longrightarrow> uris_ok r \<Longrightarrow> cimd_inv (conclude l r st)"
  by (simp add: conclude_def cimd_inv_cache)

lemma looked_up_fetchable: "looked_up cid = Some u \<Longrightarrow> fetchable u"
  using valid_fetchable by (auto simp: looked_up_def split: if_splits sum.splits option.splits)

lemma advance_inv:
  assumes "advance env l st = (r, st')" "cimd_inv st" "lookup_ok now l"
  shows "cimd_inv st' \<and> (case r of Inl l' \<Rightarrow> lookup_ok now l' | Inr v \<Rightarrow> result_ok v)"
proof (cases "o_phase l")
  case Resolving
  with assms resolve_public show ?thesis
    by (auto simp: advance_def lookup_ok_def phase_public_def py_iffs split: sum.splits)
next
  case (Trying as)
  show ?thesis
  proof (cases as)
    case Nil
    with Trying assms show ?thesis by (auto simp: advance_def cimd_inv_conclude)
  next
    case (Cons a rest)
    with Trying assms pinned_public [of "o_url l" a] looked_up_fetchable [of "o_client l" "o_url l"] show ?thesis
      by (auto simp: advance_def lookup_ok_def phase_public_def cimd_inv_def split: sum.splits)
  qed
next
  case (Fetching a as)
  obtain res st1 where f: "fetch_pinned_cimd env (o_client l) (o_url l) a st = (res, st1)" by force
  have "uris_ok v" if "res = Inr (b, v)" for b v
    using fetch_pinned_state(3) [OF f that] .
  with Fetching assms f show ?thesis
    by (auto simp: advance_def lookup_ok_def phase_public_def cimd_inv_conclude split: sum.splits if_splits)
qed

text \<open>What a conclusion leaves in the cache.\<close>

lemma dict_set_set: "set (dict_set k v d) \<subseteq> insert (k, v) (set d)"
  by (induction k v d rule: dict_set.induct) auto

lemma cache_cimd_set:
  "set (cache_cimd k now r c) \<subseteq> insert (k, cache_entry now r) (set c)"
proof -
  have e: "set (evict_oldest d) \<subseteq> set d" for d
    by (metis evict_oldest_shape set_append Un_upper2)
  have p: "set (dict_pop k c) \<subseteq> set c" by (auto simp: dict_pop_def)
  let ?c2 = "if cimd_cache_max \<le> length (dict_pop k c) then filter (\<lambda>(_, expiry, _). \<not> expiry \<le> now) (dict_pop k c) else dict_pop k c"
  have "set ?c2 \<subseteq> set c" using p by auto
  with e [of ?c2] have "set (evict_oldest ?c2) \<subseteq> set c" by (rule order_trans)
  with dict_set_set [of k "cache_entry now r" "evict_oldest ?c2"] show ?thesis
    by (auto simp: cache_cimd_def Let_def cache_entry_def)
qed

definition fresh_until :: "rat \<Rightarrow> cimd_state \<Rightarrow> bool" where
  "fresh_until now st \<longleftrightarrow> list_all (\<lambda>e. fst (snd e) \<le> now + cimd_cache_ttl) (s_cache st)"

lemma fresh_conclude:
  assumes "fresh_until now st" "o_start l \<le> now"
  shows "fresh_until now (conclude l r st)"
proof -
  have "fst (cache_entry (o_start l) r) \<le> now + cimd_cache_ttl"
    using assms(2) by (simp add: cache_entry_def cimd_cache_ttl_def cimd_negative_ttl_def)
  moreover have "e = (o_client l, cache_entry (o_start l) r) \<or> e \<in> set (s_cache st)"
    if "e \<in> set (s_cache (conclude l r st))" for e
    using that cache_cimd_set [of "o_client l" "o_start l" r "s_cache st"] by (auto simp: conclude_def)
  ultimately show ?thesis
    using assms(1) unfolding fresh_until_def list_all_iff by fastforce
qed

lemma fetch_pinned_cache: "s_cache (snd (fetch_pinned_cimd env cid u a st)) = s_cache st"
  using fetch_pinned_state(1) by (metis prod.collapse)

lemma advance_fresh:
  assumes "advance env l st = (r, st')" "fresh_until now st" "o_start l \<le> now"
  shows "fresh_until now st'"
  using assms fresh_conclude [OF assms(2,3)]
  by (auto simp: advance_def fresh_until_def split: lookup_phase.splits list.splits sum.splits if_splits)

section \<open>The invariant\<close>

lemma lookup_ok_later: "lookup_ok now l \<Longrightarrow> now \<le> t \<Longrightarrow> lookup_ok t l"
  by (simp add: lookup_ok_def)

lemma fresh_later: "fresh_until now st \<Longrightarrow> now \<le> t \<Longrightarrow> fresh_until t st"
  unfolding fresh_until_def list_all_iff by (meson add_right_mono order_trans)

lemma pool_ok_fold: "pool_ok p \<longleftrightarrow> cimd_inv (q_store p) \<and> q_free p + length (q_running p) = lookup_slots
     \<and> list_all (lookup_ok (q_clock p)) (q_waiting p @ q_running p)
     \<and> list_all (\<lambda>(_, r). result_ok r) (q_results p) \<and> fresh_until (q_clock p) (q_store p)"
  by (simp add: pool_ok_def fresh_until_def)

lemma pool_ok_answer: "pool_ok p \<Longrightarrow> result_ok r \<Longrightarrow> pool_ok (answer cid r p)"
  by (simp add: pool_ok_fold answer_def)

lemma pool_ok_expire:
  assumes "pool_ok p" "o_start l \<le> q_clock p"
  shows "pool_ok (expire l p)"
  using assms unfolding expire_def
  by (intro pool_ok_answer) (simp_all add: pool_ok_fold cimd_inv_conclude fresh_conclude)

lemma cached_ok: "pool_ok p \<Longrightarrow> cached p cid = Some uris \<Longrightarrow> uris_ok uris"
  by (auto simp: pool_ok_def cimd_inv_def cache_valid_def cached_def split: option.splits if_splits)

lemma pool_step_ok: "pool_step p p' \<Longrightarrow> pool_ok p \<Longrightarrow> pool_ok p'"
proof (induction rule: pool_step.induct)
  case (refused cid p)
  then show ?case by (intro pool_ok_answer) simp_all
next
  case (hit cid u p uris)
  then show ?case using cached_ok by (intro pool_ok_answer) simp_all
next
  case (miss cid u p)
  then show ?case by (simp add: pool_ok_fold lookup_ok_def phase_public_def total_lookup_timeout_def)
next
  case (move p xs l ys env l' st)
  then have l: "lookup_ok (q_clock p) l" "cimd_inv (q_store p)" "fresh_until (q_clock p) (q_store p)"
    by (simp_all add: pool_ok_fold)
  have "cimd_inv st" "lookup_ok (q_clock p) l'" using advance_inv [OF move(2) l(2,1)] by simp_all
  moreover have "fresh_until (q_clock p) st"
    using advance_fresh [OF move(2) l(3)] l(1) by (simp add: lookup_ok_def)
  ultimately show ?case using move(1,3) by (simp add: pool_ok_fold)
next
  case (finish p xs l ys env r st)
  then have l: "lookup_ok (q_clock p) l" "cimd_inv (q_store p)" "fresh_until (q_clock p) (q_store p)"
    by (simp_all add: pool_ok_fold)
  have "cimd_inv st" "result_ok r" using advance_inv [OF finish(2) l(2,1)] by simp_all
  moreover have "fresh_until (q_clock p) st"
    using advance_fresh [OF finish(2) l(3)] l(1) by (simp add: lookup_ok_def)
  ultimately show ?case using finish(1,3) by (intro pool_ok_answer) (simp_all add: pool_ok_fold)
next
  case (expire_running p xs l ys)
  then show ?case by (intro pool_ok_expire) (simp_all add: pool_ok_fold lookup_ok_def)
next
  case (expire_waiting p xs l ys)
  then show ?case by (intro pool_ok_expire) (simp_all add: pool_ok_fold lookup_ok_def)
next
  case (tick dt p)
  have "fresh_until (q_clock p + dt) (q_store p)"
  proof (rule fresh_later)
    show "fresh_until (q_clock p) (q_store p)" using tick(2) by (simp add: pool_ok_fold)
  qed (use tick(1) in simp)
  moreover have "lookup_ok (q_clock p + dt) l" if "l \<in> set (q_waiting p @ q_running p)" for l
  proof (rule lookup_ok_later)
    show "lookup_ok (q_clock p) l" using tick(2) that unfolding pool_ok_fold list_all_iff by blast
  qed (use tick(1) in simp)
  ultimately show ?case using tick(2) by (simp add: pool_ok_fold list_all_iff)
qed (simp_all add: pool_ok_answer pool_ok_fold)

lemma pool_reach_ok: "pool_reach now p \<Longrightarrow> pool_ok p"
proof (induction rule: pool_reach.induct)
  case pool_start
  then show ?case
    by (simp add: pool_ok_fold idle_def cimd_inv_def cache_ok_def cache_valid_def fresh_until_def)
qed (rule pool_step_ok)

text \<open>C18: However lookups of anonymous callers interleave, whatever the resolver and the servers
  answer, and whenever callers leave and deadlines fire: the slots that are free and the lookups
  under way always make four, so that at most four are under way and no slot is ever lost; each of
  them and every one waiting is of a client id with the required shape; at most 64 outcomes are
  cached, none beyond five minutes from now; every list cached or returned is non-empty and of
  valid redirect URIs; and every request ever made asked for an \<open>https\<close> URL whose authority is a
  globally routable address.\<close>

theorem cimd_pool_safe:
  assumes "pool_reach now p"
  shows "q_free p + length (q_running p) = 4
    \<and> (\<forall>l \<in> set (q_waiting p @ q_running p). looked_up (o_client l) = Some (o_url l))
    \<and> length (s_cache (q_store p)) \<le> 64 \<and> cache_valid (s_cache (q_store p))
    \<and> (\<forall>e \<in> set (s_cache (q_store p)). fst (snd e) \<le> q_clock p + 300)
    \<and> (\<forall>(cid, r) \<in> set (q_results p). \<forall>us. r = Inr (Some us) \<longrightarrow> us \<noteq> [] \<and> list_all is_valid_redirect_uri us)
    \<and> (\<forall>url \<in> set (s_requests (q_store p)). asks_public url)"
  using pool_reach_ok [OF assms]
  by (auto simp: pool_ok_def list_all_iff lookup_ok_def lookup_slots_def cimd_inv_def
      cache_ok_def cimd_cache_max_def cimd_cache_ttl_def result_ok_def uris_ok_def split: sum.splits option.splits)

section \<open>One lookup at a time is a schedule\<close>

definition alone :: "cimd_lookup \<Rightarrow> cimd_state \<Rightarrow> pool" where
  "alone l st = (idle (o_start l) st)\<lparr>q_running := [l], q_free := 3\<rparr>"

definition answered :: "cimd_lookup \<Rightarrow> string list option py \<Rightarrow> cimd_state \<Rightarrow> pool" where
  "answered l r st = (idle (o_start l) st)\<lparr>q_results := [(o_client l, r)]\<rparr>"

lemma alone_move:
  assumes "advance env l st = (Inl l', st')" "o_start l' = o_start l"
  shows "pool_step (alone l st) (alone l' st')"
proof -
  from assms(1) have "pool_step (alone l st) ((alone l st)\<lparr>q_store := st', q_running := [] @ l' # []\<rparr>)"
    by (intro pool_step.move [where env = env and l = l and xs = "[]" and ys = "[]"]) (simp_all add: alone_def idle_def)
  with assms(2) show ?thesis by (simp add: alone_def idle_def)
qed

lemma alone_finish:
  assumes "advance env l st = (Inr r, st')"
  shows "pool_step (alone l st) (answered l r st')"
proof -
  from assms have "pool_step (alone l st) (answer (o_client l) r ((alone l st)\<lparr>q_store := st', q_running := [] @ [],
        q_free := Suc (q_free (alone l st))\<rparr>))"
    by (intro pool_step.finish [where env = env and xs = "[]" and ys = "[]"]) (simp_all add: alone_def idle_def)
  then show ?thesis by (simp add: alone_def answered_def answer_def idle_def lookup_slots_def)
qed

lemma alone_addresses:
  assumes "lookup_addresses env cid u as st = (r, st')" "o_client l = cid" "o_url l = u" "o_start l = e_now env"
  shows "pool_step\<^sup>*\<^sup>* (alone (l\<lparr>o_phase := Trying as\<rparr>) st) (answered l r st')"
  using assms(1)
proof (induction as arbitrary: st)
  case Nil
  with assms(2-4) have "advance env (l\<lparr>o_phase := Trying []\<rparr>) st = (Inr r, st')"
    by (auto simp: advance_def conclude_def)
  from alone_finish [OF this] show ?case by (simp add: answered_def r_into_rtranclp)
next
  case (Cons a as)
  show ?case
  proof (cases "pinned_url u a")
    case (Inl e)
    with Cons.prems assms(2-4) have "advance env (l\<lparr>o_phase := Trying (a # as)\<rparr>) st = (Inr r, st')"
      by (auto simp: advance_def fetch_pinned_cimd_def)
    from alone_finish [OF this] show ?thesis by (simp add: answered_def r_into_rtranclp)
  next
    case (Inr url)
    define st1 where "st1 = st\<lparr>s_requests := url # s_requests st\<rparr>"
    obtain v where f: "fetch_pinned_cimd env cid u a st = (v, st1)" "fst (fetch_pinned_cimd env cid u a st1) = v"
      using Inr by (simp add: fetch_pinned_cimd_def st1_def)
    have go: "pool_step (alone (l\<lparr>o_phase := Trying (a # as)\<rparr>) st) (alone (l\<lparr>o_phase := Fetching a as\<rparr>) st1)"
      using Inr assms(3) by (intro alone_move [of env]) (simp_all add: advance_def st1_def)
    have "pool_step\<^sup>*\<^sup>* (alone (l\<lparr>o_phase := Fetching a as\<rparr>) st1) (answered l r st')"
    proof (cases "\<exists>result. v = Inr (False, result)")
      case True
      with Cons.prems f have "lookup_addresses env cid u as st1 = (r, st')" by auto
      note rest = Cons.IH [OF this]
      have "pool_step (alone (l\<lparr>o_phase := Fetching a as\<rparr>) st1) (alone (l\<lparr>o_phase := Trying as\<rparr>) st1)"
        using True f assms(2,3) by (intro alone_move [of env]) (auto simp: advance_def)
      from this rest show ?thesis by (rule converse_rtranclp_into_rtranclp)
    next
      case False
      with Cons.prems f assms(2-4) have "advance env (l\<lparr>o_phase := Fetching a as\<rparr>) st1 = (Inr r, st')"
        by (auto simp: advance_def conclude_def split: sum.splits if_splits)
      from alone_finish [OF this] show ?thesis by (simp add: answered_def r_into_rtranclp)
    qed
    with go show ?thesis by (rule converse_rtranclp_into_rtranclp)
  qed
qed

lemma alone_lookup:
  assumes "lookup_cimd env cid u st = (r, st')"
    and "l = \<lparr>o_client = cid, o_url = u, o_start = e_now env, o_phase = Resolving\<rparr>"
  shows "pool_step\<^sup>*\<^sup>* (alone l st) (answered l r st')"
proof -
  let ?addr = "py_bind (url_port u) (\<lambda>port.
      resolve_public_addresses env (case url_hostname u of Some h \<Rightarrow> h | None \<Rightarrow> [])
        (case port of Some p \<Rightarrow> if p = 0 then 443 else p | None \<Rightarrow> 443))"
  show ?thesis
  proof (cases ?addr)
    case (Inl e)
    with assms have "advance env l st = (Inr r, st')" by (auto simp: advance_def lookup_cimd_def)
    from alone_finish [OF this] show ?thesis by (rule r_into_rtranclp)
  next
    case (Inr as)
    with assms have "lookup_addresses env cid u as st = (r, st')" by (simp add: lookup_cimd_def)
    then have rest: "pool_step\<^sup>*\<^sup>* (alone (l\<lparr>o_phase := Trying as\<rparr>) st) (answered l r st')"
      by (rule alone_addresses) (simp_all add: assms(2))
    have "pool_step (alone l st) (alone (l\<lparr>o_phase := Trying as\<rparr>) st)"
      using Inr assms(2) by (intro alone_move [of env]) (simp_all add: advance_def)
    from this rest show ?thesis by (rule converse_rtranclp_into_rtranclp)
  qed
qed

text \<open>C19: The one-step model of a lookup is one of the schedules: whatever \<open>fetch_cimd_redirects\<close>
  gives when no deadline fires, with its cache and its requests, the event loop reaches from an
  idle pool by steps of this one request.\<close>

theorem lookup_is_schedule:
  assumes "fetch_cimd_redirects env cid st = (r, st')" "\<not> e_deadline env cid"
  shows "pool_step\<^sup>*\<^sup>* (idle (e_now env) st) ((idle (e_now env) st')\<lparr>q_results := [(cid, r)]\<rparr>)"
proof (cases "looked_up cid")
  case None
  with assms(1) have "r = Inr None" "st' = st"
    by (auto simp: looked_up_def fetch_cimd_redirects_def valid_cimd_client_id_def split: if_splits sum.splits option.splits)
  with pool_step.refused [OF None, of "idle (e_now env) st"] show ?thesis
    by (auto simp: answer_def idle_def)
next
  case (Some u)
  let ?p = "idle (e_now env) st"
  show ?thesis
  proof (cases "cached ?p cid")
    case (Some uris)
    with \<open>looked_up cid = Some u\<close> assms(1) have "r = Inr uris" "st' = st"
      by (auto simp: looked_up_def fetch_cimd_redirects_def cached_def idle_def split: if_splits sum.splits option.splits)
    with pool_step.hit [OF \<open>looked_up cid = Some u\<close> Some] show ?thesis
      by (auto simp: answer_def idle_def)
  next
    case None
    define l where "l = \<lparr>o_client = cid, o_url = u, o_start = e_now env, o_phase = Resolving\<rparr>"
    from None \<open>looked_up cid = Some u\<close> assms have "lookup_cimd env cid u st = (r, st')"
      by (auto simp: looked_up_def fetch_cimd_redirects_def cached_def idle_def lookup_under_deadline_def
          split: if_splits sum.splits option.splits)
    from alone_lookup [OF this l_def] have run: "pool_step\<^sup>*\<^sup>* (alone l st) (answered l r st')" .
    have arrive: "pool_step ?p (?p\<lparr>q_waiting := [l]\<rparr>)"
      using pool_step.miss [OF \<open>looked_up cid = Some u\<close> None] by (simp add: idle_def l_def)
    have "pool_step (?p\<lparr>q_waiting := [l]\<rparr>) (alone l st)"
      using pool_step.admit [of "?p\<lparr>q_waiting := [l]\<rparr>" l "[]" 3] by (simp add: alone_def idle_def lookup_slots_def l_def)
    from this run have "pool_step\<^sup>*\<^sup>* (?p\<lparr>q_waiting := [l]\<rparr>) (answered l r st')"
      by (rule converse_rtranclp_into_rtranclp)
    with arrive have "pool_step\<^sup>*\<^sup>* ?p (answered l r st')" by (rule converse_rtranclp_into_rtranclp)
    then show ?thesis by (simp add: answered_def l_def)
  qed
qed

lemma lookup_is_schedule_witness:
  "\<exists>r st'. fetch_cimd_redirects dark_env ''https://c.example/id'' fresh_cimd = (r, st')
     \<and> pool_step\<^sup>*\<^sup>* (idle 0 fresh_cimd) ((idle 0 st')\<lparr>q_results := [(''https://c.example/id'', r)]\<rparr>)"
proof -
  obtain r st' where f: "fetch_cimd_redirects dark_env ''https://c.example/id'' fresh_cimd = (r, st')" by force
  have "\<not> e_deadline dark_env ''https://c.example/id''" "e_now dark_env = 0" by (simp_all add: dark_env_def)
  with lookup_is_schedule [OF f] f show ?thesis by auto
qed

lemma cimd_pool_safe_witness:
  "\<exists>p l. pool_reach 0 p \<and> q_running p = [l] \<and> q_free p = 3 \<and> looked_up (o_client l) = Some (o_url l)"
proof -
  have "(case looked_up ''https://c.example/id'' of Some _ \<Rightarrow> True | None \<Rightarrow> False)" by code_simp
  then obtain u where u: "looked_up ''https://c.example/id'' = Some u" by (auto split: option.splits)
  let ?p = "idle 0 \<lparr>s_cache = [], s_requests = []\<rparr>"
  let ?l = "\<lparr>o_client = ''https://c.example/id'', o_url = u, o_start = 0, o_phase = Resolving\<rparr>"
  have "pool_step ?p (?p\<lparr>q_waiting := [?l]\<rparr>)"
    using pool_step.miss [OF u, of ?p] by (simp add: cached_def idle_def)
  moreover have "pool_step (?p\<lparr>q_waiting := [?l]\<rparr>) (?p\<lparr>q_running := [?l], q_free := 3\<rparr>)"
    using pool_step.admit [of "?p\<lparr>q_waiting := [?l]\<rparr>" ?l "[]" 3] by (simp add: idle_def lookup_slots_def)
  ultimately have "pool_reach 0 (?p\<lparr>q_running := [?l], q_free := 3\<rparr>)" by (blast intro: pool_start pool_more)
  from cimd_pool_safe [OF this] this show ?thesis by (intro exI) (auto simp: idle_def)
qed

end
