(* ===== verification/Worker.thy ===== *)
theory Worker
  imports Manager
begin

text \<open>
  \<open>embedded_server.py\<close> as the two threads it is: the event loop, which starts the server thread
  and stops it, and the worker, which runs \<open>_thread_main\<close> on a loop of its own. They share the
  fields of the manager and the worker's queue of callbacks, and interleave between any two
  accesses. \<open>Manager\<close> has what each side computes; here is what the other may see meanwhile.
  A manager is started once: every bring-up makes a new one.
\<close>

section \<open>The two threads\<close>

text \<open>Where the worker is in \<open>_thread_main\<close> and \<open>_serve\<close>.\<close>

datatype worker_pc =
    Begun \<comment> \<open>before \<open>new_event_loop\<close>\<close>
  | LoopMade \<comment> \<open>before \<open>self._loop = loop\<close>\<close>
  | LoopPublished \<comment> \<open>before \<open>self._stop_event = asyncio.Event()\<close>\<close>
  | Importing nat \<comment> \<open>the attempt to be made\<close>
  | Preparing \<comment> \<open>in \<open>_serve\<close>, before the stop event and the server race\<close>
  | Racing
  | Exiting \<comment> \<open>the server was asked to exit\<close>
  | Ending "raised + unit" \<comment> \<open>the outcome, before the handlers\<close>
  | Draining nat \<comment> \<open>how many of the two shutdowns of the \<open>finally\<close> block are left\<close>
  | Dead

text \<open>Where the event loop is; the flags say whether \<open>async_stop\<close> read a loop and an event.\<close>

datatype main_pc =
    Unstarted
  | Watching \<comment> \<open>\<open>_async_wait_until_ready\<close>\<close>
  | Running
  | StopEntered \<comment> \<open>the thread was read\<close>
  | StopLoop bool
  | StopEvent bool bool
  | Joining bool \<comment> \<open>both were there\<close>
  | Stopped bool \<comment> \<open>the join ended because the thread was dead\<close>

record threads =
  t_main :: main_pc
  t_worker :: "worker_pc option" \<comment> \<open>the thread object, once it is started\<close>
  t_thread :: bool \<comment> \<open>the fields of the manager that are not \<open>None\<close>\<close>
  t_loop :: bool
  t_event :: bool
  t_exc :: "raised option"
  t_loop_open :: bool \<comment> \<open>the worker's loop exists and is not closed\<close>
  t_posted :: bool \<comment> \<open>\<open>stop_event.set\<close> is in the queue of the worker's loop\<close>
  t_set :: bool \<comment> \<open>the event is set\<close>

definition unstarted :: threads where
  "unstarted = \<lparr>t_main = Unstarted, t_worker = None, t_thread = False, t_loop = False, t_event = False,
     t_exc = None, t_loop_open = False, t_posted = False, t_set = False\<rparr>"

text \<open>The loop runs callbacks in these phases.\<close>

definition loop_runs :: "worker_pc \<Rightarrow> bool" where
  "loop_runs w = (case w of Preparing \<Rightarrow> True | Racing \<Rightarrow> True | Exiting \<Rightarrow> True | Draining k \<Rightarrow> k \<noteq> 0 | _ \<Rightarrow> False)"

text \<open>The handlers of \<open>_thread_main\<close>: an exception to keep, or nothing to write.\<close>

definition keep_exc :: "raised + unit \<Rightarrow> raised option \<Rightarrow> raised option" where
  "keep_exc outcome old = (case thread_exc_of outcome of None \<Rightarrow> old | Some e \<Rightarrow> Some e)"

section \<open>Steps\<close>

text \<open>
  The worker, for the outcomes of the import attempts. The server, while it races, may serve on
  as long as its loop has nothing queued.
\<close>

inductive worker_step :: "(nat \<Rightarrow> import_outcome) \<Rightarrow> threads \<Rightarrow> threads \<Rightarrow> bool" for attempt where
  no_loop: "t_worker s = Some Begun \<Longrightarrow> worker_step attempt s (s\<lparr>t_worker := Some Dead\<rparr>)"
| new_loop: "t_worker s = Some Begun \<Longrightarrow> worker_step attempt s (s\<lparr>t_worker := Some LoopMade, t_loop_open := True\<rparr>)"
| publish_loop: "t_worker s = Some LoopMade \<Longrightarrow>
    worker_step attempt s (s\<lparr>t_worker := Some LoopPublished, t_loop := True\<rparr>)"
| publish_event: "t_worker s = Some LoopPublished \<Longrightarrow>
    worker_step attempt s (s\<lparr>t_worker := Some (Importing 1), t_event := True\<rparr>)"
| import_again: "t_worker s = Some (Importing n) \<Longrightarrow> locked (attempt n) \<Longrightarrow> n \<le> length retry_delays \<Longrightarrow>
    worker_step attempt s (s\<lparr>t_worker := Some (Importing (Suc n))\<rparr>)"
| import_fails: "t_worker s = Some (Importing n) \<Longrightarrow> locked (attempt n) \<longrightarrow> length retry_delays < n \<Longrightarrow>
    settled (attempt n) = Inl e \<Longrightarrow> worker_step attempt s (s\<lparr>t_worker := Some (Ending (Inl e))\<rparr>)"
| import_done: "t_worker s = Some (Importing n) \<Longrightarrow> attempt n = Imported \<Longrightarrow>
    worker_step attempt s (s\<lparr>t_worker := Some Preparing\<rparr>)"
| no_version: "t_worker s = Some (Importing n) \<Longrightarrow> attempt n = Imported \<Longrightarrow>
    worker_step attempt s (s\<lparr>t_worker := Some (Ending (Inl OtherRaised))\<rparr>)"
| prepare_fails: "t_worker s = Some Preparing \<Longrightarrow> worker_step attempt s (s\<lparr>t_worker := Some (Ending (Inl e))\<rparr>)"
| prepared: "t_worker s = Some Preparing \<Longrightarrow> worker_step attempt s (s\<lparr>t_worker := Some Racing\<rparr>)"
| deliver: "t_worker s = Some w \<Longrightarrow> loop_runs w \<Longrightarrow> t_posted s \<Longrightarrow>
    worker_step attempt s (s\<lparr>t_posted := False, t_set := True\<rparr>)"
| serve_on: "t_worker s = Some Racing \<Longrightarrow> \<not> t_posted s \<Longrightarrow> \<not> t_set s \<Longrightarrow> worker_step attempt s s"
| stop_wins: "t_worker s = Some Racing \<Longrightarrow> t_set s \<Longrightarrow> worker_step attempt s (s\<lparr>t_worker := Some Exiting\<rparr>)"
| server_wins: "t_worker s = Some Racing \<Longrightarrow> worker_step attempt s (s\<lparr>t_worker := Some (Ending r)\<rparr>)"
| exited: "t_worker s = Some Exiting \<Longrightarrow> worker_step attempt s (s\<lparr>t_worker := Some (Ending r)\<rparr>)"
| handle: "t_worker s = Some (Ending r) \<Longrightarrow>
    worker_step attempt s (s\<lparr>t_worker := Some (Draining 2), t_exc := keep_exc r (t_exc s)\<rparr>)"
| drain: "t_worker s = Some (Draining (Suc k)) \<Longrightarrow> worker_step attempt s (s\<lparr>t_worker := Some (Draining k)\<rparr>)"
| close_loop: "t_worker s = Some (Draining 0) \<Longrightarrow>
    worker_step attempt s (s\<lparr>t_worker := Some Dead, t_loop_open := False\<rparr>)"

text \<open>
  The event loop. A stop may come at any time after the start: from the wait itself when its time
  is up, or from a failed start, a cancelled one or an unload. The join ends when the thread is
  dead or when its time is up, or it is cancelled and the manager keeps its fields.
\<close>

inductive main_step :: "threads \<Rightarrow> threads \<Rightarrow> bool" where
  start: "t_main s = Unstarted \<Longrightarrow>
    main_step s (s\<lparr>t_main := Watching, t_worker := Some Begun, t_thread := True, t_exc := None\<rparr>)"
| ready: "t_main s = Watching \<Longrightarrow> main_step s (s\<lparr>t_main := Running\<rparr>)"
| stop: "t_main s = Watching \<or> t_main s = Running \<Longrightarrow> t_thread s \<Longrightarrow> main_step s (s\<lparr>t_main := StopEntered\<rparr>)"
| read_loop: "t_main s = StopEntered \<Longrightarrow> main_step s (s\<lparr>t_main := StopLoop (t_loop s)\<rparr>)"
| read_event: "t_main s = StopLoop l \<Longrightarrow> main_step s (s\<lparr>t_main := StopEvent l (t_event s)\<rparr>)"
| post: "t_main s = StopEvent l e \<Longrightarrow>
    main_step s (s\<lparr>t_main := Joining (l \<and> e), t_posted := t_posted s \<or> (l \<and> e \<and> t_loop_open s)\<rparr>)"
| joined: "t_main s = Joining b \<Longrightarrow> t_worker s = Some Dead \<Longrightarrow>
    main_step s (s\<lparr>t_main := Stopped True, t_thread := False, t_loop := False, t_event := False, t_exc := None\<rparr>)"
| join_times_out: "t_main s = Joining b \<Longrightarrow> t_worker s \<noteq> Some Dead \<Longrightarrow>
    main_step s (s\<lparr>t_main := Stopped False, t_thread := False, t_loop := False, t_event := False, t_exc := None\<rparr>)"
| join_cancelled: "t_main s = Joining b \<Longrightarrow> main_step s (s\<lparr>t_main := Running\<rparr>)"

inductive threads_reach :: "(nat \<Rightarrow> import_outcome) \<Rightarrow> threads \<Rightarrow> bool" for attempt where
  reach_start: "threads_reach attempt unstarted"
| reach_worker: "threads_reach attempt s \<Longrightarrow> worker_step attempt s s' \<Longrightarrow> threads_reach attempt s'"
| reach_main: "threads_reach attempt s \<Longrightarrow> main_step s s' \<Longrightarrow> threads_reach attempt s'"

text \<open>A run with so many steps of the worker and so many of the event loop.\<close>

inductive threads_run :: "(nat \<Rightarrow> import_outcome) \<Rightarrow> threads \<Rightarrow> nat \<Rightarrow> nat \<Rightarrow> threads \<Rightarrow> bool" for attempt where
  run_here: "threads_run attempt s 0 0 s"
| run_worker: "threads_run attempt s n m s' \<Longrightarrow> worker_step attempt s' s'' \<Longrightarrow> threads_run attempt s (Suc n) m s''"
| run_main: "threads_run attempt s n m s' \<Longrightarrow> main_step s' s'' \<Longrightarrow> threads_run attempt s n (Suc m) s''"

section \<open>The invariant\<close>

text \<open>How many steps of its own the worker is from its end, deliveries and service apart.\<close>

fun steps_left :: "worker_pc \<Rightarrow> nat" where
  "steps_left Dead = 0"
| "steps_left (Draining k) = Suc k"
| "steps_left (Ending r) = 4"
| "steps_left Exiting = 5"
| "steps_left Racing = 6"
| "steps_left Preparing = 7"
| "steps_left (Importing n) = 13 - n"
| "steps_left LoopPublished = 13"
| "steps_left LoopMade = 14"
| "steps_left Begun = 15"

text \<open>What an outcome or a kept exception may be: one that \<open>thread_main\<close> gives.\<close>

definition outcome_ok :: "(nat \<Rightarrow> import_outcome) \<Rightarrow> raised option \<Rightarrow> bool" where
  "outcome_ok attempt e \<longleftrightarrow> (\<exists>race. e = thread_main attempt race)"

fun worker_ok :: "(nat \<Rightarrow> import_outcome) \<Rightarrow> worker_pc \<Rightarrow> bool" where
  "worker_ok attempt (Importing n) = (1 \<le> n \<and> n \<le> 5 \<and> (\<forall>i. 1 \<le> i \<and> i < n \<longrightarrow> locked (attempt i)))"
| "worker_ok attempt (Ending r) = outcome_ok attempt (thread_exc_of r)"
| "worker_ok attempt (Draining k) = (k \<le> 2)"
| "worker_ok attempt w = True"

definition imported :: "(nat \<Rightarrow> import_outcome) \<Rightarrow> bool" where
  "imported attempt \<longleftrightarrow> fst (import_runtime attempt 1 retry_delays) = Inr ()"

definition past_import :: "worker_pc \<Rightarrow> bool" where
  "past_import w \<longleftrightarrow> w \<in> {Preparing, Racing, Exiting}"

definition past_handlers :: "worker_pc \<Rightarrow> bool" where
  "past_handlers w = (case w of Draining k \<Rightarrow> True | Dead \<Rightarrow> True | _ \<Rightarrow> False)"

definition is_stopped :: "main_pc \<Rightarrow> bool" where
  "is_stopped m = (case m of Stopped b \<Rightarrow> True | _ \<Rightarrow> False)"

text \<open>A step in the race that waits for nothing: the stop is delivered or answered.\<close>

definition own_step :: "(nat \<Rightarrow> import_outcome) \<Rightarrow> threads \<Rightarrow> threads \<Rightarrow> bool" where
  "own_step attempt s s' \<longleftrightarrow> worker_step attempt s s'
     \<and> (t_worker s = Some Racing \<longrightarrow> t_worker s' = Some Exiting \<or> \<not> t_set s \<and> t_set s')"

definition heard :: "threads \<Rightarrow> bool" where
  "heard s \<longleftrightarrow> t_posted s \<or> t_set s \<or> t_worker s = Some Dead"

definition threads_inv :: "(nat \<Rightarrow> import_outcome) \<Rightarrow> threads \<Rightarrow> bool" where
  "threads_inv attempt s \<longleftrightarrow>
     (case t_worker s of
        None \<Rightarrow> t_main s = Unstarted \<and> s = unstarted
      | Some w \<Rightarrow>
          t_main s \<noteq> Unstarted \<and> worker_ok attempt w
          \<and> (past_import w \<longrightarrow> imported attempt)
          \<and> (t_loop_open s \<longleftrightarrow> w \<noteq> Begun \<and> w \<noteq> Dead)
          \<and> (t_loop s \<longrightarrow> steps_left w \<le> 13) \<and> (t_event s \<longrightarrow> steps_left w \<le> 12)
          \<and> (\<not> is_stopped (t_main s) \<longrightarrow> t_thread s \<and> (t_event s \<longrightarrow> t_loop s)
                \<and> (w \<noteq> Dead \<longrightarrow> (t_loop s \<longleftrightarrow> steps_left w \<le> 13)))
          \<and> (\<not> past_handlers w \<longrightarrow> t_exc s = None)
          \<and> (past_handlers w \<longrightarrow> \<not> is_stopped (t_main s) \<longrightarrow> t_loop s \<longrightarrow> outcome_ok attempt (t_exc s))
          \<and> (case t_main s of
               StopLoop l \<Rightarrow> l \<longrightarrow> steps_left w \<le> 13
             | StopEvent l e \<Rightarrow> e \<longrightarrow> steps_left w \<le> 12
             | Joining b \<Rightarrow> b \<longrightarrow> heard s
             | Stopped b \<Rightarrow> b \<longrightarrow> w = Dead \<and> \<not> t_thread s \<and> \<not> t_loop s \<and> \<not> t_event s \<and> t_exc s = None
             | _ \<Rightarrow> True))"

lemma imported_outcome: "imported attempt \<Longrightarrow> outcome_ok attempt (thread_exc_of r)"
  by (auto simp: outcome_ok_def imported_def thread_main_def serve_def intro: exI [of _ "ServerFirst r"])

lemma import_at:
  assumes "worker_ok attempt (Importing n)" "locked (attempt n) \<longrightarrow> length retry_delays < n"
  shows "fst (import_runtime attempt 1 retry_delays) = settled (attempt n)"
proof -
  have len: "length retry_delays = 4" by (simp add: retry_delays_def)
  let ?P = "\<lambda>k. \<not> locked (attempt (1 + k))"
  show ?thesis
  proof (cases "n = 5")
    case True
    with assms(1) have "find ?P [0..<4] = None" by (auto simp: find_None_iff)
    with True show ?thesis using import_runtime_cases [of attempt 1 retry_delays] by (simp add: len)
  next
    case False
    with assms len have n: "1 \<le> n" "n \<le> 4" "\<not> locked (attempt n)" "\<forall>i. 1 \<le> i \<and> i < n \<longrightarrow> locked (attempt i)" by auto
    then have "find ?P [0..<4] = Some (n - 1)"
      by (auto simp: find_Some_iff intro!: exI [of _ "n - 1"])
    with n show ?thesis using import_runtime_cases [of attempt 1 retry_delays] by (simp add: len)
  qed
qed

lemma settled_imported: "settled outcome = Inr () \<longleftrightarrow> outcome = Imported"
  by (cases outcome) (auto simp: settled_def)

lemma import_failed_outcome:
  "worker_ok attempt (Importing n) \<Longrightarrow> locked (attempt n) \<longrightarrow> length retry_delays < n \<Longrightarrow> settled (attempt n) = Inl e
   \<Longrightarrow> outcome_ok attempt (thread_exc_of (Inl e))"
  using import_at [of attempt n] by (simp add: outcome_ok_def thread_main_def)

lemma import_done_imported:
  "worker_ok attempt (Importing n) \<Longrightarrow> attempt n = Imported \<Longrightarrow> imported attempt"
  using import_at [of attempt n] by (simp add: imported_def settled_def locked_def)

lemma keep_first: "keep_exc r None = thread_exc_of r"
  by (simp add: keep_exc_def split: option.splits)

lemmas inv_defs = threads_inv_def past_import_def past_handlers_def is_stopped_def heard_def

lemma worker_step_inv: "worker_step attempt s s' \<Longrightarrow> threads_inv attempt s \<Longrightarrow> threads_inv attempt s'"
proof (induction rule: worker_step.induct)
  case (import_again s n)
  then show ?case
    by (auto simp: inv_defs retry_delays_def less_Suc_eq split: main_pc.splits)
next
  case (import_fails s n e)
  then have "outcome_ok attempt (thread_exc_of (Inl e))"
    by (intro import_failed_outcome) (simp_all add: threads_inv_def)
  with import_fails show ?case by (auto simp: inv_defs split: main_pc.splits)
next
  case (import_done s n)
  then have "imported attempt" by (intro import_done_imported) (simp_all add: threads_inv_def)
  with import_done show ?case by (auto simp: inv_defs split: main_pc.splits)
next
  case (no_version s n)
  then have "imported attempt" by (intro import_done_imported) (simp_all add: threads_inv_def)
  from imported_outcome [OF this] no_version show ?case by (auto simp: inv_defs split: main_pc.splits)
next
  case (prepare_fails s e)
  then have "imported attempt" by (simp add: inv_defs)
  from imported_outcome [OF this] prepare_fails show ?case by (auto simp: inv_defs split: main_pc.splits)
next
  case (deliver s w)
  then show ?case by (cases w) (auto simp: inv_defs loop_runs_def split: main_pc.splits)
next
  case (server_wins s r)
  then have "imported attempt" by (simp add: inv_defs)
  from imported_outcome [OF this] server_wins show ?case by (auto simp: inv_defs split: main_pc.splits)
next
  case (exited s r)
  then have "imported attempt" by (simp add: inv_defs)
  from imported_outcome [OF this] exited show ?case by (auto simp: inv_defs split: main_pc.splits)
next
  case (handle s r)
  then show ?case by (auto simp: inv_defs keep_first split: main_pc.splits)
qed (auto simp: inv_defs split: main_pc.splits)

lemma main_step_inv: "main_step s s' \<Longrightarrow> threads_inv attempt s \<Longrightarrow> threads_inv attempt s'"
proof (induction rule: main_step.induct)
  case (post s l e)
  then obtain w where "t_worker s = Some w" by (auto simp: threads_inv_def unstarted_def split: option.splits)
  with post show ?case by (cases w) (auto simp: inv_defs)
qed (auto simp: inv_defs unstarted_def split: option.splits main_pc.splits)

lemma threads_reach_inv: "threads_reach attempt s \<Longrightarrow> threads_inv attempt s"
proof (induction rule: threads_reach.induct)
  case reach_start
  show ?case by (simp add: threads_inv_def unstarted_def)
qed (blast intro: worker_step_inv main_step_inv)+

section \<open>A stop that is heard\<close>

definition on_course :: "threads \<Rightarrow> bool" where
  "on_course s \<longleftrightarrow> (\<not> is_stopped (t_main s) \<longrightarrow> t_loop s \<and> t_event s)
     \<and> (case t_main s of Unstarted \<Rightarrow> False | StopLoop l \<Rightarrow> l | StopEvent l e \<Rightarrow> l \<and> e | Joining b \<Rightarrow> b | _ \<Rightarrow> True)"

lemma worker_step_main: "worker_step attempt s s' \<Longrightarrow> t_main s' = t_main s"
  by (induction rule: worker_step.induct) simp_all

lemma worker_step_course: "worker_step attempt s s' \<Longrightarrow> on_course s \<Longrightarrow> on_course s'"
  by (induction rule: worker_step.induct) (simp_all add: on_course_def)

lemma main_step_course: "main_step s s' \<Longrightarrow> on_course s \<Longrightarrow> on_course s'"
  by (induction rule: main_step.induct) (auto simp: on_course_def is_stopped_def)

lemma threads_run_course: "threads_run attempt s n m s' \<Longrightarrow> on_course s \<Longrightarrow> on_course s'"
  by (induction rule: threads_run.induct) (blast intro: worker_step_course main_step_course)+

lemma threads_run_inv: "threads_run attempt s n m s' \<Longrightarrow> threads_inv attempt s \<Longrightarrow> threads_inv attempt s'"
  by (induction rule: threads_run.induct) (blast intro: worker_step_inv main_step_inv)+

lemma worker_step_heard: "worker_step attempt s s' \<Longrightarrow> heard s \<Longrightarrow> heard s'"
  by (induction rule: worker_step.induct) (auto simp: heard_def loop_runs_def)

lemma main_step_heard: "main_step s s' \<Longrightarrow> t_worker s \<noteq> None \<Longrightarrow> threads_inv attempt s \<Longrightarrow> heard s \<Longrightarrow> heard s'"
  by (induction rule: main_step.induct) (auto simp: heard_def threads_inv_def)

text \<open>Every step of a worker that has a stop to hear brings it nearer to its end.\<close>

definition work_left :: "threads \<Rightarrow> nat" where
  "work_left s = (case t_worker s of None \<Rightarrow> 0 | Some w \<Rightarrow> steps_left w + of_bool (t_posted s))"

lemma worker_step_nearer:
  assumes "worker_step attempt s s'" "threads_inv attempt s" "heard s"
  shows "work_left s' < work_left s"
proof -
  have n: "n \<le> 5" if "t_worker s = Some (Importing n)" for n
    using assms(2) that by (simp add: threads_inv_def)
  have len: "length retry_delays = 4" by (simp add: retry_delays_def)
  from assms(1) show ?thesis
  proof cases
    case (import_again n)
    with n [of n] show ?thesis by (simp add: work_left_def)
  next
    case (import_fails n e)
    with n [of n] show ?thesis by (simp add: work_left_def)
  next
    case (import_done n)
    with n [of n] show ?thesis by (simp add: work_left_def)
  next
    case (no_version n)
    with n [of n] show ?thesis by (simp add: work_left_def)
  next
    case serve_on
    with assms(3) show ?thesis by (simp add: heard_def)
  qed (simp_all add: work_left_def)
qed

lemma main_step_worker:
  assumes "main_step s s'" "t_worker s \<noteq> None" "threads_inv attempt s"
  shows "t_worker s' = t_worker s \<and> work_left s' \<le> Suc (work_left s)"
  using assms(1)
proof cases
  case start
  with assms(2,3) show ?thesis by (auto simp: threads_inv_def)
qed (auto simp: work_left_def split: option.split)

lemma worker_step_alive: "worker_step attempt s s' \<Longrightarrow> t_worker s' \<noteq> None"
  by (induction rule: worker_step.induct) auto

lemma worker_never_stuck:
  assumes "threads_inv attempt s" "heard s" "t_worker s = Some w" "w \<noteq> Dead"
  shows "\<exists>s'. own_step attempt s s'"
proof (cases "w = Racing")
  case True
  show ?thesis
  proof (cases "t_set s")
    case set: True
    from worker_step.stop_wins [OF _ set] True assms(3)
    have "own_step attempt s (s\<lparr>t_worker := Some Exiting\<rparr>)" by (simp add: own_step_def)
    then show ?thesis ..
  next
    case False
    with assms(2) True assms(3) have "t_posted s" by (simp add: heard_def)
    from worker_step.deliver [OF assms(3) _ this] True False assms(3)
    have "own_step attempt s (s\<lparr>t_posted := False, t_set := True\<rparr>)" by (simp add: own_step_def loop_runs_def)
    then show ?thesis ..
  qed
next
  case not_racing: False
  have "\<exists>s'. worker_step attempt s s'"
  proof (cases w)
    case (Importing n)
    show ?thesis
    proof (cases "attempt n")
      case Imported
      with Importing assms(3) show ?thesis by (blast intro: worker_step.import_done)
    next
      case (RuntimeErr heap err)
      show ?thesis
      proof (cases "locked (attempt n) \<and> n \<le> length retry_delays")
        case True
        with Importing assms(3) show ?thesis by (blast intro: worker_step.import_again)
      next
        case False
        obtain e where "settled (attempt n) = Inl e" using RuntimeErr by (auto simp: settled_def)
        moreover from False have "locked (attempt n) \<longrightarrow> length retry_delays < n" by auto
        ultimately show ?thesis using Importing assms(3) by (blast intro: worker_step.import_fails)
      qed
    next
      case (OtherErr r)
      then have "settled (attempt n) = Inl r" "locked (attempt n) \<longrightarrow> length retry_delays < n"
        by (simp_all add: settled_def locked_def)
      with Importing assms(3) show ?thesis by (blast intro: worker_step.import_fails)
    qed
  next
    case (Draining k)
    with assms(3) show ?thesis by (cases k) (blast intro: worker_step.drain worker_step.close_loop)+
  qed (use assms(3,4) in \<open>blast intro: worker_step.intros\<close>)+
  with not_racing assms(3) show ?thesis by (auto simp: own_step_def)
qed

lemma run_from_heard:
  assumes "threads_run attempt s n m s'" "threads_inv attempt s" "heard s" "t_worker s \<noteq> None"
  shows "threads_inv attempt s' \<and> heard s' \<and> t_worker s' \<noteq> None \<and> n + work_left s' \<le> work_left s + m"
  using assms
proof (induction rule: threads_run.induct)
  case (run_here s)
  then show ?case by simp
next
  case (run_worker s n m s' s'')
  then have IH: "threads_inv attempt s'" "heard s'" "n + work_left s' \<le> work_left s + m" by simp_all
  from IH worker_step_inv [OF run_worker(2)] worker_step_heard [OF run_worker(2)] worker_step_nearer [OF run_worker(2)]
    worker_step_alive [OF run_worker(2)]
  show ?case by simp
next
  case (run_main s n m s' s'')
  then have IH: "threads_inv attempt s'" "heard s'" "t_worker s' \<noteq> None" "n + work_left s' \<le> work_left s + m" by simp_all
  from main_step_worker [OF run_main(2) IH(3,1)] IH main_step_inv [OF run_main(2) IH(1)]
    main_step_heard [OF run_main(2) IH(3,1,2)]
  show ?case by auto
qed

text \<open>Posting reaches a loop that is still open, and a closed one belongs to a dead worker.\<close>

lemma joining_heard: "threads_inv attempt s \<Longrightarrow> t_main s = Joining True \<Longrightarrow> heard s \<and> t_worker s \<noteq> None"
  by (auto simp: threads_inv_def unstarted_def split: option.splits)

lemma published_work: "threads_inv attempt s \<Longrightarrow> t_event s \<Longrightarrow> work_left s \<le> 13"
  by (auto simp: threads_inv_def unstarted_def work_left_def split: option.splits)

lemma threads_run_reach: "threads_run attempt s n m s' \<Longrightarrow> threads_reach attempt s \<Longrightarrow> threads_reach attempt s'"
  by (induction rule: threads_run.induct) (blast intro: reach_worker reach_main)+

text \<open>C5: A stop that finds the worker published is heard and ends it. Once the worker has published
  its event, every later stop reads both references and puts its request into the queue of the
  worker's loop; from the moment the thread is being joined the worker makes at most thirteen
  steps, and one more for each step of the event loop, is never stuck before it is dead, whatever
  the imports do and without the server ending by itself, and when it is dead its loop is closed.\<close>

theorem stop_ends_worker:
  assumes "threads_reach attempt s" "t_event s" "t_main s = Watching \<or> t_main s = Running"
    and "threads_run attempt s n\<^sub>0 m\<^sub>0 s\<^sub>1" "t_main s\<^sub>1 = Joining b" "threads_run attempt s\<^sub>1 n m s\<^sub>2"
  shows "b \<and> n \<le> 13 + m
     \<and> (t_worker s\<^sub>2 = Some Dead \<and> \<not> t_loop_open s\<^sub>2 \<or> t_worker s\<^sub>2 \<noteq> Some Dead \<and> (\<exists>s\<^sub>3. own_step attempt s\<^sub>2 s\<^sub>3))"
proof -
  from assms(1) have inv: "threads_inv attempt s" by (rule threads_reach_inv)
  then obtain w where "t_worker s = Some w" using assms(3) by (auto simp: threads_inv_def split: option.splits)
  with inv assms(2,3) have "on_course s"
    by (auto simp: on_course_def threads_inv_def is_stopped_def)
  with assms(4) have course: "on_course s\<^sub>1" by (rule threads_run_course)
  with assms(5) have b: "b" "t_event s\<^sub>1" by (simp_all add: on_course_def is_stopped_def)
  have inv1: "threads_inv attempt s\<^sub>1" using assms(4) inv by (rule threads_run_inv)
  with assms(5) b have "heard s\<^sub>1" "t_worker s\<^sub>1 \<noteq> None" using joining_heard by auto
  note run = run_from_heard [OF assms(6) inv1 this]
  moreover from inv1 b(2) have "work_left s\<^sub>1 \<le> 13" by (rule published_work)
  moreover obtain w\<^sub>2 where w: "t_worker s\<^sub>2 = Some w\<^sub>2" using run by auto
  moreover from run w have "w\<^sub>2 = Dead \<Longrightarrow> \<not> t_loop_open s\<^sub>2" by (simp add: threads_inv_def)
  moreover from run w have "w\<^sub>2 \<noteq> Dead \<Longrightarrow> \<exists>s\<^sub>3. own_step attempt s\<^sub>2 s\<^sub>3" by (blast intro: worker_never_stuck)
  ultimately show ?thesis using b(1) by auto
qed

section \<open>What the worker leaves\<close>

text \<open>The event loop watching, and the worker in some phase.\<close>

definition watched :: "worker_pc \<Rightarrow> raised option \<Rightarrow> threads" where
  "watched w e = \<lparr>t_main = Watching, t_worker = Some w, t_thread = True, t_loop = (steps_left w \<le> 13),
     t_event = (steps_left w \<le> 12), t_exc = e, t_loop_open = (w \<noteq> Begun \<and> w \<noteq> Dead), t_posted = False, t_set = False\<rparr>"

lemma watched_step:
  assumes "threads_reach attempt (watched w e)" "worker_step attempt (watched w e) s"
    and "s = watched w' e'"
  shows "threads_reach attempt (watched w' e')"
  using assms by (blast intro: reach_worker)

lemma watched_import:
  assumes "n \<le> 4" "\<forall>i. 1 \<le> i \<and> i \<le> n \<longrightarrow> locked (attempt i)"
  shows "threads_reach attempt (watched (Importing (Suc n)) None)"
  using assms
proof (induction n)
  case 0
  have "main_step unstarted (watched Begun None)"
    using main_step.start [of unstarted] by (simp add: unstarted_def watched_def)
  with reach_start have "threads_reach attempt (watched Begun None)" by (rule reach_main)
  then have "threads_reach attempt (watched LoopMade None)"
    by (rule watched_step [OF _ worker_step.new_loop]) (simp_all add: watched_def)
  then have "threads_reach attempt (watched LoopPublished None)"
    by (rule watched_step [OF _ worker_step.publish_loop]) (simp_all add: watched_def)
  then show ?case
    by (rule watched_step [OF _ worker_step.publish_event]) (simp_all add: watched_def)
next
  case (Suc n)
  then have "threads_reach attempt (watched (Importing (Suc n)) None)" by simp
  then show ?case
    by (rule watched_step [OF _ worker_step.import_again [of _ "Suc n"]])
      (use Suc.prems in \<open>auto simp: watched_def retry_delays_def\<close>)
qed

lemma watched_end:
  assumes "threads_reach attempt (watched (Ending r) None)"
  shows "threads_reach attempt (watched Dead (thread_exc_of r))"
proof -
  from assms have "threads_reach attempt (watched (Draining 2) (thread_exc_of r))"
    by (rule watched_step [OF _ worker_step.handle]) (simp_all add: watched_def keep_first)
  then have "threads_reach attempt (watched (Draining 1) (thread_exc_of r))"
    by (rule watched_step [OF _ worker_step.drain [of _ 1]]) (simp_all add: watched_def)
  then have "threads_reach attempt (watched (Draining 0) (thread_exc_of r))"
    by (rule watched_step [OF _ worker_step.drain [of _ 0]]) (simp_all add: watched_def)
  then show ?thesis
    by (rule watched_step [OF _ worker_step.close_loop]) (simp_all add: watched_def)
qed

lemma thread_main_reached:
  "\<exists>s. threads_reach attempt s \<and> t_worker s = Some Dead \<and> t_loop s \<and> \<not> is_stopped (t_main s)
     \<and> t_exc s = thread_main attempt race"
proof -
  have len: "length retry_delays = 4" by (simp add: retry_delays_def)
  obtain k where k: "k \<le> 4" "\<forall>i < k. locked (attempt (Suc i))" "locked (attempt (Suc k)) \<longrightarrow> k = 4"
    and result: "import_runtime attempt 1 retry_delays = (settled (attempt (Suc k)), take k retry_delays)"
    using import_retry_cases [of attempt] by blast
  from result have run: "fst (import_runtime attempt 1 retry_delays) = settled (attempt (Suc k))" by simp
  have at: "threads_reach attempt (watched (Importing (Suc k)) None)"
  proof (rule watched_import [OF k(1)], intro allI impI)
    fix i assume "1 \<le> i \<and> i \<le> k"
    then show "locked (attempt i)" using k(2) by (cases i) auto
  qed
  obtain r where r: "thread_main attempt race = thread_exc_of r" "threads_reach attempt (watched (Ending r) None)"
  proof (cases "settled (attempt (Suc k))")
    case (Inl e)
    have "threads_reach attempt (watched (Ending (Inl e)) None)"
      using at by (rule watched_step [OF _ worker_step.import_fails [of _ "Suc k" _ e]])
        (use k Inl len in \<open>auto simp: watched_def\<close>)
    with that [of "Inl e"] run Inl show thesis by (simp add: thread_main_def)
  next
    case (Inr u)
    then have imp: "attempt (Suc k) = Imported" by (simp add: settled_imported [symmetric])
    from at have "threads_reach attempt (watched Preparing None)"
      by (rule watched_step [OF _ worker_step.import_done [of _ "Suc k"]]) (use k imp in \<open>auto simp: watched_def\<close>)
    then have "threads_reach attempt (watched Racing None)"
      by (rule watched_step [OF _ worker_step.prepared]) (simp_all add: watched_def)
    then have "threads_reach attempt (watched (Ending (fst (serve race))) None)"
      by (rule watched_step [OF _ worker_step.server_wins]) (simp_all add: watched_def)
    with that [of "fst (serve race)"] run Inr show thesis by (simp add: thread_main_def)
  qed
  from watched_end [OF r(2)] r(1) show ?thesis
    by (intro exI [of _ "watched Dead (thread_exc_of r)"]) (simp add: watched_def is_stopped_def)
qed

text \<open>C6: The two threads refine the sequential account of \<open>Manager\<close>, exactly. The exceptions that a
  worker which had published its loop can have left for the event loop when it is dead, over every
  interleaving with stops that are not yet complete, are those that \<open>thread_main\<close> computes from
  the same import attempts and some outcome of the race between the server and the stop.\<close>

theorem worker_refines_thread_main:
  "{t_exc s |s. threads_reach attempt s \<and> t_worker s = Some Dead \<and> t_loop s \<and> (\<forall>b. t_main s \<noteq> Stopped b)}
   = range (thread_main attempt)"
proof -
  have m: "(\<forall>b. m \<noteq> Stopped b) \<longleftrightarrow> \<not> is_stopped m" for m by (cases m) (simp_all add: is_stopped_def)
  have "t_exc s \<in> range (thread_main attempt)"
    if "threads_reach attempt s" "t_worker s = Some Dead" "t_loop s" "\<not> is_stopped (t_main s)" for s
    using threads_reach_inv [OF that(1)] that(2-4) by (auto simp: threads_inv_def past_handlers_def outcome_ok_def)
  moreover have "\<exists>s. x = t_exc s \<and> threads_reach attempt s \<and> t_worker s = Some Dead \<and> t_loop s \<and> \<not> is_stopped (t_main s)"
    if "x \<in> range (thread_main attempt)" for x
    using that thread_main_reached [of attempt] by (metis imageE)
  ultimately show ?thesis unfolding m by blast
qed

text \<open>Nothing of a thread outlives it. In every reachable state a dead worker's loop is closed,
  the loop is open exactly while the worker is between making it and its end, the worker is at
  most at its fifth import attempt, all earlier ones having been deadlocks, it has left no
  exception before its handlers ran, and after a join that found the thread dead the manager's
  fields are all clear and neither thread has a step left.\<close>

theorem threads_consistent:
  assumes "threads_reach attempt s" "t_worker s = Some w"
  shows "(t_loop_open s \<longleftrightarrow> w \<noteq> Begun \<and> w \<noteq> Dead)
     \<and> (\<forall>n. w = Importing n \<longrightarrow> 1 \<le> n \<and> n \<le> 5 \<and> (\<forall>i. 1 \<le> i \<and> i < n \<longrightarrow> locked (attempt i)))
     \<and> (t_exc s \<noteq> None \<longrightarrow> w = Dead \<or> (\<exists>k \<le> 2. w = Draining k))
     \<and> (t_main s = Stopped True \<longrightarrow> w = Dead \<and> \<not> t_thread s \<and> \<not> t_loop s \<and> \<not> t_event s \<and> t_exc s = None
          \<and> (\<forall>s'. \<not> worker_step attempt s s' \<and> \<not> main_step s s'))"
proof -
  from threads_reach_inv [OF assms(1)] have inv: "threads_inv attempt s" .
  have "t_exc s \<noteq> None \<longrightarrow> w = Dead \<or> (\<exists>k \<le> 2. w = Draining k)"
    using inv assms(2) by (cases w) (auto simp: threads_inv_def past_handlers_def)
  moreover have "\<not> worker_step attempt s s'" if "w = Dead" for s'
    using assms(2) that by (auto elim!: worker_step.cases simp: loop_runs_def)
  moreover have "\<not> main_step s s'" if "t_main s = Stopped True" for s'
    using that by (auto elim!: main_step.cases)
  moreover have "t_loop_open s \<longleftrightarrow> w \<noteq> Begun \<and> w \<noteq> Dead"
    using inv assms(2) by (simp add: threads_inv_def)
  moreover have "1 \<le> n \<and> n \<le> 5 \<and> (\<forall>i. 1 \<le> i \<and> i < n \<longrightarrow> locked (attempt i))" if "w = Importing n" for n
    using inv assms(2) that by (simp add: threads_inv_def)
  moreover have "w = Dead \<and> \<not> t_thread s \<and> \<not> t_loop s \<and> \<not> t_event s \<and> t_exc s = None" if "t_main s = Stopped True"
    using inv assms(2) that by (simp add: threads_inv_def)
  ultimately show ?thesis by blast
qed

section \<open>Concrete runs\<close>

text \<open>A server that is up, stopped, and gone: every hypothesis holds along this run.\<close>

lemma imported_racing: "threads_reach (\<lambda>_. Imported) (watched Racing None)"
proof -
  have "threads_reach (\<lambda>_. Imported) (watched (Importing 1) None)"
    using watched_import [of 0 "\<lambda>_. Imported"] by simp
  then have "threads_reach (\<lambda>_. Imported) (watched Preparing None)"
    by (rule watched_step [OF _ worker_step.import_done [of _ 1]]) (simp_all add: watched_def)
  then show ?thesis
    by (rule watched_step [OF _ worker_step.prepared]) (simp_all add: watched_def)
qed

lemma stop_run:
  assumes "t_main s = Watching" "t_thread s"
  shows "threads_run attempt s 0 4 (s\<lparr>t_main := Joining (t_loop s \<and> t_event s),
     t_posted := t_posted s \<or> (t_loop s \<and> t_event s \<and> t_loop_open s)\<rparr>)"
proof -
  have "threads_run attempt s 0 1 (s\<lparr>t_main := StopEntered\<rparr>)"
    using run_main [OF run_here [of attempt s] main_step.stop [of s]] assms by simp
  from run_main [OF this main_step.read_loop]
  have "threads_run attempt s 0 2 (s\<lparr>t_main := StopLoop (t_loop s)\<rparr>)" by (simp add: numeral_2_eq_2)
  from run_main [OF this main_step.read_event]
  have "threads_run attempt s 0 3 (s\<lparr>t_main := StopEvent (t_loop s) (t_event s)\<rparr>)" by (simp add: numeral_3_eq_3 numeral_2_eq_2)
  from run_main [OF this main_step.post] show ?thesis by (simp add: eval_nat_numeral)
qed

lemma stop_ends_worker_witness:
  "\<exists>s\<^sub>1. threads_run (\<lambda>_. Imported) (watched Racing None) 0 4 s\<^sub>1 \<and> t_main s\<^sub>1 = Joining True
     \<and> (\<exists>s\<^sub>3. own_step (\<lambda>_. Imported) s\<^sub>1 s\<^sub>3)"
proof -
  define s\<^sub>1 where "s\<^sub>1 = (watched Racing None)\<lparr>t_main := Joining True, t_posted := True\<rparr>"
  have run: "threads_run (\<lambda>_. Imported) (watched Racing None) 0 4 s\<^sub>1"
    using stop_run [of "watched Racing None"] by (simp add: watched_def s\<^sub>1_def)
  have "t_main s\<^sub>1 = Joining True" "t_worker s\<^sub>1 = Some Racing" by (simp_all add: s\<^sub>1_def watched_def)
  with stop_ends_worker [OF imported_racing _ _ run this(1) run_here] run show ?thesis
    by (auto simp: watched_def)
qed

lemma threads_consistent_witness:
  "threads_reach (\<lambda>_. Imported) (watched Racing None) \<and> t_loop_open (watched Racing None)"
  using threads_consistent [OF imported_racing, of Racing] imported_racing by (simp add: watched_def)

text \<open>
  A stop that comes before the worker has published its event is lost: the join times out, the
  manager forgets the thread, and the server goes on serving with nothing left to stop it.
\<close>

lemma early_stop_lost:
  "\<exists>s. threads_reach (\<lambda>_. Imported) s \<and> t_main s = Stopped False \<and> \<not> t_thread s \<and> t_worker s = Some Racing
     \<and> \<not> t_posted s \<and> \<not> t_set s \<and> worker_step (\<lambda>_. Imported) s s \<and> (\<forall>s'. \<not> main_step s s')"
proof -
  let ?A = "\<lambda>_. Imported"
  have "main_step unstarted (watched Begun None)"
    using main_step.start [of unstarted] by (simp add: unstarted_def watched_def)
  with reach_start have begun: "threads_reach ?A (watched Begun None)" by (rule reach_main)
  have "threads_run ?A (watched Begun None) 0 4 ((watched Begun None)\<lparr>t_main := Joining False\<rparr>)"
    using stop_run [of "watched Begun None"] by (simp add: watched_def)
  from threads_run_reach [OF this begun]
  have "threads_reach ?A ((watched Begun None)\<lparr>t_main := Joining False\<rparr>)" .
  from reach_main [OF this main_step.join_times_out [where b = False]]
  have gone: "threads_reach ?A \<lparr>t_main = Stopped False, t_worker = Some Begun, t_thread = False, t_loop = False,
      t_event = False, t_exc = None, t_loop_open = False, t_posted = False, t_set = False\<rparr>" (is "threads_reach ?A ?s")
    by (simp add: watched_def)
  note reach_worker [OF gone worker_step.new_loop]
  from reach_worker [OF this worker_step.publish_loop]
  have "threads_reach ?A (?s\<lparr>t_worker := Some LoopPublished, t_loop := True, t_loop_open := True\<rparr>)" by simp
  from reach_worker [OF this worker_step.publish_event]
  have "threads_reach ?A (?s\<lparr>t_worker := Some (Importing 1), t_loop := True, t_event := True, t_loop_open := True\<rparr>)" by simp
  from reach_worker [OF this worker_step.import_done]
  have "threads_reach ?A (?s\<lparr>t_worker := Some Preparing, t_loop := True, t_event := True, t_loop_open := True\<rparr>)" by simp
  from reach_worker [OF this worker_step.prepared]
  have "threads_reach ?A (?s\<lparr>t_worker := Some Racing, t_loop := True, t_event := True, t_loop_open := True\<rparr>)"
    (is "threads_reach ?A ?t") by simp
  moreover have "worker_step ?A ?t ?t" by (rule worker_step.serve_on) simp_all
  moreover have "\<not> main_step ?t s'" for s' by (auto elim!: main_step.cases)
  ultimately show ?thesis by (intro exI [of _ ?t]) simp
qed

end
