(* ===== verification/Compat.thy ===== *)
theory Compat
  imports Setup
begin

text \<open>
  \<open>runtime_compat.py\<close> and the entry points of \<open>__init__.py\<close>: the dependency that newer versions of
  Home Assistant bring along is installed on older ones before anything of the component is set
  up. The metadata of installed packages, the comparison of \<open>packaging\<close> and Home Assistant's
  installer are parameters: the installed version if there is one, whether it meets the
  requirement or cannot be compared, and whether the installation succeeds.
\<close>

datatype compat_error = NotComparable | NotInstalled

record compat_env =
  k_installed :: "string option"
  k_contains :: "string \<Rightarrow> bool option" \<comment> \<open>\<open>None\<close>: it raises\<close>
  k_install :: bool

definition has_compatible_httpx2 :: "compat_env \<Rightarrow> compat_error + bool" where
  "has_compatible_httpx2 k =
     (case k_installed k of
        None \<Rightarrow> Inr False
      | Some installed \<Rightarrow> (case k_contains k installed of None \<Rightarrow> Inl NotComparable | Some b \<Rightarrow> Inr b))"

text \<open>The result, and whether the installer was asked.\<close>

definition ensure_runtime_compat :: "compat_env \<Rightarrow> (compat_error + unit) \<times> bool" where
  "ensure_runtime_compat k =
     (case has_compatible_httpx2 k of
        Inl e \<Rightarrow> (Inl e, False)
      | Inr True \<Rightarrow> (Inr (), False)
      | Inr False \<Rightarrow> (if k_install k then Inr () else Inl NotInstalled, True))"

definition async_setup_entry :: "compat_env \<Rightarrow> failures \<Rightarrow> fresh_secrets \<Rightarrow> component
    \<Rightarrow> (compat_error + unit py) \<times> component" where
  "async_setup_entry k f fresh st =
     (case fst (ensure_runtime_compat k) of
        Inl e \<Rightarrow> (Inl e, st)
      | Inr _ \<Rightarrow> (case setup_server_entry f fresh st of (r, st') \<Rightarrow> (Inr r, st')))"

text \<open>A compatible version is left alone; without one the installer is asked, once.\<close>

lemma installer_asked: "snd (ensure_runtime_compat k) \<longleftrightarrow> has_compatible_httpx2 k = Inr False"
  by (auto simp: ensure_runtime_compat_def split: sum.splits bool.splits)

text \<open>
  The entry point keeps to the life cycle: it takes the step of a set-up, the dependency being
  there or installed, or it raises and changes nothing, the secrets included.
\<close>

lemma setup_entry_step:
  assumes "async_setup_entry k f fresh st = (r, st')" "\<not> c_loaded st"
  shows "(\<exists>u. r = Inr u) \<and> life_step st st' \<and> (k_install k \<or> has_compatible_httpx2 k = Inr True)
    \<or> (\<exists>e. r = Inl e) \<and> st' = st"
  using assms by (auto simp: async_setup_entry_def ensure_runtime_compat_def intro: life_step.set_up
      split: sum.splits bool.splits prod.splits if_splits)

text \<open>So every state reached through the entry point is one of the life cycle.\<close>

lemma setup_entry_reachable:
  "reachable entry st \<Longrightarrow> \<not> c_loaded st \<Longrightarrow> async_setup_entry k f fresh st = (r, st') \<Longrightarrow> reachable entry st'"
  using setup_entry_step [of k f fresh st r st'] by (blast intro: reachable.step)

end
