(* ===== verification/Release.thy ===== *)
theory Release
  imports Json "HOL-Library.List_Lexorder"
begin

text \<open>
  The release scripts: \<open>scripts/release_scope.py\<close>, the version arithmetic and the decisions of
  \<open>scripts/bump_component_version.py\<close> and \<open>scripts/check_version_bump.py\<close>, and the redaction of
  \<open>scripts/redact_diagnostics_secrets.py\<close>. What git and the files hold are arguments; what is
  written is part of the result.
\<close>

section \<open>Versions\<close>

datatype release_error = Unsupported | TooManyDigits | Misaligned | Behind | NotOneAssignment string

record release_version =
  vs_major :: string
  vs_minor :: string
  vs_patch :: string
  vs_pre :: "(string \<times> string) option"

definition number :: "string \<Rightarrow> (string \<times> string) option" where
  "number s = (let d = takeWhile is_digit s in if d = [] then None else Some (d, dropWhile is_digit s))"

definition dotted :: "string \<Rightarrow> (string \<times> string) option" where
  "dotted s = (case number s of Some (d, c # rest) \<Rightarrow> if c = CHR ''.'' then Some (d, rest) else None | _ \<Rightarrow> None)"

definition pre_release :: "string \<Rightarrow> string \<Rightarrow> (string \<times> string) option" where
  "pre_release s tag =
     (if startswith s tag then
        (case number (drop (length tag) s) of Some (d, []) \<Rightarrow> Some (tag, d) | _ \<Rightarrow> None)
      else None)"

definition parse_pre :: "string \<Rightarrow> (string \<times> string) option option" where
  "parse_pre s =
     (if s = [] then Some None
      else (case List.map_filter (pre_release s) [''a'', ''b'', ''rc''] of p # _ \<Rightarrow> Some (Some p) | [] \<Rightarrow> None))"

text \<open>\<open>VERSION_RE.fullmatch\<close>: its groups\<close>

definition parse_version :: "string \<Rightarrow> release_version option" where
  "parse_version s =
     (case dotted s of
        None \<Rightarrow> None
      | Some (major, s1) \<Rightarrow>
          (case dotted s1 of
             None \<Rightarrow> None
           | Some (minor, s2) \<Rightarrow>
               (case number s2 of
                  None \<Rightarrow> None
                | Some (patch, s3) \<Rightarrow>
                    map_option (\<lambda>pre. \<lparr>vs_major = major, vs_minor = minor, vs_patch = patch, vs_pre = pre\<rparr>)
                      (parse_pre s3))))"

text \<open>\<open>int(s)\<close> of digits and \<open>str(n)\<close>, both limited in the number of digits\<close>

definition int_of :: "string \<Rightarrow> release_error + nat" where
  "int_of s = (if max_int_digits < length s then Inl TooManyDigits else Inr (nat_of_digits s))"

definition str_of_nat :: "nat \<Rightarrow> release_error + string" where
  "str_of_nat n = (if max_int_digits < length (show_nat n) then Inl TooManyDigits else Inr (show_nat n))"

fun all_ints :: "string list \<Rightarrow> release_error + nat list" where
  "all_ints [] = Inr []"
| "all_ints (s # ss) =
     (case int_of s of
        Inl e \<Rightarrow> Inl e
      | Inr n \<Rightarrow> (case all_ints ss of Inl e \<Rightarrow> Inl e | Inr ns \<Rightarrow> Inr (n # ns)))"

definition pre_rank :: "(string \<times> string) option \<Rightarrow> nat" where
  "pre_rank pre = (case pre of None \<Rightarrow> 3 | Some (tag, _) \<Rightarrow> if tag = ''a'' then 0 else if tag = ''b'' then 1 else 2)"

definition version_key :: "string \<Rightarrow> release_error + nat list" where
  "version_key version =
     (case parse_version version of
        None \<Rightarrow> Inl Unsupported
      | Some v \<Rightarrow>
          (case all_ints [vs_major v, vs_minor v, vs_patch v] of
             Inl e \<Rightarrow> Inl e
           | Inr ns \<Rightarrow>
               (case vs_pre v of
                  None \<Rightarrow> Inr (ns @ [pre_rank None, 0])
                | Some (tag, d) \<Rightarrow>
                    (case int_of d of Inl e \<Rightarrow> Inl e | Inr n \<Rightarrow> Inr (ns @ [pre_rank (vs_pre v), n])))))"

definition next_patch :: "string \<Rightarrow> release_error + string" where
  "next_patch version =
     (case parse_version version of
        None \<Rightarrow> Inl Unsupported
      | Some v \<Rightarrow>
          (case int_of (vs_patch v) of
             Inl e \<Rightarrow> Inl e
           | Inr n \<Rightarrow>
               (case str_of_nat (Suc n) of
                  Inl e \<Rightarrow> Inl e
                | Inr p \<Rightarrow> Inr (vs_major v @ ''.'' @ vs_minor v @ ''.'' @ p))))"

section \<open>Which changes count\<close>

text \<open>\<open>str.splitlines()\<close>; the flag says that the line before ended in a carriage return.\<close>

definition line_end :: "char \<Rightarrow> bool" where
  "line_end c \<longleftrightarrow> ord c \<in> {10, 11, 12, 13, 28, 29, 30, 133}"

fun split_lines :: "string \<Rightarrow> string \<Rightarrow> string list" where
  "split_lines line [] = (if line = [] then [] else [line])"
| "split_lines line (c # s) =
     (if line_end c
      then (case s of
              d # t \<Rightarrow> if ord c = 13 \<and> ord d = 10 then line # split_lines [] t else line # split_lines [] s
            | [] \<Rightarrow> [line])
      else split_lines (line @ [c]) s)"

definition component_facing_changes :: "string \<Rightarrow> string list" where
  "component_facing_changes diff =
     filter (\<lambda>path. startswith path ''custom_components/esphome_mcp/'') (split_lines [] diff)"

section \<open>Bumping and checking\<close>

text \<open>Keep the version, or replace the first by the second in all three files.\<close>

datatype bump = Keep string | Rewrite string string

definition bump_component_version :: "string \<Rightarrow> string \<times> string \<times> string \<Rightarrow> string list \<Rightarrow> release_error + bump" where
  "bump_component_version base versions changes =
     (case versions of (project, manifest, const) \<Rightarrow>
        if project \<noteq> manifest \<or> project \<noteq> const then Inl Misaligned
        else if changes = [] then Inr (Keep project)
        else
          (case (version_key project, version_key base) of
             (Inl e, _) \<Rightarrow> Inl e
           | (_, Inl e) \<Rightarrow> Inl e
           | (Inr current_key, Inr base_key) \<Rightarrow>
               if current_key < base_key then Inl Behind
               else if base_key < current_key then Inr (Keep project)
               else (case next_patch base of Inl e \<Rightarrow> Inl e | Inr target \<Rightarrow> Inr (Rewrite project target))))"

text \<open>
  The pattern of \<open>_replace_assignment\<close> at the start of a line: its prefix, and what follows the
  match. White space may be line ends too.
\<close>

definition match_assignment :: "string \<Rightarrow> string \<Rightarrow> string \<Rightarrow> (string \<times> string) option" where
  "match_assignment name current s =
     (if \<not> startswith s name then None
      else
        (let s1 = drop (length name) s; s2 = dropWhile is_space s1 in
         case s2 of
           [] \<Rightarrow> None
         | e # s3 \<Rightarrow>
             (let s4 = dropWhile is_space s3 in
              case s4 of
                [] \<Rightarrow> None
              | q # s5 \<Rightarrow>
                  (case drop (length current) s5 of
                     [] \<Rightarrow> None
                   | r # rest \<Rightarrow>
                       if e = CHR ''='' \<and> q \<in> {CHR 0x22, CHR 0x27} \<and> startswith s5 current \<and> r \<in> {CHR 0x22, CHR 0x27}
                       then Some (name @ takeWhile is_space s1 @ e # takeWhile is_space s3, rest) else None))))"

lemma match_assignment_eq:
  assumes "match_assignment name current s = Some (prefix, rest)"
  shows "\<exists>q r. q \<in> {CHR 0x22, CHR 0x27} \<and> r \<in> {CHR 0x22, CHR 0x27} \<and> s = prefix @ q # current @ r # rest"
proof -
  have start: "startswith s p \<Longrightarrow> s = p @ drop (length p) s" for s p
    by (metis append_take_drop_id startswith_def)
  from assms obtain e s3 q s5 r where m: "startswith s name" "dropWhile is_space (drop (length name) s) = e # s3"
    "dropWhile is_space s3 = q # s5" "drop (length current) s5 = r # rest" "startswith s5 current"
    "q \<in> {CHR 0x22, CHR 0x27}" "r \<in> {CHR 0x22, CHR 0x27}"
    "prefix = name @ takeWhile is_space (drop (length name) s) @ e # takeWhile is_space s3"
    unfolding match_assignment_def Let_def by (simp split: if_splits list.splits)
  have "s5 = current @ r # rest" using start [OF m(5)] m(4) by simp
  moreover have "s3 = takeWhile is_space s3 @ q # s5" using takeWhile_dropWhile_id [of is_space s3] m(3) by simp
  moreover have "drop (length name) s = takeWhile is_space (drop (length name) s) @ e # s3"
    using takeWhile_dropWhile_id [of is_space "drop (length name) s"] m(2) by simp
  ultimately have "s = prefix @ q # current @ r # rest"
    using start [OF m(1)] m(8) by (metis append.assoc append_Cons)
  with m(6,7) show ?thesis by blast
qed

text \<open>\<open>pattern.subn\<close>: the rendered text and the number of replacements\<close>

function subn_assignments :: "string \<Rightarrow> string \<Rightarrow> string \<Rightarrow> bool \<Rightarrow> string \<Rightarrow> string \<times> nat" where
  "subn_assignments name current target line_start s =
     (case (if line_start then match_assignment name current s else None) of
        Some (prefix, rest) \<Rightarrow>
          (case subn_assignments name current target False rest of
             (t, n) \<Rightarrow> (prefix @ CHR 0x22 # target @ CHR 0x22 # t, Suc n))
      | None \<Rightarrow>
          (case s of
             [] \<Rightarrow> ([], 0)
           | c # s' \<Rightarrow> (case subn_assignments name current target (c = CHR 0x0A) s' of (t, n) \<Rightarrow> (c # t, n))))"
  by pat_completeness auto
termination
proof (relation "measure (\<lambda>(_, _, _, _, s). length s)")
  fix name current target :: string and line_start s p and prefix rest :: string
  assume "(if line_start then match_assignment name current s else None) = Some p" "(prefix, rest) = p"
  then have "match_assignment name current s = Some (prefix, rest)" by (simp split: if_splits)
  from match_assignment_eq [OF this]
  show "((name, current, target, False, rest), name, current, target, line_start, s)
      \<in> measure (\<lambda>(_, _, _, _, s). length s)" by auto
qed simp_all

declare subn_assignments.simps [simp del]

definition replace_assignment :: "string \<Rightarrow> string \<Rightarrow> string \<Rightarrow> string \<Rightarrow> release_error + string" where
  "replace_assignment source name current target =
     (case subn_assignments name current target True source of
        (rendered, count) \<Rightarrow> if count \<noteq> 1 then Inl (NotOneAssignment name) else Inr rendered)"

text \<open>
  \<open>_write_versions\<close>: the three files as they are written, or nothing written. The manifest is
  given and written as the object it holds.
\<close>

definition write_versions ::
  "string \<times> (string \<times> pyval) list \<times> string \<Rightarrow> string \<Rightarrow> string
     \<Rightarrow> release_error + string \<times> (string \<times> pyval) list \<times> string" where
  "write_versions files current target =
     (case files of (pyproject, manifest, const) \<Rightarrow>
        (case replace_assignment pyproject ''version'' current target of
           Inl e \<Rightarrow> Inl e
         | Inr pyproject' \<Rightarrow>
             (case replace_assignment const ''VERSION'' current target of
                Inl e \<Rightarrow> Inl e
              | Inr const' \<Rightarrow> Inr (pyproject', dict_set ''version'' (PStr target) manifest, const'))))"

datatype complaint = NotIncreased | NotNextMajor

definition validate_version_bump :: "string \<Rightarrow> string \<Rightarrow> string list \<Rightarrow> release_error + complaint list" where
  "validate_version_bump base current changes =
     (if changes = [] then Inr []
      else
        (case (version_key current, version_key base) of
           (Inl e, _) \<Rightarrow> Inl e
         | (_, Inl e) \<Rightarrow> Inl e
         | (Inr current_key, Inr base_key) \<Rightarrow>
             if \<not> base_key < current_key then Inr [NotIncreased]
             else if current_key ! 0 \<noteq> base_key ! 0 \<and> current_key \<noteq> [Suc (base_key ! 0), 0, 0, 3, 0]
             then Inr [NotNextMajor]
             else Inr []))"

section \<open>Lemmas\<close>

lemma number_digits:
  assumes "list_all is_digit d" "d \<noteq> []" "rest = [] \<or> \<not> is_digit (hd rest)"
  shows "number (d @ rest) = Some (d, rest)"
proof -
  have t: "takeWhile is_digit (d @ rest) = d @ takeWhile is_digit rest"
    "dropWhile is_digit (d @ rest) = dropWhile is_digit rest"
    using assms(1) by (simp_all add: list_all_iff)
  from assms(3) have "takeWhile is_digit rest = []" "dropWhile is_digit rest = rest"
    by (cases rest; simp)+
  with t assms(2) show ?thesis by (simp add: number_def)
qed

lemma numberD:
  assumes "number s = Some (d, rest)"
  shows "list_all is_digit d" "d \<noteq> []"
  using assms set_takeWhileD by (fastforce simp: number_def Let_def list_all_iff split: if_splits)+

lemma dottedD: "dotted s = Some (d, rest) \<Longrightarrow> list_all is_digit d \<and> d \<noteq> []"
  using numberD by (fastforce simp: dotted_def split: option.splits list.splits if_splits)

lemma dot_no_digit: "\<not> is_digit CHR ''.''"
  by code_simp

lemma dotted_digits: "list_all is_digit d \<Longrightarrow> d \<noteq> [] \<Longrightarrow> dotted (d @ CHR ''.'' # rest) = Some (d, rest)"
  using number_digits [of d "CHR ''.'' # rest"] by (simp add: dotted_def dot_no_digit)

lemma parse_version_digits:
  assumes "list_all is_digit a" "a \<noteq> []" "list_all is_digit b" "b \<noteq> []" "list_all is_digit c" "c \<noteq> []"
  shows "parse_version (a @ ''.'' @ b @ ''.'' @ c) = Some \<lparr>vs_major = a, vs_minor = b, vs_patch = c, vs_pre = None\<rparr>"
proof -
  have "number c = Some (c, [])" using number_digits [OF assms(5,6), of "[]"] by simp
  with assms show ?thesis by (simp add: parse_version_def dotted_digits parse_pre_def)
qed

lemma parse_version_parts:
  assumes "parse_version s = Some v"
  shows "list_all is_digit (vs_major v) \<and> vs_major v \<noteq> [] \<and> list_all is_digit (vs_minor v) \<and> vs_minor v \<noteq> []"
  using assms by (auto simp: parse_version_def dest!: dottedD split: option.splits)

text \<open>The next patch version: the same major and minor number, a greater key.\<close>

lemma next_patch_key:
  assumes "next_patch base = Inr target" "version_key base = Inr key"
  obtains a b c r n where "key = [a, b, c, r, n]" "version_key target = Inr [a, b, Suc c, 3, 0]"
proof -
  from assms(1) obtain v n p where v: "parse_version base = Some v" "int_of (vs_patch v) = Inr n"
    "str_of_nat (Suc n) = Inr p" "target = vs_major v @ ''.'' @ vs_minor v @ ''.'' @ p"
    by (auto simp: next_patch_def split: option.splits sum.splits)
  then have p: "p = show_nat (Suc n)" "int_of p = Inr (Suc n)"
    by (auto simp: str_of_nat_def int_of_def split: if_splits)
  have parse: "parse_version target = Some \<lparr>vs_major = vs_major v, vs_minor = vs_minor v, vs_patch = p, vs_pre = None\<rparr>"
    unfolding v(4) using parse_version_parts [OF v(1)] by (intro parse_version_digits) (simp_all add: p show_nat_digits)
  from assms(2) v(1,2) obtain a b r m where "int_of (vs_major v) = Inr a" "int_of (vs_minor v) = Inr b" "key = [a, b, n, r, m]"
    by (auto simp: version_key_def split: sum.splits option.splits)
  with that parse p(2) show thesis by (simp add: version_key_def pre_rank_def)
qed

text \<open>C29: The script that bumps and the check that demands a bump agree on every version the bumping
  script leaves, up to the check's own rule on new major versions. When the script rewrites the
  version, the check passes on what it wrote, for the same changes and the same base, and running
  the script again keeps what it wrote. When it keeps the version, the check does not ask for an
  increase: it passes, or it complains of a greater version whose major number is another than the
  base's.\<close>

theorem bump_then_check:
  assumes "bump_component_version base versions changes = Inr decision"
  shows "case decision of
       Rewrite current target \<Rightarrow> versions = (current, current, current)
         \<and> validate_version_bump base target changes = Inr []
         \<and> bump_component_version base (target, target, target) changes = Inr (Keep target)
     | Keep current \<Rightarrow> versions = (current, current, current)
         \<and> (validate_version_bump base current changes = Inr []
            \<or> validate_version_bump base current changes = Inr [NotNextMajor]
              \<and> (\<exists>key base_key. version_key current = Inr key \<and> version_key base = Inr base_key
                    \<and> base_key < key \<and> key ! 0 \<noteq> base_key ! 0))"
proof (cases decision)
  case (Keep current)
  with assms show ?thesis
    by (auto simp: bump_component_version_def validate_version_bump_def split: sum.splits if_splits prod.splits)
next
  case (Rewrite current target)
  with assms obtain key where c: "versions = (current, current, current)" "changes \<noteq> []" "version_key base = Inr key"
    "next_patch base = Inr target"
    by (auto simp: bump_component_version_def split: sum.splits if_splits prod.splits)
  from next_patch_key [OF c(4,3)] obtain a b n r m where k: "key = [a, b, n, r, m]" "version_key target = Inr [a, b, Suc n, 3, 0]" .
  then have "key < [a, b, Suc n, 3, 0]" by simp
  with c k Rewrite show ?thesis
    by (auto simp: validate_version_bump_def bump_component_version_def)
qed

lemma bump_then_check_witness:
  "bump_component_version ''2.2.1'' (''2.2.1'', ''2.2.1'', ''2.2.1'') [''x''] = Inr (Rewrite ''2.2.1'' ''2.2.2'')
   \<and> validate_version_bump ''2.2.1'' ''2.2.2'' [''x''] = Inr []"
proof -
  have parse: "parse_version ''2.2.1'' = Some \<lparr>vs_major = ''2'', vs_minor = ''2'', vs_patch = ''1'', vs_pre = None\<rparr>"
    and digits: "nat_of_digits ''2'' = 2" "nat_of_digits ''1'' = 1" "show_nat (Suc 1) = ''2''"
    by code_simp+
  then have "version_key ''2.2.1'' = Inr [2, 2, 1, 3, 0]" "next_patch ''2.2.1'' = Inr ''2.2.2''"
    by (simp_all add: version_key_def next_patch_def int_of_def str_of_nat_def max_int_digits_def pre_rank_def)
  then have run: "bump_component_version ''2.2.1'' (''2.2.1'', ''2.2.1'', ''2.2.1'') [''x''] = Inr (Rewrite ''2.2.1'' ''2.2.2'')"
    by (simp add: bump_component_version_def)
  from bump_then_check [OF run] run show ?thesis by simp
qed

text \<open>
  Replacing touches the version and nothing else: the text is the old one with the quoted version
  in one location exchanged, and that location is preceded by the name at the start of a line.
\<close>

lemma subn_match:
  "(if b then match_assignment name current s else None) = Some (prefix, rest) \<Longrightarrow>
   subn_assignments name current target b s
     = (case subn_assignments name current target False rest of (t, n) \<Rightarrow> (prefix @ CHR 0x22 # target @ CHR 0x22 # t, Suc n))"
  by (subst subn_assignments.simps) simp

lemma subn_skip:
  "(if b then match_assignment name current (c # s) else None) = None \<Longrightarrow>
   subn_assignments name current target b (c # s)
     = (case subn_assignments name current target (c = CHR 0x0A) s of (t, n) \<Rightarrow> (c # t, n))"
  by (subst subn_assignments.simps) simp

lemma match_assignment_Nil: "name \<noteq> [] \<Longrightarrow> match_assignment name current [] = None"
  by (simp add: match_assignment_def startswith_def)

lemma subn_Nil: "name \<noteq> [] \<Longrightarrow> subn_assignments name current target b [] = ([], 0)"
  by (subst subn_assignments.simps) (simp add: match_assignment_Nil)

lemma subn_none: "subn_assignments name current target b s = (t, 0) \<Longrightarrow> name \<noteq> [] \<Longrightarrow> t = s"
proof (induction s arbitrary: b t)
  case Nil
  then show ?case by (simp add: subn_Nil)
next
  case (Cons c s)
  show ?case
  proof (cases "if b then match_assignment name current (c # s) else None")
    case None
    from Cons.prems(1) Cons.IH [OF _ Cons.prems(2)] show ?thesis
      unfolding subn_skip [OF None] by (auto split: prod.splits)
  next
    case (Some p)
    obtain prefix rest where "p = (prefix, rest)" by force
    with Cons.prems(1) Some subn_match [of b name current "c # s" prefix rest target] show ?thesis
      by (simp split: prod.splits)
  qed
qed

lemma subn_one:
  "subn_assignments name current target b s = (t, Suc 0) \<Longrightarrow> name \<noteq> [] \<Longrightarrow>
     \<exists>before prefix q r rest. s = before @ prefix @ q # current @ r # rest
       \<and> t = before @ prefix @ CHR 0x22 # target @ CHR 0x22 # rest \<and> startswith prefix name
       \<and> (before = [] \<and> b \<or> before \<noteq> [] \<and> last before = CHR 0x0A)"
proof (induction s arbitrary: b t)
  case Nil
  then show ?case by (simp add: subn_Nil)
next
  case (Cons c s)
  show ?case
  proof (cases "if b then match_assignment name current (c # s) else None")
    case None
    obtain t' where t': "t = c # t'" "subn_assignments name current target (c = CHR 0x0A) s = (t', Suc 0)"
      using Cons.prems(1) unfolding subn_skip [OF None] by (auto split: prod.splits)
    from Cons.IH [OF t'(2) Cons.prems(2)] obtain before prefix q r rest where
      "s = before @ prefix @ q # current @ r # rest" "t' = before @ prefix @ CHR 0x22 # target @ CHR 0x22 # rest"
      "startswith prefix name" "before = [] \<and> c = CHR 0x0A \<or> before \<noteq> [] \<and> last before = CHR 0x0A" by blast
    with t'(1) show ?thesis
      by (intro exI [of _ "c # before"] exI [of _ prefix] exI [of _ q] exI [of _ r] exI [of _ rest]) auto
  next
    case (Some p)
    obtain prefix rest where p: "p = (prefix, rest)" by force
    with Some have m: "b" "match_assignment name current (c # s) = Some (prefix, rest)" by (simp_all split: if_splits)
    obtain t' where t': "subn_assignments name current target False rest = (t', 0)"
      "t = prefix @ CHR 0x22 # target @ CHR 0x22 # t'"
      using Cons.prems(1) unfolding subn_match [OF Some [unfolded p]] by (auto split: prod.splits)
    have "startswith prefix name"
      using m(2) by (auto simp: match_assignment_def Let_def startswith_def split: if_splits list.splits)
    moreover obtain q r where "c # s = prefix @ q # current @ r # rest" using match_assignment_eq [OF m(2)] by blast
    ultimately show ?thesis
      using t'(2) subn_none [OF t'(1) Cons.prems(2)] m(1)
      by (intro exI [of _ "[]"] exI [of _ prefix] exI [of _ q] exI [of _ r] exI [of _ rest]) simp
  qed
qed

lemma replace_assignment_exact:
  assumes "replace_assignment source name current target = Inr rendered" "name \<noteq> []"
  shows "\<exists>before prefix q r rest. source = before @ prefix @ q # current @ r # rest
    \<and> rendered = before @ prefix @ CHR 0x22 # target @ CHR 0x22 # rest \<and> startswith prefix name
    \<and> (before = [] \<or> last before = CHR 0x0A)"
proof -
  have "subn_assignments name current target True source = (rendered, Suc 0)"
    using assms(1) by (auto simp: replace_assignment_def split: prod.splits if_splits)
  from subn_one [OF this assms(2)] show ?thesis by blast
qed

section \<open>Redacting diagnostics\<close>

definition secret_keys :: "string list" where
  "secret_keys = [''token'', ''access_token'', ''refresh_token'', ''client_secret'', ''password'', ''api_key'']"

definition redacted :: string where "redacted = ''**REDACTED**''"

text \<open>A value that is replaced.\<close>

definition is_secret :: "string \<times> pyval \<Rightarrow> bool" where
  "is_secret kv \<longleftrightarrow> fst kv \<in> set secret_keys \<and> (case snd kv of PStr s \<Rightarrow> s \<noteq> [] | _ \<Rightarrow> False)"

definition redact_data :: "(string \<times> pyval) list \<Rightarrow> (string \<times> pyval) list \<times> nat" where
  "redact_data d = (map (\<lambda>kv. if is_secret kv then (fst kv, PStr redacted) else kv) d, length (filter is_secret d))"

text \<open>One entry: it has to have a method \<open>get\<close>; only its \<open>data\<close> is looked at, when that is an object.\<close>

definition redact_entry :: "pyval \<Rightarrow> (pyval \<times> nat) py" where
  "redact_entry entry =
     (case entry of
        PDict e \<Rightarrow>
          (case map_of e ''data'' of
             Some (PDict d) \<Rightarrow> (case redact_data d of (d', n) \<Rightarrow> Inr (PDict (dict_set ''data'' (PDict d') e), n))
           | _ \<Rightarrow> Inr (entry, 0))
      | _ \<Rightarrow> Inl AttributeError)"

fun redact_entries :: "pyval list \<Rightarrow> (pyval list \<times> nat) py" where
  "redact_entries [] = Inr ([], 0)"
| "redact_entries (e # es) =
     py_bind (redact_entry e) (\<lambda>(e', n). py_bind (redact_entries es) (\<lambda>(es', m). Inr (e' # es', n + m)))"

text \<open>\<open>doc.get("data", {}).get("entries", [])\<close>, where the loop over anything but a list of objects raises.\<close>

definition redact_config_entries :: "(string \<times> pyval) list \<Rightarrow> ((string \<times> pyval) list \<times> nat) py" where
  "redact_config_entries doc =
     (case dict_get ''data'' (PDict []) doc of
        PDict d \<Rightarrow>
          (case dict_get ''entries'' (PList []) d of
             PList es \<Rightarrow>
               py_bind (redact_entries es) (\<lambda>(es', n).
                 Inr (if map_of doc ''data'' = None \<or> map_of d ''entries'' = None then doc
                      else dict_set ''data'' (PDict (dict_set ''entries'' (PList es') d)) doc, n))
           | PDict [] \<Rightarrow> Inr (doc, 0)
           | PStr [] \<Rightarrow> Inr (doc, 0)
           | PDict _ \<Rightarrow> Inl AttributeError
           | PStr _ \<Rightarrow> Inl AttributeError
           | _ \<Rightarrow> Inl TypeError)
      | _ \<Rightarrow> Inl AttributeError)"

text \<open>
  What a document holds, location by location: the value at a path of keys and positions, and its surface,
  which of an object is its keys, of a list its length, and of any other value the value.
\<close>

datatype location = Key string | Item nat

fun value_at :: "location list \<Rightarrow> pyval \<Rightarrow> pyval option" where
  "value_at [] v = Some v"
| "value_at (Key k # path) (PDict d) = (case map_of d k of Some v \<Rightarrow> value_at path v | None \<Rightarrow> None)"
| "value_at (Item i # path) (PList vs) = (if i < length vs then value_at path (vs ! i) else None)"
| "value_at path v = None"

fun surface :: "pyval \<Rightarrow> pyval" where
  "surface (PDict d) = PDict (map (\<lambda>(k, _). (k, PNone)) d)"
| "surface (PList vs) = PList (map (\<lambda>_. PNone) vs)"
| "surface v = v"

definition shown_at :: "location list \<Rightarrow> pyval \<Rightarrow> pyval option" where
  "shown_at path v = map_option surface (value_at path v)"

text \<open>Where a credential is looked for: under one of six names directly in the data of an entry.\<close>

definition credential_names :: "string list" where
  "credential_names = [''token'', ''access_token'', ''refresh_token'', ''client_secret'', ''password'', ''api_key'']"

definition credential_place :: "location list \<Rightarrow> bool" where
  "credential_place path \<longleftrightarrow> (\<exists>i k. path = [Key ''data'', Key ''entries'', Item i, Key ''data'', Key k]
     \<and> k \<in> set credential_names)"

definition text_at :: "location list \<Rightarrow> pyval \<Rightarrow> bool" where
  "text_at path v \<longleftrightarrow> (\<exists>s. value_at path v = Some (PStr s) \<and> s \<noteq> [])"

text \<open>The second value is the first with the non-empty texts at the places of \<open>P\<close> replaced.\<close>

definition hides :: "(location list \<Rightarrow> bool) \<Rightarrow> pyval \<Rightarrow> pyval \<Rightarrow> bool" where
  "hides P v v' \<longleftrightarrow> (\<forall>path. shown_at path v'
     = (if P path \<and> text_at path v then Some (PStr ''**REDACTED**'') else shown_at path v))"

lemma hides_same: "(\<And>path. P path \<Longrightarrow> \<not> text_at path v) \<Longrightarrow> hides P v v"
  by (auto simp: hides_def)

lemma surface_dict_set:
  "map_of d k \<noteq> None \<Longrightarrow> map (\<lambda>(k, _). (k, PNone)) (dict_set k v d) = map (\<lambda>(k, _). (k, PNone)) d"
  by (induction k v d rule: dict_set.induct) (auto split: if_splits)

lemma hides_key:
  assumes "hides P w w'" "map_of d k = Some w"
  shows "hides (\<lambda>path. \<exists>rest. path = Key k # rest \<and> P rest) (PDict d) (PDict (dict_set k w' d))"
  unfolding hides_def
proof
  fix path
  consider "path = []" | rest where "path = Key k # rest" | k' rest where "path = Key k' # rest" "k' \<noteq> k"
    | i rest where "path = Item i # rest" by (metis list.exhaust location.exhaust)
  then show "shown_at path (PDict (dict_set k w' d))
      = (if (\<exists>rest. path = Key k # rest \<and> P rest) \<and> text_at path (PDict d) then Some (PStr ''**REDACTED**'')
         else shown_at path (PDict d))"
    using assms by cases (auto simp: hides_def shown_at_def text_at_def surface_dict_set)
qed

lemma hides_items:
  assumes "list_all2 (hides P) vs vs'"
  shows "hides (\<lambda>path. \<exists>i rest. path = Item i # rest \<and> P rest) (PList vs) (PList vs')"
  unfolding hides_def
proof
  fix path
  have l: "length vs' = length vs" using list_all2_lengthD [OF assms] by simp
  then have m: "map (\<lambda>_. PNone) vs' = map (\<lambda>_. PNone) vs" by (simp add: list_eq_iff_nth_eq)
  consider "path = []" | i rest where "path = Item i # rest" | k rest where "path = Key k # rest"
    by (metis list.exhaust location.exhaust)
  then show "shown_at path (PList vs')
      = (if (\<exists>i rest. path = Item i # rest \<and> P rest) \<and> text_at path (PList vs) then Some (PStr ''**REDACTED**'')
         else shown_at path (PList vs))"
  proof cases
    case 1
    with m show ?thesis by (simp add: shown_at_def)
  next
    case (2 i rest)
    show ?thesis
    proof (cases "i < length vs")
      case True
      then have "hides P (vs ! i) (vs' ! i)" using assms by (simp add: list_all2_nthD)
      then have "shown_at rest (vs' ! i) = (if P rest \<and> text_at rest (vs ! i) then Some (PStr ''**REDACTED**'') else shown_at rest (vs ! i))"
        by (simp add: hides_def)
      moreover have "shown_at path (PList vs') = shown_at rest (vs' ! i)" "shown_at path (PList vs) = shown_at rest (vs ! i)"
        "text_at path (PList vs) = text_at rest (vs ! i)"
        using 2 True l by (simp_all add: shown_at_def text_at_def)
      ultimately show ?thesis using 2 by simp
    next
      case False
      with 2 l show ?thesis by (simp add: shown_at_def text_at_def)
    qed
  next
    case 3
    then show ?thesis by (simp add: shown_at_def)
  qed
qed

lemma is_secret_iff:
  "is_secret (k, v) \<longleftrightarrow> k \<in> set credential_names \<and> (\<exists>s. v = PStr s \<and> s \<noteq> [])"
proof -
  have "secret_keys = credential_names" by (simp add: secret_keys_def credential_names_def)
  then show ?thesis by (cases v) (simp_all add: is_secret_def)
qed

lemma value_at_some:
  "value_at (Key k # path) v = Some w \<longleftrightarrow> (\<exists>d u. v = PDict d \<and> map_of d k = Some u \<and> value_at path u = Some w)"
  "value_at (Item i # path) v = Some w \<longleftrightarrow> (\<exists>vs. v = PList vs \<and> i < length vs \<and> value_at path (vs ! i) = Some w)"
  by (cases v; auto split: option.splits)+

lemma redact_data_lookup:
  "map_of (fst (redact_data d)) k = map_option (\<lambda>v. if is_secret (k, v) then PStr redacted else v) (map_of d k)"
  by (induction d) (auto simp: redact_data_def)

lemma redact_data_surface: "surface (PDict (fst (redact_data d))) = surface (PDict d)"
  by (induction d) (auto simp: redact_data_def)

lemma redact_data_hides:
  "hides (\<lambda>path. \<exists>k. path = [Key k]
     \<and> k \<in> set credential_names)
     (PDict d) (PDict (fst (redact_data d)))"
  unfolding hides_def
proof
  fix path
  consider "path = []" | k rest where "path = Key k # rest" | i rest where "path = Item i # rest"
    by (metis list.exhaust location.exhaust)
  then show "shown_at path (PDict (fst (redact_data d)))
      = (if (\<exists>k. path = [Key k] \<and> k \<in> set credential_names)
           \<and> text_at path (PDict d) then Some (PStr ''**REDACTED**'') else shown_at path (PDict d))"
  proof cases
    case 1
    then show ?thesis using redact_data_surface [of d] by (simp add: shown_at_def)
  next
    case (2 k rest)
    show ?thesis
    proof (cases rest)
      case Nil
      then show ?thesis unfolding 2
        by (auto simp: shown_at_def text_at_def redact_data_lookup is_secret_iff redacted_def split: option.splits)
    next
      case (Cons r rs)
      then show ?thesis unfolding 2
        by (cases r) (auto simp: shown_at_def redact_data_lookup is_secret_iff split: option.splits)
    qed
  next
    case (3 i rest)
    then show ?thesis by (simp add: shown_at_def)
  qed
qed

lemma hides_weaken: "hides P v v' \<Longrightarrow> (\<And>path. P path = Q path) \<Longrightarrow> hides Q v v'"
  by (simp add: hides_def)

lemma redact_entry_hides:
  assumes "redact_entry e = Inr (e', n)"
  shows "hides (\<lambda>path. \<exists>k. path = [Key ''data'', Key k]
     \<and> k \<in> set credential_names) e e'"
proof (cases "\<exists>o' d. e = PDict o' \<and> map_of o' ''data'' = Some (PDict d)")
  case True
  then obtain o' d where e: "e = PDict o'" "map_of o' ''data'' = Some (PDict d)" by blast
  with assms have "e' = PDict (dict_set ''data'' (PDict (fst (redact_data d))) o')"
    by (auto simp: redact_entry_def split: prod.splits)
  with hides_key [OF redact_data_hides e(2)] e(1) show ?thesis by (auto intro: hides_weaken)
next
  case False
  with assms have "e' = e" by (auto simp: redact_entry_def split: pyval.splits option.splits)
  moreover have "\<not> text_at [Key ''data'', Key k] e" for k
    using False by (auto simp only: text_at_def value_at_some)
  ultimately show ?thesis by (auto intro: hides_same)
qed

lemma redact_entries_hide:
  "redact_entries es = Inr (es', n) \<Longrightarrow> list_all2 (hides (\<lambda>path. \<exists>k. path = [Key ''data'', Key k]
     \<and> k \<in> set credential_names)) es es'"
  by (induction es arbitrary: es' n) (auto simp: py_bind_Inr_iff dest: redact_entry_hides)

text \<open>C30: The redaction of the configuration entries, location by location: the result has the marker at
  every location where the document has a non-empty text under one of the six names \<open>token\<close>,
  \<open>access_token\<close>, \<open>refresh_token\<close>, \<open>client_secret\<close>, \<open>password\<close> and \<open>api_key\<close> directly in the
  \<open>data\<close> of an entry, and at every other location it has what the document has there: the same value,
  the same keys in the same order, or a list of the same length. Elsewhere nothing is redacted:
  not in the options of an entry and not below its data.\<close>

theorem redaction_exact:
  assumes "redact_config_entries doc = Inr (doc', n)"
  shows "shown_at path (PDict doc')
     = (if credential_place path \<and> text_at path (PDict doc) then Some (PStr ''**REDACTED**'')
        else shown_at path (PDict doc))"
proof -
  have "hides credential_place (PDict doc) (PDict doc')"
  proof (cases "\<exists>d es. map_of doc ''data'' = Some (PDict d) \<and> map_of d ''entries'' = Some (PList es)")
    case True
    then obtain d es where d: "map_of doc ''data'' = Some (PDict d)" "map_of d ''entries'' = Some (PList es)" by blast
    with assms obtain es' where es: "redact_entries es = Inr (es', n)"
      and doc': "doc' = dict_set ''data'' (PDict (dict_set ''entries'' (PList es') d)) doc"
      by (auto simp: redact_config_entries_def dict_get_def py_bind_Inr_iff)
    from hides_key [OF hides_key [OF hides_items [OF redact_entries_hide [OF es]] d(2)] d(1)]
    show ?thesis unfolding doc' by (rule hides_weaken) (auto simp: credential_place_def)
  next
    case False
    with assms have "doc' = doc"
      by (auto simp: redact_config_entries_def dict_get_def py_bind_Inr_iff split: option.splits pyval.splits list.splits if_splits)
    moreover have "\<not> text_at path (PDict doc)" if "credential_place path" for path
    proof -
      from that obtain i k where "path = [Key ''data'', Key ''entries'', Item i, Key ''data'', Key k]"
        by (auto simp: credential_place_def)
      then have "text_at path (PDict doc) \<Longrightarrow> \<exists>d es. map_of doc ''data'' = Some (PDict d) \<and> map_of d ''entries'' = Some (PList es)"
        unfolding text_at_def by (simp only: value_at_some pyval.inject) blast
      with False show ?thesis by blast
    qed
    ultimately show ?thesis by (auto intro: hides_same)
  qed
  then show ?thesis by (simp add: hides_def)
qed

definition lab_document :: "(string \<times> pyval) list" where
  "lab_document = [(''data'', PDict [(''entries'', PList [PDict [(''data'', PDict
     [(''host'', PStr ''h''), (''password'', PStr ''hunter2'')])]])])]"

lemma redaction_exact_witness:
  "\<exists>doc' n. redact_config_entries lab_document = Inr (doc', n) \<and> n = 1
     \<and> shown_at [Key ''data'', Key ''entries'', Item 0, Key ''data'', Key ''password''] (PDict doc')
         = Some (PStr ''**REDACTED**'')
     \<and> shown_at [Key ''data'', Key ''entries'', Item 0, Key ''data'', Key ''host''] (PDict doc') = Some (PStr ''h'')"
proof -
  have "(case redact_config_entries lab_document of Inr (_, n) \<Rightarrow> n = 1 | Inl _ \<Rightarrow> False)" by code_simp
  then obtain doc' where r: "redact_config_entries lab_document = Inr (doc', 1)" by (auto split: sum.splits)
  let ?location = "\<lambda>k. [Key ''data'', Key ''entries'', Item 0, Key ''data'', Key k]"
  have "credential_place (?location ''password'')" "text_at (?location ''password'') (PDict lab_document)"
    "\<not> credential_place (?location ''host'')"
    "shown_at (?location ''host'') (PDict lab_document) = Some (PStr ''h'')"
    by (simp_all add: credential_place_def credential_names_def text_at_def shown_at_def lab_document_def)
  with r redaction_exact [OF r, of "?location ''password''"] redaction_exact [OF r, of "?location ''host''"]
  show ?thesis by simp
qed

text \<open>Only the data of an entry is looked at: a secret among its options stays.\<close>

lemma options_not_redacted:
  "redact_config_entries [(''data'', PDict [(''entries'', PList [PDict
     [(''options'', PDict [(''password'', PStr ''hunter2'')])]])])]
   = Inr ([(''data'', PDict [(''entries'', PList [PDict
     [(''options'', PDict [(''password'', PStr ''hunter2'')])]])])], 0)"
  by code_simp

end
