(* ===== verification/Addon.thy ===== *)
theory Addon
  imports Web
begin

text \<open>
  The Supervisor half of \<open>addon_tools.py\<close>: resolving the ESPHome add-on, its lifecycle actions and
  its configuration. The answers of the Supervisor, of the add-on and of Home Assistant's user
  store are parameters; the state is the log of what was sent to them, oldest first, and the
  clock. An operation ends early with an error payload, raises, is cancelled while it waits, stays
  in a loop for ever (\<open>Diverged\<close>), or goes on with a value.
\<close>

section \<open>Python values as the tools use them\<close>

datatype fault = Payload pyval | Raised exn | Cancelled | Diverged

type_synonym 'a tool = "fault + 'a"

definition float_truthy :: "string \<Rightarrow> bool" where
  "float_truthy r \<longleftrightarrow> list_ex (\<lambda>c. c \<in> set ''123456789N'') (takeWhile (\<lambda>c. c \<notin> set ''eE'') r)
     \<or> startswith r ''I'' \<or> startswith r ''-I''"

definition truthy :: "pyval \<Rightarrow> bool" where
  "truthy v = (case v of
     PNone \<Rightarrow> False | PBool b \<Rightarrow> b | PInt i \<Rightarrow> i \<noteq> 0 | PFloat r \<Rightarrow> float_truthy r
   | PStr s \<Rightarrow> s \<noteq> [] | PList vs \<Rightarrow> vs \<noteq> [] | PDict d \<Rightarrow> d \<noteq> [])"

text \<open>
  A float is kept by its literal, which is what \<open>repr()\<close> prints when it has a fraction without
  superfluous zeros, at most fifteen significant digits, no exponent, and is zero or at least
  0.0001. The text of any other float is outside the model.
\<close>

definition plain_float :: "string \<Rightarrow> bool" where
  "plain_float r =
     (let s = (if startswith r ''-'' then tl r else r);
          ip = takeWhile is_digit s;
          fr = tl (dropWhile is_digit s);
          digits = dropWhile (\<lambda>c. c = CHR ''0'') (ip @ fr) in
      (case dropWhile is_digit s of c # f \<Rightarrow> c = CHR ''.'' \<and> f \<noteq> [] \<and> list_all is_digit f | [] \<Rightarrow> False)
      \<and> ip \<noteq> [] \<and> (hd ip = CHR ''0'' \<longrightarrow> ip = ''0'')
      \<and> (fr = ''0'' \<or> last fr \<noteq> CHR ''0'') \<and> length digits \<le> 15
      \<and> \<not> (ip = ''0'' \<and> startswith fr ''0000''))"

fun plain_floats :: "pyval \<Rightarrow> bool" where
  "plain_floats (PFloat r) = (plain_float r \<or> r \<in> {''NaN'', ''Infinity'', ''-Infinity''})"
| "plain_floats (PList vs) = (\<forall>v \<in> set vs. plain_floats v)"
| "plain_floats (PDict d) = (\<forall>(k, v) \<in> set d. plain_floats v)"
| "plain_floats v = True"

text \<open>\<open>json.dumps(v)\<close>, and \<open>str(v)\<close>; the \<open>str()\<close> of a container is outside the model.\<close>

definition json_text :: "pyval \<Rightarrow> string py" where
  "json_text v = (if plain_floats v then Inr (json_default v) else Inl OutOfModel)"

fun py_str :: "pyval \<Rightarrow> string py" where
  "py_str PNone = Inr ''None''"
| "py_str (PBool b) = Inr (if b then ''True'' else ''False'')"
| "py_str (PInt i) = Inr (show_int i)"
| "py_str (PStr s) = Inr s"
| "py_str (PFloat r) = (if plain_float r then Inr r else Inl OutOfModel)"
| "py_str v = Inl OutOfModel"

definition get_or_none :: "(string \<times> pyval) list \<Rightarrow> string \<Rightarrow> pyval" where
  "get_or_none d k = dict_get k PNone d"

text \<open>\<open>str(d.get(k) or "")\<close>\<close>

definition text_of :: "(string \<times> pyval) list \<Rightarrow> string \<Rightarrow> string tool" where
  "text_of d k = (if truthy (get_or_none d k)
     then (case py_str (get_or_none d k) of Inl e \<Rightarrow> Inl (Raised e) | Inr s \<Rightarrow> Inr s) else Inr [])"

definition str_of :: "pyval \<Rightarrow> string tool" where
  "str_of v = (case py_str v of Inl e \<Rightarrow> Inl (Raised e) | Inr s \<Rightarrow> Inr s)"

text \<open>\<open>repr()\<close> of a string\<close>

definition repr_char :: "char \<Rightarrow> char \<Rightarrow> string" where
  "repr_char q c =
     (if c = q \<or> c = bs then [bs, c]
      else if ord c = 10 then [bs, CHR ''n''] else if ord c = 13 then [bs, CHR ''r'']
      else if ord c = 9 then [bs, CHR ''t'']
      else if (32 \<le> ord c \<and> ord c \<le> 126) \<or> (161 \<le> ord c \<and> ord c \<noteq> 173) then [c]
      else [bs, CHR ''x'', hex_digit (ord c div 16), hex_digit (ord c mod 16)])"

definition sq :: char where "sq = chr 39"

definition repr_str :: "string \<Rightarrow> string" where
  "repr_str s = (let q = (if sq \<in> set s \<and> dq \<notin> set s then dq else sq) in q # concat (map (repr_char q) s) @ [q])"

definition error_payload :: "pyval \<Rightarrow> string \<Rightarrow> (string \<times> pyval) list \<Rightarrow> pyval" where
  "error_payload message code extra =
     PDict ([(''success'', PBool False), (''error_code'', PStr code), (''error'', message)] @ extra)"

definition tool_error :: "string \<Rightarrow> string \<Rightarrow> (string \<times> pyval) list \<Rightarrow> pyval" where
  "tool_error message code extra = error_payload (PStr message) code extra"

definition fail :: "string \<Rightarrow> string \<Rightarrow> (string \<times> pyval) list \<Rightarrow> 's \<Rightarrow> 'a tool \<times> 's" where
  "fail message code extra st = (Inl (Payload (tool_error message code extra)), st)"

section \<open>The Supervisor\<close>

record sup_request =
  p_endpoint :: string
  p_method :: string
  p_payload :: "pyval option"
  p_timeout :: int

datatype sup_answer = SupApiError string | SupUnexpected string | SupCancelled | SupResult pyval

datatype hassio = HassioMissing | HassioNotLoaded | HassioLoaded

section \<open>The outside world and the log of what was sent to it\<close>

record http_request =
  h_method :: string
  h_url :: string
  h_headers :: "(string \<times> string) list"
  h_json :: "pyval option"
  h_data :: "string option"

datatype http_answer = HttpTimeout | HttpClientError string | HttpAnswer nat multidict bytes

datatype ws_message = WsText string | WsBinary | WsClose | WsClosed | WsError | WsOther

datatype received = RecvTimeout | RecvFailed string | RecvMessage ws_message

datatype connected = ConnTimeout | ConnFailed string | ConnOpen

text \<open>An open WebSocket: where it leads, what was sent over it and how often it was read.\<close>

record socket =
  k_url :: string
  k_headers :: "(string \<times> string) list"
  k_sent :: "string list"
  k_reads :: nat

record user =
  y_id :: string
  y_active :: bool
  y_admin :: bool
  y_system :: bool

record addon_state =
  a_sup :: "sup_request list"
  a_http :: "http_request list"
  a_sockets :: "socket list"
  a_clock :: rat

record addon_env =
  a_hassio :: hassio
  a_supervisor :: "sup_request list \<Rightarrow> sup_request \<Rightarrow> sup_answer"
  a_users :: "user list"
  a_port :: "nat option"
  a_server :: "http_request list \<Rightarrow> http_request \<Rightarrow> http_answer"
  a_connect :: "socket list \<Rightarrow> string \<Rightarrow> connected"
  a_send :: "socket \<Rightarrow> string \<Rightarrow> string option" \<comment> \<open>the error a send raises\<close>
  a_receive :: "socket \<Rightarrow> rat \<Rightarrow> rat \<Rightarrow> received \<times> rat" \<comment> \<open>at a time, within a time: the message and the time after\<close>
  a_nest :: nat \<comment> \<open>the recursion limit\<close>

section \<open>Supervisor calls\<close>

definition normalize_supervisor_payload :: "pyval \<Rightarrow> pyval" where
  "normalize_supervisor_payload payload =
     (case payload of
        PDict d \<Rightarrow>
          (case map_of d ''data'' of
             Some data \<Rightarrow>
               if map_of d ''result'' = Some (PStr ''ok'') then data
               else if set (map fst d) \<subseteq> {''result'', ''data''} then data else payload
           | None \<Rightarrow> payload)
      | _ \<Rightarrow> payload)"

definition supervisor_api_call ::
  "addon_env \<Rightarrow> string \<Rightarrow> string \<Rightarrow> pyval option \<Rightarrow> int \<Rightarrow> addon_state \<Rightarrow> pyval tool \<times> addon_state" where
  "supervisor_api_call env endpoint meth data timeout st =
     (case a_hassio env of
        HassioMissing \<Rightarrow>
          fail ''Home Assistant's hassio integration is not available.'' ''supervisor_unavailable'' [] st
      | HassioNotLoaded \<Rightarrow>
          fail ''Supervisor is not loaded. This tool requires Home Assistant OS or Supervised.''
            ''supervisor_unavailable'' [] st
      | HassioLoaded \<Rightarrow>
          (let req = \<lparr>p_endpoint = endpoint, p_method = str_lower meth, p_payload = data, p_timeout = timeout\<rparr>;
               st' = st\<lparr>a_sup := a_sup st @ [req]\<rparr> in
           case a_supervisor env (a_sup st) req of
             SupApiError details \<Rightarrow>
               fail (''Supervisor API call failed: '' @ endpoint) ''supervisor_api_failed'' [(''details'', PStr details)] st'
           | SupUnexpected details \<Rightarrow>
               fail (''Unexpected Supervisor API error calling '' @ endpoint) ''supervisor_api_failed''
                 [(''details'', PStr details)] st'
           | SupCancelled \<Rightarrow> (Inl Cancelled, st')
           | SupResult v \<Rightarrow> (Inr (normalize_supervisor_payload v), st')))"

type_synonym addon = "(string \<times> pyval) list"

definition get_addon_info :: "addon_env \<Rightarrow> string \<Rightarrow> addon_state \<Rightarrow> addon tool \<times> addon_state" where
  "get_addon_info env slug =
     sbind (supervisor_api_call env (''/addons/'' @ slug @ ''/info'') ''GET'' None 30) (\<lambda>v.
       case v of
         PDict d \<Rightarrow> sreturn d
       | _ \<Rightarrow> fail ''Supervisor returned malformed add-on info.'' ''bad_response'' [])"

definition list_addons :: "addon_env \<Rightarrow> addon_state \<Rightarrow> pyval list tool \<times> addon_state" where
  "list_addons env =
     sbind (supervisor_api_call env ''/addons'' ''GET'' None 30) (\<lambda>v.
       case pdict_get v ''addons'' of
         Some (PList addons) \<Rightarrow> sreturn addons
       | _ \<Rightarrow> fail ''Supervisor returned malformed add-on list.'' ''bad_response'' [])"

definition has_esphome :: "string \<Rightarrow> bool" where
  "has_esphome s = str_in ''esphome'' (str_lower s)"

fun tool_bind :: "'a tool \<Rightarrow> ('a \<Rightarrow> 'b tool) \<Rightarrow> 'b tool" where
  "tool_bind (Inl e) f = Inl e"
| "tool_bind (Inr x) f = f x"

definition looks_like_esphome_addon :: "addon \<Rightarrow> bool tool" where
  "looks_like_esphome_addon d =
     tool_bind (text_of d ''slug'') (\<lambda>slug.
     tool_bind (text_of d ''name'') (\<lambda>name.
     tool_bind (text_of d ''description'') (\<lambda>description.
     tool_bind (text_of d ''repository'') (\<lambda>repository.
       Inr (list_ex has_esphome [slug, name, description, repository])))))"

fun esphome_matches :: "pyval list \<Rightarrow> addon list tool" where
  "esphome_matches [] = Inr []"
| "esphome_matches (v # vs) =
     (case v of
        PDict d \<Rightarrow>
          tool_bind (looks_like_esphome_addon d) (\<lambda>ok.
            tool_bind (esphome_matches vs) (\<lambda>ms. Inr (if ok then d # ms else ms)))
      | _ \<Rightarrow> Inl (Raised AttributeError))"

definition resolve_explicit :: "addon_env \<Rightarrow> string \<Rightarrow> addon_state \<Rightarrow> addon tool \<times> addon_state" where
  "resolve_explicit env slug =
     sbind (get_addon_info env slug) (\<lambda>addon.
     sbind (slift (looks_like_esphome_addon addon)) (\<lambda>ok.
       if \<not> ok then fail (''Add-on '' @ repr_str slug @ '' does not look like the ESPHome add-on.'')
                      ''not_esphome_addon'' [(''slug'', PStr slug)]
       else sreturn addon))"

definition resolve_esphome_addon :: "addon_env \<Rightarrow> string option \<Rightarrow> addon_state \<Rightarrow> addon tool \<times> addon_state" where
  "resolve_esphome_addon env slug =
     (case slug of
        Some (c # s) \<Rightarrow> resolve_explicit env (c # s)
      | _ \<Rightarrow>
          sbind (list_addons env) (\<lambda>addons.
          sbind (slift (esphome_matches addons)) (\<lambda>ms.
            case ms of
              [] \<Rightarrow> fail ''Could not auto-detect an installed ESPHome add-on. Pass slug explicitly.''
                     ''esphome_addon_not_found'' []
            | [m] \<Rightarrow>
                (case map_of m ''slug'' of
                   None \<Rightarrow> slift (Inl (Raised KeyError))
                 | Some v \<Rightarrow> sbind (slift (str_of v)) (get_addon_info env))
            | _ \<Rightarrow> fail ''Multiple ESPHome-looking add-ons found. Pass slug explicitly.'' ''ambiguous_esphome_addon''
                     [(''matches'', PList (map (\<lambda>m. PDict [(''slug'', get_or_none m ''slug''),
                                                     (''name'', get_or_none m ''name'')]) ms))])))"

section \<open>Actions and configuration\<close>

definition action_endpoints :: "(string \<times> string \<times> string \<times> int) list" where
  \<comment> \<open>the action, the endpoint before and after the slug, and the timeout\<close>
  "action_endpoints =
     [(''install'', ''/store/addons/'', ''/install'', 1800),
      (''update'', ''/store/addons/'', ''/update'', 1800),
      (''rebuild'', ''/addons/'', ''/rebuild'', 1800),
      (''start'', ''/addons/'', ''/start'', 120),
      (''stop'', ''/addons/'', ''/stop'', 60),
      (''restart'', ''/addons/'', ''/restart'', 120),
      (''uninstall'', ''/addons/'', ''/uninstall'', 120)]"

definition sorted_actions :: "string list" where
  "sorted_actions = [''install'', ''rebuild'', ''restart'', ''start'', ''stop'', ''uninstall'', ''update'']"

definition action_key :: "string \<Rightarrow> string" where
  "action_key action = str_strip (str_lower action)"

definition execute_action :: "addon_env \<Rightarrow> string \<Rightarrow> string \<Rightarrow> addon_state \<Rightarrow> pyval tool \<times> addon_state" where
  "execute_action env slug action =
     (let key = action_key action in
      case map_of action_endpoints key of
        None \<Rightarrow> fail (''Invalid action '' @ repr_str action @ ''.'') ''invalid_action''
                  [(''valid_actions'', PList (map PStr sorted_actions))]
      | Some (before, after, timeout) \<Rightarrow>
          sbind (supervisor_api_call env (before @ slug @ after) ''POST'' None timeout) (\<lambda>_.
            sreturn (PDict [(''success'', PBool True), (''action'', PStr key), (''slug'', PStr slug),
              (''message'', PStr (''ESPHome add-on '' @ slug @ '' '' @ key @ '' completed.''))])))"

type_synonym pydict = "(string \<times> pyval) list"

record config_args =
  g_options :: "pydict option"
  g_network :: "pydict option"
  g_boot :: "string option"
  g_auto_update :: "bool option"
  g_watchdog :: "bool option"

definition build_config_payload :: "config_args \<Rightarrow> pydict" where
  "build_config_payload a =
     (case g_options a of Some (x # d) \<Rightarrow> [(''options'', PDict (x # d))] | _ \<Rightarrow> [])
     @ (case g_network a of Some (x # d) \<Rightarrow> [(''network'', PDict (x # d))] | _ \<Rightarrow> [])
     @ (case g_boot a of Some b \<Rightarrow> [(''boot'', PStr b)] | None \<Rightarrow> [])
     @ (case g_auto_update a of Some b \<Rightarrow> [(''auto_update'', PBool b)] | None \<Rightarrow> [])
     @ (case g_watchdog a of Some b \<Rightarrow> [(''watchdog'', PBool b)] | None \<Rightarrow> [])"

definition dict_update :: "('k \<times> 'v) list \<Rightarrow> ('k \<times> 'v) list \<Rightarrow> ('k \<times> 'v) list" where
  "dict_update d e = fold (\<lambda>(k, v) d. dict_set k v d) e d"

definition merge_value :: "pyval option \<Rightarrow> pyval \<Rightarrow> pyval" where
  "merge_value old v =
     (case (old, v) of (Some (PDict d), PDict e) \<Rightarrow> PDict (dict_update d e) | _ \<Rightarrow> v)"

definition merge_options :: "pydict \<Rightarrow> pydict \<Rightarrow> pydict" where
  "merge_options base override = fold (\<lambda>(k, v) merged. dict_set k (merge_value (map_of merged k) v) merged) override base"

text \<open>The names a schema list allows; a container among them cannot be put in a set.\<close>

fun allowed_keys :: "pyval list \<Rightarrow> pyval list tool" where
  "allowed_keys [] = Inr []"
| "allowed_keys (v # vs) =
     (case pdict_get v ''name'' of
        None \<Rightarrow> allowed_keys vs
      | Some n \<Rightarrow>
          (case n of
             PList _ \<Rightarrow> Inl (Raised TypeError)
           | PDict _ \<Rightarrow> Inl (Raised TypeError)
           | _ \<Rightarrow> tool_bind (allowed_keys vs) (\<lambda>ns. Inr (n # ns))))"

text \<open>The merged options, and the fields the schema does not know.\<close>

definition checked_options :: "addon \<Rightarrow> pydict \<Rightarrow> (pydict \<times> string list) tool" where
  "checked_options addon opts =
     (let current = (case map_of addon ''options'' of Some (PDict d) \<Rightarrow> d | _ \<Rightarrow> []);
          merged = merge_options current opts in
      case map_of addon ''schema'' of
        Some (PList schema) \<Rightarrow>
          tool_bind (allowed_keys schema) (\<lambda>allowed.
            let ignored = filter (\<lambda>k. PStr k \<notin> set allowed) (map fst opts)
            in Inr (fold dict_pop ignored merged, ignored))
      | _ \<Rightarrow> Inr (merged, []))"

definition config_response :: "string \<Rightarrow> pydict \<Rightarrow> string list \<Rightarrow> pyval" where
  "config_response slug config_data ignored =
     (let restart = list_ex (\<lambda>k. k \<in> {''options'', ''network''}) (map fst config_data) in
      PDict ([(''success'', PBool True), (''slug'', PStr slug),
         (''submitted_fields'', PList (map (PStr \<circ> fst) config_data)),
         (''message'', PStr (if restart
            then ''Configuration submitted for ESPHome add-on '' @ slug @ ''. ''
                 @ ''Restart the add-on for options/network changes to take effect.''
            else ''Configuration updated for ESPHome add-on '' @ slug @ ''.''))]
       @ (if restart then [(''status'', PStr ''pending_restart'')] else [])
       @ (if ignored = [] then []
          else [(''ignored_fields'', PList (map PStr ignored)),
                (''warnings'', PList [PStr (show_nat (length ignored)
                   @ '' field(s) not in the add-on schema were ignored.'')])])))"

definition submit_config ::
  "addon_env \<Rightarrow> string \<Rightarrow> pydict \<Rightarrow> string list \<Rightarrow> addon_state \<Rightarrow> pyval tool \<times> addon_state" where
  "submit_config env slug config_data ignored =
     sbind (supervisor_api_call env (''/addons/'' @ slug @ ''/options'') ''POST'' (Some (PDict config_data)) 30)
       (\<lambda>_. sreturn (config_response slug config_data ignored))"

definition execute_config_update ::
  "addon_env \<Rightarrow> string \<Rightarrow> addon \<Rightarrow> pydict \<Rightarrow> addon_state \<Rightarrow> pyval tool \<times> addon_state" where
  "execute_config_update env slug addon config_data =
     (case map_of config_data ''options'' of
        Some (PDict opts) \<Rightarrow>
          sbind (slift (checked_options addon opts)) (\<lambda>(merged, ignored).
            submit_config env slug (dict_set ''options'' (PDict merged) config_data) ignored)
      | _ \<Rightarrow> submit_config env slug config_data [])"

section \<open>What a step sends\<close>

text \<open>
  A log that only ever grows: \<open>emits P m\<close> says that whatever the step \<open>m\<close> appends satisfies
  \<open>P\<close>, on every path. The three logs of the state are instances.
\<close>

locale request_log =
  fixes log :: "'s \<Rightarrow> 'b list" and post :: "'b \<Rightarrow> 's \<Rightarrow> 's"
  assumes log_post: "log (post x st) = log st @ [x]"
begin

definition emits :: "('b \<Rightarrow> bool) \<Rightarrow> ('s \<Rightarrow> ('e + 'a) \<times> 's) \<Rightarrow> bool" where
  "emits P m \<longleftrightarrow> (\<forall>st. \<exists>xs. log (snd (m st)) = log st @ xs \<and> list_all P xs)"

lemma emitsI:
  assumes "\<And>st. \<exists>xs. log (snd (m st)) = log st @ xs \<and> list_all P xs"
  shows "emits P m"
  using assms by (simp add: emits_def)

lemma emitsD:
  assumes "emits P m" "m st = (r, st')"
  shows "\<exists>xs. log st' = log st @ xs \<and> list_all P xs"
  using assms by (metis emits_def snd_conv)

lemma emits_mem:
  assumes "emits P m" "m st = (r, st')" "x \<in> set (drop (length (log st)) (log st'))"
  shows "P x"
  using emitsD [OF assms(1,2)] assms(3) by (auto simp: list_all_iff)

lemma emits_quiet: "(\<And>st. log (snd (m st)) = log st) \<Longrightarrow> emits P m"
  by (simp add: emits_def)

lemma emits_return: "emits P (sreturn x)" and emits_lift: "emits P (slift y)"
  by (simp_all add: emits_def)

lemma emits_post: "(\<And>st. snd (m st) = st \<or> (\<exists>x. P x \<and> snd (m st) = post x st)) \<Longrightarrow> emits P m"
proof (rule emitsI)
  fix st
  assume "\<And>st. snd (m st) = st \<or> (\<exists>x. P x \<and> snd (m st) = post x st)"
  then consider "snd (m st) = st" | x where "P x" "snd (m st) = post x st" by blast
  then show "\<exists>xs. log (snd (m st)) = log st @ xs \<and> list_all P xs"
    by cases (auto simp: log_post)
qed

lemma emits_weaken: "emits P m \<Longrightarrow> (\<And>x. P x \<Longrightarrow> Q x) \<Longrightarrow> emits Q m"
  unfolding emits_def by (meson list.pred_mono_strong)

lemma emits_either:
  assumes "emits P m" "\<And>st. snd (n st) = st \<or> snd (n st) = snd (m st)"
  shows "emits P n"
proof (rule emitsI)
  fix st
  show "\<exists>xs. log (snd (n st)) = log st @ xs \<and> list_all P xs"
    using assms(2) [of st] assms(1) unfolding emits_def by (cases "snd (n st) = st") auto
qed

lemma emits_bind_from:
  assumes "emits P m" and "\<And>st x st'. m st = (Inr x, st') \<Longrightarrow>
    \<exists>xs. log (snd (f x st')) = log st' @ xs \<and> list_all P xs"
  shows "emits P (sbind m f)"
proof (rule emitsI)
  fix st
  obtain r st' where m: "m st = (r, st')" by force
  from emitsD [OF assms(1) m] obtain xs where xs: "log st' = log st @ xs" "list_all P xs" by blast
  show "\<exists>ys. log (snd (sbind m f st)) = log st @ ys \<and> list_all P ys"
  proof (cases r)
    case Inl
    with m xs show ?thesis by auto
  next
    case (Inr x)
    with assms(2) m obtain ys where "log (snd (f x st')) = log st' @ ys" "list_all P ys" by blast
    with m xs Inr show ?thesis by auto
  qed
qed

lemma emits_bind:
  assumes "emits P m" "\<And>x. emits P (f x)"
  shows "emits P (sbind m f)"
  using assms(2) by (intro emits_bind_from [OF assms(1)]) (simp add: emits_def)

end

interpretation sup: request_log a_sup "\<lambda>p st. st\<lparr>a_sup := a_sup st @ [p]\<rparr>"
  by unfold_locales simp

interpretation http: request_log a_http "\<lambda>q st. st\<lparr>a_http := a_http st @ [q]\<rparr>"
  by unfold_locales simp

interpretation sockets: request_log a_sockets "\<lambda>k st. st\<lparr>a_sockets := a_sockets st @ [k]\<rparr>"
  by unfold_locales simp

named_theorems emits_rules \<open>what the steps of the model send\<close>

lemma fail_quiet [emits_rules]:
  "sup.emits P (fail m c x)" "http.emits Q (fail m c x)" "sockets.emits K (fail m c x)"
  by (simp_all add: sup.emits_def http.emits_def sockets.emits_def fail_def)

lemmas [emits_rules] = sup.emits_return http.emits_return sockets.emits_return
  sup.emits_lift http.emits_lift sockets.emits_lift

text \<open>The one Supervisor request a call makes, and that it makes no other.\<close>

definition sup_req :: "string \<Rightarrow> string \<Rightarrow> pyval option \<Rightarrow> int \<Rightarrow> sup_request" where
  "sup_req endpoint meth data timeout =
     \<lparr>p_endpoint = endpoint, p_method = str_lower meth, p_payload = data, p_timeout = timeout\<rparr>"

lemma supervisor_api_call_emits [emits_rules]:
  assumes "P (sup_req e m d t)"
  shows "sup.emits P (supervisor_api_call env e m d t)"
  using assms unfolding sup_req_def
  by (intro sup.emits_post) (auto simp: supervisor_api_call_def fail_def Let_def split: hassio.splits sup_answer.splits)

lemma supervisor_api_call_quiet [emits_rules]:
  "http.emits Q (supervisor_api_call env e m d t)" "sockets.emits K (supervisor_api_call env e m d t)"
  by (auto intro!: http.emits_quiet sockets.emits_quiet
      simp: supervisor_api_call_def fail_def Let_def split: hassio.splits sup_answer.splits)

text \<open>A request that only reads.\<close>

definition is_get :: "sup_request \<Rightarrow> bool" where
  "is_get p \<longleftrightarrow> p_method p = ''get''"

lemma lower_methods [simp]: "str_lower ''GET'' = ''get''" "str_lower ''POST'' = ''post''"
  by code_simp+

lemma is_get_req [simp]: "is_get (sup_req e ''GET'' d t)" "\<not> is_get (sup_req e ''POST'' d t)"
  by (simp_all add: is_get_def sup_req_def)

lemma get_addon_info_emits [emits_rules]:
  "sup.emits is_get (get_addon_info env slug)" "http.emits Q (get_addon_info env slug)"
  "sockets.emits K (get_addon_info env slug)"
  unfolding get_addon_info_def
  by (auto intro!: sup.emits_bind http.emits_bind sockets.emits_bind emits_rules split: pyval.splits)

lemma list_addons_emits [emits_rules]:
  "sup.emits is_get (list_addons env)" "http.emits Q (list_addons env)" "sockets.emits K (list_addons env)"
  unfolding list_addons_def
  by (auto intro!: sup.emits_bind http.emits_bind sockets.emits_bind emits_rules split: option.splits pyval.splits)

lemma resolve_esphome_addon_emits [emits_rules]:
  "sup.emits is_get (resolve_esphome_addon env slug)" "http.emits Q (resolve_esphome_addon env slug)"
  "sockets.emits K (resolve_esphome_addon env slug)"
  unfolding resolve_esphome_addon_def resolve_explicit_def
  by (auto intro!: sup.emits_bind http.emits_bind sockets.emits_bind emits_rules split: option.splits list.splits)

section \<open>Merging options\<close>

lemma fold_dict_set_other: "k \<notin> fst ` set e \<Longrightarrow> map_of (fold (\<lambda>(k, v). dict_set k (f k v)) e d) k = map_of d k"
  by (induction e arbitrary: d) auto

lemma map_of_dict_update:
  "distinct (map fst e) \<Longrightarrow> map_of (dict_update d e) k = (case map_of e k of Some v \<Rightarrow> Some v | None \<Rightarrow> map_of d k)"
  unfolding dict_update_def
proof (induction e arbitrary: d)
  case (Cons p e)
  obtain k' v where p: "p = (k', v)" by force
  with Cons.prems have new: "k' \<notin> fst ` set e" and dist: "distinct (map fst e)" by auto
  then have "map_of e k' = None" by (simp add: map_of_eq_None_iff)
  with p Cons.IH [OF dist, of "dict_set k' v d"] show ?case by (auto split: option.splits)
qed simp

lemma map_of_merge_options:
  "distinct (map fst ov) \<Longrightarrow> map_of (merge_options base ov) k =
     (case map_of ov k of Some v \<Rightarrow> Some (merge_value (map_of base k) v) | None \<Rightarrow> map_of base k)"
  unfolding merge_options_def
proof (induction ov arbitrary: base)
  case (Cons p ov)
  obtain k' v where p: "p = (k', v)" by force
  with Cons.prems have new: "k' \<notin> fst ` set ov" and dist: "distinct (map fst ov)" by auto
  then have "map_of ov k' = None" by (simp add: map_of_eq_None_iff)
  with p Cons.IH [OF dist, of "dict_set k' (merge_value (map_of base k') v) base"]
  show ?case by (auto split: option.splits)
qed simp

lemma map_of_fold_dict_pop: "map_of (fold dict_pop ks d) k = (if k \<in> set ks then None else map_of d k)"
  by (induction ks arbitrary: d) auto

text \<open>The fields a schema knows; without a schema list every field is known.\<close>

definition accepted :: "addon \<Rightarrow> string \<Rightarrow> bool" where
  "accepted addon k =
     (case map_of addon ''schema'' of
        Some (PList schema) \<Rightarrow> list_ex (\<lambda>v. pdict_get v ''name'' = Some (PStr k)) schema
      | _ \<Rightarrow> True)"

definition current_options :: "addon \<Rightarrow> pydict" where
  "current_options addon = (case map_of addon ''options'' of Some (PDict d) \<Rightarrow> d | _ \<Rightarrow> [])"

lemma allowed_keys_mem:
  "allowed_keys vs = Inr ns \<Longrightarrow> PStr k \<in> set ns \<longleftrightarrow> list_ex (\<lambda>v. pdict_get v ''name'' = Some (PStr k)) vs"
proof (induction vs arbitrary: ns)
  case (Cons v vs)
  show ?case
  proof (cases "pdict_get v ''name''")
    case None
    with Cons show ?thesis by simp
  next
    case (Some n)
    with Cons.prems obtain ms where "allowed_keys vs = Inr ms" "ns = n # ms"
      by (cases n; cases "allowed_keys vs") auto
    with Cons.IH Some show ?thesis by auto
  qed
qed simp

text \<open>What becomes of an option.\<close>

definition option_after :: "addon \<Rightarrow> pydict \<Rightarrow> string \<Rightarrow> pyval option" where
  "option_after addon opts k =
     (case map_of opts k of
        None \<Rightarrow> map_of (current_options addon) k
      | Some v \<Rightarrow> if accepted addon k then Some (merge_value (map_of (current_options addon) k) v) else None)"

lemma checked_options_spec:
  assumes "checked_options addon opts = Inr (m, ignored)" "distinct (map fst opts)"
  shows "map_of m k = option_after addon opts k" and "ignored = filter (\<lambda>k. \<not> accepted addon k) (map fst opts)"
proof -
  let ?merged = "merge_options (current_options addon) opts"
  have merged: "map_of ?merged k = (case map_of opts k of
      Some v \<Rightarrow> Some (merge_value (map_of (current_options addon) k) v) | None \<Rightarrow> map_of (current_options addon) k)" for k
    by (rule map_of_merge_options) fact
  show "map_of m k = option_after addon opts k" "ignored = filter (\<lambda>k. \<not> accepted addon k) (map fst opts)"
  proof (atomize (full), cases "\<exists>schema. map_of addon ''schema'' = Some (PList schema)")
    case True
    then obtain schema where schema: "map_of addon ''schema'' = Some (PList schema)" by blast
    with assms(1) obtain ns where ns: "allowed_keys schema = Inr ns"
      and ig: "ignored = filter (\<lambda>k. PStr k \<notin> set ns) (map fst opts)"
      and m: "m = fold dict_pop ignored ?merged"
      by (cases "allowed_keys schema") (auto simp: checked_options_def Let_def current_options_def)
    have acc: "PStr k \<in> set ns \<longleftrightarrow> accepted addon k" for k
      using allowed_keys_mem [OF ns, of k] schema by (simp add: accepted_def)
    have "k \<in> set (map fst opts) \<longleftrightarrow> map_of opts k \<noteq> None" for k
      by (simp add: map_of_eq_None_iff)
    with merged show "map_of m k = option_after addon opts k \<and> ignored = filter (\<lambda>k. \<not> accepted addon k) (map fst opts)"
      by (auto simp: m map_of_fold_dict_pop ig acc option_after_def split: option.splits)
  next
    case False
    with assms(1) have "m = ?merged" "ignored = []"
      by (auto simp: checked_options_def Let_def current_options_def split: option.splits pyval.splits)
    moreover from False have "accepted addon k" for k
      by (auto simp: accepted_def split: option.splits pyval.splits)
    ultimately show "map_of m k = option_after addon opts k \<and> ignored = filter (\<lambda>k. \<not> accepted addon k) (map fst opts)"
      using merged by (auto simp: option_after_def split: option.splits)
  qed
qed

lemma submit_config_sends:
  assumes "submit_config env slug cfg ignored st = (Inr v, st')"
  shows "a_sup st' = a_sup st @ [sup_req (''/addons/'' @ slug @ ''/options'') ''POST'' (Some (PDict cfg)) 30]"
    and "v = config_response slug cfg ignored"
  using assms
  by (auto simp: submit_config_def sbind_def supervisor_api_call_def fail_def sup_req_def Let_def
      split: hassio.splits sup_answer.splits)

text \<open>C23: A configuration update that succeeds has sent the Supervisor exactly one request, with
  every field of the caller's other than the options unchanged, and with each option what the
  caller's override makes of it: an option the schema knows is the override, merged one level
  deep into a dict, an option the schema does not know is not sent at all, and an option the
  caller leaves out keeps its current value. The answer lists the ignored options.\<close>

theorem config_update_submits:
  assumes "execute_config_update env slug addon cfg st = (Inr v, st')"
    and "map_of cfg ''options'' = Some (PDict opts)" and "distinct (map fst opts)"
  shows "\<exists>sent m. a_sup st' = a_sup st @ [sup_req (''/addons/'' @ slug @ ''/options'') ''POST'' (Some (PDict sent)) 30]
     \<and> map_of sent = (map_of cfg)(''options'' \<mapsto> PDict m) \<and> map_of m = option_after addon opts
     \<and> v = config_response slug sent (filter (\<lambda>k. \<not> accepted addon k) (map fst opts))"
proof -
  from assms(1,2) obtain m ignored where c: "checked_options addon opts = Inr (m, ignored)"
    and s: "submit_config env slug (dict_set ''options'' (PDict m) cfg) ignored st = (Inr v, st')"
    by (cases "checked_options addon opts") (auto simp: execute_config_update_def sbind_def)
  from checked_options_spec [OF c assms(3)] have "map_of m = option_after addon opts"
    and ig: "ignored = filter (\<lambda>k. \<not> accepted addon k) (map fst opts)" by auto
  with submit_config_sends [OF s] show ?thesis by (intro exI [of _ "dict_set ''options'' (PDict m) cfg"] exI [of _ m]) simp
qed

section \<open>A concrete installation\<close>

text \<open>One ESPHome add-on, running behind ingress, and an add-on that is something else.\<close>

definition lab_addon :: addon where
  "lab_addon =
     [(''slug'', PStr ''a0_esphome''), (''name'', PStr ''ESPHome''), (''state'', PStr ''started''),
      (''ingress'', PBool True), (''ingress_entry'', PStr ''/api/hassio_ingress/k''),
      (''options'', PDict [(''ssl'', PBool False), (''old'', PInt 1)]),
      (''schema'', PList [PDict [(''name'', PStr ''ssl'')]])]"

definition lab_supervisor :: "sup_request list \<Rightarrow> sup_request \<Rightarrow> sup_answer" where
  "lab_supervisor _ p = SupResult
     (if p_endpoint p = ''/addons''
      then PDict [(''addons'', PList [PDict [(''slug'', PStr ''core_ssh'')], PDict [(''slug'', PStr ''a0_esphome'')]])]
      else if p_endpoint p = ''/addons/a0_esphome/info''
      then PDict [(''result'', PStr ''ok''), (''data'', PDict lab_addon)]
      else if p_endpoint p = ''/ingress/session'' then PDict [(''session'', PStr ''s3'')]
      else PDict [])"

definition lab_env :: addon_env where
  "lab_env =
     \<lparr>a_hassio = HassioLoaded, a_supervisor = lab_supervisor,
      a_users = [\<lparr>y_id = ''u'', y_active = True, y_admin = True, y_system = False\<rparr>],
      a_port = Some 80, a_server = (\<lambda>_ _. HttpTimeout), a_connect = (\<lambda>_ _. ConnOpen), a_send = (\<lambda>_ _. None),
      a_receive = (\<lambda>_ now t. (RecvTimeout, now + t)), a_nest = 20\<rparr>"

definition lab_start :: addon_state where
  "lab_start = \<lparr>a_sup = [], a_http = [], a_sockets = [], a_clock = 0\<rparr>"

lemma config_update_submits_witness:
  "\<exists>sent m. map_of m ''ssl'' = Some (PBool True) \<and> map_of m ''old'' = Some (PInt 1) \<and> map_of m ''tls'' = None
     \<and> map_of sent ''options'' = Some (PDict m)
     \<and> a_sup (snd (execute_config_update lab_env ''a0_esphome'' lab_addon
           [(''options'', PDict [(''ssl'', PBool True), (''tls'', PNone)])] lab_start))
         = [sup_req ''/addons/a0_esphome/options'' ''POST'' (Some (PDict sent)) 30]"
proof -
  let ?opts = "[(''ssl'', PBool True), (''tls'', PNone)]" and ?cfg = "[(''options'', PDict [(''ssl'', PBool True), (''tls'', PNone)])]"
  let ?run = "execute_config_update lab_env ''a0_esphome'' lab_addon ?cfg lab_start"
  have ok: "case fst ?run of Inr _ \<Rightarrow> True | Inl _ \<Rightarrow> False" by code_simp
  obtain r st' where run: "?run = (r, st')" by force
  with ok obtain v where "?run = (Inr v, st')" by (cases r) auto
  from config_update_submits [OF this, of ?opts] obtain sent m where
    "a_sup st' = a_sup lab_start @ [sup_req (''/addons/'' @ ''a0_esphome'' @ ''/options'') ''POST'' (Some (PDict sent)) 30]"
    "map_of sent = (map_of ?cfg)(''options'' \<mapsto> PDict m)" "map_of m = option_after lab_addon ?opts" by auto
  moreover have "option_after lab_addon ?opts ''ssl'' = Some (PBool True)" "option_after lab_addon ?opts ''old'' = Some (PInt 1)"
    "option_after lab_addon ?opts ''tls'' = None" by code_simp+
  ultimately show ?thesis using run by (intro exI [of _ sent] exI [of _ m]) (simp add: lab_start_def)
qed

section \<open>Which add-on is resolved\<close>

lemma esphome_matches_spec:
  "esphome_matches vs = Inr ms \<Longrightarrow>
     map PDict ms = filter (\<lambda>v. case v of PDict d \<Rightarrow> looks_like_esphome_addon d = Inr True | _ \<Rightarrow> False) vs"
proof (induction vs arbitrary: ms)
  case (Cons v vs)
  then obtain d where v: "v = PDict d" by (cases v) auto
  with Cons.prems obtain ok ms' where "looks_like_esphome_addon d = Inr ok" "esphome_matches vs = Inr ms'"
    "ms = (if ok then d # ms' else ms')"
    by (cases "looks_like_esphome_addon d"; cases "esphome_matches vs") auto
  with Cons.IH v show ?case by auto
qed simp

text \<open>The installed add-ons that look like ESPHome.\<close>

definition esphome_addons :: "pyval list \<Rightarrow> pyval list" where
  "esphome_addons vs = filter (\<lambda>v. case v of PDict d \<Rightarrow> looks_like_esphome_addon d = Inr True | _ \<Rightarrow> False) vs"

lemma resolve_found:
  assumes "resolve_esphome_addon env slug st = (Inr addon, st')"
  shows "(\<exists>c s. slug = Some (c # s) \<and> looks_like_esphome_addon addon = Inr True
            \<and> get_addon_info env (c # s) st = (Inr addon, st'))
       \<or> (slug \<in> {None, Some []} \<and> (\<exists>vs st1 m v sid. list_addons env st = (Inr vs, st1) \<and> esphome_addons vs = [PDict m]
            \<and> map_of m ''slug'' = Some v \<and> py_str v = Inr sid \<and> get_addon_info env sid st1 = (Inr addon, st')))"
proof -
  consider (explicit) c s where "slug = Some (c # s)" | (auto) "slug \<in> {None, Some []}"
    by (cases slug; cases "the slug") auto
  then show ?thesis
  proof cases
    case explicit
    with assms have "looks_like_esphome_addon addon = Inr True" "get_addon_info env (c # s) st = (Inr addon, st')"
      by (auto simp: resolve_esphome_addon_def resolve_explicit_def sbind_def fail_def split: prod.splits sum.splits if_splits)
    with explicit show ?thesis by blast
  next
    case auto
    then have "resolve_esphome_addon env slug = resolve_esphome_addon env None"
      by (auto simp: resolve_esphome_addon_def)
    with assms obtain vs st1 m v sid where "list_addons env st = (Inr vs, st1)" "esphome_matches vs = Inr [m]"
      "map_of m ''slug'' = Some v" "str_of v = Inr sid" "get_addon_info env sid st1 = (Inr addon, st')"
      by (auto simp: resolve_esphome_addon_def sbind_def fail_def split: prod.splits sum.splits list.splits option.splits)
    moreover from \<open>esphome_matches vs = Inr [m]\<close> have "esphome_addons vs = [PDict m]"
      unfolding esphome_addons_def by (auto dest: esphome_matches_spec)
    moreover from \<open>str_of v = Inr sid\<close> have "py_str v = Inr sid" by (simp add: str_of_def split: sum.splits)
    ultimately show ?thesis using auto by blast
  qed
qed

lemma resolve_quiet:
  assumes "resolve_esphome_addon env slug st = (Inr addon, st')"
  shows "\<exists>ps. a_sup st' = a_sup st @ ps \<and> list_all is_get ps \<and> a_http st' = a_http st \<and> a_sockets st' = a_sockets st"
  using sup.emitsD [OF resolve_esphome_addon_emits(1) assms]
      http.emitsD [OF resolve_esphome_addon_emits(2) assms, of "\<lambda>_. False"]
      sockets.emitsD [OF resolve_esphome_addon_emits(3) assms, of "\<lambda>_. False"]
  by (auto simp: list_all_iff)

text \<open>C24: An add-on is only ever resolved to one that the Supervisor describes as ESPHome: the add-on
  of the caller's slug when its description mentions ESPHome, and without a slug the only
  installed add-on that does, never one of several. On the way nothing but reading requests is
  sent to the Supervisor, and nothing at all to an add-on.\<close>

theorem resolve_sound:
  assumes "resolve_esphome_addon env slug st = (Inr addon, st')"
  shows "((\<exists>c s. slug = Some (c # s) \<and> looks_like_esphome_addon addon = Inr True
            \<and> get_addon_info env (c # s) st = (Inr addon, st'))
       \<or> (slug \<in> {None, Some []} \<and> (\<exists>vs st1 m v sid. list_addons env st = (Inr vs, st1) \<and> esphome_addons vs = [PDict m]
            \<and> map_of m ''slug'' = Some v \<and> py_str v = Inr sid \<and> get_addon_info env sid st1 = (Inr addon, st'))))
    \<and> (\<exists>ps. a_sup st' = a_sup st @ ps \<and> list_all is_get ps \<and> a_http st' = a_http st \<and> a_sockets st' = a_sockets st)"
  using resolve_found [OF assms] resolve_quiet [OF assms] by (rule conjI)

lemma resolve_sound_witness:
  "looks_like_esphome_addon lab_addon = Inr True
   \<and> (\<exists>st1 m. list_addons lab_env lab_start = (Inr [PDict [(''slug'', PStr ''core_ssh'')], PDict m], st1)
        \<and> get_addon_info lab_env ''a0_esphome'' st1 = (Inr lab_addon, snd (resolve_esphome_addon lab_env None lab_start)))
   \<and> a_http (snd (resolve_esphome_addon lab_env (Some ''a0_esphome'') lab_start)) = []"
proof -
  let ?auto = "resolve_esphome_addon lab_env None lab_start"
  let ?expl = "resolve_esphome_addon lab_env (Some ''a0_esphome'') lab_start"
  have "?auto = (Inr lab_addon, snd ?auto)" by code_simp
  from resolve_sound [OF this] obtain vs st1 m v sid where auto: "list_addons lab_env lab_start = (Inr vs, st1)"
    "esphome_addons vs = [PDict m]" "map_of m ''slug'' = Some v" "py_str v = Inr sid"
    "get_addon_info lab_env sid st1 = (Inr lab_addon, snd ?auto)" by auto
  have l: "fst (list_addons lab_env lab_start) =
      Inr [PDict [(''slug'', PStr ''core_ssh'')], PDict [(''slug'', PStr ''a0_esphome'')]]" by code_simp
  have "esphome_addons [PDict [(''slug'', PStr ''core_ssh'')], PDict [(''slug'', PStr ''a0_esphome'')]]
      = [PDict [(''slug'', PStr ''a0_esphome'')]]" by code_simp
  with l auto have "sid = ''a0_esphome''" "vs = [PDict [(''slug'', PStr ''core_ssh'')], PDict [(''slug'', PStr ''a0_esphome'')]]"
    by auto
  moreover have "?expl = (Inr lab_addon, snd ?expl)" by code_simp
  note expl = resolve_sound [OF this]
  from expl have "looks_like_esphome_addon lab_addon = Inr True" by auto
  moreover from expl have "a_http (snd ?expl) = []" by (auto simp: lab_start_def)
  ultimately show ?thesis using auto by blast
qed

end
