(* ===== verification/Notes.thy ===== *)
theory Notes
  imports Release Addon
begin

text \<open>
  \<open>scripts/release_notes.py\<close>: the release notes taken out of the body of a pull request, the choice
  of the merged pull request, and the rendered release body. \<open>scripts/validate_release_metadata.py\<close>:
  the checks on the metadata of a release. Running git and reading the files is not modelled: what
  they give are arguments.
\<close>

datatype notes_error =
    NoSection | ManySections | EmptySection | NothingSaid
  | NotAList | ManyExact | NoMerged | ManyMerged
  | NoNumber | NoTitle | NoUrl | NoBody | NoPullRequest

section \<open>Lines of a pull request body\<close>

text \<open>The text before the first occurrence and after it\<close>

fun cut_at :: "string \<Rightarrow> string \<Rightarrow> (string \<times> string) option" where
  "cut_at pat [] = (if pat = [] then Some ([], []) else None)"
| "cut_at pat (c # s) =
     (if startswith (c # s) pat then Some ([], drop (length pat) (c # s))
      else map_option (\<lambda>(a, b). (c # a, b)) (cut_at pat s))"

lemma cut_at_shorter: "cut_at pat s = Some (a, b) \<Longrightarrow> length b + length pat \<le> length s"
proof (induction s arbitrary: a)
  case Nil
  then show ?case by (simp split: if_splits)
next
  case (Cons c s)
  show ?case
  proof (cases "startswith (c # s) pat")
    case True
    then have "length pat \<le> length (c # s)"
      by (metis append_eq_conv_conj length_append le_add1 startswith_def take_all_iff nat_le_linear length_take min_def)
    with True Cons.prems show ?thesis by auto
  next
    case False
    with Cons show ?thesis by fastforce
  qed
qed

function strip_comments :: "string \<Rightarrow> string" where
  "strip_comments s =
     (case cut_at ''<!--'' s of
        None \<Rightarrow> s
      | Some (before, r) \<Rightarrow> (case cut_at ''-->'' r of None \<Rightarrow> s | Some (_, after) \<Rightarrow> before @ strip_comments after))"
  by pat_completeness auto
termination
proof (relation "measure length")
  fix s :: string and p before r q skipped after
  assume "cut_at ''<!--'' s = Some p" "(before, r) = p" "cut_at ''-->'' r = Some q" "(skipped, after) = q"
  then show "(after, s) \<in> measure length"
    using cut_at_shorter [of "''<!--''" s before r] cut_at_shorter [of "''-->''" r skipped after] by auto
qed simp

declare strip_comments.simps [simp del]

definition blank :: "char \<Rightarrow> bool" where
  "blank c \<longleftrightarrow> c = CHR '' '' \<or> c = CHR 0x09"

text \<open>The run of backticks or tildes that opens or closes a fence\<close>

definition fence_marker :: "string \<Rightarrow> string option" where
  "fence_marker line =
     (case dropWhile blank line of
        [] \<Rightarrow> None
      | c # s \<Rightarrow>
          (let run = takeWhile ((=) c) (c # s) in
           if (c = CHR ''`'' \<or> c = CHR ''~'') \<and> 3 \<le> length run then Some run else None))"

text \<open>The fence that is open after a line\<close>

definition after_line :: "string option \<Rightarrow> string \<Rightarrow> string option" where
  "after_line active line =
     (case fence_marker line of
        None \<Rightarrow> active
      | Some marker \<Rightarrow>
          (case active of
             None \<Rightarrow> Some marker
           | Some opened \<Rightarrow> if hd marker = hd opened \<and> length opened \<le> length marker then None else active))"

definition release_heading :: "string \<Rightarrow> bool" where
  "release_heading line \<longleftrightarrow>
     (case line of
        c1 # c2 # s \<Rightarrow> c1 = CHR ''#'' \<and> c2 = CHR ''#'' \<and> s \<noteq> [] \<and> blank (hd s)
          \<and> str_lower (rstrip_by blank (dropWhile blank s)) = ''release notes''
      | _ \<Rightarrow> False)"

definition top_heading :: "string \<Rightarrow> bool" where
  "top_heading line \<longleftrightarrow>
     (case line of
        CHR ''#'' # s \<Rightarrow>
          s = [] \<or> blank (hd s)
          \<or> (hd s = CHR ''#'' \<and> (tl s = [] \<or> blank (hd (tl s))))
      | _ \<Rightarrow> False)"

section \<open>The section\<close>

text \<open>The first loop: where the headings are; the second: how many lines belong to the section\<close>

fun section_starts :: "nat \<Rightarrow> string option \<Rightarrow> string list \<Rightarrow> nat list" where
  "section_starts i active [] = []"
| "section_starts i active (line # lines) =
     (if fence_marker line = None \<and> active = None \<and> release_heading (str_strip line)
      then i # section_starts (Suc i) active lines
      else section_starts (Suc i) (after_line active line) lines)"

fun section_length :: "string option \<Rightarrow> string list \<Rightarrow> nat" where
  "section_length active [] = 0"
| "section_length active (line # lines) =
     (if fence_marker line = None \<and> active = None \<and> top_heading (str_strip line) then 0
      else Suc (section_length (after_line active line) lines))"

fun join_lines :: "string list \<Rightarrow> string" where
  "join_lines [] = []"
| "join_lines [l] = l"
| "join_lines (l # ls) = l @ CHR 0x0A # join_lines ls"

definition fold_char :: "char \<Rightarrow> string" where
  "fold_char c = (if ord c = 223 then ''ss'' else [lower_char c])"

fun squeeze :: "string \<Rightarrow> string" where
  "squeeze [] = []"
| "squeeze (c # s) =
     (if is_lower_ascii c \<or> is_digit c then c # squeeze s
      else (case squeeze s of CHR '' '' # t \<Rightarrow> CHR '' '' # t | t \<Rightarrow> CHR '' '' # t))"

text \<open>\<open>re.sub(r"[^a-z0-9]+", " ", notes.casefold()).strip()\<close>\<close>

definition normalized :: "string \<Rightarrow> string" where
  "normalized notes = str_strip (squeeze (concat (map fold_char notes)))"

definition empty_release_notes :: "string list" where
  "empty_release_notes = [''n a'', ''na'', ''no release notes'', ''none'', ''not applicable'']"

definition body_lines :: "string \<Rightarrow> string list" where
  "body_lines body = split_lines [] (strip_comments body)"

definition extract_release_notes :: "string \<Rightarrow> notes_error + string" where
  "extract_release_notes body =
     (let lines = body_lines body in
      case section_starts 0 None lines of
        [] \<Rightarrow> Inl NoSection
      | [i] \<Rightarrow>
          (let rest = drop (Suc i) lines;
               notes = str_strip (join_lines (take (section_length None rest) rest)) in
           if notes = [] then Inl EmptySection
           else if normalized notes \<in> set empty_release_notes then Inl NothingSaid
           else Inr notes)
      | _ \<Rightarrow> Inl ManySections)"

section \<open>Which pull request\<close>

definition has_merged_at :: "(string \<times> pyval) list \<Rightarrow> bool" where
  "has_merged_at pull \<longleftrightarrow> truthy (dict_get ''merged_at'' PNone pull)"

fun merged_pulls :: "pyval list \<Rightarrow> (string \<times> pyval) list list" where
  "merged_pulls [] = []"
| "merged_pulls (p # ps) =
     (case p of PDict d \<Rightarrow> if has_merged_at d then d # merged_pulls ps else merged_pulls ps | _ \<Rightarrow> merged_pulls ps)"

definition select_merged_pull :: "pyval \<Rightarrow> string \<Rightarrow> notes_error + (string \<times> pyval) list" where
  "select_merged_pull pulls merge_sha =
     (case pulls of
        PList ps \<Rightarrow>
          (let merged = merged_pulls ps;
               exact = filter (\<lambda>d. dict_get ''merge_commit_sha'' PNone d = PStr merge_sha) merged in
           case exact of
             [d] \<Rightarrow> Inr d
           | _ # _ # _ \<Rightarrow> Inl ManyExact
           | [] \<Rightarrow> (case merged of [d] \<Rightarrow> Inr d | [] \<Rightarrow> Inl NoMerged | _ \<Rightarrow> Inl ManyMerged))
      | _ \<Rightarrow> Inl NotAList)"

section \<open>The release body\<close>

text \<open>\<open>isinstance(number, int)\<close>, which a Boolean is too, and its text\<close>

definition number_text :: "pyval \<Rightarrow> string option" where
  "number_text v =
     (case v of PInt i \<Rightarrow> Some (show_int i) | PBool b \<Rightarrow> Some (if b then ''True'' else ''False'') | _ \<Rightarrow> None)"

definition render_release_notes :: "pyval \<Rightarrow> string \<Rightarrow> notes_error + string" where
  "render_release_notes pulls merge_sha =
     (case select_merged_pull pulls merge_sha of
        Inl e \<Rightarrow> Inl e
      | Inr pull \<Rightarrow>
          (case number_text (dict_get ''number'' PNone pull) of
             None \<Rightarrow> Inl NoNumber
           | Some num \<Rightarrow>
               (case dict_get ''title'' PNone pull of
                  PStr title \<Rightarrow>
                    if str_strip title = [] then Inl NoTitle
                    else
                      (case dict_get ''html_url'' PNone pull of
                         PStr url \<Rightarrow>
                           if \<not> startswith url ''https://github.com/'' then Inl NoUrl
                           else
                             (case dict_get ''body'' PNone pull of
                                PStr body \<Rightarrow>
                                  (case extract_release_notes body of
                                     Inl e \<Rightarrow> Inl e
                                   | Inr notes \<Rightarrow>
                                       Inr (''## What'' @ [CHR 0x27] @ ''s changed'' @ [CHR 0x0A, CHR 0x0A] @ notes
                                         @ [CHR 0x0A, CHR 0x0A] @ ''---'' @ [CHR 0x0A, CHR 0x0A] @ ''[Pull request #''
                                         @ num @ ''](''  @ url @ ''): '' @ str_strip title @ [CHR 0x0A]))
                              | _ \<Rightarrow> Inl NoBody)
                       | _ \<Rightarrow> Inl NoUrl)
                | _ \<Rightarrow> Inl NoTitle)))"

text \<open>
  The check of a pull request: the versions of the worktree and of the base, and the event. The
  result says whether notes were required.
\<close>

definition validate_pull_request_event :: "string \<Rightarrow> string \<Rightarrow> (string \<times> pyval) list \<Rightarrow> notes_error + bool" where
  "validate_pull_request_event worktree base event =
     (if worktree = base then Inr False
      else
        (case dict_get ''pull_request'' PNone event of
           PDict pull \<Rightarrow>
             (case extract_release_notes (case dict_get ''body'' PNone pull of PStr body \<Rightarrow> body | _ \<Rightarrow> []) of
                Inl e \<Rightarrow> Inl e
              | Inr _ \<Rightarrow> Inr True)
         | _ \<Rightarrow> Inl NoPullRequest))"

section \<open>Where a line stands\<close>

definition fence_after :: "string list \<Rightarrow> string option" where
  "fence_after lines = foldl after_line None lines"

definition in_text :: "string list \<Rightarrow> nat \<Rightarrow> bool" where
  "in_text lines i \<longleftrightarrow> i < length lines \<and> fence_marker (lines ! i) = None \<and> fence_after (take i lines) = None"

definition release_line :: "string list \<Rightarrow> nat \<Rightarrow> bool" where
  "release_line lines i \<longleftrightarrow> in_text lines i \<and> release_heading (str_strip (lines ! i))"

definition top_line :: "string list \<Rightarrow> nat \<Rightarrow> bool" where
  "top_line lines i \<longleftrightarrow> in_text lines i \<and> top_heading (str_strip (lines ! i))"

lemma after_line_plain: "fence_marker line = None \<Longrightarrow> after_line active line = active"
  by (simp add: after_line_def)

lemma section_starts_spec:
  "section_starts n (foldl after_line None pre) lines
     = filter (\<lambda>k. release_line (pre @ lines) (k - n + length pre)) [n..<n + length lines]"
proof (induction lines arbitrary: n pre)
  case Nil
  then show ?case by simp
next
  case (Cons line lines)
  have step: "foldl after_line None (pre @ [line]) = after_line (foldl after_line None pre) line" by simp
  have here: "release_line (pre @ line # lines) (length pre)
      \<longleftrightarrow> fence_marker line = None \<and> foldl after_line None pre = None \<and> release_heading (str_strip line)"
    by (auto simp: release_line_def in_text_def fence_after_def)
  have upt: "[n..<n + length (line # lines)] = n # [Suc n..<Suc n + length lines]"
    by (simp add: upt_rec)
  have rest: "filter (\<lambda>k. release_line (pre @ line # lines) (k - n + length pre)) [Suc n..<Suc n + length lines]
      = filter (\<lambda>k. release_line ((pre @ [line]) @ lines) (k - Suc n + length (pre @ [line]))) [Suc n..<Suc n + length lines]"
  proof (rule filter_cong [OF refl])
    fix k assume "k \<in> set [Suc n..<Suc n + length lines]"
    then have "k - n + length pre = k - Suc n + length (pre @ [line])" by auto
    then show "release_line (pre @ line # lines) (k - n + length pre)
        = release_line ((pre @ [line]) @ lines) (k - Suc n + length (pre @ [line]))" by simp
  qed
  let ?f = "filter (\<lambda>k. release_line (pre @ line # lines) (k - n + length pre)) [Suc n..<Suc n + length lines]"
  have tail: "section_starts (Suc n) (after_line (foldl after_line None pre) line) lines = ?f"
    using Cons.IH [of "Suc n" "pre @ [line]"] unfolding rest step .
  have "section_starts n (foldl after_line None pre) (line # lines)
      = (if release_line (pre @ line # lines) (length pre) then n # ?f else ?f)"
  proof (cases "release_line (pre @ line # lines) (length pre)")
    case True
    with here have "fence_marker line = None" by simp
    from after_line_plain [OF this] tail
    have "section_starts (Suc n) (foldl after_line None pre) lines = ?f" by (simp only:)
    with True here show ?thesis by simp
  next
    case False
    with here tail show ?thesis by (simp only: section_starts.simps if_False)
  qed
  then show ?case unfolding upt by (simp only: filter.simps diff_self_eq_0 add_0)
qed

lemma section_length_spec:
  fixes pre lines
  defines "j \<equiv> length pre + section_length (foldl after_line None pre) lines"
  shows "j \<le> length (pre @ lines) \<and> (\<forall>k. length pre \<le> k \<and> k < j \<longrightarrow> \<not> top_line (pre @ lines) k)
    \<and> (j < length (pre @ lines) \<longrightarrow> top_line (pre @ lines) j)"
  unfolding j_def
proof (induction lines arbitrary: pre)
  case Nil
  then show ?case by auto
next
  case (Cons line lines)
  have here: "top_line (pre @ line # lines) (length pre)
      \<longleftrightarrow> fence_marker line = None \<and> foldl after_line None pre = None \<and> top_heading (str_strip line)"
    by (auto simp: top_line_def in_text_def fence_after_def)
  show ?case
  proof (cases "top_line (pre @ line # lines) (length pre)")
    case True
    with here show ?thesis by (auto simp del: upt_Suc)
  next
    case False
    with here have len: "section_length (foldl after_line None pre) (line # lines)
        = Suc (section_length (foldl after_line None (pre @ [line])) lines)" by auto
    let ?l = "section_length (foldl after_line None (pre @ [line])) lines"
    note Cons.IH [of "pre @ [line]", unfolded append_assoc append_Cons append_Nil length_append_singleton]
    then have IH: "Suc (length pre) + ?l \<le> length (pre @ line # lines)"
      "\<forall>k. Suc (length pre) \<le> k \<and> k < Suc (length pre) + ?l \<longrightarrow> \<not> top_line (pre @ line # lines) k"
      "Suc (length pre) + ?l < length (pre @ line # lines) \<longrightarrow> top_line (pre @ line # lines) (Suc (length pre) + ?l)"
      by blast+
    have "\<not> top_line (pre @ line # lines) k" if "length pre \<le> k" "k < Suc (length pre) + ?l" for k
      using that False IH(2) by (cases "k = length pre") auto
    with IH(1,3) show ?thesis unfolding len by simp
  qed
qed

text \<open>The two loops of the extraction, by where lines stand.\<close>

lemma starts_are: "section_starts 0 None lines = filter (release_line lines) [0..<length lines]"
  using section_starts_spec [of 0 "[]" lines] by simp

lemma one_start: "section_starts 0 None lines = [i] \<longleftrightarrow> (\<forall>k. release_line lines k \<longleftrightarrow> k = i)"
proof
  assume "section_starts 0 None lines = [i]"
  then have "set (filter (release_line lines) [0..<length lines]) = {i}" by (simp add: starts_are)
  then show "\<forall>k. release_line lines k \<longleftrightarrow> k = i" by (auto simp: release_line_def in_text_def)
next
  assume all: "\<forall>k. release_line lines k \<longleftrightarrow> k = i"
  then have "i < length lines" by (auto simp: release_line_def in_text_def)
  then have split: "[0..<length lines] = [0..<i] @ i # [Suc i..<length lines]"
    using upt_add_eq_append [of 0 i "length lines - i"] upt_conv_Cons [of i "length lines"] by simp
  have "filter (release_line lines) [0..<i] = []" "filter (release_line lines) [Suc i..<length lines] = []"
    using all by (auto simp: filter_empty_conv)
  with all show "section_starts 0 None lines = [i]" by (simp add: starts_are split)
qed

lemma after_heading: "in_text lines i \<Longrightarrow> foldl after_line None (take (Suc i) lines) = None"
  by (simp add: in_text_def fence_after_def take_Suc_conv_app_nth after_line_plain)

text \<open>The section of the heading at \<open>i\<close>: up to the next heading that ends it, or to the end.\<close>

definition section_at :: "string list \<Rightarrow> nat \<Rightarrow> nat \<Rightarrow> bool" where
  "section_at lines i j \<longleftrightarrow> i < j \<and> j \<le> length lines
     \<and> (\<forall>k. i < k \<and> k < j \<longrightarrow> \<not> top_line lines k) \<and> (j < length lines \<longrightarrow> top_line lines j)"

lemma release_in_text: "\<forall>k. release_line lines k \<longleftrightarrow> k = i \<Longrightarrow> in_text lines i"
  by (auto simp: release_line_def)

lemma section_at_iff:
  assumes "\<forall>k. release_line lines k \<longleftrightarrow> k = i"
  shows "section_at lines i j \<longleftrightarrow> j = Suc i + section_length None (drop (Suc i) lines)"
proof -
  let ?e = "Suc i + section_length None (drop (Suc i) lines)"
  have t: "in_text lines i" using assms by (rule release_in_text)
  then have "Suc i \<le> length lines" by (simp add: in_text_def)
  with section_length_spec [of "take (Suc i) lines" "drop (Suc i) lines", unfolded after_heading [OF t]]
  have e: "?e \<le> length lines" "\<forall>k. Suc i \<le> k \<and> k < ?e \<longrightarrow> \<not> top_line lines k" "?e < length lines \<longrightarrow> top_line lines ?e"
    by (simp_all add: min_absorb2)
  show ?thesis
  proof
    assume j: "section_at lines i j"
    have "\<not> ?e < j" using j e(3) by (auto simp: section_at_def)
    moreover have "\<not> j < ?e" using j e(1,2) by (auto simp: section_at_def)
    ultimately show "j = ?e" by simp
  qed (use e in \<open>auto simp: section_at_def\<close>)
qed

text \<open>What was chosen is a merged pull request of the response: the only one with that commit, or, when
  none has it, the only merged one.\<close>

lemma merged_pulls_set: "d \<in> set (merged_pulls ps) \<longleftrightarrow> PDict d \<in> set ps \<and> has_merged_at d"
  by (induction ps) (auto split: pyval.splits)

lemma select_merged_pull_sound:
  assumes "select_merged_pull pulls sha = Inr d"
  shows "\<exists>ps. pulls = PList ps \<and> PDict d \<in> set ps \<and> has_merged_at d
    \<and> ((\<forall>d' \<in> set (merged_pulls ps). dict_get ''merge_commit_sha'' PNone d' = PStr sha \<longrightarrow> d' = d)
       \<and> dict_get ''merge_commit_sha'' PNone d = PStr sha
       \<or> merged_pulls ps = [d])"
proof -
  from assms obtain ps where ps: "pulls = PList ps" by (auto simp: select_merged_pull_def split: pyval.splits)
  let ?exact = "filter (\<lambda>d. dict_get ''merge_commit_sha'' PNone d = PStr sha) (merged_pulls ps)"
  from assms ps consider "?exact = [d]" | "merged_pulls ps = [d]"
    by (auto simp: select_merged_pull_def Let_def split: list.splits)
  then show ?thesis
  proof cases
    case 1
    then have "set ?exact = {d}" by simp
    with ps merged_pulls_set [of d ps] show ?thesis by auto
  next
    case 2
    with ps merged_pulls_set [of d ps] show ?thesis by auto
  qed
qed

text \<open>C28: The extraction gives what a reader sees. It succeeds exactly when the body without its
  comments has one and only one line that is a release-notes heading outside every fenced block;
  the notes are then the lines from there to the next heading of the first or second level
  outside every fenced block, or to the end, without surrounding white space, and are neither
  empty nor a phrase that says nothing.\<close>

theorem extract_release_notes_exact:
  "extract_release_notes body = Inr notes \<longleftrightarrow>
     (\<exists>i j. (\<forall>k. release_line (body_lines body) k \<longleftrightarrow> k = i) \<and> section_at (body_lines body) i j
        \<and> notes = str_strip (join_lines (take (j - Suc i) (drop (Suc i) (body_lines body))))
        \<and> notes \<noteq> [] \<and> normalized notes \<notin> set empty_release_notes)"
proof -
  let ?lines = "body_lines body"
  let ?Q = "\<lambda>i n. notes = str_strip (join_lines (take n (drop (Suc i) ?lines)))
      \<and> notes \<noteq> [] \<and> normalized notes \<notin> set empty_release_notes"
  have "extract_release_notes body = Inr notes \<longleftrightarrow>
      (\<exists>i. section_starts 0 None ?lines = [i] \<and> ?Q i (section_length None (drop (Suc i) ?lines)))"
    by (auto simp: extract_release_notes_def Let_def split: list.splits)
  also have "\<dots> \<longleftrightarrow> (\<exists>i j. (\<forall>k. release_line ?lines k \<longleftrightarrow> k = i) \<and> section_at ?lines i j \<and> ?Q i (j - Suc i))"
  proof (rule iff_exI)
    fix i
    show "(section_starts 0 None ?lines = [i] \<and> ?Q i (section_length None (drop (Suc i) ?lines)))
        \<longleftrightarrow> (\<exists>j. (\<forall>k. release_line ?lines k \<longleftrightarrow> k = i) \<and> section_at ?lines i j \<and> ?Q i (j - Suc i))"
    proof (cases "\<forall>k. release_line ?lines k \<longleftrightarrow> k = i")
      case True
      then show ?thesis by (simp add: one_start section_at_iff [OF True])
    next
      case False
      then show ?thesis unfolding one_start by blast
    qed
  qed
  finally show ?thesis .
qed

text \<open>A heading in a fenced block is neither a section nor the end of one.\<close>

definition lab_body :: string where
  "lab_body = join_lines [''intro'', ''```'', ''## Release notes'', ''```'', ''## Release Notes'', ''- fixed <!-- not --> it'', ''## Testing'', ''x'']"

lemma extract_release_notes_exact_witness:
  "\<exists>i j. (\<forall>k. release_line (body_lines lab_body) k \<longleftrightarrow> k = i) \<and> section_at (body_lines lab_body) i j"
proof -
  have lines: "body_lines lab_body = [''intro'', ''```'', ''## Release notes'', ''```'', ''## Release Notes'', ''- fixed  it'', ''## Testing'', ''x'']"
    by code_simp
  have "extract_release_notes lab_body = Inr ''- fixed  it''"
    unfolding extract_release_notes_def lines Let_def by code_simp
  with extract_release_notes_exact show ?thesis by blast
qed

section \<open>Release metadata\<close>

text \<open>What \<open>validate_release_metadata\<close> reads, and what it complains of.\<close>

record metadata =
  d_project :: string
  d_manifest :: string
  d_const :: "string option"
  d_minimum :: "string option" \<comment> \<open>\<open>HA_CORE_VERSION\<close>\<close>
  d_hacs :: "(string \<times> pyval) list"
  d_readme :: string
  d_component_hacs :: bool \<comment> \<open>the component has a \<open>hacs.json\<close> of its own\<close>

datatype metadata_error =
    ProjectDiffers | ConstDiffers | BadReleaseVersion | ReleaseDiffers | HacsName | HacsMinimum
  | ReadmeMinimum | ReadmeNotRendered | ZipRelease | HasFilename | ComponentHacs

definition normalize_version :: "string \<Rightarrow> string" where
  "normalize_version version = (if startswith version ''v'' then drop 1 version else version)"

definition optional :: "string option \<Rightarrow> pyval" where
  "optional v = (case v of None \<Rightarrow> PNone | Some s \<Rightarrow> PStr s)"

definition validate_release_metadata :: "string option \<Rightarrow> metadata \<Rightarrow> metadata_error list" where
  "validate_release_metadata expected m =
     (if d_project m \<noteq> d_manifest m then [ProjectDiffers] else [])
     @ (if d_const m \<noteq> Some (d_manifest m) then [ConstDiffers] else [])
     @ (case expected of
          None \<Rightarrow> []
        | Some version \<Rightarrow>
            (if parse_version (normalize_version version) = None then [BadReleaseVersion] else [])
            @ (if normalize_version version \<noteq> d_manifest m then [ReleaseDiffers] else []))
     @ (if dict_get ''name'' PNone (d_hacs m) \<noteq> PStr ''ESPHome MCP'' then [HacsName] else [])
     @ (if dict_get ''homeassistant'' PNone (d_hacs m) \<noteq> optional (d_minimum m) then [HacsMinimum] else [])
     @ (if \<not> str_in (''Home Assistant `'' @ (case d_minimum m of None \<Rightarrow> ''None'' | Some v \<Rightarrow> v) @ ''` or newer.'') (d_readme m)
        then [ReadmeMinimum] else [])
     @ (if dict_get ''render_readme'' PNone (d_hacs m) \<noteq> PBool True then [ReadmeNotRendered] else [])
     @ (if truthy (dict_get ''zip_release'' PNone (d_hacs m)) then [ZipRelease] else [])
     @ (if map_of (d_hacs m) ''filename'' \<noteq> None then [HasFilename] else [])
     @ (if d_component_hacs m then [ComponentHacs] else [])"

text \<open>What the bump writes satisfies the check of the release that is tagged with it.\<close>

lemma bumped_metadata:
  assumes "bump_component_version base versions changes = Inr (Rewrite current target)"
    and "d_project m = target" "d_manifest m = target" "d_const m = Some target"
  shows "validate_release_metadata (Some (CHR ''v'' # target)) m = validate_release_metadata None m"
    and "set (validate_release_metadata None m) \<inter> {ProjectDiffers, ConstDiffers, BadReleaseVersion, ReleaseDiffers} = {}"
proof -
  from assms(1) obtain key where "version_key base = Inr key" "next_patch base = Inr target"
    by (auto simp: bump_component_version_def split: sum.splits if_splits prod.splits)
  from next_patch_key [OF this(2,1)] obtain k where "version_key target = Inr k" by metis
  then have "parse_version target \<noteq> None" by (auto simp: version_key_def split: option.splits)
  moreover have "normalize_version (CHR ''v'' # target) = target" by (simp add: normalize_version_def startswith_def)
  ultimately show "validate_release_metadata (Some (CHR ''v'' # target)) m = validate_release_metadata None m"
    using assms(2-4) by (simp add: validate_release_metadata_def)
  show "set (validate_release_metadata None m) \<inter> {ProjectDiffers, ConstDiffers, BadReleaseVersion, ReleaseDiffers} = {}"
    using assms(2-4) by (auto simp: validate_release_metadata_def)
qed

end
