(* ===== verification/Vendor.thy ===== *)
theory Vendor
  imports Release "HOL-Library.Char_ord"
begin

text \<open>
  The parts of \<open>scripts/vendor_fastmcp.py\<close> that decide and that change the tree: the swap of the
  staged packages with its way back, and the merging of the vendored requirements into those of
  the manifest. Downloading, unpacking and rewriting the packages are not modelled.
\<close>

section \<open>The vendor directory\<close>

text \<open>
  For each package the three names beside each other: the live tree, the staged one
  (\<open>.incoming\<close>) and the one set aside (\<open>.previous\<close>). A tree is the list of its files.
\<close>

datatype place = Live string | Incoming string | Previous string

type_synonym tree = "string list"

record vendor_dir =
  v_trees :: "place \<Rightarrow> tree option"
  v_ops :: nat \<comment> \<open>how many operations were done\<close>

text \<open>Which operation fails, and what a removal that fails leaves of a tree.\<close>

record vendor_env =
  w_fault :: "nat \<Rightarrow> bool"
  w_left :: "nat \<Rightarrow> tree \<Rightarrow> tree"

definition put :: "place \<Rightarrow> tree option \<Rightarrow> vendor_dir \<Rightarrow> vendor_dir" where
  "put p v d = d\<lparr>v_trees := (v_trees d)(p := v), v_ops := Suc (v_ops d)\<rparr>"

text \<open>\<open>shutil.rmtree(p, ignore_errors=True)\<close>\<close>

definition rmtree :: "vendor_env \<Rightarrow> place \<Rightarrow> vendor_dir \<Rightarrow> vendor_dir" where
  "rmtree env p d =
     put p (if w_fault env (v_ops d) then map_option (w_left env (v_ops d)) (v_trees d p) else None) d"

text \<open>\<open>a.rename(b)\<close>: whether it is done. A directory that is not empty is not replaced.\<close>

definition rename :: "vendor_env \<Rightarrow> place \<Rightarrow> place \<Rightarrow> vendor_dir \<Rightarrow> bool \<times> vendor_dir" where
  "rename env a b d =
     (case v_trees d a of
        None \<Rightarrow> (False, d\<lparr>v_ops := Suc (v_ops d)\<rparr>)
      | Some tree \<Rightarrow>
          if w_fault env (v_ops d) \<or> v_trees d b \<noteq> None \<and> v_trees d b \<noteq> Some [] then (False, d\<lparr>v_ops := Suc (v_ops d)\<rparr>)
          else (True, (put b (Some tree) d)\<lparr>v_trees := (v_trees d)(b := Some tree, a := None)\<rparr>))"

section \<open>The swap\<close>

text \<open>
  The loop of the \<open>try\<close> block: whether it ends without an exception, and what was swapped, the
  newest first, with whether there was a live tree before.
\<close>

fun swap_all :: "vendor_env \<Rightarrow> string list \<Rightarrow> (string \<times> bool) list \<Rightarrow> vendor_dir
    \<Rightarrow> bool \<times> (string \<times> bool) list \<times> vendor_dir" where
  "swap_all env [] swapped d = (True, swapped, d)"
| "swap_all env (t # ts) swapped d =
     (let d1 = rmtree env (Previous t) d;
          had_previous = v_trees d1 (Live t) \<noteq> None;
          (done1, d2) = (if had_previous then rename env (Live t) (Previous t) d1 else (True, d1)) in
      if \<not> done1 then (False, swapped, d2)
      else
        (let (done2, d3) = rename env (Incoming t) (Live t) d2 in
         if \<not> done2 then (False, (t, had_previous) # swapped, d3)
         else swap_all env ts ((t, had_previous) # swapped) d3))"

text \<open>The way back, which an exception of its own cuts short\<close>

fun restore_all :: "vendor_env \<Rightarrow> (string \<times> bool) list \<Rightarrow> vendor_dir \<Rightarrow> bool \<times> vendor_dir" where
  "restore_all env [] d = (True, d)"
| "restore_all env ((t, had_previous) # swapped) d =
     (let d1 = rmtree env (Live t) d;
          (done1, d2) = (if had_previous then rename env (Previous t) (Live t) d1 else (True, d1)) in
      if done1 then restore_all env swapped d2 else (False, d2))"

definition remove_all :: "vendor_env \<Rightarrow> place list \<Rightarrow> vendor_dir \<Rightarrow> vendor_dir" where
  "remove_all env ps d = fold (rmtree env) ps d"

text \<open>\<open>_promote\<close>: whether it returns, and the directory it leaves.\<close>

definition promote :: "vendor_env \<Rightarrow> string list \<Rightarrow> vendor_dir \<Rightarrow> bool \<times> vendor_dir" where
  "promote env staged d =
     (case swap_all env staged [] d of
        (True, swapped, d1) \<Rightarrow> (True, remove_all env (map (Previous \<circ> fst) (rev swapped)) d1)
      | (False, swapped, d1) \<Rightarrow>
          (case restore_all env swapped d1 of
             (True, d2) \<Rightarrow> (False, remove_all env (map Incoming staged) d2)
           | (False, d2) \<Rightarrow> (False, d2)))"

section \<open>Lemmas\<close>

text \<open>No operation fails from now on.\<close>

definition calm :: "vendor_env \<Rightarrow> vendor_dir \<Rightarrow> bool" where
  "calm env d \<longleftrightarrow> (\<forall>i \<ge> v_ops d. \<not> w_fault env i)"

text \<open>At most one operation fails.\<close>

definition one_fault :: "vendor_env \<Rightarrow> bool" where
  "one_fault env \<longleftrightarrow> (\<forall>i j. w_fault env i \<and> w_fault env j \<longrightarrow> i = j)"

lemma calm_later: "calm env d \<Longrightarrow> v_ops d \<le> v_ops d' \<Longrightarrow> calm env d'"
  by (simp add: calm_def)

lemma fault_calms: "one_fault env \<Longrightarrow> w_fault env (v_ops d) \<Longrightarrow> v_ops d < v_ops d' \<Longrightarrow> calm env d'"
  by (auto simp: one_fault_def calm_def) (metis leD)

lemma rmtree_ops [simp]: "v_ops (rmtree env p d) = Suc (v_ops d)"
  by (simp add: rmtree_def put_def)

lemma rmtree_other [simp]: "q \<noteq> p \<Longrightarrow> v_trees (rmtree env p d) q = v_trees d q"
  by (simp add: rmtree_def put_def)

lemma rmtree_calm [simp]: "calm env d \<Longrightarrow> v_trees (rmtree env p d) p = None"
  by (simp add: rmtree_def put_def calm_def)

lemma rename_ops [simp]: "v_ops (snd (rename env a b d)) = Suc (v_ops d)"
  by (simp add: rename_def put_def split: option.split)

lemma rename_other [simp]: "q \<noteq> a \<Longrightarrow> q \<noteq> b \<Longrightarrow> v_trees (snd (rename env a b d)) q = v_trees d q"
  by (simp add: rename_def put_def split: option.split)

lemma rename_done:
  "fst (rename env a b d) \<Longrightarrow> a \<noteq> b \<Longrightarrow> v_trees (snd (rename env a b d)) = (v_trees d)(b := v_trees d a, a := None)"
  by (auto simp: rename_def put_def split: option.splits if_splits)

lemma rename_undone: "\<not> fst (rename env a b d) \<Longrightarrow> v_trees (snd (rename env a b d)) = v_trees d"
  by (auto simp: rename_def put_def split: option.splits if_splits)

lemma rename_calm:
  "calm env d \<Longrightarrow> v_trees d a \<noteq> None \<Longrightarrow> v_trees d b = None \<Longrightarrow> fst (rename env a b d)"
  by (auto simp: rename_def calm_def)

lemma calm_rmtree [simp]: "calm env d \<Longrightarrow> calm env (rmtree env p d)"
  by (simp add: calm_def)

lemma calm_rename [simp]: "calm env d \<Longrightarrow> calm env (snd (rename env a b d))"
  by (simp add: calm_def)

lemma remove_all_other: "q \<notin> set ps \<Longrightarrow> v_trees (remove_all env ps d) q = v_trees d q"
  unfolding remove_all_def by (induction ps arbitrary: d) auto

lemma remove_all_calm: "calm env d \<Longrightarrow> q \<in> set ps \<Longrightarrow> v_trees (remove_all env ps d) q = None"
proof (induction ps arbitrary: d)
  case Nil
  then show ?case by simp
next
  case (Cons p ps)
  show ?case
  proof (cases "q \<in> set ps")
    case True
    with Cons show ?thesis by (simp add: remove_all_def)
  next
    case False
    with Cons remove_all_other [OF False, of env "rmtree env p d"] show ?thesis by (simp add: remove_all_def)
  qed
qed

text \<open>The way back, when no operation fails.\<close>

lemma restore_all_calm:
  assumes "calm env d" "distinct (map fst swapped)" "\<forall>(t, had) \<in> set swapped. had \<longrightarrow> v_trees d (Previous t) \<noteq> None"
  shows "\<exists>d'. restore_all env swapped d = (True, d') \<and> calm env d'
    \<and> (\<forall>(t, had) \<in> set swapped. v_trees d' (Live t) = (if had then v_trees d (Previous t) else None))
    \<and> (\<forall>t. t \<notin> fst ` set swapped \<longrightarrow> v_trees d' (Live t) = v_trees d (Live t))"
  using assms
proof (induction swapped arbitrary: d)
  case Nil
  then show ?case by simp
next
  case (Cons s swapped)
  obtain t had where s: "s = (t, had)" by force
  define d1 where "d1 = rmtree env (Live t) d"
  define d2 where "d2 = (if had then snd (rename env (Previous t) (Live t) d1) else d1)"
  have d1: "calm env d1" "v_trees d1 (Live t) = None" "\<And>p. p \<noteq> Live t \<Longrightarrow> v_trees d1 p = v_trees d p"
    using Cons.prems(1) by (simp_all add: d1_def)
  have moved: "fst (rename env (Previous t) (Live t) d1)" if had
    using d1 Cons.prems(3) that s by (intro rename_calm) auto
  then have step: "restore_all env (s # swapped) d = restore_all env swapped d2"
    by (auto simp: s d1_def d2_def Let_def split: prod.splits)
  have live: "v_trees d2 (Live t) = (if had then v_trees d (Previous t) else None)"
    using moved d1 by (auto simp: d2_def rename_done)
  have other: "v_trees d2 (Live u) = v_trees d (Live u)" "v_trees d2 (Previous u) = v_trees d (Previous u)" if "u \<noteq> t" for u
    using that d1 by (auto simp: d2_def)
  have t: "t \<notin> fst ` set swapped" using Cons.prems(2) s by (metis distinct.simps(2) fst_conv list.simps(9) set_map)
  have neq: "u \<noteq> t" if "(u, h) \<in> set swapped" for u h
    using t that by (metis fst_conv image_eqI)
  have "v_trees d2 (Previous u) \<noteq> None" if "(u, h) \<in> set swapped" "h" for u h
    using Cons.prems(3) that unfolding s other(2) [OF neq [OF that(1)]] by auto
  then have "\<forall>(u, h) \<in> set swapped. h \<longrightarrow> v_trees d2 (Previous u) \<noteq> None" by blast
  moreover have "calm env d2" using d1 by (simp add: d2_def)
  moreover have "distinct (map fst swapped)" using Cons.prems(2) by simp
  ultimately obtain d' where d': "restore_all env swapped d2 = (True, d')" "calm env d'"
    "\<forall>(u, h) \<in> set swapped. v_trees d' (Live u) = (if h then v_trees d2 (Previous u) else None)"
    "\<forall>u. u \<notin> fst ` set swapped \<longrightarrow> v_trees d' (Live u) = v_trees d2 (Live u)"
    using Cons.IH [of d2] by blast
  have "v_trees d' (Live u) = (if h then v_trees d (Previous u) else None)" if "(u, h) \<in> set swapped" for u h
    using d'(3) that other(2) [OF neq [OF that]] by auto
  moreover have "v_trees d' (Live t) = (if had then v_trees d (Previous t) else None)"
    using d'(4) t live by simp
  ultimately have "\<forall>(u, h) \<in> set (s # swapped). v_trees d' (Live u) = (if h then v_trees d (Previous u) else None)"
    unfolding s by auto
  moreover have "\<forall>u. u \<notin> fst ` set (s # swapped) \<longrightarrow> v_trees d' (Live u) = v_trees d (Live u)"
    using d'(4) other(1) unfolding s by auto
  ultimately show ?case using d'(1,2) unfolding step by blast
qed

text \<open>The swap: what it keeps while it goes on, and what holds when it is cut short.\<close>

definition swapped_ok :: "vendor_dir \<Rightarrow> (string \<times> bool) list \<Rightarrow> vendor_dir \<Rightarrow> bool" where
  "swapped_ok d0 swapped d \<longleftrightarrow> (\<forall>(t, had) \<in> set swapped. (had \<longleftrightarrow> v_trees d0 (Live t) \<noteq> None)
     \<and> (had \<longrightarrow> v_trees d (Previous t) = v_trees d0 (Live t)))"

definition untouched :: "vendor_dir \<Rightarrow> string set \<Rightarrow> vendor_dir \<Rightarrow> bool" where
  "untouched d0 ts d \<longleftrightarrow> (\<forall>t \<in> ts. v_trees d (Live t) = v_trees d0 (Live t) \<and> v_trees d (Incoming t) = v_trees d0 (Incoming t))"

definition installed :: "vendor_dir \<Rightarrow> (string \<times> bool) list \<Rightarrow> vendor_dir \<Rightarrow> bool" where
  "installed d0 swapped d \<longleftrightarrow> (\<forall>(t, had) \<in> set swapped. v_trees d (Live t) = v_trees d0 (Incoming t))"

lemma swap_all_spec:
  assumes "swap_all env ts swapped d = (ok, swapped', d')" "one_fault env" "distinct (map fst swapped @ ts)"
    and "swapped_ok d0 swapped d" "installed d0 swapped d" "untouched d0 (set ts) d"
    and "\<forall>t \<in> set ts. v_trees d0 (Incoming t) \<noteq> None"
  shows "swapped_ok d0 swapped' d' \<and> distinct (map fst swapped') \<and> fst ` set swapped \<subseteq> fst ` set swapped'
    \<and> fst ` set swapped' \<subseteq> fst ` set swapped \<union> set ts
    \<and> (ok \<longrightarrow> installed d0 swapped' d' \<and> fst ` set swapped' = fst ` set swapped \<union> set ts)
    \<and> (\<not> ok \<longrightarrow> calm env d' \<and> (\<forall>t \<in> set ts. t \<notin> fst ` set swapped' \<longrightarrow> v_trees d' (Live t) = v_trees d0 (Live t)))"
  using assms
proof (induction ts arbitrary: swapped d ok swapped' d')
  case Nil
  then show ?case by simp
next
  case (Cons t ts)
  define d1 where "d1 = rmtree env (Previous t) d"
  define had where "had = (v_trees d1 (Live t) \<noteq> None)"
  define r1 where "r1 = (if had then rename env (Live t) (Previous t) d1 else (True, d1))"
  define r2 where "r2 = rename env (Incoming t) (Live t) (snd r1)"
  have unfold: "swap_all env (t # ts) swapped d =
     (if \<not> fst r1 then (False, swapped, snd r1)
      else if \<not> fst r2 then (False, (t, had) # swapped, snd r2)
      else swap_all env ts ((t, had) # swapped) (snd r2))"
    by (auto simp: d1_def had_def r1_def r2_def Let_def split: prod.splits)
  have t: "t \<notin> set ts" "t \<notin> fst ` set swapped" using Cons.prems(3) by auto
  have neq: "u \<noteq> t" if "(u, h) \<in> set swapped" for u h using t(2) that by (metis fst_conv image_eqI)
  have d1: "v_trees d1 p = v_trees d p" if "p \<noteq> Previous t" for p using that by (simp add: d1_def)
  have start: "v_trees d (Live t) = v_trees d0 (Live t)" "v_trees d (Incoming t) = v_trees d0 (Incoming t)"
    "v_trees d0 (Incoming t) \<noteq> None" using Cons.prems(6,7) by (simp_all add: untouched_def)
  then have had_iff: "had \<longleftrightarrow> v_trees d0 (Live t) \<noteq> None" by (simp add: had_def d1)
  have after1: "v_trees (snd r1) p = v_trees d p" if "p \<noteq> Previous t" "p \<noteq> Live t" for p
    using that d1 by (simp add: r1_def)
  have after2: "v_trees (snd r2) p = v_trees d p" if "p \<noteq> Previous t" "p \<noteq> Live t" "p \<noteq> Incoming t" for p
    using that after1 by (simp add: r2_def)
  have prev_kept: "swapped_ok d0 swapped d'" if "\<And>u. u \<noteq> t \<Longrightarrow> v_trees d' (Previous u) = v_trees d (Previous u)" for d'
    using Cons.prems(4) neq that unfolding swapped_ok_def by fastforce
  have ops: "v_ops d < v_ops (snd r1)" "v_ops d1 < v_ops (snd r1) \<or> \<not> had" "v_ops (snd r1) < v_ops (snd r2)"
    by (simp_all add: d1_def r1_def r2_def)
  have rest_kept: "v_trees d (Live u) = v_trees d0 (Live u)" if "u \<in> set ts" for u
    using Cons.prems(6) that by (simp add: untouched_def)
  show ?case
  proof (cases "fst r1")
    case False
    then have had and r1: "r1 = rename env (Live t) (Previous t) d1" by (auto simp: r1_def split: if_splits)
    have calm: "calm env (snd r1)"
    proof (cases "w_fault env (v_ops d)")
      case True
      from fault_calms [OF Cons.prems(2) this ops(1)] show ?thesis .
    next
      case fine: False
      then have "v_trees d1 (Previous t) = None" by (simp add: d1_def rmtree_def put_def)
      with False r1 \<open>had\<close> have "w_fault env (v_ops d1)" by (auto simp: rename_def had_def split: option.splits if_splits)
      with fault_calms [OF Cons.prems(2)] ops(2) \<open>had\<close> show ?thesis by blast
    qed
    have trees: "v_trees (snd r1) = v_trees d1" using False unfolding r1 by (rule rename_undone)
    have "swapped_ok d0 swapped (snd r1)" by (rule prev_kept) (simp add: trees d1)
    moreover have "v_trees (snd r1) (Live u) = v_trees d0 (Live u)" if "u \<in> set (t # ts)" for u
      using that start rest_kept by (auto simp: trees d1)
    moreover have "ok = False" "swapped' = swapped" "d' = snd r1" using Cons.prems(1) False unfolding unfold by simp_all
    ultimately show ?thesis using calm Cons.prems(3) by auto
  next
    case True
    have live: "v_trees (snd r1) (Live t) = None"
      using True by (auto simp: r1_def had_def rename_done split: if_splits)
    have prev: "had \<longrightarrow> v_trees (snd r1) (Previous t) = v_trees d0 (Live t)"
      using True start d1 by (auto simp: r1_def rename_done)
    have new_ok: "swapped_ok d0 ((t, had) # swapped) d''"
      if "\<And>u. v_trees d'' (Previous u) = v_trees (snd r1) (Previous u)" for d''
    proof -
      have "swapped_ok d0 swapped d''" by (rule prev_kept) (simp add: that after1)
      then show ?thesis using prev had_iff that by (auto simp: swapped_ok_def)
    qed
    show ?thesis
    proof (cases "fst r2")
      case False
      have "w_fault env (v_ops (snd r1))"
        using False live start after1 by (auto simp: r2_def rename_def split: option.splits if_splits)
      from fault_calms [OF Cons.prems(2) this ops(3)] have "calm env (snd r2)" .
      moreover have trees: "v_trees (snd r2) = v_trees (snd r1)" using False unfolding r2_def by (rule rename_undone)
      then have "swapped_ok d0 ((t, had) # swapped) (snd r2)" by (intro new_ok) simp
      moreover have "v_trees (snd r2) (Live u) = v_trees d0 (Live u)" if "u \<in> set ts" for u
      proof -
        from that t(1) have "u \<noteq> t" by auto
        with rest_kept [OF that] show ?thesis by (simp add: after2)
      qed
      moreover have "ok = False" "swapped' = (t, had) # swapped" "d' = snd r2"
        using Cons.prems(1) True False unfolding unfold by simp_all
      ultimately show ?thesis using Cons.prems(3) t by auto
    next
      case moved: True
      have trees: "v_trees (snd r2) = (v_trees (snd r1))(Live t := v_trees (snd r1) (Incoming t), Incoming t := None)"
        using moved unfolding r2_def by (rule rename_done) simp
      have run: "swap_all env ts ((t, had) # swapped) (snd r2) = (ok, swapped', d')"
        using Cons.prems(1) True moved unfolding unfold by simp
      have "swapped_ok d0 ((t, had) # swapped) (snd r2)" by (rule new_ok) (simp add: trees)
      moreover have "installed d0 ((t, had) # swapped) (snd r2)"
        using Cons.prems(5) neq start by (fastforce simp: installed_def trees after1)
      moreover have "untouched d0 (set ts) (snd r2)"
        unfolding untouched_def
      proof
        fix u assume u: "u \<in> set ts"
        with t(1) have "u \<noteq> t" by auto
        with Cons.prems(6) u show "v_trees (snd r2) (Live u) = v_trees d0 (Live u)
            \<and> v_trees (snd r2) (Incoming u) = v_trees d0 (Incoming u)" by (simp add: untouched_def after2)
      qed
      moreover have "distinct (map fst ((t, had) # swapped) @ ts)" using Cons.prems(3) t by auto
      moreover have "\<forall>t \<in> set ts. v_trees d0 (Incoming t) \<noteq> None" using Cons.prems(7) by simp
      ultimately have *: "swapped_ok d0 swapped' d' \<and> distinct (map fst swapped')
          \<and> fst ` set ((t, had) # swapped) \<subseteq> fst ` set swapped'
          \<and> fst ` set swapped' \<subseteq> fst ` set ((t, had) # swapped) \<union> set ts
          \<and> (ok \<longrightarrow> installed d0 swapped' d' \<and> fst ` set swapped' = fst ` set ((t, had) # swapped) \<union> set ts)
          \<and> (\<not> ok \<longrightarrow> calm env d' \<and> (\<forall>t \<in> set ts. t \<notin> fst ` set swapped' \<longrightarrow> v_trees d' (Live t) = v_trees d0 (Live t)))"
        using Cons.IH [OF run Cons.prems(2)] by blast
      then show ?thesis by auto
    qed
  qed
qed

text \<open>C27: Vendoring is all or nothing. With every package staged, and when at most one file operation
  fails, wherever that happens and whatever a failed removal leaves: if the swap returns, every
  live tree is the staged one, and if it raises, every live tree is what it was, absent ones
  being absent again, and nothing staged is left.\<close>

theorem promote_atomic:
  assumes "promote env staged d = (ok, d')" "one_fault env" "distinct staged"
    and "\<forall>t \<in> set staged. v_trees d (Incoming t) \<noteq> None"
  shows "\<forall>t \<in> set staged. v_trees d' (Live t) = v_trees d (if ok then Incoming t else Live t)
     \<and> (\<not> ok \<longrightarrow> v_trees d' (Incoming t) = None)"
proof -
  obtain ok1 swapped d1 where run: "swap_all env staged [] d = (ok1, swapped, d1)" by (metis prod_cases3)
  have spec: "swapped_ok d swapped d1" "distinct (map fst swapped)" "fst ` set swapped \<subseteq> set staged"
    "ok1 \<longrightarrow> installed d swapped d1 \<and> fst ` set swapped = set staged"
    "\<not> ok1 \<longrightarrow> calm env d1 \<and> (\<forall>t \<in> set staged. t \<notin> fst ` set swapped \<longrightarrow> v_trees d1 (Live t) = v_trees d (Live t))"
    using swap_all_spec [OF run assms(2), of d] assms(3,4) by (simp_all add: swapped_ok_def installed_def untouched_def)
  show ?thesis
  proof (cases ok1)
    case True
    with assms(1) run have d': "ok" "d' = remove_all env (map (Previous \<circ> fst) (rev swapped)) d1" by (simp_all add: promote_def)
    have "v_trees d' (Live t) = v_trees d1 (Live t)" for t unfolding d' by (rule remove_all_other) auto
    with True spec(4) d'(1) show ?thesis by (force simp: installed_def)
  next
    case False
    have "\<forall>(t, had) \<in> set swapped. had \<longrightarrow> v_trees d1 (Previous t) \<noteq> None"
      using spec(1) unfolding swapped_ok_def by auto
    with False spec(2,5) obtain d2 where d2: "restore_all env swapped d1 = (True, d2)" "calm env d2"
      "\<forall>(t, had) \<in> set swapped. v_trees d2 (Live t) = (if had then v_trees d1 (Previous t) else None)"
      "\<forall>t. t \<notin> fst ` set swapped \<longrightarrow> v_trees d2 (Live t) = v_trees d1 (Live t)"
      using restore_all_calm [of env d1 swapped] by blast
    with False assms(1) run have d': "\<not> ok" "d' = remove_all env (map Incoming staged) d2" by (simp_all add: promote_def)
    have live: "v_trees d' (Live t) = v_trees d2 (Live t)" for t unfolding d' by (rule remove_all_other) auto
    have "v_trees d2 (Live t) = v_trees d (Live t)" if "t \<in> set staged" for t
    proof (cases "t \<in> fst ` set swapped")
      case True
      then obtain had where "(t, had) \<in> set swapped" by force
      with spec(1) d2(3) show ?thesis by (fastforce simp: swapped_ok_def)
    next
      case out: False
      with d2(4) spec(5) False that show ?thesis by simp
    qed
    moreover have "v_trees d' (Incoming t) = None" if "t \<in> set staged" for t
      unfolding d' by (rule remove_all_calm [OF d2(2)]) (use that in simp)
    ultimately show ?thesis using d'(1) live by simp
  qed
qed

text \<open>Two packages, the second of which cannot be moved into place: the first one goes back.\<close>

definition lab_dir :: vendor_dir where
  "lab_dir = \<lparr>v_trees = (\<lambda>_. None)(Live ''fastmcp'' \<mapsto> [''old''], Incoming ''fastmcp'' \<mapsto> [''new''],
     Live ''mcp'' \<mapsto> [''old2''], Incoming ''mcp'' \<mapsto> [''new2'']), v_ops = 0\<rparr>"

definition lab_faults :: vendor_env where
  "lab_faults = \<lparr>w_fault = (\<lambda>i. i = 5), w_left = (\<lambda>_ t. t)\<rparr>"

lemma promote_atomic_witness:
  "\<exists>d'. promote lab_faults [''fastmcp'', ''mcp''] lab_dir = (False, d') \<and> v_trees d' (Live ''fastmcp'') = Some [''old'']"
proof -
  have "\<not> fst (promote lab_faults [''fastmcp'', ''mcp''] lab_dir)" by code_simp
  then obtain d' where d': "promote lab_faults [''fastmcp'', ''mcp''] lab_dir = (False, d')" by (metis (full_types) prod.collapse)
  have "one_fault lab_faults" by (simp add: one_fault_def lab_faults_def)
  moreover have "\<forall>t \<in> set [''fastmcp'', ''mcp'']. v_trees lab_dir (Incoming t) \<noteq> None"
    by (simp add: lab_dir_def)
  ultimately have "v_trees d' (Live ''fastmcp'') = v_trees lab_dir (Live ''fastmcp'')"
    using promote_atomic [OF d'] by simp
  with d' show ?thesis by (simp add: lab_dir_def)
qed

section \<open>Requirements for the manifest\<close>

datatype vendor_error = BadNumber | BadRequirement string | BadMarker string

definition is_sep :: "char \<Rightarrow> bool" where
  "is_sep c \<longleftrightarrow> c \<in> set ''-_.''"

fun squash_seps :: "string \<Rightarrow> string" where
  "squash_seps [] = []"
| "squash_seps (c # s) =
     (if \<not> is_sep c then c # squash_seps s
      else case s of
        [] \<Rightarrow> ''-''
      | d # _ \<Rightarrow> if is_sep d then squash_seps s else CHR ''-'' # squash_seps s)"

definition canonical :: "string \<Rightarrow> string" where
  "canonical name = str_lower (squash_seps name)"

text \<open>\<open>_version_key\<close>: the numbers of a dotted version; nothing for any other text.\<close>

definition dotted_key :: "string \<Rightarrow> vendor_error + nat list option" where
  "dotted_key version =
     (let parts = split_on CHR ''.'' version in
      if list_all (\<lambda>p. p \<noteq> [] \<and> list_all is_digit p) parts
      then (case all_ints parts of Inl _ \<Rightarrow> Inl BadNumber | Inr ns \<Rightarrow> Inr (Some ns))
      else Inr None)"

text \<open>The numeric floors among the clauses, in the order the set is gone through\<close>

fun numeric_floors :: "string list \<Rightarrow> vendor_error + (string \<times> nat list) list" where
  "numeric_floors [] = Inr []"
| "numeric_floors (c # cs) =
     (if \<not> startswith c ''>='' then numeric_floors cs
      else case dotted_key (drop 2 c) of
        Inl e \<Rightarrow> Inl e
      | Inr key \<Rightarrow>
          (case numeric_floors cs of
             Inl e \<Rightarrow> Inl e
           | Inr fs \<Rightarrow> Inr (case key of None \<Rightarrow> fs | Some k \<Rightarrow> (c, k) # fs)))"

text \<open>\<open>max(numeric, key=...)\<close>: the first one with the greatest key\<close>

fun highest :: "string \<times> nat list \<Rightarrow> (string \<times> nat list) list \<Rightarrow> string \<times> nat list" where
  "highest best [] = best"
| "highest best (f # fs) = highest (if snd best < snd f then f else best) fs"

definition merge_clauses :: "string list \<Rightarrow> vendor_error + string list" where
  "merge_clauses clauses =
     (case numeric_floors clauses of
        Inl e \<Rightarrow> Inl e
      | Inr numeric \<Rightarrow>
          Inr (sort
            (case numeric of
               f # g # fs \<Rightarrow>
                 filter (\<lambda>c. c \<notin> fst ` set numeric \<or> c = fst (highest f (g # fs))) clauses
             | _ \<Rightarrow> clauses)))"

text \<open>The markers that are decided, for CPython 3.14 on Linux\<close>

definition target_markers :: "(string \<times> bool) list" where
  "target_markers =
     [(''sys_platform == '' @ CHR 0x27 # ''win32'' @ [CHR 0x27], False),
      (''sys_platform != '' @ CHR 0x27 # ''emscripten'' @ [CHR 0x27], True)]"

definition compare_python :: "string \<Rightarrow> nat \<times> nat \<Rightarrow> bool" where
  "compare_python operator version =
     (let target = (3, 14);
          below = (fst target < fst version \<or> (fst target = fst version \<and> snd target < snd version)) in
      if operator = ''>='' then \<not> below
      else if operator = ''<='' then below \<or> target = version
      else if operator = ''=='' then target = version
      else if operator = ''!='' then target \<noteq> version
      else if operator = ''<'' then below
      else \<not> below \<and> target \<noteq> version)"

definition python_operator :: "string \<Rightarrow> (string \<times> string) option" where
  "python_operator s =
     (case List.map_filter (\<lambda>op. if startswith s op then Some (op, drop (length op) s) else None)
             [''>='', ''<='', ''=='', ''!='', ''<'', ''>''] of
        [] \<Rightarrow> None | r # _ \<Rightarrow> Some r)"

text \<open>\<open>_PYTHON_VERSION_MARKER_RE.fullmatch\<close>: the operator and the two numbers\<close>

definition python_marker :: "string \<Rightarrow> (string \<times> string \<times> string) option" where
  "python_marker s =
     (if \<not> startswith s ''python_version'' then None
      else case python_operator (lstrip_by is_space (drop 14 s)) of
        None \<Rightarrow> None
      | Some (op, r) \<Rightarrow>
          (case lstrip_by is_space r of
             [] \<Rightarrow> None
           | q # v \<Rightarrow>
               if q \<noteq> CHR 0x27 then None
               else (case dotted v of
                       None \<Rightarrow> None
                     | Some (major, w) \<Rightarrow>
                         (case number w of
                            Some (minor, [e]) \<Rightarrow> if e = CHR 0x27 then Some (op, major, minor) else None
                          | _ \<Rightarrow> None))))"

definition marker_applies :: "string \<Rightarrow> string \<Rightarrow> vendor_error + bool" where
  "marker_applies marker requirement =
     (let m = map (\<lambda>c. if c = CHR 0x22 then CHR 0x27 else c) (str_strip marker);
          m = (if startswith m ''('' \<and> endswith m '')'' then str_strip (butlast (tl m)) else m) in
      case map_of target_markers m of
        Some b \<Rightarrow> Inr b
      | None \<Rightarrow>
          (case python_marker m of
             None \<Rightarrow> Inl (BadMarker requirement)
           | Some (op, major, minor) \<Rightarrow>
               (case all_ints [major, minor] of
                  Inr [a, b] \<Rightarrow> Inr (compare_python op (a, b))
                | _ \<Rightarrow> Inl BadNumber)))"

definition not_declared :: "string list" where
  "not_declared = [''fastmcp'', ''fastmcp-slim'', ''mcp'', ''mcp-types'', ''websockets'', ''certifi'', ''httpx2'',
     ''packaging'', ''pyjwt'', ''pyyaml'', ''typing-extensions'']"

text \<open>\<open>_REQUIREMENT_RE.fullmatch\<close>: name, extras, version specifier, marker\<close>

definition name_char :: "char \<Rightarrow> bool" where
  "name_char c \<longleftrightarrow> is_alnum_ascii c \<or> c \<in> set ''._-''"

definition parse_requirement :: "string \<Rightarrow> (string \<times> string \<times> string \<times> string) option" where
  "parse_requirement line =
     (let name = takeWhile name_char line; rest = dropWhile name_char line in
      if name = [] then None
      else
        (let (extras, tail) =
           (if startswith rest ''['' \<and> CHR '']'' \<in> set rest
            then (takeWhile (\<lambda>c. c \<noteq> CHR '']'') (tl rest), tl (dropWhile (\<lambda>c. c \<noteq> CHR '']'') (tl rest)))
            else ([], rest)) in
         Some (name, extras, takeWhile (\<lambda>c. c \<noteq> CHR '';'') tail, drop 1 (dropWhile (\<lambda>c. c \<noteq> CHR '';'') tail))))"

definition comma_parts :: "string \<Rightarrow> string list" where
  "comma_parts s = filter (\<lambda>p. p \<noteq> []) (map str_strip (split_on CHR '','' s))"

definition add_all :: "string list \<Rightarrow> string list \<Rightarrow> string list" where
  "add_all s new = fold (\<lambda>x s. if x \<in> set s then s else s @ [x]) new s"

type_synonym requirements = "(string \<times> (string list \<times> string list)) list"

text \<open>One line of the vendored requirements\<close>

definition add_requirement :: "string \<Rightarrow> requirements \<Rightarrow> vendor_error + requirements" where
  "add_requirement line merged =
     (case parse_requirement line of
        None \<Rightarrow> Inl (BadRequirement line)
      | Some (name, extras, specifier, marker) \<Rightarrow>
          (case (if str_strip marker = [] then Inr True else marker_applies (str_strip marker) line) of
             Inl e \<Rightarrow> Inl e
           | Inr applies \<Rightarrow>
               if \<not> applies \<or> canonical name \<in> set not_declared then Inr merged
               else
                 (let (old_extras, old_clauses) = dict_get (canonical name) ([], []) merged in
                  Inr (dict_set (canonical name)
                    (add_all old_extras (comma_parts extras), add_all old_clauses (comma_parts specifier)) merged))))"

fun add_requirements :: "string list \<Rightarrow> requirements \<Rightarrow> vendor_error + requirements" where
  "add_requirements [] merged = Inr merged"
| "add_requirements (line # lines) merged =
     (case add_requirement line merged of Inl e \<Rightarrow> Inl e | Inr m \<Rightarrow> add_requirements lines m)"

fun join_with :: "string \<Rightarrow> string list \<Rightarrow> string" where
  "join_with sep [] = []"
| "join_with sep [s] = s"
| "join_with sep (s # ss) = s @ sep @ join_with sep ss"

text \<open>The line of a package; \<open>order\<close> is the order in which its set of clauses is gone through.\<close>

definition requirement_line :: "(string list \<Rightarrow> string list) \<Rightarrow> string \<times> string list \<times> string list \<Rightarrow> vendor_error + string" where
  "requirement_line order r =
     (case r of (name, extras, clauses) \<Rightarrow>
        (case merge_clauses (order clauses) of
           Inl e \<Rightarrow> Inl e
         | Inr cs \<Rightarrow>
             Inr (name @ (if extras = [] then [] else ''['' @ join_with '','' (sort extras) @ '']'') @ join_with '','' cs)))"

fun requirement_lines :: "(string list \<Rightarrow> string list) \<Rightarrow> requirements \<Rightarrow> vendor_error + string list" where
  "requirement_lines order [] = Inr []"
| "requirement_lines order (r # rs) =
     (case requirement_line order r of
        Inl e \<Rightarrow> Inl e
      | Inr l \<Rightarrow> (case requirement_lines order rs of Inl e \<Rightarrow> Inl e | Inr ls \<Rightarrow> Inr (l # ls)))"

text \<open>\<open>texts\<close>: the requirement files of the vendored packages.\<close>

definition manifest_requirements :: "(string list \<Rightarrow> string list) \<Rightarrow> string list \<Rightarrow> vendor_error + string list" where
  "manifest_requirements order texts =
     (case add_requirements
             (filter (\<lambda>l. l \<noteq> []) (map str_strip (concat (map (split_lines []) texts)))) [] of
        Inl e \<Rightarrow> Inl e
      | Inr merged \<Rightarrow> requirement_lines order (map (\<lambda>n. (n, the (map_of merged n))) (sort (map fst merged))))"

text \<open>
  Merging the clauses of one package drops nothing but floors, and of those none that is above the
  one it keeps.
\<close>

lemma highest_in: "highest best fs = best \<or> highest best fs \<in> set fs"
  by (induction best fs rule: highest.induct) auto

lemma highest_max: "f \<in> set (best # fs) \<Longrightarrow> snd f \<le> snd (highest best fs)"
proof (induction best fs arbitrary: f rule: highest.induct)
  case (1 best)
  then show ?case by simp
next
  case (2 best g fs)
  let ?b = "if snd best < snd g then g else best"
  have "snd best \<le> snd ?b" "snd g \<le> snd ?b" by auto
  moreover have "snd ?b \<le> snd (highest ?b fs)" using 2(1) [of ?b] by simp
  moreover have "snd f \<le> snd (highest ?b fs)" if "f \<in> set fs" using 2(1) [of f] that by simp
  ultimately show ?case using 2(2) by (auto intro: order_trans)
qed

lemma numeric_floors_in: "numeric_floors cs = Inr fs \<Longrightarrow> (c, k) \<in> set fs \<Longrightarrow> c \<in> set cs \<and> startswith c ''>=''"
  by (induction cs arbitrary: fs) (auto split: if_splits sum.splits option.splits)

lemma merge_clauses_keeps:
  assumes "merge_clauses cs = Inr out" "numeric_floors cs = Inr numeric"
  shows "sorted out \<and> set out \<subseteq> set cs
    \<and> (\<forall>c \<in> set cs. c \<notin> set out \<longrightarrow> startswith c ''>=''
         \<and> (\<exists>k c' k'. (c, k) \<in> set numeric \<and> (c', k') \<in> set numeric \<and> c' \<in> set out \<and> k \<le> k'))"
proof (cases "\<exists>f g fs. numeric = f # g # fs")
  case False
  then have "out = sort cs" using assms by (auto simp: merge_clauses_def split: list.splits)
  then show ?thesis by simp
next
  case True
  then obtain f g fs where n: "numeric = f # g # fs" by blast
  obtain h k where h: "highest f (g # fs) = (h, k)" by force
  with highest_in [of f "g # fs"] have hin: "(h, k) \<in> set numeric" by (auto simp: n)
  have out: "out = sort (filter (\<lambda>c. c \<notin> fst ` set numeric \<or> c = h) cs)"
    using assms h by (auto simp: merge_clauses_def n)
  have hout: "h \<in> set out" using numeric_floors_in [OF assms(2) hin] by (simp add: out)
  have "startswith c ''>='' \<and> (\<exists>j c' k'. (c, j) \<in> set numeric \<and> (c', k') \<in> set numeric \<and> c' \<in> set out \<and> j \<le> k')"
    if "c \<in> set cs" "c \<notin> set out" for c
  proof -
    from that obtain j where j: "(c, j) \<in> set numeric" by (force simp: out)
    then have "j \<le> k" using highest_max [of "(c, j)" f "g # fs"] h by (simp add: n)
    with j hin hout numeric_floors_in [OF assms(2) j] show ?thesis by blast
  qed
  then show ?thesis by (auto simp: out)
qed

text \<open>Two spellings of one floor: which one stays depends on the order of the set.\<close>

lemma equal_floors_by_order:
  "merge_clauses [''>=1.0'', ''>=1.00''] = Inr [''>=1.0''] \<and> merge_clauses [''>=1.00'', ''>=1.0''] = Inr [''>=1.00'']"
proof -
  have "all_ints [''1'', ''0''] = Inr [1, 0]" "all_ints [''1'', ''00''] = Inr [1, 0]"
    by (simp_all add: int_of_def max_int_digits_def nat_of_digits_def digit_val_def) code_simp+
  then show ?thesis
    by code_simp
qed

end
