(* ===== verification/Ingress.thy ===== *)
theory Ingress
  imports Addon
begin

text \<open>
  The route to the ESPHome add-on and the plain HTTP call of \<open>addon_tools.py\<close>: path
  normalisation, the Supervisor ingress session, the redaction of its cookie, the parsing and
  the truncation of answers.
\<close>

section \<open>Paths\<close>

text \<open>
  \<open>urllib.parse.unquote\<close> decodes every maximal run of ASCII characters on its own: the escapes
  become bytes, the bytes are read as UTF-8. A replacement character is outside the model.
\<close>

fun percent_bytes :: "string \<Rightarrow> bytes" where
  "percent_bytes (c # h # l # s) =
     (if c = CHR ''%'' \<and> is_hex h \<and> is_hex l
      then chr (16 * hex_val h + hex_val l) # percent_bytes s else c # percent_bytes (h # l # s))"
| "percent_bytes s = s"

definition decode_replace :: "bytes \<Rightarrow> string py" where
  "decode_replace b = (case utf8_decode b of Inl e \<Rightarrow> Inl OutOfModel | Inr s \<Rightarrow> Inr s)"

function unquote_runs :: "string \<Rightarrow> string py" where
  "unquote_runs [] = Inr []"
| "unquote_runs (c # s) =
     (if is_ascii_char c then
        py_bind (decode_replace (percent_bytes (c # takeWhile is_ascii_char s))) (\<lambda>t.
        py_bind (unquote_runs (dropWhile is_ascii_char s)) (\<lambda>r. Inr (t @ r)))
      else py_bind (unquote_runs s) (\<lambda>r. Inr (c # r)))"
  by pat_completeness auto
termination
  by (relation "measure length") (auto simp: le_imp_less_Suc length_dropWhile_le)

definition unquote :: "string \<Rightarrow> string py" where
  "unquote s = (if CHR ''%'' \<in> set s then unquote_runs s else Inr s)"

definition slash :: char where "slash = CHR ''/''"

definition normalize_path :: "string \<Rightarrow> string option py" where
  "normalize_path path =
     py_bind (unquote path) (\<lambda>t.
       let normalized = lstrip_by (\<lambda>c. c = slash) t in
       Inr (if ''..'' \<in> set (split_on slash normalized) then None else Some normalized))"

section \<open>The ingress session\<close>

definition ha_core_base_url :: "addon_env \<Rightarrow> string" where
  "ha_core_base_url env =
     ''http://127.0.0.1:'' @ show_nat (case a_port env of Some (Suc p) \<Rightarrow> Suc p | _ \<Rightarrow> 8123)"

definition ingress_user_id :: "addon_env \<Rightarrow> string option" where
  "ingress_user_id env = map_option y_id (List.find (\<lambda>u. y_active u \<and> y_admin u \<and> \<not> y_system u) (a_users env))"

definition create_ingress_session :: "addon_env \<Rightarrow> addon_state \<Rightarrow> string tool \<times> addon_state" where
  "create_ingress_session env =
     (case ingress_user_id env of
        None \<Rightarrow> fail ''No active human administrator is available for the Supervisor ingress session.''
                  ''ingress_user_unavailable'' []
      | Some user_id \<Rightarrow>
          sbind (supervisor_api_call env ''/ingress/session'' ''POST''
                   (Some (PDict [(''user_id'', PStr user_id)])) 30) (\<lambda>v.
            case pdict_get v ''session'' of
              Some (PStr (c # s)) \<Rightarrow> sreturn (c # s)
            | _ \<Rightarrow> fail ''Supervisor returned no ingress session token.'' ''bad_ingress_session''
                     [(''supervisor_response'', PDict [(''success'', PBool True), (''result'', v)])]))"

type_synonym headers = "(string \<times> string) list"

definition redacted_cookie :: string where "redacted_cookie = ''ingress_session=**REDACTED**''"

definition debug_headers :: "headers \<Rightarrow> headers" where
  "debug_headers hs = (if ''Cookie'' \<in> fst ` set hs then dict_set ''Cookie'' redacted_cookie hs else hs)"

text \<open>\<open>s.replace(old, new, 1)\<close> for a text \<open>old\<close> that is not empty\<close>

fun replace_once :: "string \<Rightarrow> string \<Rightarrow> string \<Rightarrow> string" where
  "replace_once old new [] = []"
| "replace_once old new (c # s) =
     (if startswith (c # s) old then new @ drop (length old) (c # s) else c # replace_once old new s)"

definition route_for_addon ::
  "addon_env \<Rightarrow> addon \<Rightarrow> string \<Rightarrow> int option \<Rightarrow> bool \<Rightarrow> addon_state \<Rightarrow> (string \<times> headers) tool \<times> addon_state" where
  "route_for_addon env addon normalized_path port websocket =
     (case port of
        Some p \<Rightarrow>
          if \<not> truthy (get_or_none addon ''ip_address'')
          then fail ''ESPHome add-on is missing ip_address.'' ''bad_addon_info'' []
          else sbind (slift (str_of (get_or_none addon ''ip_address''))) (\<lambda>ip.
            sreturn ((if websocket then ''ws'' else ''http'') @ ''://'' @ ip @ '':'' @ show_int p @ slash # normalized_path, []))
      | None \<Rightarrow>
          if \<not> truthy (get_or_none addon ''ingress'')
          then fail ''ESPHome add-on does not support ingress.'' ''no_ingress'' []
          else if \<not> truthy (get_or_none addon ''ingress_entry'')
          then fail ''ESPHome add-on is missing ingress route details.'' ''bad_addon_info'' []
          else sbind (create_ingress_session env) (\<lambda>session.
               sbind (slift (str_of (get_or_none addon ''ingress_entry''))) (\<lambda>entry.
            let base = rstrip_by (\<lambda>c. c = slash) (ha_core_base_url env);
                base = (if websocket
                        then replace_once ''http://'' ''ws://'' (replace_once ''https://'' ''wss://'' base)
                        else base)
            in sreturn (base @ entry @ slash # normalized_path, [(''Cookie'', ''ingress_session='' @ session)]))))"

section \<open>The HTTP call\<close>

definition parse_http_body :: "nat \<Rightarrow> string \<Rightarrow> bytes \<Rightarrow> pyval py" where
  "parse_http_body nest content_type body =
     py_bind (decode_replace body) (\<lambda>t.
       if \<not> str_in ''application/json'' content_type then Inr (PStr t)
       else py_except (json_loads True nest t) [ValueError] (Inr (PStr t)))"

definition max_response_size :: nat where "max_response_size = 50 * 1024"

definition truncate_response :: "pyval \<Rightarrow> (pyval \<times> bool) py" where
  "truncate_response data =
     (case data of
        PStr s \<Rightarrow> Inr (if length s \<le> max_response_size then (data, False)
                     else (PStr (take max_response_size s), True))
      | _ \<Rightarrow>
          py_bind (json_text data) (\<lambda>serialized.
            Inr (if length serialized \<le> max_response_size then (data, False)
                 else (PDict [(''error'', PStr ''RESPONSE_TOO_LARGE''),
                   (''message'', PStr (''Response exceeds '' @ show_nat (max_response_size div 1024) @ ''KB.''))],
                   True))))"

definition lift_py :: "'a py \<Rightarrow> 'a tool" where
  "lift_py m = (case m of Inl e \<Rightarrow> Inl (Raised e) | Inr x \<Rightarrow> Inr x)"

text \<open>\<open>str.upper()\<close>; the upper case of two of the characters is outside the model.\<close>

definition upper_char :: "char \<Rightarrow> string" where
  "upper_char c =
     (if is_lower_ascii c \<or> (224 \<le> ord c \<and> ord c \<le> 254 \<and> ord c \<noteq> 247) then [chr (ord c - 32)]
      else if ord c = 223 then ''SS'' else [c])"

definition str_upper :: "string \<Rightarrow> string py" where
  "str_upper s = (if chr 181 \<in> set s \<or> chr 255 \<in> set s then Inl OutOfModel else Inr (concat (map upper_char s)))"

text \<open>\<open>dict(headers)\<close> keeps the first value of each name.\<close>

definition headers_dict :: "multidict \<Rightarrow> pyval" where
  "headers_dict h = PDict (dict_of (map (\<lambda>(k, v). (k, PStr (case header_get h k of Some x \<Rightarrow> x | None \<Rightarrow> v))) h))"

definition str_dict :: "headers \<Rightarrow> pyval" where
  "str_dict hs = PDict (map (\<lambda>(k, v). (k, PStr v)) hs)"

definition request_dict :: "string \<Rightarrow> headers \<Rightarrow> multidict \<Rightarrow> pyval" where
  "request_dict url hs response_headers =
     PDict [(''url'', PStr url), (''request_headers'', str_dict (debug_headers hs)),
            (''response_headers'', headers_dict response_headers)]"

definition http_result ::
  "addon_env \<Rightarrow> addon \<Rightarrow> string \<Rightarrow> bool \<Rightarrow> string \<Rightarrow> headers \<Rightarrow> nat \<Rightarrow> multidict \<Rightarrow> bytes \<Rightarrow> pyval py" where
  "http_result env addon slug debug url hs status response_headers raw =
     (let content_type = (case header_get response_headers ''Content-Type'' of Some c \<Rightarrow> c | None \<Rightarrow> []) in
      py_bind (parse_http_body (a_nest env) content_type raw) (\<lambda>parsed.
      py_bind (truncate_response parsed) (\<lambda>(response_data, truncated).
        Inr (PDict ([(''success'', PBool (status < 400)), (''status_code'', PInt (int status)),
              (''response'', response_data), (''content_type'', PStr content_type),
              (''addon_name'', get_or_none addon ''name''), (''slug'', PStr slug)]
            @ (if truncated then [(''truncated'', PBool True)] else [])
            @ (if debug then [(''_debug'', request_dict url hs response_headers)] else [])
            @ (if status \<ge> 400 then [(''error'', PStr (''ESPHome add-on API returned HTTP '' @ show_nat status))]
               else []))))))"

definition call_headers :: "headers option \<Rightarrow> headers \<Rightarrow> pyval \<Rightarrow> headers" where
  "call_headers request_headers hs body =
     (let hs = (case request_headers of Some (h # r) \<Rightarrow> dict_update (h # r) hs | _ \<Rightarrow> hs) in
      case body of
        PStr _ \<Rightarrow> if ''Content-Type'' \<in> fst ` set hs then hs else hs @ [(''Content-Type'', ''application/json'')]
      | _ \<Rightarrow> hs)"

definition json_body :: "pyval \<Rightarrow> pyval option" where
  "json_body body = (case body of PDict _ \<Rightarrow> Some body | PList _ \<Rightarrow> Some body | _ \<Rightarrow> None)"

definition data_body :: "pyval \<Rightarrow> string option" where
  "data_body body = (case body of PStr s \<Rightarrow> Some s | _ \<Rightarrow> None)"

definition send_http :: "addon_env \<Rightarrow> http_request \<Rightarrow> addon_state \<Rightarrow> http_answer \<times> addon_state" where
  "send_http env req st = (a_server env (a_http st) req, st\<lparr>a_http := a_http st @ [req]\<rparr>)"

record http_args =
  n_path :: string
  n_method :: string
  n_body :: pyval
  n_port :: "int option"
  n_debug :: bool
  n_request_headers :: "headers option"

definition call_addon_http ::
  "addon_env \<Rightarrow> addon \<Rightarrow> string \<Rightarrow> http_args \<Rightarrow> addon_state \<Rightarrow> pyval tool \<times> addon_state" where
  "call_addon_http env addon slug a =
     sbind (slift (lift_py (normalize_path (n_path a)))) (\<lambda>np.
       case np of
         None \<Rightarrow> fail ''Path contains '..' traversal component.'' ''invalid_path'' []
       | Some normalized \<Rightarrow>
           sbind (route_for_addon env addon normalized (n_port a) False) (\<lambda>(url, hs0).
           sbind (slift (lift_py (str_upper (n_method a)))) (\<lambda>meth st.
             let hs = call_headers (n_request_headers a) hs0 (n_body a) in
             case send_http env \<lparr>h_method = meth, h_url = url, h_headers = hs,
                     h_json = json_body (n_body a), h_data = data_body (n_body a)\<rparr> st of
               (HttpTimeout, st') \<Rightarrow>
                 fail (''Timed out calling ESPHome add-on endpoint '' @ repr_str (n_path a) @ ''.'')
                   ''timeout'' [(''slug'', PStr slug)] st'
             | (HttpClientError details, st') \<Rightarrow>
                 fail (''Failed to connect to ESPHome add-on endpoint '' @ repr_str (n_path a) @ ''.'')
                   ''connection_failed'' [(''details'', PStr details), (''slug'', PStr slug)] st'
             | (HttpAnswer status rh raw, st') \<Rightarrow>
                 slift (lift_py (http_result env addon slug (n_debug a) url hs status rh raw)) st')))"

section \<open>What a call sends\<close>

text \<open>The request for a session of an active, human administrator.\<close>

definition session_req :: "addon_env \<Rightarrow> sup_request \<Rightarrow> bool" where
  "session_req env p \<longleftrightarrow>
     (\<exists>u \<in> set (a_users env). y_active u \<and> y_admin u \<and> \<not> y_system u
        \<and> p = sup_req ''/ingress/session'' ''POST'' (Some (PDict [(''user_id'', PStr (y_id u))])) 30)"

lemma ingress_user_id_sound:
  "ingress_user_id env = Some i \<Longrightarrow> \<exists>u \<in> set (a_users env). y_active u \<and> y_admin u \<and> \<not> y_system u \<and> i = y_id u"
  by (auto simp: ingress_user_id_def find_Some_iff)

lemma create_ingress_session_emits [emits_rules]:
  "sup.emits (session_req env) (create_ingress_session env)"
  "http.emits Q (create_ingress_session env)" "sockets.emits K (create_ingress_session env)"
proof -
  have r: "session_req env (sup_req ''/ingress/session'' ''POST'' (Some (PDict [(''user_id'', PStr i)])) 30)"
    if "ingress_user_id env = Some i" for i
    using ingress_user_id_sound [OF that] by (auto simp: session_req_def)
  show "sup.emits (session_req env) (create_ingress_session env)"
    "http.emits Q (create_ingress_session env)" "sockets.emits K (create_ingress_session env)"
    unfolding create_ingress_session_def
    by (auto intro!: sup.emits_bind http.emits_bind sockets.emits_bind emits_rules r
        split: option.splits pyval.splits list.splits)
qed

lemma route_for_addon_emits [emits_rules]:
  "sup.emits (session_req env) (route_for_addon env addon np port w)"
  "http.emits Q (route_for_addon env addon np port w)" "sockets.emits K (route_for_addon env addon np port w)"
  unfolding route_for_addon_def Let_def
  by (auto intro!: sup.emits_bind http.emits_bind sockets.emits_bind emits_rules split: option.splits)

text \<open>Where a route leads, and the headers it comes with.\<close>

lemma route_for_addon_direct:
  assumes "route_for_addon env addon np (Some p) w st = (Inr (url, hs), st')"
  shows "hs = []" "st' = st"
  using assms by (auto simp: route_for_addon_def sbind_def fail_def split: if_splits sum.splits)

text \<open>A token that the Supervisor mints for a user in a state.\<close>

definition mints :: "addon_env \<Rightarrow> addon_state \<Rightarrow> string \<Rightarrow> string \<Rightarrow> bool" where
  "mints env st user_id token \<longleftrightarrow> token \<noteq> [] \<and> a_hassio env = HassioLoaded
     \<and> (\<exists>v. a_supervisor env (a_sup st) (sup_req ''/ingress/session'' ''POST'' (Some (PDict [(''user_id'', PStr user_id)])) 30)
              = SupResult v
            \<and> pdict_get (normalize_supervisor_payload v) ''session'' = Some (PStr token))"

lemma create_ingress_session_iff:
  "create_ingress_session env st = (Inr token, st1) \<longleftrightarrow>
     (\<exists>i. ingress_user_id env = Some i \<and> mints env st i token
        \<and> st1 = st\<lparr>a_sup := a_sup st @ [sup_req ''/ingress/session'' ''POST'' (Some (PDict [(''user_id'', PStr i)])) 30]\<rparr>)"
  (is "?l \<longleftrightarrow> ?r")
proof
  show ?l if ?r
    using that by (auto simp: create_ingress_session_def mints_def sbind_def supervisor_api_call_def sup_req_def neq_Nil_conv)
  assume l: ?l
  then obtain i where i: "ingress_user_id env = Some i"
    by (auto simp: create_ingress_session_def fail_def split: option.splits)
  with l show ?r
    by (auto simp: create_ingress_session_def mints_def sbind_def supervisor_api_call_def fail_def sup_req_def Let_def
        split: hassio.splits sup_answer.splits option.splits pyval.splits list.splits)
qed

lemma route_for_addon_ingress_iff:
  "route_for_addon env addon np None False st = (Inr (url, hs), st1) \<longleftrightarrow>
     truthy (get_or_none addon ''ingress'') \<and> truthy (get_or_none addon ''ingress_entry'')
     \<and> (\<exists>session entry. create_ingress_session env st = (Inr session, st1)
          \<and> str_of (get_or_none addon ''ingress_entry'') = Inr entry
          \<and> url = rstrip_by (\<lambda>c. c = slash) (ha_core_base_url env) @ entry @ slash # np
          \<and> hs = [(''Cookie'', ''ingress_session='' @ session)])"
  by (auto simp: route_for_addon_def sbind_def fail_def Let_def split: if_splits sum.splits prod.splits)

section \<open>The redaction of the session cookie\<close>

lemma debug_headers_cookie [simp]:
  "debug_headers (dict_set ''Cookie'' c hs) = dict_set ''Cookie'' redacted_cookie hs"
  by (simp add: debug_headers_def keys_dict_set)

text \<open>The headers of a call over ingress are the caller's with the cookie set.\<close>

definition caller_headers :: "headers option \<Rightarrow> headers" where
  "caller_headers rh = (case rh of Some hs \<Rightarrow> hs | None \<Rightarrow> [])"

lemma dict_set_append: "k \<in> fst ` set d \<Longrightarrow> dict_set k v (d @ e) = dict_set k v d @ e"
  by (induction k v d rule: dict_set.induct) (auto simp: image_iff)

lemma call_headers_cookie:
  "\<exists>d. (d = [] \<or> ''Cookie'' \<in> fst ` set d) \<and> (\<forall>c. debug_headers (call_headers rh [(''Cookie'', c)] body) = d)"
proof -
  have merged: "(case rh of Some (h # r) \<Rightarrow> dict_update (h # r) [(''Cookie'', c)] | _ \<Rightarrow> [(''Cookie'', c)])
      = dict_set ''Cookie'' c (caller_headers rh)" for c
    by (auto simp: caller_headers_def dict_update_def split: option.splits list.splits)
  have ct: "''Content-Type'' \<in> fst ` set (dict_set ''Cookie'' c hs) \<longleftrightarrow> ''Content-Type'' \<in> fst ` set hs" for c and hs :: headers
    by (auto simp: keys_dict_set)
  let ?base = "dict_set ''Cookie'' redacted_cookie (caller_headers rh)"
  let ?d = "case body of PStr _ \<Rightarrow> if ''Content-Type'' \<in> fst ` set (caller_headers rh) then ?base
      else ?base @ [(''Content-Type'', ''application/json'')] | _ \<Rightarrow> ?base"
  have snoc: "debug_headers (dict_set ''Cookie'' c hs @ [(''Content-Type'', x)]) =
      dict_set ''Cookie'' redacted_cookie hs @ [(''Content-Type'', x)]" for c x and hs :: headers
    using dict_set_append [of "''Cookie''" "dict_set ''Cookie'' c hs" redacted_cookie "[(''Content-Type'', x)]"]
    by (simp add: debug_headers_def keys_dict_set)
  have "debug_headers (call_headers rh [(''Cookie'', c)] body) = ?d" for c
    unfolding call_headers_def merged Let_def by (cases body) (simp_all add: ct snoc)
  moreover have "''Cookie'' \<in> fst ` set ?d" by (cases body) (auto simp: keys_dict_set)
  ultimately show ?thesis by blast
qed

lemma http_result_debug:
  "debug_headers hs = debug_headers hs' \<Longrightarrow>
     http_result env addon slug debug url hs status rh raw = http_result env addon slug debug url hs' status rh raw"
  by (simp add: http_result_def request_dict_def)

text \<open>The cookie is the session's, and the other headers are the caller's.\<close>

lemma call_headers_set:
  "map_of (call_headers rh [(''Cookie'', c)] body) ''Cookie'' = Some c"
  "k \<notin> {''Cookie'', ''Content-Type''} \<Longrightarrow> map_of (call_headers rh [(''Cookie'', c)] body) k = map_of (caller_headers rh) k"
proof -
  have merged: "(case rh of Some (h # r) \<Rightarrow> dict_update (h # r) [(''Cookie'', c)] | _ \<Rightarrow> [(''Cookie'', c)])
      = dict_set ''Cookie'' c (caller_headers rh)"
    by (auto simp: caller_headers_def dict_update_def split: option.splits list.splits)
  show "map_of (call_headers rh [(''Cookie'', c)] body) ''Cookie'' = Some c"
    unfolding call_headers_def merged Let_def by (auto simp: map_add_def split: pyval.splits option.splits)
  show "map_of (call_headers rh [(''Cookie'', c)] body) k = map_of (caller_headers rh) k"
    if "k \<notin> {''Cookie'', ''Content-Type''}"
    using that unfolding call_headers_def merged Let_def
    by (auto simp: map_add_def split: pyval.splits option.splits)
qed

text \<open>A call that has an answer has sent one request.\<close>

lemma call_addon_http_iff:
  "call_addon_http env addon slug a st = (Inr v, st') \<longleftrightarrow>
     (\<exists>np url hs st1 meth status rh raw.
       normalize_path (n_path a) = Inr (Some np) \<and> route_for_addon env addon np (n_port a) False st = (Inr (url, hs), st1)
       \<and> str_upper (n_method a) = Inr meth
       \<and> (let req = \<lparr>h_method = meth, h_url = url, h_headers = call_headers (n_request_headers a) hs (n_body a),
                    h_json = json_body (n_body a), h_data = data_body (n_body a)\<rparr>
          in a_server env (a_http st1) req = HttpAnswer status rh raw \<and> st' = st1\<lparr>a_http := a_http st1 @ [req]\<rparr>
             \<and> http_result env addon slug (n_debug a) url (h_headers req) status rh raw = Inr v))"
  (is "?l \<longleftrightarrow> ?r")
proof
  assume ?l
  then obtain np where np: "normalize_path (n_path a) = Inr (Some np)"
    by (auto simp: call_addon_http_def sbind_def fail_def lift_py_def split: sum.splits option.splits)
  with \<open>?l\<close> obtain url hs st1 where route: "route_for_addon env addon np (n_port a) False st = (Inr (url, hs), st1)"
    by (auto simp: call_addon_http_def sbind_def lift_py_def split: sum.splits prod.splits)
  with np \<open>?l\<close> obtain meth where meth: "str_upper (n_method a) = Inr meth"
    by (auto simp: call_addon_http_def sbind_def lift_py_def split: sum.splits prod.splits)
  show ?r
    using \<open>?l\<close> np route meth
    by (auto simp: call_addon_http_def sbind_def lift_py_def fail_def send_http_def Let_def
        split: sum.splits prod.splits http_answer.splits)
qed (auto simp: call_addon_http_def sbind_def lift_py_def send_http_def Let_def)

text \<open>The answer is made of the reply and of headers that show the token to nobody.\<close>

lemma http_result_any_token:
  "http_result env addon slug debug url (call_headers rh0 [(''Cookie'', c)] body) status rh raw
     = http_result env addon slug debug url (call_headers rh0 [(''Cookie'', c')] body) status rh raw"
  by (rule http_result_debug) (metis call_headers_cookie)

lemma http_result_nest:
  "a_nest env = a_nest env' \<Longrightarrow>
     http_result env addon slug debug url hs status rh raw = http_result env' addon slug debug url hs status rh raw"
  by (simp add: http_result_def)

lemma ha_core_base_url_port: "a_port env = a_port env' \<Longrightarrow> ha_core_base_url env = ha_core_base_url env'"
  by (simp add: ha_core_base_url_def)

text \<open>C22: A call over ingress that has an answer has the Supervisor mint one session, for a user who
  is active, human and an administrator, and makes one request: to the add-on's ingress entry and
  the normalised path, an address the token has no part in, with the token as its \<open>Cookie\<close>, over
  a header of that name from the caller, and with the caller's other headers. Nothing else of
  the request depends on the token, and the answer, debug data included, does not: where the
  Supervisor mints another token and the add-on replies the same to the request that carries it,
  the call has the very same answer.\<close>

theorem ingress_call_private:
  assumes "call_addon_http env addon slug a st = (Inr v, st')" "n_port a = None"
  shows "\<exists>u \<in> set (a_users env). \<exists>token np entry meth hs status rh raw.
     y_active u \<and> y_admin u \<and> \<not> y_system u \<and> mints env st (y_id u) token
     \<and> a_sup st' = a_sup st @ [sup_req ''/ingress/session'' ''POST'' (Some (PDict [(''user_id'', PStr (y_id u))])) 30]
     \<and> normalize_path (n_path a) = Inr (Some np) \<and> str_of (get_or_none addon ''ingress_entry'') = Inr entry
     \<and> (\<forall>c. map_of (hs c) ''Cookie'' = Some (''ingress_session='' @ c)
          \<and> (\<forall>k. k \<notin> {''Cookie'', ''Content-Type''} \<longrightarrow> map_of (hs c) k = map_of (caller_headers (n_request_headers a)) k))
     \<and> (let req = (\<lambda>c. \<lparr>h_method = meth,
              h_url = rstrip_by (\<lambda>c. c = slash) (ha_core_base_url env) @ entry @ slash # np,
              h_headers = hs c, h_json = json_body (n_body a), h_data = data_body (n_body a)\<rparr>)
        in a_http st' = a_http st @ [req token] \<and> a_server env (a_http st) (req token) = HttpAnswer status rh raw
           \<and> (\<forall>env' other. a_users env' = a_users env \<and> a_port env' = a_port env \<and> a_nest env' = a_nest env
                \<and> mints env' st (y_id u) other \<and> a_server env' (a_http st) (req other) = HttpAnswer status rh raw
                \<longrightarrow> fst (call_addon_http env' addon slug a st) = Inr v))"
proof -
  from assms obtain np url hs0 st1 meth status rh raw where
    np: "normalize_path (n_path a) = Inr (Some np)" and route: "route_for_addon env addon np None False st = (Inr (url, hs0), st1)"
    and meth: "str_upper (n_method a) = Inr meth"
    and sent: "a_server env (a_http st1) \<lparr>h_method = meth, h_url = url, h_headers = call_headers (n_request_headers a) hs0 (n_body a),
        h_json = json_body (n_body a), h_data = data_body (n_body a)\<rparr> = HttpAnswer status rh raw"
      "st' = st1\<lparr>a_http := a_http st1 @ [\<lparr>h_method = meth, h_url = url,
        h_headers = call_headers (n_request_headers a) hs0 (n_body a), h_json = json_body (n_body a), h_data = data_body (n_body a)\<rparr>]\<rparr>"
    and res: "http_result env addon slug (n_debug a) url (call_headers (n_request_headers a) hs0 (n_body a)) status rh raw = Inr v"
    by (auto simp: call_addon_http_iff Let_def)
  from route obtain token entry where offered: "truthy (get_or_none addon ''ingress'')" "truthy (get_or_none addon ''ingress_entry'')"
    and minted: "create_ingress_session env st = (Inr token, st1)" and entry: "str_of (get_or_none addon ''ingress_entry'') = Inr entry"
    and url: "url = rstrip_by (\<lambda>c. c = slash) (ha_core_base_url env) @ entry @ slash # np"
    and hs0: "hs0 = [(''Cookie'', ''ingress_session='' @ token)]"
    by (auto simp: route_for_addon_ingress_iff)
  from minted obtain i where i: "ingress_user_id env = Some i" and mints: "mints env st i token"
    and st1: "st1 = st\<lparr>a_sup := a_sup st @ [sup_req ''/ingress/session'' ''POST'' (Some (PDict [(''user_id'', PStr i)])) 30]\<rparr>"
    by (auto simp: create_ingress_session_iff)
  define hs where "hs = (\<lambda>c. call_headers (n_request_headers a) [(''Cookie'', ''ingress_session='' @ c)] (n_body a))"
  have again: "fst (call_addon_http env' addon slug a st) = Inr v"
    if same: "a_users env' = a_users env" "a_port env' = a_port env" "a_nest env' = a_nest env"
      and other: "mints env' st i other" "a_server env' (a_http st) \<lparr>h_method = meth, h_url = url, h_headers = hs other,
        h_json = json_body (n_body a), h_data = data_body (n_body a)\<rparr> = HttpAnswer status rh raw" for env' other
  proof -
    have i': "ingress_user_id env' = Some i" using i same(1) by (simp add: ingress_user_id_def)
    have "route_for_addon env' addon np None False st = (Inr (url, [(''Cookie'', ''ingress_session='' @ other)]), st1)"
      using offered entry url i' other(1) st1 ha_core_base_url_port [OF same(2)]
      by (auto simp: route_for_addon_ingress_iff create_ingress_session_iff)
    moreover have "http_result env' addon slug (n_debug a) url (hs other) status rh raw = Inr v"
      using res unfolding hs0 hs_def by (metis http_result_any_token http_result_nest [OF same(3)])
    ultimately have "\<exists>st2. call_addon_http env' addon slug a st = (Inr v, st2)"
      using np meth other(2) assms(2) st1 unfolding call_addon_http_iff Let_def hs_def by force
    then show ?thesis by auto
  qed
  from ingress_user_id_sound [OF i] obtain u where u: "u \<in> set (a_users env)" "y_active u" "y_admin u" "\<not> y_system u" "i = y_id u"
    by blast
  have pinned: "map_of (hs c) ''Cookie'' = Some (''ingress_session='' @ c)"
    "k \<notin> {''Cookie'', ''Content-Type''} \<Longrightarrow> map_of (hs c) k = map_of (caller_headers (n_request_headers a)) k" for c k
    unfolding hs_def by (rule call_headers_set, rule call_headers_set, assumption)
  have "call_headers (n_request_headers a) hs0 (n_body a) = hs token" by (simp add: hs0 hs_def)
  note token_sent = sent [unfolded this url st1, simplified]
  show ?thesis
    unfolding Let_def
    by (rule bexI [OF _ u(1)], rule exI [of _ token], rule exI [of _ np], rule exI [of _ entry], rule exI [of _ meth],
        rule exI [of _ hs], rule exI [of _ status], rule exI [of _ rh], rule exI [of _ raw])
      (intro conjI allI impI, use u np entry mints st1 in simp_all,
        use pinned in \<open>simp_all add: token_sent(2)\<close>, use token_sent(1) in simp,
        use again u(5) in \<open>auto simp: url\<close>)
qed

text \<open>A path that is accepted is the decoded path without its leading slashes and has no
  dot-dot component, and a path is rejected exactly when its decoding has one.\<close>

theorem path_confined:
  assumes "unquote p = Inr t"
  shows "\<exists>k q. t = replicate k slash @ q \<and> \<not> startswith q [slash]
     \<and> normalize_path p = Inr (if ''..'' \<in> set (split_on slash q) then None else Some q)"
proof -
  let ?q = "dropWhile (\<lambda>c. c = slash) t" and ?k = "length (takeWhile (\<lambda>c. c = slash) t)"
  have "takeWhile (\<lambda>c. c = slash) t = replicate ?k slash"
    by (rule replicate_eqI) (auto dest: set_takeWhileD)
  then have "t = replicate ?k slash @ ?q" by (metis takeWhile_dropWhile_id)
  moreover have "\<not> startswith ?q [slash]"
  proof (cases ?q)
    case (Cons c q)
    then have "c \<noteq> slash" using hd_dropWhile [of "\<lambda>c. c = slash" t] by simp
    with Cons show ?thesis by simp
  next
    case Nil
    then show ?thesis by (simp only: startswith_Cons) simp
  qed
  moreover have "normalize_path p = Inr (if ''..'' \<in> set (split_on slash ?q) then None else Some ?q)"
    by (simp add: normalize_path_def assms lstrip_by_def)
  ultimately show ?thesis by blast
qed

text \<open>The decoding is done once: a component that was encoded twice is let through encoded.\<close>

lemma double_encoding_passes:
  "normalize_path ''/%252e%252e/x'' = Inr (Some ''%2e%2e/x'')" "unquote ''%2e%2e/x'' = Inr ''../x''"
  by code_simp+

lemma path_confined_witness:
  "(\<exists>k q. ''//a/b'' = replicate k slash @ q \<and> normalize_path ''//a%2Fb'' = Inr (Some q))
   \<and> (\<exists>k q. ''//a/../b'' = replicate k slash @ q \<and> ''..'' \<in> set (split_on slash q))"
proof -
  have u: "unquote ''//a%2Fb'' = Inr ''//a/b''" "unquote ''//a/%2e%2e/b'' = Inr ''//a/../b''" by code_simp+
  have n: "normalize_path ''//a%2Fb'' \<noteq> Inr None" "normalize_path ''//a/%2e%2e/b'' = Inr None" by code_simp+
  from path_confined [OF u(1)] obtain k q where "''//a/b'' = replicate k slash @ q"
    "normalize_path ''//a%2Fb'' = Inr (if ''..'' \<in> set (split_on slash q) then None else Some q)" by blast
  with n(1) have "''//a/b'' = replicate k slash @ q \<and> normalize_path ''//a%2Fb'' = Inr (Some q)"
    by (cases "''..'' \<in> set (split_on slash q)") simp_all
  moreover from path_confined [OF u(2)] obtain k' q' where "''//a/../b'' = replicate k' slash @ q'"
    "normalize_path ''//a/%2e%2e/b'' = Inr (if ''..'' \<in> set (split_on slash q') then None else Some q')" by blast
  with n(2) have "''//a/../b'' = replicate k' slash @ q' \<and> ''..'' \<in> set (split_on slash q')"
    by (cases "''..'' \<in> set (split_on slash q')") simp_all
  ultimately show ?thesis by blast
qed

definition lab_answering :: addon_env where
  "lab_answering = lab_env\<lparr>a_server := (\<lambda>_ _. HttpAnswer 200 [] ''ok'')\<rparr>"

definition lab_call :: http_args where
  "lab_call = \<lparr>n_path = ''/devices'', n_method = ''get'', n_body = PNone, n_port = None, n_debug = True,
     n_request_headers = Some [(''Cookie'', ''own'')]\<rparr>"

lemma ingress_call_private_witness:
  "\<exists>token q. mints lab_answering lab_start ''u'' token
     \<and> a_http (snd (call_addon_http lab_answering lab_addon ''a0_esphome'' lab_call lab_start)) = [q]
     \<and> h_url q = ''http://127.0.0.1:80/api/hassio_ingress/k/devices'' \<and> map_of (h_headers q) ''Cookie'' = Some (''ingress_session='' @ token)"
proof -
  let ?run = "call_addon_http lab_answering lab_addon ''a0_esphome'' lab_call lab_start"
  obtain r st1 where route: "route_for_addon lab_answering lab_addon ''devices'' None False lab_start = (r, st1)" by force
  have "case fst (route_for_addon lab_answering lab_addon ''devices'' None False lab_start) of Inr _ \<Rightarrow> True | Inl _ \<Rightarrow> False"
    by code_simp
  with route obtain url hs where r: "r = Inr (url, hs)" by (cases r) auto
  have np: "normalize_path ''/devices'' = Inr (Some ''devices'')" and up: "str_upper ''get'' = Inr ''GET''"
    and ok: "decode_replace ''ok'' = Inr ''ok''" by code_simp+
  have "\<exists>v. http_result lab_answering lab_addon ''a0_esphome'' True url h 200 [] ''ok'' = Inr v" for h
    by (simp add: http_result_def header_get_def parse_http_body_def ok truncate_response_def
        max_response_size_def)
  then obtain v where "http_result lab_answering lab_addon ''a0_esphome'' True url
      (call_headers (Some [(''Cookie'', ''own'')]) hs PNone) 200 [] ''ok'' = Inr v" by blast
  then obtain st' where v: "?run = (Inr v, st')"
    using route r by (simp add: call_addon_http_def sbind_def lab_call_def lift_py_def np up send_http_def Let_def)
      (simp add: lab_answering_def lift_py_def)
  have "n_port lab_call = None" by (simp add: lab_call_def)
  from ingress_call_private [OF v this] obtain u token np' entry hs' q where
    minted: "u \<in> set (a_users lab_answering)" "mints lab_answering lab_start (y_id u) token"
    and sent: "normalize_path (n_path lab_call) = Inr (Some np')" "str_of (get_or_none lab_addon ''ingress_entry'') = Inr entry"
      "h_url q = rstrip_by (\<lambda>c. c = slash) (ha_core_base_url lab_answering) @ entry @ slash # np'" "h_headers q = hs' token"
      "a_http st' = a_http lab_start @ [q]"
    and cookie: "\<And>c. map_of (hs' c) ''Cookie'' = Some (''ingress_session='' @ c)"
    unfolding Let_def by (metis http_request.select_convs(2,3))
  have "str_of (get_or_none lab_addon ''ingress_entry'') = Inr ''/api/hassio_ingress/k''"
    "rstrip_by (\<lambda>c. c = slash) (ha_core_base_url lab_answering) = ''http://127.0.0.1:80''" by code_simp+
  moreover have "y_id u = ''u''" using minted(1) by (simp add: lab_answering_def lab_env_def)
  ultimately show ?thesis
    using minted(2) sent cookie v np by (intro exI [of _ token] exI [of _ q]) (simp add: lab_start_def lab_call_def slash_def)
qed

end
