(* ===== verification/Socket.thy ===== *)
theory Socket
  imports Ingress
begin

text \<open>
  The WebSocket half of \<open>addon_tools.py\<close>: the collecting loop, the generic WebSocket call and
  one command of the Device Builder's multiplexed API. Time passes only while a message is
  awaited. A loop is \<open>drive\<close> over the step that is its body, and a loop that never ends is the
  value \<open>Diverged\<close>.
\<close>

section \<open>Loops\<close>

partial_function (option) drive :: "('s \<Rightarrow> 'r + 's) \<Rightarrow> 's \<Rightarrow> 'r option" where
  "drive step s = (case step s of Inl r \<Rightarrow> Some r | Inr s' \<Rightarrow> drive step s')"

section \<open>Sockets\<close>

datatype ws_fault = WsTimedOut | WsBroken string | WsFault fault

type_synonym 'a conversation = "socket \<Rightarrow> rat \<Rightarrow> (ws_fault + 'a) \<times> socket \<times> rat"

definition receive :: "addon_env \<Rightarrow> socket \<Rightarrow> rat \<Rightarrow> rat \<Rightarrow> received \<times> socket \<times> rat" where
  "receive env sk now timeout =
     (case a_receive env sk now timeout of (r, now') \<Rightarrow> (r, sk\<lparr>k_reads := Suc (k_reads sk)\<rparr>, now'))"

definition send_str :: "addon_env \<Rightarrow> string \<Rightarrow> socket \<Rightarrow> (ws_fault + unit) \<times> socket" where
  "send_str env s sk =
     (case a_send env sk s of
        Some details \<Rightarrow> (Inl (WsBroken details), sk)
      | None \<Rightarrow> (Inr (), sk\<lparr>k_sent := k_sent sk @ [s]\<rparr>))"

definition with_socket ::
  "addon_env \<Rightarrow> string \<Rightarrow> headers \<Rightarrow> 'a conversation \<Rightarrow> addon_state \<Rightarrow> (ws_fault + 'a) \<times> addon_state" where
  "with_socket env url hs talk st =
     (case a_connect env (a_sockets st) url of
        ConnTimeout \<Rightarrow> (Inl WsTimedOut, st)
      | ConnFailed details \<Rightarrow> (Inl (WsBroken details), st)
      | ConnOpen \<Rightarrow>
          (case talk \<lparr>k_url = url, k_headers = hs, k_sent = [], k_reads = 0\<rparr> (a_clock st) of
             (r, sk, now) \<Rightarrow> (r, st\<lparr>a_sockets := a_sockets st @ [sk], a_clock := now\<rparr>)))"

text \<open>What a text message is: its JSON value, or the text itself.\<close>

definition message_value :: "addon_env \<Rightarrow> string \<Rightarrow> pyval py" where
  "message_value env t = py_except (json_loads True (a_nest env) t) [ValueError] (Inr (PStr t))"

section \<open>Collecting messages\<close>

record collecting =
  c_messages :: "pyval list"
  c_socket :: socket
  c_now :: rat

definition collect_step ::
  "addon_env \<Rightarrow> nat \<Rightarrow> rat \<Rightarrow> bool \<Rightarrow> collecting \<Rightarrow> ((ws_fault + string) \<times> collecting) + collecting" where
  "collect_step env limit deadline wait_for_close s =
     (let remaining = deadline - c_now s in
      if \<not> length (c_messages s) < limit then Inl (Inr ''message_limit'', s)
      else if remaining \<le> 0 then Inl (Inr ''timeout'', s)
      else
        (case receive env (c_socket s) (c_now s) (if wait_for_close then remaining else min remaining 2) of
           (r, sk, now) \<Rightarrow>
             let s = s\<lparr>c_socket := sk, c_now := now\<rparr> in
             (case r of
                RecvTimeout \<Rightarrow> Inl (Inr (if wait_for_close then ''timeout'' else ''silence''), s)
              | RecvFailed details \<Rightarrow> Inl (Inl (WsBroken details), s)
              | RecvMessage (WsText t) \<Rightarrow>
                  (case message_value env t of
                     Inl e \<Rightarrow> Inl (Inl (WsFault (Raised e)), s)
                   | Inr v \<Rightarrow> Inr (s\<lparr>c_messages := c_messages s @ [v]\<rparr>))
              | RecvMessage WsBinary \<Rightarrow> Inr s
              | RecvMessage WsOther \<Rightarrow> Inr s
              | RecvMessage WsError \<Rightarrow> Inl (Inr ''error'', s)
              | RecvMessage _ \<Rightarrow> Inl (Inr ''server_closed'', s))))"

definition collect_ws :: "addon_env \<Rightarrow> nat \<Rightarrow> int \<Rightarrow> bool \<Rightarrow> (pyval list \<times> string) conversation" where
  "collect_ws env limit timeout wait_for_close sk now =
     (case drive (collect_step env limit (now + of_int timeout) wait_for_close)
             \<lparr>c_messages = [], c_socket = sk, c_now = now\<rparr> of
        None \<Rightarrow> (Inl (WsFault Diverged), sk, now)
      | Some (Inl e, s) \<Rightarrow> (Inl e, c_socket s, c_now s)
      | Some (Inr closed_by, s) \<Rightarrow> (Inr (c_messages s, closed_by), c_socket s, c_now s))"

definition max_ws_messages :: nat where "max_ws_messages = 1000"

record ws_args =
  v_path :: string
  v_body :: pyval
  v_port :: "int option"
  v_timeout :: int
  v_debug :: bool
  v_wait_for_close :: bool
  v_message_limit :: "int option"
  v_message_offset :: int

text \<open>\<open>a or b\<close> on an optional integer, and the slices \<open>xs[i:]\<close> and \<open>xs[:i]\<close>.\<close>

definition int_or :: "int option \<Rightarrow> int \<Rightarrow> int" where
  "int_or a b = (case a of Some i \<Rightarrow> if i = 0 then b else i | None \<Rightarrow> b)"

definition slice_from :: "int \<Rightarrow> 'a list \<Rightarrow> 'a list" where
  "slice_from i xs = drop (if 0 \<le> i then nat i else length xs - nat (- i)) xs"

definition slice_to :: "int \<Rightarrow> 'a list \<Rightarrow> 'a list" where
  "slice_to i xs = take (if 0 \<le> i then nat i else length xs - nat (- i)) xs"

definition ws_limit :: "ws_args \<Rightarrow> nat" where
  "ws_limit a =
     nat (min (int max_ws_messages) (max 0 (int_or (v_message_limit a) (int max_ws_messages) + v_message_offset a)))"

definition outbound_text :: "pyval \<Rightarrow> string py" where
  "outbound_text body = (case body of PStr s \<Rightarrow> Inr s | _ \<Rightarrow> json_text body)"

definition addon_ws_talk :: "addon_env \<Rightarrow> ws_args \<Rightarrow> (pyval list \<times> string) conversation" where
  "addon_ws_talk env a sk now =
     (if v_body a = PNone then collect_ws env (ws_limit a) (v_timeout a) (v_wait_for_close a) sk now
      else
        (case outbound_text (v_body a) of
           Inl e \<Rightarrow> (Inl (WsFault (Raised e)), sk, now)
         | Inr s \<Rightarrow>
             (case send_str env s sk of
                (Inl e, sk') \<Rightarrow> (Inl e, sk', now)
              | (Inr _, sk') \<Rightarrow> collect_ws env (ws_limit a) (v_timeout a) (v_wait_for_close a) sk' now)))"

definition sliced_messages :: "ws_args \<Rightarrow> pyval list \<Rightarrow> pyval list" where
  "sliced_messages a messages =
     (let sliced = slice_from (v_message_offset a) messages in
      case v_message_limit a of Some l \<Rightarrow> slice_to l sliced | None \<Rightarrow> sliced)"

definition addon_ws_result ::
  "addon \<Rightarrow> string \<Rightarrow> ws_args \<Rightarrow> string \<Rightarrow> headers \<Rightarrow> pyval list \<Rightarrow> string \<Rightarrow> pyval" where
  "addon_ws_result addon slug a url hs messages closed_by =
     (let sliced = sliced_messages a messages in
      PDict ([(''success'', PBool True), (''messages'', PList sliced), (''message_count'', PInt (int (length sliced))),
         (''closed_by'', PStr closed_by), (''addon_name'', get_or_none addon ''name''), (''slug'', PStr slug)]
       @ (if v_debug a
          then [(''_debug'', PDict [(''url'', PStr url), (''request_headers'', str_dict (debug_headers hs)),
                                 (''body'', v_body a)])]
          else [])))"

definition call_addon_ws ::
  "addon_env \<Rightarrow> addon \<Rightarrow> string \<Rightarrow> ws_args \<Rightarrow> addon_state \<Rightarrow> pyval tool \<times> addon_state" where
  "call_addon_ws env addon slug a =
     sbind (slift (lift_py (normalize_path (v_path a)))) (\<lambda>np.
       case np of
         None \<Rightarrow> fail ''Path contains '..' traversal component.'' ''invalid_path'' []
       | Some normalized \<Rightarrow>
           sbind (route_for_addon env addon normalized (v_port a) True) (\<lambda>(url, hs) st.
             case with_socket env url hs (addon_ws_talk env a) st of
               (Inl WsTimedOut, st') \<Rightarrow>
                 fail (''Timed out connecting to ESPHome add-on WebSocket '' @ repr_str (v_path a) @ ''.'')
                   ''timeout'' [(''slug'', PStr slug)] st'
             | (Inl (WsBroken details), st') \<Rightarrow>
                 fail (''Failed to connect to ESPHome add-on WebSocket '' @ repr_str (v_path a) @ ''.'')
                   ''connection_failed'' [(''details'', PStr details), (''slug'', PStr slug)] st'
             | (Inl (WsFault e), st') \<Rightarrow> (Inl e, st')
             | (Inr (messages, closed_by), st') \<Rightarrow>
                 (Inr (addon_ws_result addon slug a url hs messages closed_by), st')))"

section \<open>Loops that end\<close>

lemma drive_invariant:
  assumes "drive step s = Some r" "I s"
    and "\<And>s s'. I s \<Longrightarrow> step s = Inr s' \<Longrightarrow> I s'"
    and "\<And>s r. I s \<Longrightarrow> step s = Inl r \<Longrightarrow> Q r"
  shows "Q r"
proof -
  have "I s \<longrightarrow> Q r"
  proof (rule drive.raw_induct [OF _ assms(1), where P = "\<lambda>st s r. st = step \<longrightarrow> I s \<longrightarrow> Q r", simplified])
    fix loop st s r
    assume ih: "\<And>st s r. loop st s = Some r \<Longrightarrow> st = step \<longrightarrow> I s \<longrightarrow> Q r"
      and eq: "(case st s of Inl r \<Rightarrow> Some r | Inr s' \<Rightarrow> loop st s') = Some r"
    show "st = step \<longrightarrow> I s \<longrightarrow> Q r"
      using ih eq assms(3,4) by (auto split: sum.splits)
  qed
  with assms(2) show ?thesis by blast
qed

lemma drive_terminates:
  fixes m :: "'s \<Rightarrow> nat"
  assumes "\<And>s s'. I s \<Longrightarrow> step s = Inr s' \<Longrightarrow> I s' \<and> m s' < m s" and "I s"
  shows "\<exists>r. drive step s = Some r"
  using assms(2)
proof (induction "m s" arbitrary: s rule: less_induct)
  case less
  show ?case
  proof (cases "step s")
    case Inl
    then show ?thesis by (simp add: drive.simps)
  next
    case (Inr s')
    with assms(1) less have "\<exists>r. drive step s' = Some r" by blast
    with Inr show ?thesis by (simp add: drive.simps)
  qed
qed

text \<open>Every message takes some time to arrive, however little.\<close>

definition messages_take :: "addon_env \<Rightarrow> rat \<Rightarrow> bool" where
  "messages_take env d \<longleftrightarrow> 0 < d \<and>
     (\<forall>sk now t m now'. a_receive env sk now t = (RecvMessage m, now') \<longrightarrow> now + d \<le> now')"

definition rounds_left :: "rat \<Rightarrow> rat \<Rightarrow> rat \<Rightarrow> nat" where
  "rounds_left d deadline now = nat \<lceil>(deadline - now) / d\<rceil>"

lemma rounds_left_less:
  assumes "0 < d" "now < deadline" "now + d \<le> now'"
  shows "rounds_left d deadline now' < rounds_left d deadline now"
proof -
  have "(deadline - now') / d \<le> (deadline - now - d) / d"
    using assms by (intro divide_right_mono) simp_all
  also have "\<dots> = (deadline - now) / d - 1" using assms(1) by (simp add: diff_divide_distrib)
  finally have "\<lceil>(deadline - now') / d\<rceil> \<le> \<lceil>(deadline - now) / d\<rceil> - 1" by (metis ceiling_diff_one ceiling_mono)
  moreover have "1 \<le> \<lceil>(deadline - now) / d\<rceil>" using assms by simp
  ultimately show ?thesis by (simp add: rounds_left_def)
qed

lemma receive_progress:
  assumes "messages_take env d" "receive env sk now t = (RecvMessage m, sk', now')"
  shows "now + d \<le> now'"
  using assms by (auto simp: messages_take_def receive_def split: prod.splits)

lemma collect_step_progress:
  assumes "messages_take env d" "collect_step env limit deadline w s = Inr s'"
  shows "rounds_left d deadline (c_now s') < rounds_left d deadline (c_now s)"
proof -
  from assms(1) have d: "0 < d" by (simp add: messages_take_def)
  obtain r sk now where rc: "receive env (c_socket s) (c_now s)
      (if w then deadline - c_now s else min (deadline - c_now s) 2) = (r, sk, now)" by (metis prod_cases3)
  from assms(2) rc have before: "c_now s < deadline"
    by (auto simp: collect_step_def Let_def split: if_splits)
  from assms(2) rc obtain m where m: "r = RecvMessage m" "c_now s' = now"
    by (auto simp: collect_step_def Let_def split: if_splits received.splits ws_message.splits sum.splits)
  with receive_progress [OF assms(1)] rc before d show ?thesis by (auto intro: rounds_left_less)
qed

lemma collect_ws_returns:
  assumes "messages_take env d"
  shows "fst (collect_ws env limit timeout w sk now) \<noteq> Inl (WsFault Diverged)"
proof -
  let ?s = "\<lparr>c_messages = [], c_socket = sk, c_now = now\<rparr>"
  let ?step = "collect_step env limit (now + of_int timeout) w"
  have "\<exists>r. drive ?step ?s = Some r"
    by (rule drive_terminates [where I = "\<lambda>_. True" and m = "\<lambda>s. rounds_left d (now + of_int timeout) (c_now s)"])
      (auto intro: collect_step_progress [OF assms])
  then obtain r where r: "drive ?step ?s = Some r" by blast
  have "fst r \<noteq> Inl (WsFault Diverged)"
    by (rule drive_invariant [OF r, of "\<lambda>_. True"])
      (auto simp: collect_step_def Let_def split: if_splits received.splits ws_message.splits sum.splits prod.splits)
  with r show ?thesis by (auto simp: collect_ws_def split: prod.splits sum.splits)
qed

lemma collect_ws_bounded:
  assumes "collect_ws env limit timeout w sk now = (Inr (messages, closed_by), sk', now')"
  shows "length messages \<le> limit"
    and "closed_by \<in> {''message_limit'', ''timeout'', ''silence'', ''error'', ''server_closed''}"
proof -
  let ?s = "\<lparr>c_messages = [], c_socket = sk, c_now = now\<rparr>"
  let ?step = "collect_step env limit (now + of_int timeout) w"
  from assms obtain s where r: "drive ?step ?s = Some (Inr closed_by, s)" and s: "messages = c_messages s"
    by (auto simp: collect_ws_def split: option.splits prod.splits sum.splits)
  have "length (c_messages (snd (Inr closed_by :: ws_fault + string, s))) \<le> limit \<and> (\<forall>c. fst (Inr closed_by :: ws_fault + string, s) = Inr c \<longrightarrow>
      c \<in> {''message_limit'', ''timeout'', ''silence'', ''error'', ''server_closed''})"
    by (rule drive_invariant [OF r, of "\<lambda>s. length (c_messages s) \<le> limit"])
      (auto simp: collect_step_def Let_def split: if_splits received.splits ws_message.splits sum.splits prod.splits)
  with s show "length messages \<le> limit"
    "closed_by \<in> {''message_limit'', ''timeout'', ''silence'', ''error'', ''server_closed''}" by simp_all
qed

section \<open>Steps that come back\<close>

definition settles :: "(addon_state \<Rightarrow> 'a tool \<times> addon_state) \<Rightarrow> bool" where
  "settles m \<longleftrightarrow> (\<forall>st. fst (m st) \<noteq> Inl Diverged)"

named_theorems settles_rules \<open>steps that always come back\<close>

lemma settlesI: "(\<And>st. fst (m st) \<noteq> Inl Diverged) \<Longrightarrow> settles m"
  by (simp add: settles_def)

lemma settlesD: "settles m \<Longrightarrow> fst (m st) \<noteq> Inl Diverged"
  by (simp add: settles_def)

lemma settles_sbind [settles_rules]:
  assumes "settles m" "\<And>x. settles (f x)"
  shows "settles (sbind m f)"
proof (rule settlesI)
  fix st
  obtain r st' where m: "m st = (r, st')" by force
  from assms(1) m have "r \<noteq> Inl Diverged" unfolding settles_def by (metis fst_conv)
  then show "fst (sbind m f st) \<noteq> Inl Diverged"
    using m assms(2) by (cases r) (auto simp: settles_def)
qed

lemma settles_simple [settles_rules]:
  "settles (sreturn x)" "settles (fail m c e)" "y \<noteq> Inl Diverged \<Longrightarrow> settles (slift y)"
  by (simp_all add: settles_def fail_def)

lemma settles_values [settles_rules]:
  "lift_py p \<noteq> Inl Diverged" "str_of v \<noteq> Inl Diverged"
  by (auto simp: lift_py_def str_of_def split: sum.splits)

lemma text_of_settles [settles_rules]: "text_of d k \<noteq> Inl Diverged"
  by (simp add: text_of_def split: sum.splits)

lemma tool_bind_settles: "m \<noteq> Inl Diverged \<Longrightarrow> (\<And>x. f x \<noteq> Inl Diverged) \<Longrightarrow> tool_bind m f \<noteq> Inl Diverged"
  by (cases m) auto

lemma looks_like_settles [settles_rules]: "looks_like_esphome_addon d \<noteq> Inl Diverged"
  unfolding looks_like_esphome_addon_def by (intro tool_bind_settles text_of_settles) simp

lemma esphome_matches_settles [settles_rules]: "esphome_matches vs \<noteq> Inl Diverged"
proof (induction vs)
  case (Cons v vs)
  show ?case
  proof (cases v)
    case (PDict d)
    with Cons looks_like_settles [of d] show ?thesis
      by (cases "looks_like_esphome_addon d"; cases "esphome_matches vs") auto
  qed simp_all
qed simp

lemma supervisor_api_call_settles [settles_rules]: "settles (supervisor_api_call env e m d t)"
  by (rule settlesI) (simp add: supervisor_api_call_def fail_def Let_def split: hassio.splits sup_answer.splits)

lemma get_addon_info_settles [settles_rules]: "settles (get_addon_info env slug)"
  unfolding get_addon_info_def by (auto intro!: settles_rules split: pyval.splits)

lemma resolve_settles [settles_rules]: "settles (resolve_esphome_addon env slug)"
  unfolding resolve_esphome_addon_def resolve_explicit_def list_addons_def
  by (auto intro!: settles_rules split: option.splits list.splits pyval.splits)

lemma route_settles [settles_rules]: "settles (route_for_addon env addon np port w)"
  unfolding route_for_addon_def create_ingress_session_def Let_def
  by (auto intro!: settles_rules split: option.splits pyval.splits list.splits)

section \<open>The WebSocket call\<close>

lemma addon_ws_talk_returns:
  assumes "messages_take env d"
  shows "fst (addon_ws_talk env a sk now) \<noteq> Inl (WsFault Diverged)"
  using collect_ws_returns [OF assms]
  by (auto simp: addon_ws_talk_def send_str_def split: sum.splits option.splits)

lemma addon_ws_talk_bounded:
  assumes "addon_ws_talk env a sk now = (Inr (messages, closed_by), sk', now')"
  shows "length messages \<le> ws_limit a"
  using assms collect_ws_bounded(1)
  by (auto simp: addon_ws_talk_def split: if_splits sum.splits prod.splits)

lemma with_socket_cases:
  assumes "with_socket env url hs talk st = (r, st')"
  obtains "r = Inl WsTimedOut" "st' = st"
    | details where "r = Inl (WsBroken details)" "st' = st"
    | sk now where "talk \<lparr>k_url = url, k_headers = hs, k_sent = [], k_reads = 0\<rparr> (a_clock st) = (r, sk, now)"
        "st' = st\<lparr>a_sockets := a_sockets st @ [sk], a_clock := now\<rparr>"
proof (cases "a_connect env (a_sockets st) url")
  case ConnTimeout
  with assms show ?thesis by (intro that(1)) (simp_all add: with_socket_def)
next
  case (ConnFailed details)
  with assms show ?thesis by (intro that(2) [of details]) (simp_all add: with_socket_def)
next
  case ConnOpen
  obtain r' sk now where "talk \<lparr>k_url = url, k_headers = hs, k_sent = [], k_reads = 0\<rparr> (a_clock st) = (r', sk, now)"
    by (metis prod_cases3)
  with ConnOpen assms show ?thesis by (intro that(3) [of sk now]) (simp_all add: with_socket_def)
qed

lemma sliced_messages_length:
  "length (sliced_messages a ms) \<le> length ms"
  "v_message_limit a = Some l \<Longrightarrow> 0 \<le> l \<Longrightarrow> length (sliced_messages a ms) \<le> nat l"
  by (auto simp: sliced_messages_def slice_from_def slice_to_def Let_def split: option.splits)

lemma with_socket_returns:
  assumes "\<And>sk now. fst (talk sk now) \<noteq> Inl (WsFault Diverged)"
  shows "with_socket env url hs talk st \<noteq> (Inl (WsFault Diverged), st')"
proof
  assume "with_socket env url hs talk st = (Inl (WsFault Diverged), st')"
  then show False using assms by (cases rule: with_socket_cases) (auto, metis fst_conv)
qed

lemma call_addon_ws_settles:
  assumes "messages_take env d"
  shows "settles (call_addon_ws env addon slug a)"
proof -
  have w: "with_socket env url hs (addon_ws_talk env a) st \<noteq> (Inl (WsFault Diverged), st')" for url hs st st'
    by (rule with_socket_returns) (rule addon_ws_talk_returns [OF assms])
  show ?thesis
    unfolding call_addon_ws_def
  proof (rule settles_sbind, goal_cases)
    case 1
    show ?case by (intro settles_simple settles_values)
  next
    case (2 np)
    show ?case
      by (cases np) (simp_all add: settles_simple, rule settles_sbind [OF route_settles], rule settlesI,
        auto simp: fail_def w split: prod.splits sum.splits ws_fault.splits)
  qed
qed

lemma ws_call_bounded:
  assumes "call_addon_ws env addon slug a st = (Inr v, st')"
  shows "\<exists>ms. pdict_get v ''messages'' = Some (PList ms) \<and> length ms \<le> max_ws_messages
         \<and> (\<forall>l. v_message_limit a = Some l \<and> 0 \<le> l \<longrightarrow> length ms \<le> nat l)"
proof -
  from assms obtain url hs st1 messages closed_by where w: "with_socket env url hs (addon_ws_talk env a) st1 = (Inr (messages, closed_by), st')"
    and v: "v = addon_ws_result addon slug a url hs messages closed_by"
    by (auto simp: call_addon_ws_def sbind_def fail_def lift_py_def split: sum.splits prod.splits option.splits ws_fault.splits)
  from w have "length messages \<le> ws_limit a"
    by (cases rule: with_socket_cases) (auto dest: addon_ws_talk_bounded)
  also have "ws_limit a \<le> max_ws_messages" by (simp add: ws_limit_def max_ws_messages_def)
  finally show "\<exists>ms. pdict_get v ''messages'' = Some (PList ms) \<and> length ms \<le> max_ws_messages
         \<and> (\<forall>l. v_message_limit a = Some l \<and> 0 \<le> l \<longrightarrow> length ms \<le> nat l)"
    using sliced_messages_length(1) [of a messages] sliced_messages_length(2) [of a _ messages]
    by (intro exI [of _ "sliced_messages a messages"]) (auto simp: v addon_ws_result_def Let_def)
qed

text \<open>C25: A WebSocket call comes back, provided every message takes some time to arrive, and what it
  returns is bounded: at most a thousand messages, and at most as many as the caller asked for.\<close>

theorem ws_call_returns:
  assumes "messages_take env d"
  shows "case call_addon_ws env addon slug a st of
      (Inl e, _) \<Rightarrow> e \<noteq> Diverged
    | (Inr v, _) \<Rightarrow> \<exists>ms. pdict_get v ''messages'' = Some (PList ms) \<and> length ms \<le> max_ws_messages
         \<and> (\<forall>l. v_message_limit a = Some l \<and> 0 \<le> l \<longrightarrow> length ms \<le> nat l)"
  using settlesD [OF call_addon_ws_settles [OF assms], of addon slug a st]
    ws_call_bounded [of env addon slug a st]
  by (auto split: prod.splits sum.splits)

definition lab_socket :: addon_env where
  "lab_socket = lab_env\<lparr>a_receive := (\<lambda>_ now _. (RecvMessage (WsText ''1''), now + 1))\<rparr>"

definition lab_ws_call :: ws_args where
  "lab_ws_call = \<lparr>v_path = ''ws'', v_body = PNone, v_port = None, v_timeout = 5, v_debug = False,
     v_wait_for_close = False, v_message_limit = Some 1, v_message_offset = 0\<rparr>"

lemma lab_messages_take: "messages_take lab_socket 1"
  by (simp add: messages_take_def lab_socket_def)

lemma ws_call_returns_witness:
  "(\<exists>v st' ms. call_addon_ws lab_socket lab_addon ''a0_esphome'' lab_ws_call lab_start = (Inr v, st')
        \<and> pdict_get v ''messages'' = Some (PList ms) \<and> length ms \<le> 1)"
proof -
  let ?run = "call_addon_ws lab_socket lab_addon ''a0_esphome'' lab_ws_call lab_start"
  let ?route = "route_for_addon lab_socket lab_addon ''ws'' None True lab_start"
  have "case fst ?route of Inr _ \<Rightarrow> True | Inl _ \<Rightarrow> False" by code_simp
  then obtain url hs st1 where route: "?route = (Inr (url, hs), st1)" by (cases ?route) (auto split: sum.splits)
  have np: "normalize_path ''ws'' = Inr (Some ''ws'')" and one: "message_value lab_socket ''1'' = Inr (PInt 1)" by code_simp+
  have rcv: "receive lab_socket sk now t = (RecvMessage (WsText ''1''), sk\<lparr>k_reads := Suc (k_reads sk)\<rparr>, now + 1)" for sk now t
    by (simp add: receive_def lab_socket_def)
  have "collect_ws lab_socket 1 5 False sk now = (Inr ([PInt 1], ''message_limit''), sk\<lparr>k_reads := Suc (k_reads sk)\<rparr>, now + 1)"
    for sk now
    by (simp add: collect_ws_def drive.simps collect_step_def Let_def rcv one)
  then have "addon_ws_talk lab_socket lab_ws_call sk now
      = (Inr ([PInt 1], ''message_limit''), sk\<lparr>k_reads := Suc (k_reads sk)\<rparr>, now + 1)" for sk now
    by (simp add: addon_ws_talk_def lab_ws_call_def ws_limit_def int_or_def max_ws_messages_def)
  then have "case fst ?run of Inr _ \<Rightarrow> True | Inl _ \<Rightarrow> False"
    using route np by (simp add: call_addon_ws_def sbind_def lab_ws_call_def lift_py_def with_socket_def)
      (simp add: lab_socket_def lab_env_def)
  then obtain v st' where run: "?run = (Inr v, st')" by (cases ?run) (auto split: sum.splits)
  have "v_message_limit lab_ws_call = Some 1" by (simp add: lab_ws_call_def)
  with ws_call_returns [OF lab_messages_take, where addon = lab_addon and slug = "''a0_esphome''" and a = lab_ws_call and st = lab_start] run
  show ?thesis by fastforce
qed

end
