(* ===== verification/Builder.thy ===== *)
theory Builder
  imports Socket
begin

text \<open>
  One command of the ESPHome Device Builder's multiplexed WebSocket API, and the tools of
  \<open>addon_tools.py\<close> that send one: the greeting of the server, the command, the messages that
  answer it, and what each tool makes of the answer.
\<close>

section \<open>One command\<close>

definition message_id :: string where "message_id = ''esp-mcp-1''"

definition result_events :: "string list" where "result_events = [''result'']"

definition stoppable_streams :: "string list" where
  "stoppable_streams = [''devices/logs'', ''devices/subscribe_reachability'']"

record builder_state =
  b_server_info :: pyval \<comment> \<open>\<open>None\<close> or the greeting\<close>
  b_events :: "pyval list"
  b_messages :: "pyval list"
  b_terminal :: pyval
  b_result :: pyval
  b_count :: nat
  b_stopped :: bool
  b_reason :: string
  b_socket :: socket
  b_now :: rat

definition builder_start :: "socket \<Rightarrow> rat \<Rightarrow> builder_state" where
  "builder_start sk now =
     \<lparr>b_server_info = PNone, b_events = [], b_messages = [], b_terminal = PNone, b_result = PNone,
      b_count = 0, b_stopped = False, b_reason = ''timeout'', b_socket = sk, b_now = now\<rparr>"

record command_args =
  m_slug :: string
  m_command :: string
  m_args :: pydict
  m_timeout :: int
  m_stream :: bool
  m_message_limit :: "int option"

definition early :: "string \<Rightarrow> string \<Rightarrow> (string \<times> pyval) list \<Rightarrow> ws_fault" where
  "early message code extra = WsFault (Payload (tool_error message code extra))"

definition greeting_value :: "pyval \<Rightarrow> builder_state \<Rightarrow> (ws_fault + unit) \<times> builder_state" where
  "greeting_value data s =
     (let s = s\<lparr>b_messages := b_messages s @ [data]\<rparr> in
      if pdict_get data ''server_version'' = None then (Inr (), s)
      else
        (let s = s\<lparr>b_server_info := data\<rparr> in
         if (case pdict_get data ''requires_auth'' of Some v \<Rightarrow> truthy v | None \<Rightarrow> False)
         then (Inl (early (''ESPHome Device Builder requires its own auth; ''
                 @ ''the ingress route did not arrive as trusted.'') ''device_builder_auth_required''
                 [(''server_info'', data)]), s)
         else (Inr (), s)))"

definition builder_greeting ::
  "addon_env \<Rightarrow> command_args \<Rightarrow> builder_state \<Rightarrow> (ws_fault + unit) \<times> builder_state" where
  "builder_greeting env a s =
     (case receive env (b_socket s) (b_now s) (of_int (min (m_timeout a) 10)) of
        (r, sk, now) \<Rightarrow>
          let s = s\<lparr>b_socket := sk, b_now := now\<rparr> in
          (case r of
             RecvTimeout \<Rightarrow>
               (Inl (early ''Timed out waiting for ESPHome Device Builder server info.'' ''timeout''
                  [(''slug'', PStr (m_slug a))]), s)
           | RecvFailed details \<Rightarrow> (Inl (WsBroken details), s)
           | RecvMessage (WsText t) \<Rightarrow>
               (case message_value env t of
                  Inl e \<Rightarrow> (Inl (WsFault (Raised e)), s)
                | Inr data \<Rightarrow> greeting_value data s)
           | RecvMessage WsError \<Rightarrow>
               (Inl (early ''ESPHome Device Builder WebSocket failed before server info.'' ''connection_failed''
                  [(''slug'', PStr (m_slug a))]), s)
           | RecvMessage WsBinary \<Rightarrow> (Inr (), s)
           | RecvMessage WsOther \<Rightarrow> (Inr (), s)
           | RecvMessage _ \<Rightarrow>
               (Inl (early ''ESPHome Device Builder closed before server info.'' ''connection_closed''
                  [(''slug'', PStr (m_slug a))]), s)))"

text \<open>
  An answer to the command: an error ends the call, a result event or (unless streaming) a
  result ends the loop.
\<close>

definition or_value :: "pyval option \<Rightarrow> pyval \<Rightarrow> pyval" where
  "or_value v d = (case v of Some x \<Rightarrow> if truthy x then x else d | None \<Rightarrow> d)"

definition command_error :: "command_args \<Rightarrow> pydict \<Rightarrow> builder_state \<Rightarrow> ws_fault" where
  "command_error a d s =
     (case py_str (or_value (map_of d ''error_code'') (PStr ''command_failed'')) of
        Inl e \<Rightarrow> WsFault (Raised e)
      | Inr code \<Rightarrow>
          WsFault (Payload (error_payload
            (or_value (map_of d ''details'') (PStr (m_command a @ '' failed.''))) code
            [(''command'', PStr (m_command a)), (''server_info'', b_server_info s)])))"

definition is_result_event :: "pyval \<Rightarrow> bool py" where
  "is_result_event v =
     (case v of
        PList _ \<Rightarrow> Inl TypeError
      | PDict _ \<Rightarrow> Inl TypeError
      | PStr e \<Rightarrow> Inr (e \<in> set result_events)
      | _ \<Rightarrow> Inr False)"

type_synonym builder_next = "((ws_fault + unit) \<times> builder_state) + builder_state"

definition command_answer :: "command_args \<Rightarrow> pydict \<Rightarrow> builder_state \<Rightarrow> builder_next" where
  "command_answer a d s =
     (if map_of d ''message_id'' \<noteq> Some (PStr message_id) then Inr s
      else
        (let s = s\<lparr>b_count := Suc (b_count s)\<rparr> in
         if map_of d ''error_code'' \<noteq> None then Inl (Inl (command_error a d s), s)
         else
           (case map_of d ''event'' of
              Some ev \<Rightarrow>
                (let s = s\<lparr>b_events := b_events s @ [PDict d]\<rparr> in
                 (case is_result_event ev of
                    Inl e \<Rightarrow> Inl (Inl (WsFault (Raised e)), s)
                  | Inr True \<Rightarrow> Inl (Inr (), s\<lparr>b_terminal := PDict d, b_reason := ''event_result''\<rparr>)
                  | Inr False \<Rightarrow> Inr s))
            | None \<Rightarrow>
                (case map_of d ''result'' of
                   None \<Rightarrow> Inr s
                 | Some v \<Rightarrow>
                     (let s = s\<lparr>b_result := v, b_reason := ''result''\<rparr> in
                      if m_stream a then Inr s else Inl (Inr (), s))))))"

definition command_message :: "command_args \<Rightarrow> pyval \<Rightarrow> builder_state \<Rightarrow> builder_next" where
  "command_message a data s =
     (let s = s\<lparr>b_messages := b_messages s @ [data]\<rparr> in
      case data of PDict d \<Rightarrow> command_answer a d s | _ \<Rightarrow> Inr s)"

definition collected_limit :: "command_args \<Rightarrow> int" where
  "collected_limit a = min (int max_ws_messages) (int_or (m_message_limit a) (int max_ws_messages))"

definition builder_step :: "addon_env \<Rightarrow> command_args \<Rightarrow> rat \<Rightarrow> builder_state \<Rightarrow> builder_next" where
  "builder_step env a deadline s =
     (let remaining = deadline - b_now s in
      if \<not> int (b_count s) < collected_limit a then Inl (Inr (), s)
      else if remaining \<le> 0 then Inl (Inr (), s)
      else
        (case receive env (b_socket s) (b_now s) (if m_stream a then remaining else min remaining 10) of
           (r, sk, now) \<Rightarrow>
             let s = s\<lparr>b_socket := sk, b_now := now\<rparr> in
             (case r of
                RecvTimeout \<Rightarrow> Inl (Inr (), s\<lparr>b_reason := ''silence''\<rparr>)
              | RecvFailed details \<Rightarrow> Inl (Inl (WsBroken details), s)
              | RecvMessage (WsText t) \<Rightarrow>
                  (case message_value env t of
                     Inl e \<Rightarrow> Inl (Inl (WsFault (Raised e)), s)
                   | Inr data \<Rightarrow> command_message a data s)
              | RecvMessage WsError \<Rightarrow> Inl (Inr (), s\<lparr>b_reason := ''error''\<rparr>)
              | RecvMessage WsBinary \<Rightarrow> Inr s
              | RecvMessage WsOther \<Rightarrow> Inr s
              | RecvMessage _ \<Rightarrow> Inl (Inr (), s\<lparr>b_reason := ''server_closed''\<rparr>))))"

definition command_payload :: "command_args \<Rightarrow> pyval" where
  "command_payload a =
     PDict [(''command'', PStr (m_command a)), (''message_id'', PStr message_id), (''args'', PDict (m_args a))]"

definition stop_payload :: pyval where
  "stop_payload =
     PDict [(''command'', PStr ''devices/stop_stream''), (''message_id'', PStr ''esp-mcp-stop''),
            (''args'', PDict [(''stream_id'', PStr message_id)])]"

definition builder_send :: "addon_env \<Rightarrow> pyval \<Rightarrow> builder_state \<Rightarrow> (ws_fault + unit) \<times> builder_state" where
  "builder_send env v s =
     (case json_text v of
        Inl e \<Rightarrow> (Inl (WsFault (Raised e)), s)
      | Inr t \<Rightarrow> (case send_str env t (b_socket s) of (r, sk) \<Rightarrow> (r, s\<lparr>b_socket := sk\<rparr>)))"

definition builder_loop :: "addon_env \<Rightarrow> command_args \<Rightarrow> builder_state \<Rightarrow> (ws_fault + unit) \<times> builder_state" where
  "builder_loop env a s =
     (case drive (builder_step env a (b_now s + of_int (m_timeout a))) s of
        None \<Rightarrow> (Inl (WsFault Diverged), s)
      | Some r \<Rightarrow> r)"

definition builder_finish :: "addon_env \<Rightarrow> command_args \<Rightarrow> builder_state \<Rightarrow> (ws_fault + unit) \<times> builder_state" where
  "builder_finish env a s =
     (let s = (if int (b_count s) \<ge> collected_limit a \<and> b_reason s \<notin> {''event_result'', ''result''}
               then s\<lparr>b_reason := ''message_limit''\<rparr> else s) in
      if m_stream a \<and> m_command a \<in> set stoppable_streams
      then sbind (builder_send env stop_payload) (\<lambda>_ s. (Inr (), s\<lparr>b_stopped := True\<rparr>)) s
      else (Inr (), s))"

definition builder_talk :: "addon_env \<Rightarrow> command_args \<Rightarrow> builder_state conversation" where
  "builder_talk env a sk now =
     (case sbind (builder_greeting env a) (\<lambda>_.
           sbind (builder_send env (command_payload a)) (\<lambda>_.
           sbind (builder_loop env a) (\<lambda>_.
             builder_finish env a))) (builder_start sk now) of
        (Inl e, s) \<Rightarrow> (Inl e, b_socket s, b_now s)
      | (Inr _, s) \<Rightarrow> (Inr s, b_socket s, b_now s))"

text \<open>What a command that went through returns; the tools read it by its fields.\<close>

record command_result =
  u_result :: pyval
  u_events :: "pyval list"
  u_terminal :: pyval
  u_closed_by :: string
  u_debug :: pyval \<comment> \<open>the entry \<open>_debug\<close>, or \<open>None\<close> when there is none\<close>

definition builder_debug :: "string \<Rightarrow> headers \<Rightarrow> builder_state \<Rightarrow> pyval" where
  "builder_debug url hs s =
     PDict [(''url'', PStr url), (''request_headers'', str_dict (debug_headers hs)),
       (''server_info'', b_server_info s), (''message_count'', PInt (int (length (b_messages s)))),
       (''command_message_count'', PInt (int (b_count s))), (''stop_stream_sent'', PBool (b_stopped s)),
       (''messages'', PList (b_messages s))]"

definition call_device_builder_ws_command ::
  "addon_env \<Rightarrow> addon \<Rightarrow> bool \<Rightarrow> command_args \<Rightarrow> addon_state \<Rightarrow> command_result tool \<times> addon_state" where
  "call_device_builder_ws_command env addon debug a =
     sbind (route_for_addon env addon ''ws'' None True) (\<lambda>(url, hs) st.
       case with_socket env url hs (builder_talk env a) st of
         (Inl WsTimedOut, st') \<Rightarrow>
           fail (''Timed out calling ESPHome Device Builder command '' @ repr_str (m_command a) @ ''.'')
             ''timeout'' [(''slug'', PStr (m_slug a))] st'
       | (Inl (WsBroken details), st') \<Rightarrow>
           fail (''Failed to connect to ESPHome Device Builder command '' @ repr_str (m_command a) @ ''.'')
             ''connection_failed'' [(''details'', PStr details), (''slug'', PStr (m_slug a))] st'
       | (Inl (WsFault e), st') \<Rightarrow> (Inl e, st')
       | (Inr s, st') \<Rightarrow>
           (Inr \<lparr>u_result = b_result s, u_events = b_events s, u_terminal = b_terminal s,
                 u_closed_by = b_reason s,
                 u_debug = (if debug then builder_debug url hs s else PNone)\<rparr>, st'))"

section \<open>What a command keeps to\<close>

text \<open>An event that answers the command.\<close>

definition own_event :: "pyval \<Rightarrow> bool" where
  "own_event e \<longleftrightarrow> pdict_get e ''message_id'' = Some (PStr message_id) \<and> pdict_get e ''event'' \<noteq> None"

definition builder_inv :: "command_args \<Rightarrow> string list \<Rightarrow> builder_state \<Rightarrow> bool" where
  "builder_inv a sent s \<longleftrightarrow>
     k_sent (b_socket s) = sent \<and> length (b_events s) \<le> b_count s \<and> int (b_count s) \<le> max 0 (collected_limit a)
     \<and> list_all own_event (b_events s) \<and> (b_terminal s = PNone \<or> b_terminal s \<in> set (b_events s))"

definition next_state :: "builder_next \<Rightarrow> builder_state" where
  "next_state n = (case n of Inl (_, s) \<Rightarrow> s | Inr s \<Rightarrow> s)"

lemma next_state_simps [simp]: "next_state (Inl (r, s)) = s" "next_state (Inr s) = s"
  by (simp_all add: next_state_def)

lemma command_answer_inv:
  assumes "builder_inv a sent s" "int (b_count s) < collected_limit a"
  shows "builder_inv a sent (next_state (command_answer a d s))"
proof (cases "map_of d ''message_id'' = Some (PStr message_id)")
  case True
  show ?thesis
  proof (cases "map_of d ''event''")
    case None
    with True assms show ?thesis
      by (auto simp: command_answer_def Let_def builder_inv_def split: option.splits)
  next
    case (Some ev)
    with True have "own_event (PDict d)" by (simp add: own_event_def)
    with Some True assms show ?thesis
      by (auto simp: command_answer_def Let_def builder_inv_def split: option.splits sum.splits bool.splits)
  qed
next
  case False
  with assms show ?thesis by (simp add: command_answer_def)
qed

lemma command_message_inv:
  assumes "builder_inv a sent s" "int (b_count s) < collected_limit a"
  shows "builder_inv a sent (next_state (command_message a data s))"
proof -
  have "builder_inv a sent (s\<lparr>b_messages := b_messages s @ [data]\<rparr>)"
    using assms(1) by (simp add: builder_inv_def)
  with assms(2) command_answer_inv [of a sent "s\<lparr>b_messages := b_messages s @ [data]\<rparr>"] show ?thesis
    by (auto simp: command_message_def Let_def split: pyval.splits)
qed

lemma receive_sent: "receive env sk now t = (r, sk', now') \<Longrightarrow> k_sent sk' = k_sent sk"
  by (auto simp: receive_def split: prod.splits)

lemma builder_step_inv:
  assumes "builder_inv a sent s"
  shows "builder_inv a sent (next_state (builder_step env a deadline s))"
proof -
  obtain r sk now where rc: "receive env (b_socket s) (b_now s)
      (if m_stream a then deadline - b_now s else min (deadline - b_now s) 10) = (r, sk, now)" by (metis prod_cases3)
  have s1: "builder_inv a sent (s\<lparr>b_socket := sk, b_now := now\<rparr>)"
    using assms receive_sent [OF rc] by (simp add: builder_inv_def)
  then have "builder_inv a sent (s\<lparr>b_socket := sk, b_now := now, b_reason := w\<rparr>)" for w
    by (simp add: builder_inv_def)
  with s1 assms rc command_message_inv [OF s1] show ?thesis
    by (auto simp: builder_step_def Let_def split: received.splits ws_message.splits sum.splits)
qed

lemma command_answer_now [simp]: "b_now (next_state (command_answer a d s)) = b_now s"
  by (auto simp: command_answer_def Let_def split: option.splits sum.splits bool.splits)

lemma command_message_now:
  assumes "command_message a data s = Inr s'"
  shows "b_now s' = b_now s"
proof -
  have "b_now (next_state (command_message a data s)) = b_now s"
    by (cases data) (simp_all add: command_message_def Let_def)
  with assms show ?thesis by simp
qed

lemma builder_step_progress:
  assumes "messages_take env d" "builder_step env a deadline s = Inr s'"
  shows "rounds_left d deadline (b_now s') < rounds_left d deadline (b_now s)"
proof -
  from assms(1) have d: "0 < d" by (simp add: messages_take_def)
  obtain r sk now where rc: "receive env (b_socket s) (b_now s)
      (if m_stream a then deadline - b_now s else min (deadline - b_now s) 10) = (r, sk, now)" by (metis prod_cases3)
  from assms(2) have before: "b_now s < deadline"
    by (auto simp: builder_step_def Let_def split: if_splits)
  have count: "int (b_count s) < collected_limit a"
    using assms(2) by (auto simp: builder_step_def Let_def split: if_splits)
  note step = assms(2) [unfolded builder_step_def Let_def]
  show ?thesis
  proof (cases r)
    case (RecvMessage m)
    have "b_now s' = now"
    proof (cases m)
      case (WsText t)
      with step rc RecvMessage count before show ?thesis
        by (cases "message_value env t") (auto dest!: command_message_now)
    qed (use step rc RecvMessage count before in auto)
    with receive_progress [OF assms(1)] rc RecvMessage before d show ?thesis by (auto intro: rounds_left_less)
  qed (use step rc count before in auto)
qed

text \<open>What is left to send once the answers are in.\<close>

definition stop_sent :: "command_args \<Rightarrow> string list" where
  "stop_sent a = (if m_stream a \<and> m_command a \<in> set stoppable_streams then [json_default stop_payload] else [])"

lemma builder_loop_inv:
  assumes "builder_loop env a s = (Inr (), s')" "builder_inv a sent s"
  shows "builder_inv a sent s'"
proof -
  from assms(1) have r: "drive (builder_step env a (b_now s + of_int (m_timeout a))) s = Some (Inr (), s')"
    by (auto simp: builder_loop_def split: option.splits)
  have "builder_inv a sent (snd (Inr () :: ws_fault + unit, s'))"
  proof (rule drive_invariant [OF r, of "builder_inv a sent"])
    show "builder_inv a sent s" by fact
    show "builder_inv a sent u'" if "builder_inv a sent u" "builder_step env a (b_now s + of_int (m_timeout a)) u = Inr u'" for u u'
      using builder_step_inv [OF that(1), of env "b_now s + of_int (m_timeout a)"] that(2) by simp
    show "builder_inv a sent (snd r)" if "builder_inv a sent u" "builder_step env a (b_now s + of_int (m_timeout a)) u = Inl r" for u r
      using builder_step_inv [OF that(1), of env "b_now s + of_int (m_timeout a)"] that(2) by (cases r) simp
  qed
  then show ?thesis by simp
qed

lemma builder_loop_returns:
  assumes "messages_take env d"
  shows "fst (builder_loop env a s) \<noteq> Inl (WsFault Diverged)"
proof -
  let ?step = "builder_step env a (b_now s + of_int (m_timeout a))"
  have "\<exists>r. drive ?step s = Some r"
    by (rule drive_terminates [where I = "\<lambda>_. True" and m = "\<lambda>u. rounds_left d (b_now s + of_int (m_timeout a)) (b_now u)"])
      (auto intro: builder_step_progress [OF assms])
  then obtain r where r: "drive ?step s = Some r" by blast
  have "fst r \<noteq> Inl (WsFault Diverged)"
  proof (rule drive_invariant [OF r, of "\<lambda>_. True"])
    fix u r
    assume "?step u = Inl r"
    then show "fst r \<noteq> Inl (WsFault Diverged)"
      by (auto simp: builder_step_def command_message_def command_answer_def command_error_def Let_def
          split: if_splits received.splits ws_message.splits sum.splits prod.splits pyval.splits option.splits bool.splits)
  qed simp_all
  with r show ?thesis by (simp add: builder_loop_def)
qed

lemma builder_send_inv:
  assumes "builder_send env v s = (Inr (), s')" "builder_inv a sent s"
  shows "builder_inv a (sent @ [json_default v]) s'"
  using assms by (auto simp: builder_send_def json_text_def send_str_def builder_inv_def split: if_splits option.splits)

lemma builder_greeting_inv:
  assumes "builder_greeting env a s = (r, s')" "builder_inv a sent s"
  shows "builder_inv a sent s'"
proof -
  obtain r1 sk now where rc: "receive env (b_socket s) (b_now s) (of_int (min (m_timeout a) 10)) = (r1, sk, now)"
    by (metis prod_cases3)
  have s1: "builder_inv a sent (s\<lparr>b_socket := sk, b_now := now\<rparr>)"
    using assms(2) receive_sent [OF rc] by (simp add: builder_inv_def)
  have g: "builder_inv a sent (snd (greeting_value data u))" if "builder_inv a sent u" for data u
    using that by (simp add: greeting_value_def Let_def builder_inv_def)
  show ?thesis
    using assms(1) rc s1 g [OF s1]
    by (auto simp: builder_greeting_def Let_def split: received.splits ws_message.splits sum.splits) (metis snd_conv)
qed

lemma builder_finish_inv:
  assumes "builder_finish env a s = (Inr (), s')" "builder_inv a sent s"
  shows "builder_inv a (sent @ stop_sent a) s'"
proof -
  define u where "u = (if int (b_count s) \<ge> collected_limit a \<and> b_reason s \<notin> {''event_result'', ''result''}
      then s\<lparr>b_reason := ''message_limit''\<rparr> else s)"
  have u: "builder_inv a sent u" using assms(2) by (simp add: u_def builder_inv_def)
  show ?thesis
  proof (cases "m_stream a \<and> m_command a \<in> set stoppable_streams")
    case True
    with assms(1) obtain v where v: "builder_send env stop_payload u = (Inr (), v)" "s' = v\<lparr>b_stopped := True\<rparr>"
      unfolding u_def [symmetric] builder_finish_def Let_def by (auto simp: sbind_def split: prod.splits sum.splits)
    with builder_send_inv [OF v(1) u] True show ?thesis by (simp add: builder_inv_def stop_sent_def)
  next
    case False
    with assms(1) have "s' = u" unfolding u_def [symmetric] builder_finish_def Let_def by auto
    moreover from False have "stop_sent a = []" by (auto simp: stop_sent_def)
    ultimately show ?thesis using u by simp
  qed
qed

lemma builder_talk_inv:
  assumes "builder_talk env a sk now = (Inr s, sk', now')" "k_sent sk = []"
  shows "builder_inv a (json_default (command_payload a) # stop_sent a) s" "sk' = b_socket s"
proof -
  from assms(1) obtain s1 s2 s3 where g: "builder_greeting env a (builder_start sk now) = (Inr (), s1)"
    and c: "builder_send env (command_payload a) s1 = (Inr (), s2)" and l: "builder_loop env a s2 = (Inr (), s3)"
    and f: "builder_finish env a s3 = (Inr (), s)" and sk: "sk' = b_socket s"
    by (auto simp: builder_talk_def sbind_def split: prod.splits sum.splits)
  have "builder_inv a [] (builder_start sk now)"
    using assms(2) by (simp add: builder_inv_def builder_start_def)
  from builder_finish_inv [OF f builder_loop_inv [OF l builder_send_inv [OF c builder_greeting_inv [OF g this]]]] sk
  show "builder_inv a (json_default (command_payload a) # stop_sent a) s" "sk' = b_socket s" by simp_all
qed

lemma builder_talk_returns:
  assumes "messages_take env d"
  shows "fst (builder_talk env a sk now) \<noteq> Inl (WsFault Diverged)"
proof -
  have g: "fst (builder_greeting env a s) \<noteq> Inl (WsFault Diverged)" for s
    by (auto simp: builder_greeting_def greeting_value_def early_def Let_def
        split: received.splits ws_message.splits sum.splits prod.splits)
  have t: "fst (builder_send env v s) \<noteq> Inl (WsFault Diverged)" for v s
    by (auto simp: builder_send_def send_str_def split: sum.splits option.splits prod.splits)
  have f: "fst (builder_finish env a s) \<noteq> Inl (WsFault Diverged)" for s
    using t [of stop_payload] by (auto simp: builder_finish_def Let_def sbind_def split: prod.splits sum.splits) (metis fst_conv)+
  have bind: "fst (sbind m h s) \<noteq> Inl (WsFault Diverged)"
    if "\<And>s. fst (m s) \<noteq> Inl (WsFault Diverged)" "\<And>x s. fst (h x s) \<noteq> Inl (WsFault Diverged)"
    for m :: "builder_state \<Rightarrow> (ws_fault + unit) \<times> builder_state" and h :: "unit \<Rightarrow> builder_state \<Rightarrow> (ws_fault + unit) \<times> builder_state" and s
    using that(1) [of s] that(2) by (auto simp: sbind_def split: prod.splits sum.splits)
  let ?all = "sbind (builder_greeting env a) (\<lambda>_. sbind (builder_send env (command_payload a)) (\<lambda>_.
      sbind (builder_loop env a) (\<lambda>_. builder_finish env a)))"
  have "fst (?all s) \<noteq> Inl (WsFault Diverged)" for s
    by (intro bind g t f builder_loop_returns [OF assms])
  from this [of "builder_start sk now"] show ?thesis by (auto simp: builder_talk_def split: prod.splits sum.splits)
qed

lemma device_builder_ws_settles:
  assumes "messages_take env d"
  shows "settles (call_device_builder_ws_command env addon debug a)"
proof -
  have w: "with_socket env url hs (builder_talk env a) st \<noteq> (Inl (WsFault Diverged), st')" for url hs st st'
    by (rule with_socket_returns) (rule builder_talk_returns [OF assms])
  show ?thesis
    unfolding call_device_builder_ws_command_def
    by (rule settles_sbind [OF route_settles], rule settlesI)
      (auto simp: fail_def w split: prod.splits sum.splits ws_fault.splits)
qed

lemma device_builder_ws_success:
  assumes "call_device_builder_ws_command env addon debug a st = (Inr r, st')"
  shows "(\<exists>sk. a_sockets st' = a_sockets st @ [sk] \<and> k_sent sk = json_default (command_payload a) # stop_sent a)
      \<and> list_all own_event (u_events r) \<and> length (u_events r) \<le> nat (collected_limit a)
      \<and> length (u_events r) \<le> max_ws_messages \<and> (u_terminal r = PNone \<or> u_terminal r \<in> set (u_events r))"
proof -
  from assms obtain url hs st1 s where route: "route_for_addon env addon ''ws'' None True st = (Inr (url, hs), st1)"
    and w: "with_socket env url hs (builder_talk env a) st1 = (Inr s, st')"
    and r: "u_events r = b_events s" "u_terminal r = b_terminal s"
    by (auto simp: call_device_builder_ws_command_def sbind_def fail_def split: prod.splits sum.splits ws_fault.splits)
  from w obtain sk now where talk: "builder_talk env a \<lparr>k_url = url, k_headers = hs, k_sent = [], k_reads = 0\<rparr> (a_clock st1)
      = (Inr s, sk, now)" and st': "a_sockets st' = a_sockets st1 @ [sk]"
    by (cases rule: with_socket_cases) auto
  have "a_sockets st1 = a_sockets st"
    using sockets.emitsD [OF route_for_addon_emits(3) route, of "\<lambda>_. False"] by (auto simp: list_all_iff)
  with builder_talk_inv [OF talk] r st'
  show ?thesis
    by (auto simp: builder_inv_def collected_limit_def)
qed

text \<open>C13: A Device Builder command comes back, provided every message takes some time to arrive. When
  it succeeds it has opened one socket and sent exactly the command, followed by the request to
  stop the stream when the command is a stream that has to be stopped; the events it returns all
  answer this command, there are at most as many as were asked for and at most a thousand, and
  a terminal event is one of them.\<close>

theorem device_builder_ws_spec:
  assumes "messages_take env d"
  shows "case call_device_builder_ws_command env addon debug a st of
      (Inl e, _) \<Rightarrow> e \<noteq> Diverged
    | (Inr r, st') \<Rightarrow> (\<exists>sk. a_sockets st' = a_sockets st @ [sk] \<and> k_sent sk = json_default (command_payload a) # stop_sent a)
      \<and> list_all own_event (u_events r) \<and> length (u_events r) \<le> nat (collected_limit a)
      \<and> length (u_events r) \<le> max_ws_messages \<and> (u_terminal r = PNone \<or> u_terminal r \<in> set (u_events r))"
  using settlesD [OF device_builder_ws_settles [OF assms], of addon debug a st]
    device_builder_ws_success [of env addon debug a st]
  by (auto split: prod.splits sum.splits)

section \<open>What a command sends on every path\<close>

definition command_sends :: "command_args \<Rightarrow> socket \<Rightarrow> bool" where
  "command_sends a sk \<longleftrightarrow>
     k_sent sk \<in> {[], [json_default (command_payload a)], json_default (command_payload a) # stop_sent a}"

lemma builder_step_sent [simp]: "k_sent (b_socket (next_state (builder_step env a deadline s))) = k_sent (b_socket s)"
proof -
  have ans: "b_socket (next_state (command_answer a d u)) = b_socket u" for d u
    by (auto simp: command_answer_def Let_def split: option.splits sum.splits bool.splits)
  have msg: "b_socket (next_state (command_message a data u)) = b_socket u" for data u
    by (cases data) (simp_all add: command_message_def Let_def ans)
  obtain r sk now where rc: "receive env (b_socket s) (b_now s)
      (if m_stream a then deadline - b_now s else min (deadline - b_now s) 10) = (r, sk, now)" by (metis prod_cases3)
  with receive_sent [OF rc] msg show ?thesis
    by (auto simp: builder_step_def Let_def split: received.splits ws_message.splits sum.splits)
qed

lemma builder_loop_sent: "k_sent (b_socket (snd (builder_loop env a s))) = k_sent (b_socket s)"
proof (cases "drive (builder_step env a (b_now s + of_int (m_timeout a))) s")
  case None
  then show ?thesis by (simp add: builder_loop_def)
next
  case (Some r)
  have "k_sent (b_socket (snd r)) = k_sent (b_socket s)"
  proof (rule drive_invariant [OF Some, of "\<lambda>u. k_sent (b_socket u) = k_sent (b_socket s)"])
    fix u u' assume "k_sent (b_socket u) = k_sent (b_socket s)" "builder_step env a (b_now s + of_int (m_timeout a)) u = Inr u'"
    then show "k_sent (b_socket u') = k_sent (b_socket s)"
      using builder_step_sent [of env a "b_now s + of_int (m_timeout a)" u] by simp
  next
    fix u r assume "k_sent (b_socket u) = k_sent (b_socket s)" "builder_step env a (b_now s + of_int (m_timeout a)) u = Inl r"
    then show "k_sent (b_socket (snd r)) = k_sent (b_socket s)"
      using builder_step_sent [of env a "b_now s + of_int (m_timeout a)" u] by (cases r) simp
  qed simp
  with Some show ?thesis by (simp add: builder_loop_def)
qed

lemma builder_send_sent:
  "builder_send env v s = (Inl e, s') \<Longrightarrow> k_sent (b_socket s') = k_sent (b_socket s)"
  "builder_send env v s = (Inr u, s') \<Longrightarrow> k_sent (b_socket s') = k_sent (b_socket s) @ [json_default v]"
  by (auto simp: builder_send_def json_text_def send_str_def split: if_splits option.splits)

lemma builder_greeting_sent: "builder_greeting env a s = (r, s') \<Longrightarrow> k_sent (b_socket s') = k_sent (b_socket s)"
proof -
  assume g: "builder_greeting env a s = (r, s')"
  obtain r1 sk now where rc: "receive env (b_socket s) (b_now s) (of_int (min (m_timeout a) 10)) = (r1, sk, now)"
    by (metis prod_cases3)
  have v: "b_socket u' = b_socket u" if "greeting_value data u = (r, u')" for data u u'
    using that by (auto simp: greeting_value_def Let_def split: if_splits)
  show ?thesis
    using g rc receive_sent [OF rc]
    by (auto simp: builder_greeting_def Let_def split: received.splits ws_message.splits sum.splits dest!: v)
qed

lemma builder_finish_sent:
  assumes "builder_finish env a s = (r, s')" "k_sent (b_socket s) = [json_default (command_payload a)]"
  shows "command_sends a (b_socket s')"
  using assms builder_send_sent [of env stop_payload]
  by (auto simp: builder_finish_def Let_def sbind_def command_sends_def stop_sent_def split: if_splits prod.splits sum.splits)

lemma builder_talk_sent:
  assumes "builder_talk env a sk now = (r, sk', now')" "k_sent sk = []"
  shows "command_sends a sk'"
proof -
  obtain r1 s1 where g: "builder_greeting env a (builder_start sk now) = (r1, s1)" by force
  have e1: "k_sent (b_socket s1) = []" using builder_greeting_sent [OF g] assms(2) by (simp add: builder_start_def)
  obtain r2 s2 where c: "builder_send env (command_payload a) s1 = (r2, s2)" by force
  obtain r3 s3 where l: "builder_loop env a s2 = (r3, s3)" by force
  obtain r4 s4 where f: "builder_finish env a s3 = (r4, s4)" by force
  show ?thesis
  proof (cases "(\<exists>e. r1 = Inl e) \<or> (\<exists>e. r2 = Inl e)")
    case True
    then show ?thesis
      using assms(1) g c e1 builder_send_sent(1) [of env "command_payload a" s1]
      by (auto simp: builder_talk_def sbind_def command_sends_def split: sum.splits)
  next
    case False
    then have r: "r1 = Inr ()" "r2 = Inr ()" by (cases r1; cases r2; simp)+
    with c e1 have "k_sent (b_socket s2) = [json_default (command_payload a)]" by (auto dest: builder_send_sent(2))
    then have e3: "k_sent (b_socket s3) = [json_default (command_payload a)]" using builder_loop_sent [of env a s2] l by simp
    show ?thesis
    proof (cases r3)
      case (Inl e)
      with assms(1) g c l r e3 show ?thesis by (simp add: builder_talk_def command_sends_def)
    next
      case (Inr u)
      with assms(1) g c l f r have "sk' = b_socket s4" by (cases r4) (simp_all add: builder_talk_def)
      with builder_finish_sent [OF f e3] show ?thesis by simp
    qed
  qed
qed

lemma device_builder_ws_emits [emits_rules]:
  "sup.emits (session_req env) (call_device_builder_ws_command env addon debug a)"
  "http.emits Q (call_device_builder_ws_command env addon debug a)"
  "sockets.emits (command_sends a) (call_device_builder_ws_command env addon debug a)"
proof -
  have quiet: "a_sup st' = a_sup st \<and> a_http st' = a_http st"
    if "with_socket env url hs (builder_talk env a) st = (r, st')" for url hs st r st'
    using that by (cases rule: with_socket_cases) auto
  have sent: "\<exists>xs. a_sockets st' = a_sockets st @ xs \<and> list_all (command_sends a) xs"
    if "with_socket env url hs (builder_talk env a) st = (r, st')" for url hs st r st'
    using that by (cases rule: with_socket_cases) (auto dest: builder_talk_sent)
  show "sup.emits (session_req env) (call_device_builder_ws_command env addon debug a)"
    unfolding call_device_builder_ws_command_def
    by (rule sup.emits_bind, rule route_for_addon_emits, rule sup.emits_quiet)
      (auto simp: fail_def dest: quiet split: prod.splits sum.splits ws_fault.splits)
  show "http.emits Q (call_device_builder_ws_command env addon debug a)"
    unfolding call_device_builder_ws_command_def
    by (rule http.emits_bind, rule route_for_addon_emits, rule http.emits_quiet)
      (auto simp: fail_def dest: quiet split: prod.splits sum.splits ws_fault.splits)
  show "sockets.emits (command_sends a) (call_device_builder_ws_command env addon debug a)"
    unfolding call_device_builder_ws_command_def
    by (rule sockets.emits_bind, rule route_for_addon_emits, rule sockets.emitsI)
      (auto simp: fail_def dest: sent split: prod.splits sum.splits ws_fault.splits)
qed

text \<open>A server that greets and then answers \<open>devices/list\<close>.\<close>

definition lab_builder :: addon_env where
  "lab_builder = lab_env\<lparr>a_receive := (\<lambda>sk now _. (RecvMessage (WsText
     (json_default (if k_reads sk = 0 then PDict [(''server_version'', PStr ''1'')]
      else PDict [(''message_id'', PStr message_id), (''result'', PDict [(''configured'', PList [])])]))), now + 1))\<rparr>"

definition lab_command :: command_args where
  "lab_command = \<lparr>m_slug = ''a0_esphome'', m_command = ''devices/list'', m_args = [], m_timeout = 30,
     m_stream = False, m_message_limit = None\<rparr>"

lemma lab_builder_take: "messages_take lab_builder 1"
  by (simp add: messages_take_def lab_builder_def)

lemma device_builder_ws_spec_witness:
  "(\<exists>r st' sk. call_device_builder_ws_command lab_builder lab_addon False lab_command lab_start = (Inr r, st')
        \<and> a_sockets st' = [sk] \<and> k_sent sk = [json_default (command_payload lab_command)])"
proof -
  let ?run = "call_device_builder_ws_command lab_builder lab_addon False lab_command lab_start"
  let ?route = "route_for_addon lab_builder lab_addon ''ws'' None True lab_start"
  let ?hello = "PDict [(''server_version'', PStr ''1'')]"
  let ?answer = "PDict [(''message_id'', PStr message_id), (''result'', PDict [(''configured'', PList [])])]"
  have "case fst ?route of Inr _ \<Rightarrow> True | Inl _ \<Rightarrow> False" by code_simp
  then obtain url hs st1 where route: "?route = (Inr (url, hs), st1)" by (cases ?route) (auto split: sum.splits)
  have vals: "message_value lab_builder (json_default ?hello) = Inr ?hello"
    "message_value lab_builder (json_default ?answer) = Inr ?answer" by code_simp+
  have ok: "plain_floats (command_payload lab_command)" by code_simp
  have rcv: "receive lab_builder sk now t = (RecvMessage (WsText (json_default
      (if k_reads sk = 0 then ?hello else ?answer))), sk\<lparr>k_reads := Suc (k_reads sk)\<rparr>, now + 1)" for sk now t
    by (simp add: receive_def lab_builder_def)
  have snd: "send_str lab_builder t sk = (Inr (), sk\<lparr>k_sent := k_sent sk @ [t]\<rparr>)" for t sk
    by (simp add: send_str_def lab_builder_def lab_env_def)
  have cmd: "m_timeout lab_command = 30" "m_stream lab_command = False" "collected_limit lab_command = 1000"
    by (simp_all add: lab_command_def collected_limit_def int_or_def max_ws_messages_def)
  have sent: "json_text (command_payload lab_command) = Inr (json_default (command_payload lab_command))"
    by (simp add: json_text_def ok)
  have "case fst (builder_talk lab_builder lab_command \<lparr>k_url = url, k_headers = hs, k_sent = [], k_reads = 0\<rparr> (a_clock st1)) of
      Inr _ \<Rightarrow> True | Inl _ \<Rightarrow> False"
    by (simp add: builder_talk_def sbind_def builder_greeting_def greeting_value_def builder_start_def rcv vals
        builder_send_def sent snd builder_loop_def drive.simps builder_step_def command_message_def
        command_answer_def builder_finish_def Let_def cmd)
  then obtain s sk now where "builder_talk lab_builder lab_command
      \<lparr>k_url = url, k_headers = hs, k_sent = [], k_reads = 0\<rparr> (a_clock st1) = (Inr s, sk, now)"
    by (cases "builder_talk lab_builder lab_command
      \<lparr>k_url = url, k_headers = hs, k_sent = [], k_reads = 0\<rparr> (a_clock st1)") (auto split: sum.splits)
  moreover have "a_connect lab_builder ks u = ConnOpen" for ks u by (simp add: lab_builder_def lab_env_def)
  ultimately have "case fst ?run of Inr _ \<Rightarrow> True | Inl _ \<Rightarrow> False"
    using route by (simp add: call_device_builder_ws_command_def with_socket_def)
  then obtain r st' where run: "?run = (Inr r, st')" by (cases ?run) (auto split: sum.splits)
  have "stop_sent lab_command = []" by (simp add: stop_sent_def cmd)
  with device_builder_ws_spec [OF lab_builder_take, where addon = lab_addon and debug = False and a = lab_command and st = lab_start] run show ?thesis by (fastforce simp: lab_start_def)
qed

end
