(* ===== verification/Native.thy ===== *)
theory Native
  imports Ingress
begin

text \<open>
  The native MCP client of \<open>addon_tools.py\<close>: one bounded JSON-RPC request, and the session that
  initialises, lists the tools page by page, and then calls at most one of them. The add-on's
  answers are the parameter \<open>a_server\<close>; running out of the overall time is an answer that times
  out, or a Supervisor call that is cancelled.
\<close>

section \<open>One request\<close>

definition max_native_response_size :: nat where "max_native_response_size = 2 * 1024 * 1024"

definition native_protocol_versions :: "string list" where
  "native_protocol_versions = [''2025-06-18'', ''2025-11-25'']"

definition native_timeout :: pyval where
  "native_timeout = tool_error (''Native MCP timed out. A submitted write may have completed; read back ''
     @ ''its state before retrying.'') ''timeout'' []"

definition native_connection_failed :: pyval where
  "native_connection_failed = tool_error
     ''Native MCP connection failed. Read back any submitted write before retrying.'' ''connection_failed'' []"

definition protocol_error :: "string \<Rightarrow> pyval" where
  "protocol_error message = tool_error message ''native_protocol_error'' []"

definition is_notification :: "string \<Rightarrow> bool" where
  "is_notification meth \<longleftrightarrow> meth = ''notifications/initialized''"

definition rpc_body :: "string \<Rightarrow> pydict \<Rightarrow> pydict" where
  "rpc_body meth params =
     [(''jsonrpc'', PStr ''2.0''), (''method'', PStr meth), (''params'', PDict params)]
     @ (if is_notification meth then [] else [(''id'', PStr meth)])"

definition rpc_request :: "string \<Rightarrow> headers \<Rightarrow> string \<Rightarrow> pydict \<Rightarrow> http_request" where
  "rpc_request url hs meth params =
     \<lparr>h_method = ''POST'', h_url = url, h_headers = hs, h_json = Some (PDict (rpc_body meth params)), h_data = None\<rparr>"

definition native_answer :: "nat \<Rightarrow> string \<Rightarrow> nat \<Rightarrow> multidict \<Rightarrow> bytes \<Rightarrow> pydict tool" where
  "native_answer nest meth status response_headers raw =
     (if status \<in> {404, 405} \<and> meth = ''initialize''
      then Inl (Payload (tool_error (''This Device Builder has no native /api/mcp endpoint. Update the add-on ''
             @ ''or use the existing ESPHome tools.'') ''native_mcp_unavailable'' []))
      else if is_notification meth \<and> status = 202 then Inr []
      else if status \<noteq> 200
      then Inl (Payload (tool_error (''Native MCP returned HTTP '' @ show_nat status @ ''.'') ''native_http_error''
             [(''status_code'', PInt (int status))]))
      else if \<not> str_in ''application/json''
             (str_lower (case header_get response_headers ''Content-Type'' of Some c \<Rightarrow> c | None \<Rightarrow> []))
      then Inl (Payload (protocol_error ''Native MCP did not return JSON.''))
      else if length raw > max_native_response_size
      then Inl (Payload (tool_error ''Native MCP response exceeded 2 MiB; use narrower tool arguments.''
             ''native_response_too_large'' []))
      else
        (case json_loads_bytes nest raw of
           Inl ValueError \<Rightarrow> Inl (Payload (protocol_error ''Native MCP returned malformed JSON.''))
         | Inl e \<Rightarrow> Inl (Raised e)
         | Inr (PDict payload) \<Rightarrow>
             if map_of payload ''jsonrpc'' \<noteq> Some (PStr ''2.0'')
               \<or> get_or_none payload ''id'' \<noteq> get_or_none (rpc_body meth []) ''id''
               \<or> (map_of payload ''result'' \<noteq> None) = (map_of payload ''error'' \<noteq> None)
             then Inl (Payload (protocol_error ''Native MCP returned an invalid JSON-RPC envelope.''))
             else
               (case map_of payload ''error'' of
                  Some e \<Rightarrow> Inl (Payload (tool_error ''Native MCP rejected the request.'' ''native_rpc_error''
                              [(''native_error'', e)]))
                | None \<Rightarrow>
                    (case map_of payload ''result'' of
                       Some (PDict r) \<Rightarrow> Inr r
                     | _ \<Rightarrow> Inl (Payload (protocol_error ''Native MCP returned an invalid result.''))))
         | Inr _ \<Rightarrow> Inl (Payload (protocol_error ''Native MCP returned an invalid JSON-RPC envelope.''))))"

definition native_mcp_request ::
  "addon_env \<Rightarrow> string \<Rightarrow> headers \<Rightarrow> string \<Rightarrow> pydict \<Rightarrow> addon_state \<Rightarrow> pydict tool \<times> addon_state" where
  "native_mcp_request env url hs meth params st =
     (case send_http env (rpc_request url hs meth params) st of
        (HttpTimeout, st') \<Rightarrow> (Inl (Payload native_timeout), st')
      | (HttpClientError _, st') \<Rightarrow> (Inl (Payload native_connection_failed), st')
      | (HttpAnswer status rh raw, st') \<Rightarrow> (native_answer (a_nest env) meth status rh raw, st'))"

section \<open>The session\<close>

definition str_field :: "pyval \<Rightarrow> string \<Rightarrow> string option" where
  "str_field v k = (case pdict_get v k of Some (PStr s) \<Rightarrow> Some s | _ \<Rightarrow> None)"

definition dict_field :: "pydict \<Rightarrow> string \<Rightarrow> pydict option" where
  "dict_field d k = (case map_of d k of Some (PDict e) \<Rightarrow> Some e | _ \<Rightarrow> None)"

definition initialize_params :: pydict where
  "initialize_params =
     [(''protocolVersion'', PStr ''2025-11-25''), (''capabilities'', PDict []),
      (''clientInfo'', PDict [(''name'', PStr ''esphome-mcp''), (''version'', PStr ''1'')])]"

text \<open>The protocol version and the server information of an initialisation that is supported.\<close>

definition initialized_session :: "pydict \<Rightarrow> (string \<times> pydict) option" where
  "initialized_session d =
     (case (map_of d ''protocolVersion'', dict_field d ''capabilities'', dict_field d ''serverInfo'') of
        (Some (PStr protocol), Some capabilities, Some info) \<Rightarrow>
          if protocol \<in> set native_protocol_versions \<and> dict_field capabilities ''tools'' \<noteq> None
          then Some (protocol, info) else None
      | _ \<Rightarrow> None)"

definition entry_ok :: "pyval \<Rightarrow> bool" where
  "entry_ok v \<longleftrightarrow> str_field v ''name'' \<noteq> None
     \<and> (case pdict_get v ''inputSchema'' of Some (PDict _) \<Rightarrow> True | _ \<Rightarrow> False)"

text \<open>One page of the catalog: its entries, the size so far, and the cursor of the next page.\<close>

definition catalog_page :: "string list \<Rightarrow> nat \<Rightarrow> pydict \<Rightarrow> (pyval list \<times> nat \<times> string option) tool" where
  "catalog_page cursors spent page =
     (case map_of page ''tools'' of
        Some (PList entries) \<Rightarrow>
          if \<not> list_all entry_ok entries then Inl (Payload (protocol_error ''Invalid native tool catalog.''))
          else
            (case json_text (PList entries) of
               Inl e \<Rightarrow> Inl (Raised e)
             | Inr t \<Rightarrow>
                 if spent + length t > max_native_response_size
                 then Inl (Payload (tool_error ''Native tool catalog exceeded 2 MiB.'' ''native_response_too_large'' []))
                 else
                   (case get_or_none page ''nextCursor'' of
                      PNone \<Rightarrow> Inr (entries, spent + length t, None)
                    | PStr cursor \<Rightarrow>
                        if cursor = [] \<or> cursor \<in> set cursors
                        then Inl (Payload (protocol_error ''Invalid native catalog cursor.''))
                        else Inr (entries, spent + length t, Some cursor)
                    | _ \<Rightarrow> Inl (Payload (protocol_error ''Invalid native catalog cursor.''))))
      | _ \<Rightarrow> Inl (Payload (protocol_error ''Invalid native tool catalog.'')))"

text \<open>The first argument is the number of pages that may still be asked for.\<close>

fun native_catalog ::
  "nat \<Rightarrow> addon_env \<Rightarrow> string \<Rightarrow> headers \<Rightarrow> pydict \<Rightarrow> string list \<Rightarrow> nat \<Rightarrow> pyval list
    \<Rightarrow> addon_state \<Rightarrow> pyval list tool \<times> addon_state" where
  "native_catalog 0 env url hs params cursors spent tools =
     slift (Inl (Payload (protocol_error ''Native catalog exceeded 20 pages.'')))"
| "native_catalog (Suc n) env url hs params cursors spent tools =
     sbind (native_mcp_request env url hs ''tools/list'' params) (\<lambda>page.
     sbind (slift (catalog_page cursors spent page)) (\<lambda>(entries, spent, cursor).
       case cursor of
         None \<Rightarrow> sreturn (tools @ entries)
       | Some c \<Rightarrow> native_catalog n env url hs [(''cursor'', PStr c)] (c # cursors) spent (tools @ entries)))"

definition item_ok :: "pyval \<Rightarrow> bool" where
  "item_ok v \<longleftrightarrow> str_field v ''type'' \<noteq> None
     \<and> (str_field v ''type'' = Some ''text'' \<longrightarrow> str_field v ''text'' \<noteq> None)"

definition native_result :: "pydict \<Rightarrow> string \<Rightarrow> pydict \<Rightarrow> pyval tool" where
  "native_result metadata tool result =
     (case (map_of result ''content'', dict_get ''isError'' (PBool False) result) of
        (Some (PList content), PBool failed) \<Rightarrow>
          if \<not> list_all item_ok content then Inl (Payload (protocol_error ''Invalid native tool result.''))
          else Inr (PDict ([(''success'', PBool (\<not> failed))] @ metadata
                 @ [(''tool'', PStr tool), (''result'', PDict result)]
                 @ (if failed
                    then [(''error_code'', PStr ''native_tool_error''),
                          (''error'', PStr ''Native tool failed; see result.content for details.'')]
                    else [])))
      | _ \<Rightarrow> Inl (Payload (protocol_error ''Invalid native tool result.'')))"

record native_args =
  z_slug :: "string option"
  z_tool :: "string option"
  z_arguments :: pyval
  z_call :: bool
  z_timeout :: int

definition native_metadata :: "addon \<Rightarrow> string option \<Rightarrow> string \<Rightarrow> pydict \<Rightarrow> pydict" where
  "native_metadata addon slug protocol info =
     [(''source'', PStr ''native_mcp''),
      (''slug'', if truthy (get_or_none addon ''slug'') then get_or_none addon ''slug''
                 else (case slug of Some s \<Rightarrow> PStr s | None \<Rightarrow> PNone)),
      (''server_info'', PDict info), (''protocol_version'', PStr protocol)]"

definition call_arguments :: "pyval \<Rightarrow> pyval" where
  "call_arguments v = (if truthy v then v else PDict [])"

definition selected_tools :: "string option \<Rightarrow> pyval list \<Rightarrow> pyval list" where
  "selected_tools tool tools = filter (\<lambda>v. tool = None \<or> str_field v ''name'' = tool) tools"

definition max_catalog_pages :: nat where "max_catalog_pages = 20"

text \<open>What is done with the catalog: list the tools that were asked for, or call the one.\<close>

definition native_select ::
  "addon_env \<Rightarrow> native_args \<Rightarrow> string \<Rightarrow> headers \<Rightarrow> pydict \<Rightarrow> pyval list \<Rightarrow> addon_state \<Rightarrow> pyval tool \<times> addon_state" where
  "native_select env a url hs metadata tools =
     (let selected = selected_tools (z_tool a) tools;
          listing = PDict ([(''success'', PBool True)] @ metadata
            @ [(''tools'', PList selected), (''count'', PInt (int (length selected)))]) in
      case z_tool a of
        None \<Rightarrow> sreturn listing
      | Some tool \<Rightarrow>
          if selected = []
          then fail (''Native tool '' @ repr_str tool @ '' is not available on this Device Builder.'')
                 ''native_tool_unavailable'' []
          else if \<not> z_call a then sreturn listing
          else sbind (native_mcp_request env url hs ''tools/call''
                 [(''name'', PStr tool), (''arguments'', call_arguments (z_arguments a))]) (\<lambda>result.
               slift (native_result metadata tool result)))"

definition native_session ::
  "addon_env \<Rightarrow> native_args \<Rightarrow> addon \<Rightarrow> string \<Rightarrow> headers \<Rightarrow> addon_state \<Rightarrow> pyval tool \<times> addon_state" where
  "native_session env a addon url hs0 =
     (let hs = hs0 @ [(''Accept'', ''application/json, text/event-stream'')] in
      sbind (native_mcp_request env url hs ''initialize'' initialize_params) (\<lambda>initialized.
        case initialized_session initialized of
          None \<Rightarrow> slift (Inl (Payload (protocol_error ''Unsupported native MCP initialization.'')))
        | Some (protocol, info) \<Rightarrow>
            (let hs = hs @ [(''MCP-Protocol-Version'', protocol)] in
             sbind (native_mcp_request env url hs ''notifications/initialized'' []) (\<lambda>_.
             sbind (native_catalog max_catalog_pages env url hs [] [] 0 []) (\<lambda>tools.
               native_select env a url hs (native_metadata addon (z_slug a) protocol info) tools)))))"

definition native_run :: "addon_env \<Rightarrow> native_args \<Rightarrow> addon_state \<Rightarrow> pyval tool \<times> addon_state" where
  "native_run env a =
     sbind (resolve_esphome_addon env (z_slug a)) (\<lambda>addon.
       if map_of addon ''state'' \<noteq> Some (PStr ''started'')
       then fail ''ESPHome add-on is not running.'' ''addon_not_running'' []
       else sbind (route_for_addon env addon ''api/mcp'' None False) (\<lambda>(url, hs).
         native_session env a addon url hs))"

definition native_device_builder :: "addon_env \<Rightarrow> native_args \<Rightarrow> addon_state \<Rightarrow> pyval tool \<times> addon_state" where
  "native_device_builder env a st =
     (if \<not> (1 \<le> z_timeout a \<and> z_timeout a \<le> 1800)
      then fail ''timeout must be between 1 and 1800 seconds.'' ''invalid_args'' [] st
      else if z_call a \<and> (case z_tool a of None \<Rightarrow> True | Some t \<Rightarrow> str_strip t = [])
      then fail ''A native tool name is required.'' ''invalid_args'' [] st
      else if z_arguments a \<noteq> PNone \<and> \<not> is_PDict (z_arguments a)
      then fail ''arguments must be an object.'' ''invalid_args'' [] st
      else
        (case native_run env a st of
           (Inl Cancelled, st') \<Rightarrow> (Inl (Payload native_timeout), st')
         | r \<Rightarrow> r))"

definition native_device_builder_tools ::
  "addon_env \<Rightarrow> string option \<Rightarrow> string option \<Rightarrow> int \<Rightarrow> addon_state \<Rightarrow> pyval tool \<times> addon_state" where
  "native_device_builder_tools env slug tool timeout =
     native_device_builder env
       \<lparr>z_slug = slug, z_tool = tool, z_arguments = PNone, z_call = False, z_timeout = timeout\<rparr>"

definition call_native_device_builder_tool ::
  "addon_env \<Rightarrow> string \<Rightarrow> pyval \<Rightarrow> string option \<Rightarrow> int \<Rightarrow> addon_state \<Rightarrow> pyval tool \<times> addon_state" where
  "call_native_device_builder_tool env name arguments slug timeout =
     native_device_builder env
       \<lparr>z_slug = slug, z_tool = Some name, z_arguments = arguments, z_call = True, z_timeout = timeout\<rparr>"

section \<open>The protocol\<close>

text \<open>
  What the client may say to a server, as an automaton over its calls and the names that the answer
  to each lists: it initialises, announces that it has, asks for the pages of the catalog, each by
  a cursor not used before and twenty at most, and then calls one tool that a page has listed,
  after which it says nothing more. The state of a listing has the cursors used and the names seen.
\<close>

datatype phase = Idle | Initialized | Ready | Listing "string list" "string list" | Called string pyval

type_synonym exchange = "(string \<times> pydict) \<times> string list"

inductive mcp_step :: "phase \<Rightarrow> exchange \<Rightarrow> phase \<Rightarrow> bool" where
  initialize: "mcp_step Idle ((''initialize'', initialize_params), names) Initialized"
| announce: "mcp_step Initialized ((''notifications/initialized'', []), names) Ready"
| first_page: "mcp_step Ready ((''tools/list'', []), names) (Listing [] names)"
| next_page: "c \<noteq> [] \<Longrightarrow> c \<notin> set cs \<Longrightarrow> Suc (length cs) < max_catalog_pages \<Longrightarrow>
    mcp_step (Listing cs known) ((''tools/list'', [(''cursor'', PStr c)]), names) (Listing (c # cs) (known @ names))"
| invoke: "t \<in> set known \<Longrightarrow>
    mcp_step (Listing cs known) ((''tools/call'', [(''name'', PStr t), (''arguments'', v)]), names) (Called t v)"

inductive mcp_run :: "phase \<Rightarrow> exchange list \<Rightarrow> phase \<Rightarrow> bool" where
  stop: "mcp_run p [] p"
| go: "mcp_step p c q \<Longrightarrow> mcp_run q cs r \<Longrightarrow> mcp_run p (c # cs) r"

inductive_cases step_CalledE: "mcp_step (Called t v) c q"
inductive_cases run_ConsE: "mcp_run p (c # cs) q"
inductive_cases run_NilE: "mcp_run p [] q"

lemma mcp_run_append: "mcp_run p cs q \<Longrightarrow> mcp_run q ds r \<Longrightarrow> mcp_run p (cs @ ds) r"
  by (induction rule: mcp_run.induct) (auto intro: mcp_run.intros)

lemma mcp_run_one: "mcp_step p c q \<Longrightarrow> mcp_run p [c] q"
  by (rule mcp_run.go [OF _ mcp_run.stop])

text \<open>How many calls a phase leaves, and that a tool call is the last one.\<close>

fun calls_left :: "phase \<Rightarrow> nat" where
  "calls_left Idle = 23"
| "calls_left Initialized = 22"
| "calls_left Ready = 21"
| "calls_left (Listing cs known) = Suc (19 - length cs)"
| "calls_left (Called t v) = 0"

fun has_called :: "phase \<Rightarrow> bool" where
  "has_called (Called t v) = True"
| "has_called p = False"

lemma has_called_iff: "has_called p \<longleftrightarrow> (\<exists>t v. p = Called t v)"
  by (cases p) simp_all

lemma step_calls_left: "mcp_step p c q \<Longrightarrow> Suc (calls_left q) \<le> calls_left p"
  by (cases rule: mcp_step.cases) (auto simp: max_catalog_pages_def)

lemma run_calls_left: "mcp_run p cs q \<Longrightarrow> length cs + calls_left q \<le> calls_left p"
  by (induction rule: mcp_run.induct) (auto dest: step_calls_left)

lemma call_enters_Called: "mcp_step p c q \<Longrightarrow> fst (fst c) = ''tools/call'' \<longleftrightarrow> has_called q"
  by (cases rule: mcp_step.cases) auto

lemma run_from_Called: "mcp_run p cs q \<Longrightarrow> has_called p \<Longrightarrow> cs = [] \<and> q = p"
  by (erule mcp_run.cases) (auto simp: has_called_iff elim: step_CalledE)

lemma run_calls_once:
  "mcp_run p cs q \<Longrightarrow> \<not> has_called p \<Longrightarrow>
     length (filter (\<lambda>c. fst (fst c) = ''tools/call'') cs) = (if has_called q then 1 else 0)"
proof (induction rule: mcp_run.induct)
  case (go p c q cs r)
  show ?case
  proof (cases "has_called q")
    case True
    with go.hyps have "cs = []" "r = q" using run_from_Called by auto
    with True call_enters_Called [OF go.hyps(1)] show ?thesis by simp
  next
    case False
    with go call_enters_Called [OF go.hyps(1)] show ?thesis by simp
  qed
qed simp

section \<open>A session follows the protocol\<close>

text \<open>
  The names that the answer to a request lists, when it is read as a page of the catalog, and how
  a list of requests, sent after \<open>earlier\<close> ones to one URL, is a list of exchanges.
\<close>

definition entry_names :: "pyval list \<Rightarrow> string list" where
  "entry_names entries = List.map_filter (\<lambda>v. str_field v ''name'') entries"

definition names_listed :: "addon_env \<Rightarrow> http_request list \<Rightarrow> http_request \<Rightarrow> string list" where
  "names_listed env earlier q =
     (case a_server env earlier q of
        HttpAnswer status rh raw \<Rightarrow>
          (case native_answer (a_nest env) ''tools/list'' status rh raw of
             Inr page \<Rightarrow> (case map_of page ''tools'' of Some (PList entries) \<Rightarrow> entry_names entries | _ \<Rightarrow> [])
           | Inl _ \<Rightarrow> [])
      | _ \<Rightarrow> [])"

fun exchanges :: "addon_env \<Rightarrow> string \<Rightarrow> http_request list \<Rightarrow> http_request list \<Rightarrow> exchange list \<Rightarrow> bool" where
  "exchanges env url earlier [] [] = True"
| "exchanges env url earlier (q # qs) ((c, names) # cs) \<longleftrightarrow>
     (\<exists>hs. q = rpc_request url hs (fst c) (snd c)) \<and> names = names_listed env earlier q
     \<and> exchanges env url (earlier @ [q]) qs cs"
| "exchanges env url earlier qs cs = False"

lemma exchanges_append:
  "exchanges env url earlier qs cs \<Longrightarrow> exchanges env url (earlier @ qs) qs2 cs2 \<Longrightarrow>
     exchanges env url earlier (qs @ qs2) (cs @ cs2)"
  by (induction env url earlier qs cs rule: exchanges.induct) auto

lemma exchanges_length: "exchanges env url earlier qs cs \<Longrightarrow> length qs = length cs"
  by (induction env url earlier qs cs rule: exchanges.induct) auto

lemma entry_names_append: "entry_names (xs @ ys) = entry_names xs @ entry_names ys"
  by (simp add: entry_names_def List.map_filter_def)

lemma entry_names_member: "v \<in> set entries \<Longrightarrow> str_field v ''name'' = Some t \<Longrightarrow> t \<in> set (entry_names entries)"
  by (force simp: entry_names_def List.map_filter_def)

text \<open>From a phase, a step says what the protocol allows and ends with \<open>Q\<close>.\<close>

definition follows ::
  "addon_env \<Rightarrow> string \<Rightarrow> phase \<Rightarrow> (addon_state \<Rightarrow> 'a tool \<times> addon_state) \<Rightarrow> ('a tool \<Rightarrow> phase \<Rightarrow> bool) \<Rightarrow> addon_state \<Rightarrow> bool" where
  "follows env url p m Q st \<longleftrightarrow>
     (case m st of (r, st') \<Rightarrow> \<exists>reqs cs q. a_http st' = a_http st @ reqs \<and> exchanges env url (a_http st) reqs cs
        \<and> mcp_run p cs q \<and> Q r q)"

lemma follows_none: "m st = (r, st') \<Longrightarrow> a_http st' = a_http st \<Longrightarrow> Q r p \<Longrightarrow> follows env url p m Q st"
  by (auto simp: follows_def intro!: exI [of _ "[]"] exI [of _ p] mcp_run.stop)

lemma follows_lift: "Q y p \<Longrightarrow> follows env url p (slift y) Q st"
  by (rule follows_none) simp_all

lemma follows_return: "Q (Inr x) p \<Longrightarrow> follows env url p (sreturn x) Q st"
  by (rule follows_none) simp_all

lemma follows_fail: "Q (Inl (Payload (tool_error m c e))) p \<Longrightarrow> follows env url p (fail m c e) Q st"
  by (rule follows_none) (simp_all add: fail_def)

text \<open>What is shown of the first step may speak of the state it ends in.\<close>

lemma follows_bind_state:
  assumes "m st = (r, st1)" "a_http st1 = a_http st @ reqs" "exchanges env url (a_http st) reqs cs" "mcp_run p cs q"
    and "\<And>e. r = Inl e \<Longrightarrow> R (Inl e) q" "\<And>x. r = Inr x \<Longrightarrow> follows env url q (f x) R st1"
  shows "follows env url p (sbind m f) R st"
proof (cases r)
  case (Inl e)
  with assms show ?thesis by (auto simp: follows_def)
next
  case (Inr x)
  obtain r2 st2 where f: "f x st1 = (r2, st2)" by force
  with assms(6) [OF Inr] obtain reqs2 cs2 q2 where "a_http st2 = a_http st1 @ reqs2"
    "exchanges env url (a_http st1) reqs2 cs2" "mcp_run q cs2 q2" "R r2 q2" by (auto simp: follows_def)
  with assms(1-4) Inr f show ?thesis
    by (auto simp: follows_def intro!: exI [of _ "reqs @ reqs2"] exI [of _ "cs @ cs2"] exchanges_append mcp_run_append)
qed

lemma follows_bind:
  assumes "follows env url p m Q st" "\<And>e q. Q (Inl e) q \<Longrightarrow> R (Inl e) q"
    and "\<And>x q st1. Q (Inr x) q \<Longrightarrow> follows env url q (f x) R st1"
  shows "follows env url p (sbind m f) R st"
proof -
  obtain r st1 where m: "m st = (r, st1)" by force
  with assms(1) obtain reqs cs q where run: "a_http st1 = a_http st @ reqs" "exchanges env url (a_http st) reqs cs"
    "mcp_run p cs q" "Q r q" by (auto simp: follows_def)
  show ?thesis using run(4) assms(2,3) by (auto intro: follows_bind_state [where m = m and st = st, OF m run(1-3)])
qed

lemma native_mcp_request_post:
  assumes "native_mcp_request env url hs meth params st = (r, st')"
  shows "st' = st\<lparr>a_http := a_http st @ [rpc_request url hs meth params]\<rparr>"
    and "r = Inr d \<Longrightarrow> \<exists>status rh raw. a_server env (a_http st) (rpc_request url hs meth params) = HttpAnswer status rh raw
           \<and> native_answer (a_nest env) meth status rh raw = Inr d"
  using assms by (auto simp: native_mcp_request_def send_http_def split: http_answer.splits)

text \<open>A request and what comes after it; \<open>names\<close> are those its answer lists.\<close>

lemma follows_request:
  assumes "\<And>names. mcp_step p ((meth, params), names) (q names)"
    and "\<And>names e. R (Inl e) (q names)"
    and "\<And>names d st1. (\<And>entries. meth = ''tools/list'' \<Longrightarrow> map_of d ''tools'' = Some (PList entries) \<Longrightarrow>
            names = entry_names entries) \<Longrightarrow> follows env url (q names) (f d) R st1"
  shows "follows env url p (sbind (native_mcp_request env url hs meth params) f) R st"
proof -
  obtain r st1 where m: "native_mcp_request env url hs meth params st = (r, st1)" by force
  define req where "req = rpc_request url hs meth params"
  define names where "names = names_listed env (a_http st) req"
  have one: "exchanges env url (a_http st) [req] [((meth, params), names)]"
    by (auto simp: names_def req_def)
  have sent: "a_http st1 = a_http st @ [req]" using native_mcp_request_post(1) [OF m] by (simp add: req_def)
  have page: "names = entry_names entries"
    if "r = Inr d" "meth = ''tools/list''" "map_of d ''tools'' = Some (PList entries)" for d entries
    using native_mcp_request_post(2) [OF m that(1)] that(2,3) by (auto simp: names_def names_listed_def req_def)
  show ?thesis
    by (rule follows_bind_state [where m = "native_mcp_request env url hs meth params" and st = st,
          OF m sent one mcp_run_one [OF assms(1)]]) (auto intro: assms(2) assms(3) page)
qed

lemma catalog_page_ok:
  assumes "catalog_page cursors spent page = Inr (entries, spent', cursor)"
  shows "map_of page ''tools'' = Some (PList entries)" "list_all entry_ok entries"
    "cursor = Some c \<Longrightarrow> c \<noteq> [] \<and> c \<notin> set cursors" "spent' \<le> max_native_response_size"
  using assms by (auto simp: catalog_page_def split: option.splits pyval.splits if_splits sum.splits)

text \<open>Where the catalog may end: no tool was called, and the names seen are those of what it returns.\<close>

definition cataloged :: "pyval list tool \<Rightarrow> phase \<Rightarrow> bool" where
  "cataloged r q \<longleftrightarrow> \<not> has_called q \<and> (\<forall>tools. r = Inr tools \<longrightarrow> (\<exists>cs. q = Listing cs (entry_names tools)))"

lemma follows_next_page:
  assumes "\<And>c. cursor = Some c \<Longrightarrow> n \<noteq> 0 \<Longrightarrow> follows env url (Listing cursors (entry_names tools))
        (native_catalog n env url hs [(''cursor'', PStr c)] (c # cursors) spent tools) cataloged st"
  shows "follows env url (Listing cursors (entry_names tools)) (case cursor of None \<Rightarrow> sreturn tools
      | Some c \<Rightarrow> native_catalog n env url hs [(''cursor'', PStr c)] (c # cursors) spent tools) cataloged st"
proof (cases cursor)
  case None
  then show ?thesis by (simp only: option.case) (intro follows_return, simp add: cataloged_def)
next
  case (Some c)
  show ?thesis
  proof (cases "n = 0")
    case True
    with Some show ?thesis
      by (simp only: option.case native_catalog.simps) (intro follows_lift, simp add: cataloged_def)
  qed (use Some assms in simp)
qed

lemma follows_catalog:
  assumes "\<And>names. mcp_step p ((''tools/list'', params), names) (Listing cursors (entry_names tools @ names))"
    and "n + length cursors = max_catalog_pages" "\<not> has_called p"
  shows "follows env url p (native_catalog n env url hs params cursors spent tools) cataloged st"
  using assms
proof (induction n arbitrary: p params cursors spent tools st)
  case 0
  then show ?case unfolding native_catalog.simps by (intro follows_lift) (simp add: cataloged_def)
next
  case (Suc n)
  show ?case
    unfolding native_catalog.simps
  proof (rule follows_request [OF Suc.prems(1)])
    show "cataloged (Inl e) (Listing cursors (entry_names tools @ names))" for names e by (simp add: cataloged_def)
  next
    fix names d st1
    assume names: "\<And>entries. ''tools/list'' = ''tools/list'' \<Longrightarrow> map_of d ''tools'' = Some (PList entries) \<Longrightarrow>
        names = entry_names entries"
    have "follows env url (Listing cursors (entry_names tools @ names))
        (case x of (entries, spent, cursor) \<Rightarrow> case cursor of None \<Rightarrow> sreturn (tools @ entries)
          | Some c \<Rightarrow> native_catalog n env url hs [(''cursor'', PStr c)] (c # cursors) spent (tools @ entries)) cataloged st2"
      if x': "catalog_page cursors spent d = Inr x" for x st2
    proof -
      obtain entries spent' cursor where x: "x = (entries, spent', cursor)" by (metis prod_cases3)
      note page = catalog_page_ok [OF x' [unfolded x]]
      have known: "entry_names tools @ names = entry_names (tools @ entries)"
        using names [OF refl page(1)] by (simp add: entry_names_append)
      have "mcp_step (Listing cursors known) ((''tools/list'', [(''cursor'', PStr c)]), ns) (Listing (c # cursors) (known @ ns))"
        if "cursor = Some c" "n \<noteq> 0" for c known ns
        using page(3) [OF that(1)] that(2) Suc.prems(2) by (intro mcp_step.next_page) auto
      then show ?thesis
        unfolding x prod.case known using Suc.prems(2) by (intro follows_next_page Suc.IH) simp_all
    qed
    note go_on = this
    show "follows env url (Listing cursors (entry_names tools @ names)) (sbind (slift (catalog_page cursors spent d))
        (\<lambda>(entries, spent, cursor). case cursor of None \<Rightarrow> sreturn (tools @ entries)
          | Some c \<Rightarrow> native_catalog n env url hs [(''cursor'', PStr c)] (c # cursors) spent (tools @ entries)))
        cataloged st1"
      by (rule follows_bind [where Q = "\<lambda>r q. r = catalog_page cursors spent d \<and> q = Listing cursors (entry_names tools @ names)"])
        (use go_on [OF sym] in \<open>simp_all add: cataloged_def follows_lift split_paired_all\<close>)
  qed
qed

text \<open>How a session ends: what was called is the tool the caller asked to call, with the caller's
  arguments, and an answer to a request for a call comes from a call.\<close>

definition concluded :: "native_args \<Rightarrow> pyval tool \<Rightarrow> phase \<Rightarrow> bool" where
  "concluded a r q \<longleftrightarrow>
     (\<forall>t v. q = Called t v \<longrightarrow> z_call a \<and> z_tool a = Some t \<and> v = call_arguments (z_arguments a))
     \<and> (\<forall>x. r = Inr x \<and> z_call a \<and> z_tool a \<noteq> None \<longrightarrow> has_called q)"

lemma concluded_error: "\<not> has_called q \<Longrightarrow> concluded a (Inl e) q"
  by (auto simp: concluded_def)

lemma follows_tool_call:
  assumes "z_tool a = Some tool" "z_call a" "tool \<in> set known"
  shows "follows env url (Listing cs known) (sbind (native_mcp_request env url hs ''tools/call''
      [(''name'', PStr tool), (''arguments'', call_arguments (z_arguments a))]) (\<lambda>result. slift (native_result metadata tool result)))
      (concluded a) st"
proof -
  have "concluded a y (Called tool (call_arguments (z_arguments a)))" for y
    using assms by (simp add: concluded_def)
  then show ?thesis
    by (intro follows_request [OF mcp_step.invoke [OF assms(3)]] follows_lift)
qed

lemma follows_select:
  "follows env url (Listing cs (entry_names tools)) (native_select env a url hs metadata tools) (concluded a) st"
proof (cases "z_tool a")
  case None
  then show ?thesis
    unfolding native_select_def by (simp only: Let_def option.case) (intro follows_return, simp add: concluded_def)
next
  case (Some tool)
  show ?thesis
  proof (cases "selected_tools (z_tool a) tools")
    case Nil
    with Some show ?thesis unfolding native_select_def
      by (simp only: Let_def option.case if_True simp_thms refl) (rule follows_fail, simp add: concluded_def)
  next
    case (Cons v vs)
    then have "v \<in> set (selected_tools (z_tool a) tools)" by simp
    with Some have known: "tool \<in> set (entry_names tools)"
      by (auto simp: selected_tools_def intro: entry_names_member)
    show ?thesis
    proof (cases "z_call a")
      case True
      with Some known Cons show ?thesis unfolding native_select_def
        by (simp only: Let_def option.case list.distinct if_False not_True_eq_False) (rule follows_tool_call)
    next
      case False
      with Some Cons show ?thesis unfolding native_select_def
        by (simp only: Let_def option.case list.distinct if_False if_True not_False_eq_True)
          (intro follows_return, simp add: concluded_def)
    qed
  qed
qed

lemma follows_session: "follows env url Idle (native_session env a addon url hs) (concluded a) st"
  unfolding native_session_def Let_def
proof (rule follows_request [OF mcp_step.initialize], simp add: concluded_error, goal_cases)
  case (1 names initialized st1)
  show ?case
  proof (cases "initialized_session initialized")
    case None
    then show ?thesis by (simp only: option.case) (intro follows_lift, simp add: concluded_def)
  next
    case (Some s)
    obtain protocol info where s: "s = (protocol, info)" by force
    show ?thesis
      unfolding Some s option.case prod.case
    proof (rule follows_request [OF mcp_step.announce], simp add: concluded_error, goal_cases)
      case (1 names d st2)
      have first: "mcp_step Ready ((''tools/list'', []), names) (Listing [] (entry_names [] @ names))" for names
        by (simp add: entry_names_def mcp_step.first_page)
      show ?case
        by (rule follows_bind [OF follows_catalog [OF first]])
          (auto simp: max_catalog_pages_def cataloged_def intro: concluded_error follows_select)
    qed
  qed
qed

lemma follows_quiet_bind:
  assumes "m st = (r, st1)" "a_http st1 = a_http st" "\<And>e. r = Inl e \<Longrightarrow> R (Inl e) p"
    and "\<And>x. r = Inr x \<Longrightarrow> follows env url p (f x) R st1"
  shows "follows env url p (sbind m f) R st"
  by (rule follows_bind_state [where m = m and st = st and reqs = "[]" and cs = "[]", OF assms(1) _ _ mcp_run.stop assms(3,4)])
    (simp_all add: assms(2))

lemma follows_native_run: "\<exists>url. follows env url Idle (native_run env a) (concluded a) st"
proof -
  obtain r1 st1 where resolve: "resolve_esphome_addon env (z_slug a) st = (r1, st1)" by force
  have http1: "a_http st1 = a_http st"
    using http.emitsD [OF resolve_esphome_addon_emits(2) resolve, of "\<lambda>_. False"] by (auto simp: list_all_iff)
  obtain r2 st2 where route: "\<And>addon. r1 = Inr addon \<Longrightarrow> route_for_addon env addon ''api/mcp'' None False st1 = (r2, st2)"
    by (cases r1) (metis sum.distinct(1), metis prod.collapse sum.inject(2))
  have http2: "a_http st2 = a_http st1" if "r1 = Inr addon" for addon
    using http.emitsD [OF route_for_addon_emits(2) route [OF that], of "\<lambda>_. False"] by (auto simp: list_all_iff)
  define url where "url = (case r2 of Inr (u, hs) \<Rightarrow> u | Inl _ \<Rightarrow> [])"
  have "follows env url Idle (native_run env a) (concluded a) st"
    unfolding native_run_def
  proof (rule follows_quiet_bind [where m = "resolve_esphome_addon env (z_slug a)", OF resolve http1])
    fix addon
    assume r1: "r1 = Inr addon"
    show "follows env url Idle (if map_of addon ''state'' \<noteq> Some (PStr ''started'')
       then fail ''ESPHome add-on is not running.'' ''addon_not_running'' []
       else sbind (route_for_addon env addon ''api/mcp'' None False) (\<lambda>(url, hs). native_session env a addon url hs))
       (concluded a) st1"
    proof (cases "map_of addon ''state'' = Some (PStr ''started'')")
      case False
      then show ?thesis by (simp only: if_True not_False_eq_True) (intro follows_fail concluded_error, simp)
    next
      case True
      have "follows env url Idle (sbind (route_for_addon env addon ''api/mcp'' None False)
          (\<lambda>(url, hs). native_session env a addon url hs)) (concluded a) st1"
        by (rule follows_quiet_bind [where m = "route_for_addon env addon ''api/mcp'' None False", OF route [OF r1] http2 [OF r1]])
          (auto simp: url_def intro: follows_session concluded_error)
      with True show ?thesis by simp
    qed
  qed (simp add: concluded_error)
  then show ?thesis by blast
qed

lemma native_device_builder_cases:
  assumes "native_device_builder env a st = (r, st')"
  obtains e where "r = Inl e" "st' = st"
  | r' where "native_run env a st = (r', st')" "z_call a \<Longrightarrow> z_tool a \<noteq> None" "\<And>x. r = Inr x \<Longrightarrow> r' = Inr x"
proof (cases "(1 \<le> z_timeout a \<and> z_timeout a \<le> 1800) \<and> \<not> (z_call a \<and> (case z_tool a of None \<Rightarrow> True | Some t \<Rightarrow> str_strip t = []))
      \<and> \<not> (z_arguments a \<noteq> PNone \<and> \<not> is_PDict (z_arguments a))")
  case False
  then have "\<exists>e. native_device_builder env a st = (Inl e, st)"
    by (auto simp: native_device_builder_def fail_def)
  with assms show ?thesis by (auto intro: that(1))
next
  case True
  then have tool: "z_call a \<Longrightarrow> z_tool a \<noteq> None" by (auto split: option.splits)
  obtain r' st1 where run: "native_run env a st = (r', st1)" by force
  from True assms have "(case native_run env a st of (Inl Cancelled, st') \<Rightarrow> (Inl (Payload native_timeout), st') | r \<Rightarrow> r) = (r, st')"
    unfolding native_device_builder_def by (simp only: if_False not_True_eq_False simp_thms)
  with run have "st1 = st'" "\<And>x. r = Inr x \<Longrightarrow> r' = Inr x" by (auto split: sum.splits fault.splits)
  with run tool show ?thesis by (intro that(2)) simp_all
qed

text \<open>C10: Whatever the add-on answers, what the client says to it is a run of the protocol: all of it
  goes to one address, it initialises and announces itself before anything else, asks for at
  most twenty pages by fresh cursors, and sends at most 23 requests. A tool is called at most
  once, as the last request, and only a tool whose name the answers to this session's catalog
  requests listed before; what is called is the tool the caller asked to call, with the caller's
  arguments; and an answer to a request for a call comes from such a call.\<close>

theorem native_refines_protocol:
  assumes "native_device_builder env a st = (r, st')"
  shows "\<exists>url reqs cs q. a_http st' = a_http st @ reqs \<and> exchanges env url (a_http st) reqs cs \<and> mcp_run Idle cs q
     \<and> length reqs \<le> 23 \<and> length (filter (\<lambda>c. fst (fst c) = ''tools/call'') cs) = (if has_called q then 1 else 0)
     \<and> (\<forall>t v. q = Called t v \<longrightarrow> z_call a \<and> z_tool a = Some t \<and> v = call_arguments (z_arguments a))
     \<and> (\<forall>x. r = Inr x \<and> z_call a \<longrightarrow> has_called q)"
  using assms
proof (cases rule: native_device_builder_cases)
  case (1 e)
  then show ?thesis by (auto intro!: exI [of _ "[]"] exI [of _ Idle] mcp_run.stop)
next
  case (2 r')
  from follows_native_run [of env a st] 2(1) obtain url reqs cs q where run: "a_http st' = a_http st @ reqs"
    "exchanges env url (a_http st) reqs cs" "mcp_run Idle cs q" and ok: "concluded a r' q"
    by (auto simp: follows_def)
  have len: "length reqs \<le> 23" using run_calls_left [OF run(3)] exchanges_length [OF run(2)] by simp
  have once: "length (filter (\<lambda>c. fst (fst c) = ''tools/call'') cs) = (if has_called q then 1 else 0)"
    using run_calls_once [OF run(3)] by simp
  have "\<forall>t v. q = Called t v \<longrightarrow> z_call a \<and> z_tool a = Some t \<and> v = call_arguments (z_arguments a)"
    using ok unfolding concluded_def by blast
  moreover have "\<forall>x. r = Inr x \<and> z_call a \<longrightarrow> has_called q"
    using ok 2(2,3) unfolding concluded_def by blast
  ultimately show ?thesis using run len once
    by (intro exI [of _ url] exI [of _ reqs] exI [of _ cs] exI [of _ q] conjI)
qed

text \<open>Every single request, whatever the outcome: a tool call is the one that was asked for.\<close>

definition rpc_ok :: "native_args \<Rightarrow> http_request \<Rightarrow> bool" where
  "rpc_ok a q \<longleftrightarrow> (\<exists>url hs meth params. q = rpc_request url hs meth params
     \<and> meth \<in> {''initialize'', ''notifications/initialized'', ''tools/list'', ''tools/call''}
     \<and> (meth = ''tools/call'' \<longrightarrow> z_call a \<and> (\<exists>tool. z_tool a = Some tool
          \<and> params = [(''name'', PStr tool), (''arguments'', call_arguments (z_arguments a))])))"

lemma native_mcp_request_emits [emits_rules]:
  "sup.emits P (native_mcp_request env url hs meth params)" "sockets.emits K (native_mcp_request env url hs meth params)"
  "Q (rpc_request url hs meth params) \<Longrightarrow> http.emits Q (native_mcp_request env url hs meth params)"
  by (auto intro!: sup.emits_quiet sockets.emits_quiet http.emits_post
      simp: native_mcp_request_def send_http_def split: http_answer.splits)

lemma native_catalog_emits [emits_rules]:
  "sup.emits P (native_catalog n env url hs params cursors spent tools)"
  "sockets.emits K (native_catalog n env url hs params cursors spent tools)"
  "http.emits (rpc_ok a) (native_catalog n env url hs params cursors spent tools)"
proof (induction n arbitrary: params cursors spent tools)
  case (Suc n)
  have page: "rpc_ok a (rpc_request url hs ''tools/list'' params)" for params by (auto simp: rpc_ok_def)
  case 1 show ?case by (auto intro!: sup.emits_bind emits_rules Suc split: option.splits)
  case 2 show ?case by (auto intro!: sockets.emits_bind emits_rules Suc split: option.splits)
  case 3 show ?case by (auto intro!: http.emits_bind emits_rules Suc page split: option.splits)
qed (auto intro!: emits_rules)

lemma native_select_emits [emits_rules]:
  "sup.emits P (native_select env a url hs md tools)" "sockets.emits K (native_select env a url hs md tools)"
  "http.emits (rpc_ok a) (native_select env a url hs md tools)"
proof -
  have call: "rpc_ok a (rpc_request url hs ''tools/call'' [(''name'', PStr t), (''arguments'', call_arguments (z_arguments a))])"
    if "z_tool a = Some t" "z_call a" for t using that by (auto simp: rpc_ok_def)
  show "sup.emits P (native_select env a url hs md tools)" "sockets.emits K (native_select env a url hs md tools)"
    "http.emits (rpc_ok a) (native_select env a url hs md tools)"
    unfolding native_select_def Let_def
    by (auto intro!: sup.emits_bind sockets.emits_bind http.emits_bind emits_rules call split: option.splits)
qed

lemma native_session_emits [emits_rules]:
  "sup.emits P (native_session env a addon url hs)" "sockets.emits K (native_session env a addon url hs)"
  "http.emits (rpc_ok a) (native_session env a addon url hs)"
proof -
  have first: "rpc_ok a (rpc_request url hs ''initialize'' params)"
    "rpc_ok a (rpc_request url hs ''notifications/initialized'' params)" for hs params by (auto simp: rpc_ok_def)
  show "sup.emits P (native_session env a addon url hs)" "sockets.emits K (native_session env a addon url hs)"
    "http.emits (rpc_ok a) (native_session env a addon url hs)"
    unfolding native_session_def Let_def
    by (auto intro!: sup.emits_bind sockets.emits_bind http.emits_bind emits_rules first split: option.splits)
qed

lemma native_run_emits:
  "sup.emits (\<lambda>p. is_get p \<or> session_req env p) (native_run env a)" "sockets.emits K (native_run env a)"
  "http.emits (rpc_ok a) (native_run env a)"
proof -
  have "sup.emits (\<lambda>p. is_get p \<or> session_req env p) (resolve_esphome_addon env (z_slug a))"
    by (rule sup.emits_weaken [OF resolve_esphome_addon_emits(1)]) simp
  moreover have "sup.emits (\<lambda>p. is_get p \<or> session_req env p) (route_for_addon env addon np port w)" for addon np port w
    by (rule sup.emits_weaken [OF route_for_addon_emits(1)]) simp
  ultimately show "sup.emits (\<lambda>p. is_get p \<or> session_req env p) (native_run env a)"
    unfolding native_run_def by (auto intro!: sup.emits_bind emits_rules)
  show "sockets.emits K (native_run env a)" "http.emits (rpc_ok a) (native_run env a)"
    unfolding native_run_def by (auto intro!: sockets.emits_bind http.emits_bind emits_rules)
qed

lemma native_device_builder_emits [emits_rules]:
  "sup.emits (\<lambda>p. is_get p \<or> session_req env p) (native_device_builder env a)"
  "sockets.emits K (native_device_builder env a)" "http.emits (rpc_ok a) (native_device_builder env a)"
proof -
  have e: "snd (native_device_builder env a st) = st \<or> snd (native_device_builder env a st) = snd (native_run env a st)" for st
    by (auto simp: native_device_builder_def fail_def split: prod.splits sum.splits fault.splits)
  show "sup.emits (\<lambda>p. is_get p \<or> session_req env p) (native_device_builder env a)"
    "sockets.emits K (native_device_builder env a)" "http.emits (rpc_ok a) (native_device_builder env a)"
    by (rule sup.emits_either sockets.emits_either http.emits_either, rule native_run_emits, rule e)+
qed

text \<open>A server with one tool.\<close>

definition lab_result :: "string \<Rightarrow> pydict" where
  "lab_result m =
     (if m = ''initialize''
      then [(''protocolVersion'', PStr ''2025-06-18''), (''capabilities'', PDict [(''tools'', PDict [])]), (''serverInfo'', PDict [])]
      else if m = ''tools/list''
      then [(''tools'', PList [PDict [(''name'', PStr ''get''), (''inputSchema'', PDict [])]])]
      else [(''content'', PList [PDict [(''type'', PStr ''text''), (''text'', PStr ''x'')]])])"

definition lab_rpc :: "string \<Rightarrow> bytes" where
  "lab_rpc m = utf8_encode (json_compact (PDict [(''jsonrpc'', PStr ''2.0''), (''id'', PStr m), (''result'', PDict (lab_result m))]))"

definition lab_rpc_server :: "http_request list \<Rightarrow> http_request \<Rightarrow> http_answer" where
  "lab_rpc_server _ q =
     (case h_json q of
        Some (PDict b) \<Rightarrow>
          (case map_of b ''method'' of
             Some (PStr m) \<Rightarrow>
               if is_notification m then HttpAnswer 202 [] []
               else HttpAnswer 200 [(''Content-Type'', ''application/json'')] (lab_rpc m)
           | _ \<Rightarrow> HttpTimeout)
      | _ \<Rightarrow> HttpTimeout)"

definition lab_native :: addon_env where
  "lab_native = lab_env\<lparr>a_server := lab_rpc_server\<rparr>"

lemma lab_answer:
  assumes "m \<in> {''initialize'', ''tools/list'', ''tools/call''}"
  shows "native_answer 20 m 200 [(''Content-Type'', ''application/json'')] (lab_rpc m) = Inr (lab_result m)"
proof -
  have l: "json_loads_bytes 20 (lab_rpc m)
      = Inr (PDict [(''jsonrpc'', PStr ''2.0''), (''id'', PStr m), (''result'', PDict (lab_result m))])"
    unfolding lab_rpc_def using assms by (intro json_loads_bytes_dumps) (auto simp: lab_result_def)
  have "length (lab_rpc m) \<le> 300" using assms by (elim insertE emptyE) (hypsubst, code_simp)+
  then have n: "\<not> length (lab_rpc m) > max_native_response_size" by (simp add: max_native_response_size_def)
  have h: "str_in ''application/json'' (str_lower ''application/json'')"
    "header_get [(''Content-Type'', ''application/json'')] ''Content-Type'' = Some ''application/json''" by code_simp+
  have "\<not> is_notification m" "get_or_none (rpc_body m []) ''id'' = PStr m"
    using assms by (auto simp: is_notification_def rpc_body_def get_or_none_def dict_get_def)
  with l n h show ?thesis
    by (simp add: native_answer_def get_or_none_def dict_get_def)
qed

lemma lab_request:
  "m \<in> {''initialize'', ''tools/list'', ''tools/call''} \<Longrightarrow>
     native_mcp_request lab_native url hs m params st
       = (Inr (lab_result m), st\<lparr>a_http := a_http st @ [rpc_request url hs m params]\<rparr>)"
  "native_mcp_request lab_native url hs ''notifications/initialized'' params st
       = (Inr [], st\<lparr>a_http := a_http st @ [rpc_request url hs ''notifications/initialized'' params]\<rparr>)"
proof -
  assume m: "m \<in> {''initialize'', ''tools/list'', ''tools/call''}"
  then have "a_server lab_native (a_http st) (rpc_request url hs m params)
      = HttpAnswer 200 [(''Content-Type'', ''application/json'')] (lab_rpc m)"
    by (auto simp: lab_native_def lab_rpc_server_def rpc_request_def rpc_body_def is_notification_def)
  moreover have "a_nest lab_native = 20" by (simp add: lab_native_def lab_env_def)
  ultimately show "native_mcp_request lab_native url hs m params st
       = (Inr (lab_result m), st\<lparr>a_http := a_http st @ [rpc_request url hs m params]\<rparr>)"
    using lab_answer [OF m] by (simp add: native_mcp_request_def send_http_def)
next
  show "native_mcp_request lab_native url hs ''notifications/initialized'' params st
       = (Inr [], st\<lparr>a_http := a_http st @ [rpc_request url hs ''notifications/initialized'' params]\<rparr>)"
    by (simp add: native_mcp_request_def send_http_def lab_native_def lab_rpc_server_def rpc_request_def rpc_body_def
        is_notification_def native_answer_def)
qed

definition lab_native_call :: native_args where
  "lab_native_call = \<lparr>z_slug = None, z_tool = Some ''get'', z_arguments = PNone, z_call = True, z_timeout = 60\<rparr>"

lemma native_refines_protocol_witness:
  "\<exists>url reqs cs. a_http (snd (native_device_builder lab_native lab_native_call lab_start)) = reqs
     \<and> exchanges lab_native url [] reqs cs \<and> mcp_run Idle cs (Called ''get'' (PDict []))"
proof -
  let ?run = "native_device_builder lab_native lab_native_call lab_start"
  let ?resolve = "resolve_esphome_addon lab_native None lab_start"
  have "fst ?resolve = Inr lab_addon" by code_simp
  then obtain st1 where r1: "?resolve = (Inr lab_addon, st1)" by (metis prod.collapse)
  have "case fst (route_for_addon lab_native lab_addon ''api/mcp'' None False (snd ?resolve)) of Inr _ \<Rightarrow> True | Inl _ \<Rightarrow> False"
    by code_simp
  then obtain url hs st2 where r2: "route_for_addon lab_native lab_addon ''api/mcp'' None False st1 = (Inr (url, hs), st2)"
    using r1 by (cases "route_for_addon lab_native lab_addon ''api/mcp'' None False st1") (auto split: sum.splits)
  have facts: "map_of lab_addon ''state'' = Some (PStr ''started'')" "str_strip ''get'' \<noteq> []" by code_simp+
  have init: "\<exists>i. initialized_session (lab_result ''initialize'') = Some (''2025-06-18'', i)"
    by (simp add: lab_result_def initialized_session_def dict_field_def native_protocol_versions_def)
  have "json_text (PList [PDict [(''name'', PStr ''get''), (''inputSchema'', PDict [])]])
      = Inr (json_default (PList [PDict [(''name'', PStr ''get''), (''inputSchema'', PDict [])]]))" by (simp add: json_text_def)
  moreover have "length (json_default (PList [PDict [(''name'', PStr ''get''), (''inputSchema'', PDict [])]])) \<le> 200" by code_simp
  ultimately have page: "\<exists>n. catalog_page [] 0 (lab_result ''tools/list'')
      = Inr ([PDict [(''name'', PStr ''get''), (''inputSchema'', PDict [])]], n, None)"
    by (simp add: catalog_page_def lab_result_def entry_ok_def str_field_def get_or_none_def dict_get_def max_native_response_size_def)
  have call: "\<exists>v. native_result md ''get'' (lab_result ''tools/call'') = Inr v" for md
    by (simp add: native_result_def lab_result_def item_ok_def str_field_def dict_get_def)
  from init obtain i where i: "initialized_session (lab_result ''initialize'') = Some (''2025-06-18'', i)" by blast
  from page obtain n where n: "catalog_page [] 0 (lab_result ''tools/list'')
      = Inr ([PDict [(''name'', PStr ''get''), (''inputSchema'', PDict [])]], n, None)" by blast
  from call obtain f where f: "\<And>md. native_result md ''get'' (lab_result ''tools/call'') = Inr (f md)" by metis
  have "\<exists>v st'. ?run = (Inr v, st')"
    by (simp add: i n f r1 r2 facts native_device_builder_def lab_native_call_def native_run_def sbind_def native_session_def Let_def
        lab_request max_catalog_pages_def numeral_eq_Suc native_select_def selected_tools_def str_field_def)
  then obtain v st' where run: "?run = (Inr v, st')" by blast
  from native_refines_protocol [OF this] obtain url reqs cs q where
    "a_http st' = a_http lab_start @ reqs" "exchanges lab_native url (a_http lab_start) reqs cs" "mcp_run Idle cs q"
    "\<forall>t v. q = Called t v \<longrightarrow> t = ''get'' \<and> v = call_arguments PNone" "has_called q"
    by (auto simp: lab_native_call_def)
  moreover have "call_arguments PNone = PDict []" by code_simp
  ultimately show ?thesis using run by (auto simp: lab_start_def has_called_iff)
qed

end
