(* ===== verification/AddonTools.thy ===== *)
theory AddonTools
  imports Builder Native
begin

text \<open>
  The tools of \<open>addon_tools.py\<close> that the MCP server registers: the Device Builder tools over
  one command each, reading a configuration with the native server preferred, and the
  dispatcher \<open>manage_esphome_addon\<close> over actions, configuration and the add-on's own API.
\<close>

section \<open>Device Builder commands\<close>

definition resolved_slug :: "addon \<Rightarrow> string option \<Rightarrow> string tool" where
  "resolved_slug addon slug =
     (if truthy (get_or_none addon ''slug'') then str_of (get_or_none addon ''slug'')
      else Inr (case slug of Some s \<Rightarrow> s | None \<Rightarrow> []))"

definition is_started :: "addon \<Rightarrow> bool" where
  "is_started addon \<longleftrightarrow> map_of addon ''state'' = Some (PStr ''started'')"

definition not_running :: "addon \<Rightarrow> string \<Rightarrow> addon_state \<Rightarrow> 'a tool \<times> addon_state" where
  "not_running addon slug =
     sbind (slift (str_of (get_or_none addon ''state''))) (\<lambda>t.
       fail (''ESPHome add-on is not running (state: '' @ t @ '').'') ''addon_not_running'' [(''slug'', PStr slug)])"

definition device_builder_command ::
  "addon_env \<Rightarrow> string option \<Rightarrow> bool \<Rightarrow> command_args \<Rightarrow> addon_state \<Rightarrow> command_result tool \<times> addon_state" where
  "device_builder_command env slug debug a =
     sbind (resolve_esphome_addon env slug) (\<lambda>addon.
     sbind (slift (resolved_slug addon slug)) (\<lambda>rs.
       if \<not> is_started addon then not_running addon rs
       else call_device_builder_ws_command env addon debug (a\<lparr>m_slug := rs\<rparr>)))"

text \<open>A command that is neither a stream nor limited, and one that is both.\<close>

definition plain_command :: "string \<Rightarrow> pydict \<Rightarrow> int \<Rightarrow> command_args" where
  "plain_command command args timeout =
     \<lparr>m_slug = [], m_command = command, m_args = args, m_timeout = timeout, m_stream = False, m_message_limit = None\<rparr>"

definition stream_command :: "string \<Rightarrow> pydict \<Rightarrow> int \<Rightarrow> int \<Rightarrow> command_args" where
  "stream_command command args timeout limit =
     \<lparr>m_slug = [], m_command = command, m_args = args, m_timeout = timeout, m_stream = True, m_message_limit = Some limit\<rparr>"

record tool_args =
  t_slug :: "string option"
  t_timeout :: int
  t_debug :: bool

definition command_tool :: "addon_env \<Rightarrow> tool_args \<Rightarrow> command_args \<Rightarrow> addon_state \<Rightarrow> command_result tool \<times> addon_state" where
  "command_tool env t a = device_builder_command env (t_slug t) (t_debug t) a"

section \<open>Filtering what came back\<close>

text \<open>Iterating over a JSON value, and a comprehension whose filter may raise.\<close>

definition iter_items :: "pyval \<Rightarrow> pyval list py" where
  "iter_items v =
     (case v of
        PList vs \<Rightarrow> Inr vs
      | PDict d \<Rightarrow> Inr (map (PStr \<circ> fst) d)
      | PStr s \<Rightarrow> Inr (map (\<lambda>c. PStr [c]) s)
      | _ \<Rightarrow> Inl TypeError)"

fun py_filter :: "('a \<Rightarrow> bool py) \<Rightarrow> 'a list \<Rightarrow> 'a list py" where
  "py_filter p [] = Inr []"
| "py_filter p (x # xs) =
     py_bind (p x) (\<lambda>b. py_bind (py_filter p xs) (\<lambda>ys. Inr (if b then x # ys else ys)))"

definition text_matches :: "pyval \<Rightarrow> string option \<Rightarrow> bool py" where
  "text_matches item query =
     (case query of
        Some (c # q) \<Rightarrow> py_bind (json_text item) (\<lambda>haystack. Inr (str_in (str_lower (c # q)) (str_lower haystack)))
      | _ \<Rightarrow> Inr True)"

definition bounded_limit :: "int \<Rightarrow> nat" where
  "bounded_limit limit = (if limit \<le> 0 then 100 else nat (min limit 500))"

definition device_matches :: "string option \<Rightarrow> string option \<Rightarrow> pyval \<Rightarrow> bool py" where
  "device_matches query state_filter device =
     (case device of
        PDict d \<Rightarrow>
          py_bind (text_matches device query) (\<lambda>b.
            if \<not> b then Inr False
            else (case state_filter of
                    None \<Rightarrow> Inr True
                  | Some f \<Rightarrow> py_bind (py_str (get_or_none d ''state'')) (\<lambda>t. Inr (str_lower t = f))))
      | _ \<Rightarrow> Inr False)"

definition devices_where :: "pydict \<Rightarrow> string \<Rightarrow> string option \<Rightarrow> string option \<Rightarrow> pyval list py" where
  "devices_where d k query state_filter =
     py_bind (iter_items (dict_get k (PList []) d)) (py_filter (device_matches query state_filter))"

definition lower_state :: "string option \<Rightarrow> string option" where
  "lower_state state = (case state of Some (c # s) \<Rightarrow> Some (str_lower (c # s)) | _ \<Rightarrow> None)"

definition devices_payload ::
  "pydict \<Rightarrow> string option \<Rightarrow> string option \<Rightarrow> bool \<Rightarrow> int \<Rightarrow> pyval \<Rightarrow> pyval py" where
  "devices_payload d query state include_importable limit debug =
     py_bind (devices_where d ''configured'' query (lower_state state)) (\<lambda>matching.
     let configured = take (bounded_limit limit) matching in
     py_bind (if include_importable then devices_where d ''importable'' query None else Inr []) (\<lambda>importable.
       Inr (PDict ([(''success'', PBool True), (''configured_count'', PInt (int (length configured))),
                    (''configured'', PList configured)]
         @ (if include_importable
            then [(''importable_count'', PInt (int (length importable))),
                  (''importable'', PList (take (bounded_limit limit) importable))] else [])
         @ (if debug \<noteq> PNone then [(''_debug'', debug)] else [])))))"

definition list_device_builder_devices ::
  "addon_env \<Rightarrow> tool_args \<Rightarrow> string option \<Rightarrow> string option \<Rightarrow> bool \<Rightarrow> int \<Rightarrow> addon_state \<Rightarrow> pyval tool \<times> addon_state" where
  "list_device_builder_devices env t query state include_importable limit =
     sbind (command_tool env t (plain_command ''devices/list'' [] (t_timeout t))) (\<lambda>r.
       case u_result r of
         PDict d \<Rightarrow> slift (lift_py (devices_payload d query state include_importable limit (u_debug r)))
       | _ \<Rightarrow> fail ''Device Builder returned malformed devices/list result.'' ''error'' [])"

text \<open>\<open>v or []\<close>, which has to be a list.\<close>

definition list_or_empty :: "pyval \<Rightarrow> pyval list option" where
  "list_or_empty v = (if truthy v then (case v of PList vs \<Rightarrow> Some vs | _ \<Rightarrow> None) else Some [])"

definition opt_int_value :: "int option \<Rightarrow> pyval" where
  "opt_int_value i = (case i of Some n \<Rightarrow> PInt n | None \<Rightarrow> PNone)"

definition search_device_builder_yaml ::
  "addon_env \<Rightarrow> tool_args \<Rightarrow> string \<Rightarrow> int \<Rightarrow> bool \<Rightarrow> int option \<Rightarrow> addon_state \<Rightarrow> pyval tool \<times> addon_state" where
  "search_device_builder_yaml env t query max_results case_sensitive context_lines =
     sbind (command_tool env t (plain_command ''yaml/search''
       [(''query'', PStr query), (''max_results'', PInt (max 1 (min max_results 200))),
        (''case_sensitive'', PBool case_sensitive), (''context_lines'', opt_int_value context_lines)] (t_timeout t))) (\<lambda>r.
       case list_or_empty (u_result r) of
         Some matches \<Rightarrow>
           sreturn (PDict [(''success'', PBool True), (''count'', PInt (int (length matches))), (''matches'', PList matches)])
       | None \<Rightarrow> fail ''Device Builder returned malformed yaml/search result.'' ''error'' [])"

section \<open>Configurations\<close>

definition bare_yaml :: "string \<Rightarrow> bool" where
  "bare_yaml configuration \<longleftrightarrow> endswith configuration ''.yaml'' \<and> slash \<notin> set configuration \<and> bs \<notin> set configuration"

definition read_over_ws :: "addon_env \<Rightarrow> tool_args \<Rightarrow> string \<Rightarrow> addon_state \<Rightarrow> pyval tool \<times> addon_state" where
  "read_over_ws env t configuration =
     sbind (command_tool env t (plain_command ''devices/get_config'' [(''configuration'', PStr configuration)] (t_timeout t)))
       (\<lambda>r. sreturn (PDict [(''success'', PBool True), (''configuration'', PStr configuration), (''content'', u_result r)]))"

definition is_success :: "pyval \<Rightarrow> bool" where
  "is_success v \<longleftrightarrow> (case pdict_get v ''success'' of Some b \<Rightarrow> truthy b | None \<Rightarrow> False)"

definition native_text :: "pyval \<Rightarrow> string option" where
  "native_text native =
     (case pdict_get native ''result'' of
        Some (PDict r) \<Rightarrow>
          (case map_of r ''content'' of
             Some (PList [item]) \<Rightarrow> if str_field item ''type'' = Some ''text'' then str_field item ''text'' else None
           | _ \<Rightarrow> None)
      | _ \<Rightarrow> None)"

definition falls_back :: "pyval \<Rightarrow> bool" where
  "falls_back native \<longleftrightarrow>
     pdict_get native ''error_code'' \<in> {Some (PStr ''native_mcp_unavailable''), Some (PStr ''native_tool_unavailable'')}"

definition read_device_builder_config ::
  "addon_env \<Rightarrow> tool_args \<Rightarrow> string \<Rightarrow> addon_state \<Rightarrow> pyval tool \<times> addon_state" where
  "read_device_builder_config env t configuration st =
     (if \<not> bare_yaml configuration then read_over_ws env t configuration st
      else
        (case call_native_device_builder_tool env ''get_config'' (PDict [(''configuration'', PStr configuration)])
                (t_slug t) (t_timeout t) st of
           (Inr native, st') \<Rightarrow>
             if is_success native
             then (case native_text native of
                     Some content \<Rightarrow> (Inr (PDict [(''success'', PBool True), (''configuration'', PStr configuration),
                                              (''content'', PStr content)]), st')
                   | None \<Rightarrow> fail ''Native get_config returned unexpected content.'' ''native_protocol_error'' [] st')
             else (Inr native, st')
         | (Inl (Payload native), st') \<Rightarrow>
             if falls_back native then read_over_ws env t configuration st' else (Inl (Payload native), st')
         | (Inl e, st') \<Rightarrow> (Inl e, st')))"

definition write_device_builder_config ::
  "addon_env \<Rightarrow> tool_args \<Rightarrow> string \<Rightarrow> string \<Rightarrow> bool \<Rightarrow> addon_state \<Rightarrow> pyval tool \<times> addon_state" where
  "write_device_builder_config env t configuration content allow_wipe =
     sbind (command_tool env t (plain_command ''devices/update_config''
       [(''configuration'', PStr configuration), (''content'', PStr content), (''allow_wipe'', PBool allow_wipe)] (t_timeout t)))
       (\<lambda>_. sreturn (PDict [(''success'', PBool True), (''configuration'', PStr configuration),
              (''message'', PStr ''Config updated.'')]))"

section \<open>Streams and firmware jobs\<close>

definition output_events :: "pyval list \<Rightarrow> pyval list" where
  "output_events events =
     map (\<lambda>e. case pdict_get e ''data'' of Some v \<Rightarrow> v | None \<Rightarrow> PNone)
       (filter (\<lambda>e. pdict_get e ''event'' = Some (PStr ''output'')) events)"

definition run_device_builder_stream ::
  "addon_env \<Rightarrow> tool_args \<Rightarrow> string \<Rightarrow> pydict \<Rightarrow> int \<Rightarrow> addon_state \<Rightarrow> pyval tool \<times> addon_state" where
  "run_device_builder_stream env t command args limit =
     sbind (command_tool env t (stream_command command args (t_timeout t) limit)) (\<lambda>r.
       sreturn (PDict [(''success'', PBool True), (''command'', PStr command),
         (''output'', PList (output_events (u_events r))),
         (''output_line_count'', PInt (int (length (output_events (u_events r))))),
         (''terminal_event'', u_terminal r), (''closed_by'', PStr (u_closed_by r))]))"

definition queue_device_builder_firmware_job ::
  "addon_env \<Rightarrow> tool_args \<Rightarrow> string \<Rightarrow> pydict \<Rightarrow> addon_state \<Rightarrow> pyval tool \<times> addon_state" where
  "queue_device_builder_firmware_job env t command args =
     sbind (command_tool env t (plain_command command args (t_timeout t))) (\<lambda>r.
       sreturn (PDict [(''success'', PBool True), (''job'', u_result r)]))"

definition opt_field :: "string \<Rightarrow> string option \<Rightarrow> pydict" where
  "opt_field k v = (case v of Some s \<Rightarrow> [(k, PStr s)] | None \<Rightarrow> [])"

definition list_device_builder_firmware_jobs ::
  "addon_env \<Rightarrow> tool_args \<Rightarrow> string option \<Rightarrow> string option \<Rightarrow> int \<Rightarrow> addon_state \<Rightarrow> pyval tool \<times> addon_state" where
  "list_device_builder_firmware_jobs env t status configuration limit =
     sbind (command_tool env t (plain_command ''firmware/get_jobs''
       (opt_field ''status'' status @ opt_field ''configuration'' configuration) (t_timeout t))) (\<lambda>r.
       case list_or_empty (u_result r) of
         Some jobs \<Rightarrow>
           (let bounded = take (bounded_limit limit) jobs in
            sreturn (PDict [(''success'', PBool True), (''count'', PInt (int (length bounded))), (''jobs'', PList bounded)]))
       | None \<Rightarrow> fail ''Device Builder returned malformed firmware/get_jobs result.'' ''error'' [])"

definition get_device_builder_firmware_job ::
  "addon_env \<Rightarrow> tool_args \<Rightarrow> string \<Rightarrow> addon_state \<Rightarrow> pyval tool \<times> addon_state" where
  "get_device_builder_firmware_job env t job_id =
     sbind (command_tool env t (plain_command ''firmware/get_job'' [(''job_id'', PStr job_id)] (t_timeout t))) (\<lambda>r.
       sreturn (PDict [(''success'', PBool True), (''found'', PBool (u_result r \<noteq> PNone)), (''job'', u_result r)]))"

fun py_strs :: "pyval list \<Rightarrow> pyval list py" where
  "py_strs [] = Inr []"
| "py_strs (v # vs) = py_bind (py_str v) (\<lambda>s. py_bind (py_strs vs) (\<lambda>ss. Inr (PStr s # ss)))"

definition job_of :: "pyval \<Rightarrow> pyval" where
  "job_of terminal = (case pdict_get terminal ''data'' of Some v \<Rightarrow> v | None \<Rightarrow> PNone)"

definition job_output :: "pyval list \<Rightarrow> pyval \<Rightarrow> pyval list py" where
  "job_output output job =
     (case pdict_get job ''output'' of
        Some (PList lines) \<Rightarrow> if output = [] then py_strs lines else Inr output
      | _ \<Rightarrow> Inr output)"

definition follow_device_builder_firmware_job ::
  "addon_env \<Rightarrow> tool_args \<Rightarrow> string \<Rightarrow> int \<Rightarrow> addon_state \<Rightarrow> pyval tool \<times> addon_state" where
  "follow_device_builder_firmware_job env t job_id limit =
     sbind (command_tool env t (stream_command ''firmware/follow_job'' [(''job_id'', PStr job_id)] (t_timeout t) limit)) (\<lambda>r.
     let job = job_of (u_terminal r) in
     sbind (slift (lift_py (job_output (output_events (u_events r)) job))) (\<lambda>output.
       sreturn (PDict [(''success'', PBool True), (''job_id'', PStr job_id), (''output'', PList output),
         (''output_line_count'', PInt (int (length output))), (''job'', job),
         (''exit_code'', case pdict_get job ''exit_code'' of Some v \<Rightarrow> v | None \<Rightarrow> PNone),
         (''terminal_event'', u_terminal r), (''closed_by'', PStr (u_closed_by r))])))"

section \<open>Managing the add-on\<close>

definition valid_http_methods :: "string list" where
  "valid_http_methods = [''GET'', ''POST'', ''PUT'', ''DELETE'', ''PATCH'']"

definition sorted_methods :: "string list" where
  "sorted_methods = [''DELETE'', ''GET'', ''PATCH'', ''POST'', ''PUT'']"

record manage_args =
  j_slug :: "string option"
  j_action :: "string option"
  j_path :: "string option"
  j_method :: string
  j_body :: pyval
  j_websocket :: bool
  j_wait_for_close :: bool
  j_message_limit :: "int option"
  j_message_offset :: int
  j_config :: config_args
  j_port :: "int option"
  j_timeout :: int
  j_debug :: bool
  j_request_headers :: "headers option"

definition effective_path :: "manage_args \<Rightarrow> string" where
  "effective_path a = (case j_path a of Some (c # p) \<Rightarrow> c # p | _ \<Rightarrow> ''/devices'')"

definition ws_call_args :: "manage_args \<Rightarrow> ws_args" where
  "ws_call_args a =
     \<lparr>v_path = effective_path a, v_body = j_body a, v_port = j_port a, v_timeout = j_timeout a,
      v_debug = j_debug a, v_wait_for_close = j_wait_for_close a, v_message_limit = j_message_limit a,
      v_message_offset = j_message_offset a\<rparr>"

definition http_call_args :: "manage_args \<Rightarrow> http_args" where
  "http_call_args a =
     \<lparr>n_path = effective_path a, n_method = j_method a, n_body = j_body a, n_port = j_port a,
      n_debug = j_debug a, n_request_headers = j_request_headers a\<rparr>"

definition call_api :: "addon_env \<Rightarrow> addon \<Rightarrow> string \<Rightarrow> manage_args \<Rightarrow> addon_state \<Rightarrow> pyval tool \<times> addon_state" where
  "call_api env addon rs a =
     (if \<not> is_started addon then not_running addon rs
      else sbind (slift (lift_py (str_upper (j_method a)))) (\<lambda>meth.
        if meth \<notin> set valid_http_methods
        then fail (''Invalid HTTP method '' @ repr_str (j_method a) @ ''.'') ''invalid_method''
               [(''valid_methods'', PList (map PStr sorted_methods))]
        else if j_websocket a then call_addon_ws env addon rs (ws_call_args a)
        else if j_message_limit a \<noteq> None \<or> j_message_offset a \<noteq> 0
        then fail ''message_limit and message_offset apply only to websocket mode.'' ''invalid_mode'' []
        else call_addon_http env addon rs (http_call_args a)))"

definition combined_action :: string where
  "combined_action = ''action cannot be combined with path or config parameters.''"

definition manage_resolved ::
  "addon_env \<Rightarrow> addon \<Rightarrow> string \<Rightarrow> manage_args \<Rightarrow> addon_state \<Rightarrow> pyval tool \<times> addon_state" where
  "manage_resolved env addon rs a =
     (let config_data = build_config_payload (j_config a) in
      case map_option action_key (j_action a) of
        Some key \<Rightarrow>
          if j_path a \<noteq> None \<or> config_data \<noteq> [] then fail combined_action ''invalid_mode'' []
          else execute_action env rs key
      | None \<Rightarrow>
          if config_data \<noteq> []
          then (if j_path a \<noteq> None then fail ''path cannot be combined with config parameters.'' ''invalid_mode'' []
                else execute_config_update env rs addon config_data)
          else call_api env addon rs a)"

definition manage_install :: "addon_env \<Rightarrow> string \<Rightarrow> manage_args \<Rightarrow> addon_state \<Rightarrow> pyval tool \<times> addon_state" where
  "manage_install env slug a =
     (if j_path a \<noteq> None \<or> build_config_payload (j_config a) \<noteq> []
      then fail combined_action ''invalid_mode'' []
      else if \<not> has_esphome slug
      then fail (''Add-on slug '' @ repr_str slug @ '' does not look like the ESPHome add-on.'')
             ''not_esphome_addon'' [(''slug'', PStr slug)]
      else execute_action env slug ''install'')"

definition has_slug :: "string option \<Rightarrow> bool" where
  "has_slug slug \<longleftrightarrow> slug \<noteq> None \<and> slug \<noteq> Some []"

definition manage_esphome_addon :: "addon_env \<Rightarrow> manage_args \<Rightarrow> addon_state \<Rightarrow> pyval tool \<times> addon_state" where
  "manage_esphome_addon env a =
     (if map_option action_key (j_action a) = Some ''install'' \<and> has_slug (j_slug a)
      then manage_install env (the (j_slug a)) a
      else sbind (resolve_esphome_addon env (j_slug a)) (\<lambda>addon.
           sbind (slift (resolved_slug addon (j_slug a))) (\<lambda>rs.
             manage_resolved env addon rs a)))"

section \<open>What managing the add-on does\<close>

text \<open>The two writing requests that name an add-on.\<close>

definition action_req :: "string \<Rightarrow> string \<Rightarrow> sup_request \<Rightarrow> bool" where
  "action_req slug key p \<longleftrightarrow>
     (\<exists>before after t. map_of action_endpoints key = Some (before, after, t)
        \<and> p = sup_req (before @ slug @ after) ''POST'' None t)"

definition options_req :: "string \<Rightarrow> sup_request \<Rightarrow> bool" where
  "options_req slug p \<longleftrightarrow> (\<exists>d. p = sup_req (''/addons/'' @ slug @ ''/options'') ''POST'' (Some (PDict d)) 30)"

lemma execute_action_emits [emits_rules]:
  "sup.emits (action_req slug (action_key action)) (execute_action env slug action)"
  "http.emits Q (execute_action env slug action)" "sockets.emits K (execute_action env slug action)"
  unfolding execute_action_def Let_def
  by (auto intro!: sup.emits_bind http.emits_bind sockets.emits_bind emits_rules simp: action_req_def split: option.splits)

lemma execute_config_update_emits [emits_rules]:
  "sup.emits (options_req slug) (execute_config_update env slug addon cfg)"
  "http.emits Q (execute_config_update env slug addon cfg)" "sockets.emits K (execute_config_update env slug addon cfg)"
  unfolding execute_config_update_def submit_config_def
  by (auto intro!: sup.emits_bind http.emits_bind sockets.emits_bind emits_rules simp: options_req_def
      split: option.splits pyval.splits)

lemma call_addon_http_emits [emits_rules]:
  "sup.emits (session_req env) (call_addon_http env addon slug a)" "sockets.emits K (call_addon_http env addon slug a)"
proof -
  have tail: "sup.emits P (\<lambda>st. case send_http env (req st) st of
        (HttpTimeout, st') \<Rightarrow> fail m1 c1 e1 st'
      | (HttpClientError details, st') \<Rightarrow> fail m2 c2 (e2 details) st'
      | (HttpAnswer status rh raw, st') \<Rightarrow> slift (f st status rh raw) st')"
    "sockets.emits K (\<lambda>st. case send_http env (req st) st of
        (HttpTimeout, st') \<Rightarrow> fail m1 c1 e1 st'
      | (HttpClientError details, st') \<Rightarrow> fail m2 c2 (e2 details) st'
      | (HttpAnswer status rh raw, st') \<Rightarrow> slift (f st status rh raw) st')"
    for P req m1 c1 e1 m2 c2 e2 and f :: "addon_state \<Rightarrow> nat \<Rightarrow> multidict \<Rightarrow> bytes \<Rightarrow> pyval tool"
    by (auto intro!: sup.emits_quiet sockets.emits_quiet simp: send_http_def fail_def split: http_answer.splits)
  show "sup.emits (session_req env) (call_addon_http env addon slug a)" "sockets.emits K (call_addon_http env addon slug a)"
    unfolding call_addon_http_def Let_def
    by (auto intro!: sup.emits_bind sockets.emits_bind emits_rules tail split: option.splits)
qed

lemma with_socket_quiet [simp]:
  "with_socket env url hs talk st = (r, st') \<Longrightarrow> a_sup st' = a_sup st" "with_socket env url hs talk st = (r, st') \<Longrightarrow> a_http st' = a_http st"
  by (auto elim!: with_socket_cases)

lemma call_addon_ws_emits [emits_rules]:
  "sup.emits (session_req env) (call_addon_ws env addon slug a)" "http.emits Q (call_addon_ws env addon slug a)"
proof -
  have tail: "sup.emits P (\<lambda>st. case with_socket env url hs (addon_ws_talk env a) st of
        (Inl WsTimedOut, st') \<Rightarrow> fail m1 c1 e1 st'
      | (Inl (WsBroken details), st') \<Rightarrow> fail m2 c2 (e2 details) st'
      | (Inl (WsFault e), st') \<Rightarrow> (Inl e, st')
      | (Inr (ms, c), st') \<Rightarrow> (Inr (f ms c), st'))"
    "http.emits Q (\<lambda>st. case with_socket env url hs (addon_ws_talk env a) st of
        (Inl WsTimedOut, st') \<Rightarrow> fail m1 c1 e1 st'
      | (Inl (WsBroken details), st') \<Rightarrow> fail m2 c2 (e2 details) st'
      | (Inl (WsFault e), st') \<Rightarrow> (Inl e, st')
      | (Inr (ms, c), st') \<Rightarrow> (Inr (f ms c), st'))"
    for P url hs m1 c1 e1 m2 c2 e2 and f :: "pyval list \<Rightarrow> string \<Rightarrow> pyval"
    by (auto intro!: sup.emits_quiet http.emits_quiet simp: fail_def split: prod.splits sum.splits ws_fault.splits)
  show "sup.emits (session_req env) (call_addon_ws env addon slug a)" "http.emits Q (call_addon_ws env addon slug a)"
    unfolding call_addon_ws_def
    by (auto intro!: sup.emits_bind http.emits_bind emits_rules tail split: option.splits)
qed

lemma not_running_emits [emits_rules]:
  "sup.emits P (not_running addon slug)" "http.emits Q (not_running addon slug)" "sockets.emits K (not_running addon slug)"
  unfolding not_running_def by (auto intro!: sup.emits_bind http.emits_bind sockets.emits_bind emits_rules)

lemma call_api_emits [emits_rules]:
  "sup.emits (session_req env) (call_api env addon rs a)"
  "\<not> is_started addon \<Longrightarrow> http.emits Q (call_api env addon rs a)"
  "\<not> is_started addon \<Longrightarrow> sockets.emits K (call_api env addon rs a)"
  unfolding call_api_def by (auto intro!: sup.emits_bind emits_rules)

text \<open>The request each mode may make, for the resolved slug.\<close>

definition mode_req :: "addon_env \<Rightarrow> manage_args \<Rightarrow> string \<Rightarrow> sup_request \<Rightarrow> bool" where
  "mode_req env a rs p =
     (case j_action a of
        Some action \<Rightarrow> j_path a = None \<and> build_config_payload (j_config a) = [] \<and> action_req rs (action_key action) p
      | None \<Rightarrow>
          if build_config_payload (j_config a) \<noteq> [] then j_path a = None \<and> options_req rs p
          else session_req env p)"

lemma is_space_lower [simp]: "is_space (lower_char c) = is_space c"
proof (cases "is_upper_ascii c \<or> (192 \<le> ord c \<and> ord c \<le> 222 \<and> ord c \<noteq> 215)")
  case True
  then have "ord (lower_char c) = ord c + 32" by (auto simp: lower_char_def is_upper_ascii_def)
  with True show ?thesis by (auto simp: is_space_def is_upper_ascii_def)
next
  case False
  then have "lower_char c = c" unfolding lower_char_def by (rule if_not_P)
  then show ?thesis by simp
qed

lemma str_lower_strip: "str_lower (str_strip s) = str_strip (str_lower s)"
  by (simp add: str_strip_def str_lower_def rstrip_by_def lstrip_by_def dropWhile_map rev_map comp_def)

lemma action_key_idem [simp]: "action_key (action_key s) = action_key s"
  by (simp add: action_key_def str_lower_strip)

lemma manage_resolved_emits: "sup.emits (mode_req env a rs) (manage_resolved env addon rs a)"
proof (cases "j_action a")
  case (Some action)
  then show ?thesis
    by (auto simp: manage_resolved_def Let_def mode_req_def intro!: emits_rules
        sup.emits_weaken [OF execute_action_emits(1)])
next
  case None
  show ?thesis
  proof (cases "build_config_payload (j_config a) = []")
    case True
    with None show ?thesis
      by (auto simp: manage_resolved_def Let_def mode_req_def intro!: sup.emits_weaken [OF call_api_emits(1)])
  next
    case False
    with None show ?thesis
      by (auto simp: manage_resolved_def Let_def mode_req_def intro!: emits_rules
          sup.emits_weaken [OF execute_config_update_emits(1)])
  qed
qed

lemma manage_resolved_quiet:
  assumes "j_action a \<noteq> None \<or> build_config_payload (j_config a) \<noteq> [] \<or> \<not> is_started addon"
  shows "http.emits Q (manage_resolved env addon rs a)" "sockets.emits K (manage_resolved env addon rs a)"
  using assms by (auto simp: manage_resolved_def Let_def intro!: emits_rules split: option.splits)

text \<open>What may be installed by its name alone.\<close>

definition install_req :: "manage_args \<Rightarrow> sup_request \<Rightarrow> bool" where
  "install_req a p \<longleftrightarrow> map_option action_key (j_action a) = Some ''install'' \<and> has_slug (j_slug a)
     \<and> has_esphome (the (j_slug a)) \<and> j_path a = None \<and> build_config_payload (j_config a) = []
     \<and> action_req (the (j_slug a)) ''install'' p"

lemma action_key_install: "action_key ''install'' = ''install''"
  by code_simp

lemma manage_install_emits:
  assumes "map_option action_key (j_action a) = Some ''install''" "has_slug (j_slug a)"
  shows "sup.emits (install_req a) (manage_install env (the (j_slug a)) a)"
    "http.emits Q (manage_install env (the (j_slug a)) a)" "sockets.emits K (manage_install env (the (j_slug a)) a)"
proof -
  have "sup.emits (action_req (the (j_slug a)) ''install'') (execute_action env (the (j_slug a)) ''install'')"
    using execute_action_emits(1) [of "the (j_slug a)" "''install''" env] by (simp add: action_key_install)
  with assms show "sup.emits (install_req a) (manage_install env (the (j_slug a)) a)"
    by (auto simp: manage_install_def install_req_def intro!: emits_rules elim!: sup.emits_weaken)
  show "http.emits Q (manage_install env (the (j_slug a)) a)" "sockets.emits K (manage_install env (the (j_slug a)) a)"
    by (auto simp: manage_install_def intro!: emits_rules)
qed

text \<open>Past the installation by name, managing resolves and then acts on what was resolved.\<close>

lemma manage_resolves:
  assumes "manage_esphome_addon env a st = (r, st')"
    "\<not> (map_option action_key (j_action a) = Some ''install'' \<and> has_slug (j_slug a))"
  obtains e st1 where "resolve_esphome_addon env (j_slug a) st = (e, st1)" "st' = st1" "\<And>x. r \<noteq> Inr x"
  | addon st1 rs where "resolve_esphome_addon env (j_slug a) st = (Inr addon, st1)" "resolved_slug addon (j_slug a) = Inr rs"
      "manage_resolved env addon rs a st1 = (r, st')"
proof -
  obtain e st1 where res: "resolve_esphome_addon env (j_slug a) st = (e, st1)" by force
  have eq: "sbind (resolve_esphome_addon env (j_slug a)) (\<lambda>addon. sbind (slift (resolved_slug addon (j_slug a)))
      (\<lambda>rs. manage_resolved env addon rs a)) st = (r, st')"
    using assms(1) unfolding manage_esphome_addon_def if_not_P [OF assms(2)] .
  show ?thesis
  proof (cases e)
    case (Inl f)
    with eq res have "st' = st1" "r = Inl f" by auto
    with res show ?thesis by (intro that(1)) simp_all
  next
    case (Inr addon)
    show ?thesis
    proof (cases "resolved_slug addon (j_slug a)")
      case (Inl f)
      with Inr eq res have "st' = st1" "r = Inl f" by (auto simp: sbind_def)
      with res show ?thesis by (intro that(1)) simp_all
    next
      case (Inr rs)
      with \<open>e = Inr addon\<close> eq res have "manage_resolved env addon rs a st1 = (r, st')"
        by (auto simp: sbind_def)
      with Inr \<open>e = Inr addon\<close> res show ?thesis by (intro that(2)) simp_all
    qed
  qed
qed

text \<open>What resolving reads: the description of the add-on the caller named, and without a name the list
  of the installed add-ons and the description of the only one of them that looks like ESPHome.\<close>

definition info_req :: "string \<Rightarrow> sup_request" where
  "info_req slug = sup_req (''/addons/'' @ slug @ ''/info'') ''GET'' None 30"

definition only_esphome :: "addon_env \<Rightarrow> addon_state \<Rightarrow> string \<Rightarrow> bool" where
  "only_esphome env st s \<longleftrightarrow>
     (\<exists>vs st1 m v. list_addons env st = (Inr vs, st1) \<and> esphome_addons vs = [PDict m]
        \<and> map_of m ''slug'' = Some v \<and> py_str v = Inr s)"

definition resolving_req :: "addon_env \<Rightarrow> string option \<Rightarrow> addon_state \<Rightarrow> sup_request \<Rightarrow> bool" where
  "resolving_req env slug st p \<longleftrightarrow>
     (if has_slug slug then p = info_req (the slug)
      else p = sup_req ''/addons'' ''GET'' None 30 \<or> (\<exists>s. only_esphome env st s \<and> p = info_req s))"

lemma reading_emits:
  "sup.emits (\<lambda>p. p = info_req slug) (get_addon_info env slug)"
  "sup.emits (\<lambda>p. p = sup_req ''/addons'' ''GET'' None 30) (list_addons env)"
  unfolding get_addon_info_def list_addons_def info_req_def
  by (auto intro!: sup.emits_bind emits_rules split: option.splits pyval.splits)

lemma resolve_explicit_emits: "sup.emits (\<lambda>p. p = info_req slug) (resolve_explicit env slug)"
  unfolding resolve_explicit_def by (auto intro!: sup.emits_bind reading_emits emits_rules)

lemma resolve_reads:
  assumes "resolve_esphome_addon env slug st = (r, st')" "p \<in> set (drop (length (a_sup st)) (a_sup st'))"
  shows "resolving_req env slug st p"
proof (cases "has_slug slug")
  case True
  then obtain s where s: "slug = Some s" "s \<noteq> []" by (auto simp: has_slug_def split: option.splits)
  with assms(1) have "resolve_explicit env s st = (r, st')"
    by (cases s) (auto simp: resolve_esphome_addon_def)
  from sup.emits_mem [OF resolve_explicit_emits this assms(2)] True s show ?thesis by (simp add: resolving_req_def)
next
  case False
  obtain l st1 where list: "list_addons env st = (l, st1)" by force
  from sup.emitsD [OF reading_emits(2) list] obtain qs where qs: "a_sup st1 = a_sup st @ qs"
    "list_all (\<lambda>p. p = sup_req ''/addons'' ''GET'' None 30) qs" by blast
  show ?thesis
  proof (cases "st' = st1")
    case True
    with qs assms(2) False show ?thesis by (auto simp: resolving_req_def list_all_iff)
  next
    case moved: False
    from False have "resolve_esphome_addon env slug = resolve_esphome_addon env None"
      by (auto simp: resolve_esphome_addon_def has_slug_def split: option.splits list.splits)
    with assms(1) list moved obtain vs m v sid where found: "l = Inr vs" "esphome_matches vs = Inr [m]"
      "map_of m ''slug'' = Some v" "str_of v = Inr sid" "get_addon_info env sid st1 = (r, st')"
      by (auto simp: resolve_esphome_addon_def sbind_def fail_def split: sum.splits list.splits option.splits)
    from esphome_matches_spec [OF found(2)] have "esphome_addons vs = [PDict m]" by (simp add: esphome_addons_def)
    moreover from found(4) have "py_str v = Inr sid" by (simp add: str_of_def split: sum.splits)
    ultimately have only: "only_esphome env st sid" using list found(1,3) by (auto simp: only_esphome_def)
    from sup.emitsD [OF reading_emits(1) found(5)] obtain ps where
      "a_sup st' = a_sup st1 @ ps" "list_all (\<lambda>p. p = info_req sid) ps" by blast
    with qs assms(2) False only show ?thesis by (auto simp: resolving_req_def list_all_iff)
  qed
qed

text \<open>C9: Every request that managing the add-on makes to the Supervisor is one of these, in one mode at
  a time. It installs an add-on whose slug names ESPHome, and reads nothing first. Otherwise it is
  a read that resolves the add-on: the description of the add-on the caller named, or the list
  of the add-ons and the description of the only one that looks like ESPHome. Only when that has
  led to an add-on that looks like ESPHome, by its description or by its entry in the list, is
  there any other request, and it is about the resolved slug: the lifecycle action asked for,
  when neither a path nor configuration is given; the submission of its options, when no action
  and no path is given; or the ingress session of a call to its API, when neither an action nor
  configuration is given.\<close>

theorem manage_confined:
  assumes "manage_esphome_addon env a st = (r, st')" "p \<in> set (drop (length (a_sup st)) (a_sup st'))"
  shows "install_req a p
     \<or> \<not> (map_option action_key (j_action a) = Some ''install'' \<and> has_slug (j_slug a))
       \<and> (resolving_req env (j_slug a) st p
          \<or> (\<exists>addon st1 rs. resolve_esphome_addon env (j_slug a) st = (Inr addon, st1)
               \<and> (if has_slug (j_slug a) then looks_like_esphome_addon addon = Inr True else \<exists>s. only_esphome env st s)
               \<and> resolved_slug addon (j_slug a) = Inr rs \<and> mode_req env a rs p))"
proof (cases "map_option action_key (j_action a) = Some ''install'' \<and> has_slug (j_slug a)")
  case True
  with assms(1) have "manage_install env (the (j_slug a)) a st = (r, st')" by (simp add: manage_esphome_addon_def)
  from sup.emits_mem [OF manage_install_emits(1) this assms(2)] True show ?thesis by simp
next
  case False
  from assms(1) this show ?thesis
  proof (cases rule: manage_resolves)
    case (1 e st1)
    with resolve_reads [OF 1(1)] assms(2) False show ?thesis by blast
  next
    case (2 addon st1 rs)
    from sup.emitsD [OF resolve_esphome_addon_emits(1) 2(1)] obtain ps where ps: "a_sup st1 = a_sup st @ ps" by blast
    from sup.emitsD [OF manage_resolved_emits 2(3)] obtain qs where
      qs: "a_sup st' = a_sup st1 @ qs" "list_all (mode_req env a rs) qs" by blast
    have esphome: "if has_slug (j_slug a) then looks_like_esphome_addon addon = Inr True else \<exists>s. only_esphome env st s"
      using resolve_found [OF 2(1)] by (auto simp: has_slug_def only_esphome_def)
    from ps qs assms(2) consider "p \<in> set ps" | "p \<in> set qs" by auto
    then show ?thesis
    proof cases
      case 1
      with resolve_reads [OF 2(1), of p] ps False show ?thesis by simp
    next
      case p: 2
      with qs(2) have "mode_req env a rs p" by (auto simp: list_all_iff)
      with 2 False esphome show ?thesis by blast
    qed
  qed
qed

text \<open>The add-on's own API is reached, over HTTP or over a WebSocket, only when the call names
  neither an action nor configuration, and only while the resolved ESPHome add-on is started.\<close>

theorem api_needs_started:
  assumes "manage_esphome_addon env a st = (r, st')" "a_http st' \<noteq> a_http st \<or> a_sockets st' \<noteq> a_sockets st"
  shows "j_action a = None \<and> build_config_payload (j_config a) = []
     \<and> (\<exists>addon st1. resolve_esphome_addon env (j_slug a) st = (Inr addon, st1) \<and> is_started addon)"
proof (cases "map_option action_key (j_action a) = Some ''install'' \<and> has_slug (j_slug a)")
  case True
  with assms(1) have "manage_install env (the (j_slug a)) a st = (r, st')" by (simp add: manage_esphome_addon_def)
  with http.emitsD [OF manage_install_emits(2), of a env st r st' "\<lambda>_. False"]
    sockets.emitsD [OF manage_install_emits(3), of a env st r st' "\<lambda>_. False"] True assms(2)
  show ?thesis by (auto simp: list_all_iff)
next
  case False
  from assms(1) this show ?thesis
  proof (cases rule: manage_resolves)
    case (1 e st1)
    with http.emitsD [OF resolve_esphome_addon_emits(2) 1(1), of "\<lambda>_. False"]
      sockets.emitsD [OF resolve_esphome_addon_emits(3) 1(1), of "\<lambda>_. False"] assms(2)
    show ?thesis by (auto simp: list_all_iff)
  next
    case (2 addon st1 rs)
    have same: "a_http st1 = a_http st" "a_sockets st1 = a_sockets st"
      using http.emitsD [OF resolve_esphome_addon_emits(2) 2(1), of "\<lambda>_. False"]
        sockets.emitsD [OF resolve_esphome_addon_emits(3) 2(1), of "\<lambda>_. False"] by (auto simp: list_all_iff)
    have "j_action a = None \<and> build_config_payload (j_config a) = [] \<and> is_started addon"
    proof (rule ccontr)
      assume "\<not> (j_action a = None \<and> build_config_payload (j_config a) = [] \<and> is_started addon)"
      then have "j_action a \<noteq> None \<or> build_config_payload (j_config a) \<noteq> [] \<or> \<not> is_started addon" by argo
      from http.emitsD [OF manage_resolved_quiet(1) [OF this] 2(3), of "\<lambda>_. False"]
        sockets.emitsD [OF manage_resolved_quiet(2) [OF this] 2(3), of "\<lambda>_. False"] same assms(2)
      show False by (auto simp: list_all_iff)
    qed
    with 2(1) show ?thesis by blast
  qed
qed

definition lab_manage :: "string option \<Rightarrow> string option \<Rightarrow> manage_args" where
  "lab_manage action path =
     \<lparr>j_slug = None, j_action = action, j_path = path, j_method = ''get'', j_body = PNone, j_websocket = False,
      j_wait_for_close = False, j_message_limit = None, j_message_offset = 0,
      j_config = \<lparr>g_options = None, g_network = None, g_boot = None, g_auto_update = None, g_watchdog = None\<rparr>,
      j_port = None, j_timeout = 30, j_debug = False, j_request_headers = None\<rparr>"

lemma manage_confined_witness:
  "\<exists>addon st1 rs p. p \<in> set (a_sup (snd (manage_esphome_addon lab_env (lab_manage (Some '' Restart'') None) lab_start)))
     \<and> resolve_esphome_addon lab_env None lab_start = (Inr addon, st1) \<and> action_req rs ''restart'' p"
proof -
  let ?a = "lab_manage (Some '' Restart'') None"
  let ?p = "sup_req ''/addons/a0_esphome/restart'' ''POST'' None 120"
  let ?run = "manage_esphome_addon lab_env ?a lab_start"
  have last: "last (a_sup (snd ?run)) = ?p" "a_sup (snd ?run) \<noteq> []" by code_simp+
  then have "?p \<in> set (a_sup (snd ?run))" by (metis last_in_set)
  then have mem: "?p \<in> set (drop (length (a_sup lab_start)) (a_sup (snd ?run)))" by (simp add: lab_start_def)
  have "\<not> install_req ?a ?p" by (simp add: install_req_def has_slug_def lab_manage_def)
  moreover have "\<not> is_get ?p" by simp
  then have "\<not> resolving_req lab_env (j_slug ?a) lab_start ?p"
    by (auto simp: resolving_req_def info_req_def is_get_def sup_req_def)
  ultimately have
    "\<exists>addon st1 rs. resolve_esphome_addon lab_env (j_slug ?a) lab_start = (Inr addon, st1)
          \<and> resolved_slug addon (j_slug ?a) = Inr rs \<and> mode_req lab_env ?a rs ?p"
    using manage_confined [OF prod.collapse [symmetric] mem] by blast
  moreover have "action_key '' Restart'' = ''restart''" by code_simp
  ultimately show ?thesis using mem by (auto simp: mode_req_def lab_manage_def lab_start_def)
qed

lemma api_needs_started_witness:
  "\<exists>addon st1. resolve_esphome_addon lab_env None lab_start = (Inr addon, st1) \<and> is_started addon
     \<and> a_http (snd (manage_esphome_addon lab_env (lab_manage None (Some ''/devices'')) lab_start)) \<noteq> []"
proof -
  let ?a = "lab_manage None (Some ''/devices'')"
  let ?run = "manage_esphome_addon lab_env ?a lab_start"
  have sent: "a_http (snd ?run) \<noteq> []" by code_simp
  then have "a_http (snd ?run) \<noteq> a_http lab_start \<or> a_sockets (snd ?run) \<noteq> a_sockets lab_start" by (simp add: lab_start_def)
  from api_needs_started [OF prod.collapse [symmetric] this] sent show ?thesis by (auto simp: lab_manage_def)
qed

end
