(* ===== verification/Registry.thy ===== *)
theory Registry
  imports AddonTools "HOL-Library.Char_ord" "HOL-Library.List_Lexorder"
begin

text \<open>
  The part of \<open>server.py\<close> that reports what Home Assistant knows of ESPHome: the snapshot of its
  registries, the filters of the two listing tools, and the overview. The registries are the
  parameter \<open>ha_registry\<close>; a Python set is given by a list of its elements in any order.
\<close>

section \<open>The registries\<close>

record ha_entry =
  x_entry_id :: string
  x_title :: string
  x_state :: string
  x_disabled :: "string option"

datatype device_entries = OneEntry "string option" | ManyEntries "string list"

record ha_device =
  l_id :: string
  l_name_by_user :: "string option"
  l_name :: "string option"
  l_manufacturer :: "string option"
  l_model :: "string option"
  l_sw_version :: "string option"
  l_area :: "string option"
  l_entries :: device_entries
  l_identifiers :: "(string \<times> string) list"

record ha_entity =
  f_entity_id :: string
  f_name :: "string option"
  f_original_name :: "string option"
  f_device_id :: "string option"
  f_platform :: "string option"
  f_config_entry :: "string option"
  f_disabled :: "string option"

record ha_registry =
  r_entries :: "ha_entry list"
  r_devices :: "ha_device list"
  r_entities :: "ha_entity list"
  r_states :: "string \<Rightarrow> string option"
  r_fastmcp_version :: "string option"

definition str_or_none :: "string option \<Rightarrow> pyval" where
  "str_or_none v = (case v of Some s \<Rightarrow> PStr s | None \<Rightarrow> PNone)"

text \<open>\<open>a or b\<close> on optional texts\<close>

definition text_or :: "string option \<Rightarrow> string option \<Rightarrow> string option" where
  "text_or a b = (case a of Some (c # s) \<Rightarrow> Some (c # s) | _ \<Rightarrow> b)"

section \<open>The snapshot\<close>

definition entry_ids :: "ha_registry \<Rightarrow> string list" where
  "entry_ids reg = map x_entry_id (r_entries reg)"

definition entry_states :: "ha_registry \<Rightarrow> (string \<times> string) list" where
  "entry_states reg = dict_of (map (\<lambda>e. (x_entry_id e, x_state e)) (r_entries reg))"

definition device_config_entries :: "ha_device \<Rightarrow> string list" where
  "device_config_entries d =
     (case l_entries d of
        OneEntry (Some (c # s)) \<Rightarrow> [c # s]
      | OneEntry _ \<Rightarrow> []
      | ManyEntries es \<Rightarrow> sort (remdups es))"

definition device_identifiers :: "ha_device \<Rightarrow> string list list" where
  "device_identifiers d = sort (remdups (map (\<lambda>(a, b). [a, b]) (l_identifiers d)))"

definition is_esphome_device :: "ha_registry \<Rightarrow> ha_device \<Rightarrow> bool" where
  "is_esphome_device reg d \<longleftrightarrow>
     list_ex (\<lambda>e. e \<in> set (entry_ids reg)) (device_config_entries d)
     \<or> list_ex (\<lambda>(a, b). a = ''esphome'') (l_identifiers d)"

definition device_name :: "ha_device \<Rightarrow> string option" where
  "device_name d = text_or (l_name_by_user d) (l_name d)"

definition device_dict :: "ha_registry \<Rightarrow> ha_device \<Rightarrow> pydict" where
  "device_dict reg d =
     [(''id'', PStr (l_id d)), (''name'', str_or_none (device_name d)),
      (''manufacturer'', str_or_none (l_manufacturer d)), (''model'', str_or_none (l_model d)),
      (''sw_version'', str_or_none (l_sw_version d)), (''area'', str_or_none (l_area d)),
      (''config_entries'', PList (map PStr (device_config_entries d))),
      (''config_entry_states'', PList (map PStr (List.map_filter (map_of (entry_states reg))
         (filter (\<lambda>e. e \<in> set (entry_ids reg)) (device_config_entries d))))),
      (''identifiers'', PList (map (\<lambda>i. PList (map PStr i)) (device_identifiers d)))]"

definition device_key :: "ha_device \<Rightarrow> string list" where
  "device_key d = [case device_name d of Some n \<Rightarrow> n | None \<Rightarrow> [], l_id d]"

definition snapshot_devices :: "ha_registry \<Rightarrow> pydict list" where
  "snapshot_devices reg =
     map (device_dict reg) (sort_key device_key (filter (is_esphome_device reg) (r_devices reg)))"

definition is_esphome_entity :: "ha_registry \<Rightarrow> ha_entity \<Rightarrow> bool" where
  "is_esphome_entity reg e \<longleftrightarrow>
     f_platform e = Some ''esphome'' \<or> (\<exists>i \<in> set (entry_ids reg). f_config_entry e = Some i)"

definition entity_dict :: "ha_registry \<Rightarrow> ha_entity \<Rightarrow> pydict" where
  "entity_dict reg e =
     [(''entity_id'', PStr (f_entity_id e)), (''domain'', PStr (fst (partition_at CHR ''.'' (f_entity_id e)))),
      (''name'', str_or_none (f_name e)), (''original_name'', str_or_none (f_original_name e)),
      (''device_id'', str_or_none (f_device_id e)), (''platform'', str_or_none (f_platform e)),
      (''disabled_by'', str_or_none (f_disabled e)), (''state'', str_or_none (r_states reg (f_entity_id e)))]"

definition snapshot_entities :: "ha_registry \<Rightarrow> pydict list" where
  "snapshot_entities reg =
     map (entity_dict reg) (sort_key f_entity_id (filter (is_esphome_entity reg) (r_entities reg)))"

definition entry_dict :: "ha_entry \<Rightarrow> pydict" where
  "entry_dict e =
     [(''entry_id'', PStr (x_entry_id e)), (''title'', PStr (x_title e)), (''state'', PStr (x_state e)),
      (''disabled_by'', str_or_none (x_disabled e))]"

definition server_version :: string where "server_version = ''2.2.1''"

definition overview :: "ha_registry \<Rightarrow> pyval" where
  "overview reg =
     PDict [(''success'', PBool True), (''integration_domain'', PStr ''esphome''), (''mcp_domain'', PStr ''esphome_mcp''),
       (''server_version'', PStr server_version), (''fastmcp_version'', str_or_none (r_fastmcp_version reg)),
       (''config_entry_count'', PInt (int (length (map entry_dict (r_entries reg))))),
       (''device_count'', PInt (int (length (snapshot_devices reg)))),
       (''entity_count'', PInt (int (length (snapshot_entities reg))))]"

section \<open>The filters\<close>

definition matches_query :: "pydict \<Rightarrow> string option \<Rightarrow> bool py" where
  "matches_query payload query =
     (case query of
        Some (c # q) \<Rightarrow> py_bind (json_text (PDict payload)) (\<lambda>t. Inr (str_in (str_lower (c # q)) (str_lower t)))
      | _ \<Rightarrow> Inr True)"

fun any_contains :: "string \<Rightarrow> pyval list \<Rightarrow> bool py" where
  "any_contains needle [] = Inr False"
| "any_contains needle (v # vs) =
     py_bind (py_str v) (\<lambda>s. if str_in needle (str_lower s) then Inr True else any_contains needle vs)"

definition matches_optional :: "pyval \<Rightarrow> string option \<Rightarrow> bool py" where
  "matches_optional value expected =
     (case expected of
        None \<Rightarrow> Inr True
      | Some e \<Rightarrow>
          (case value of
             PList vs \<Rightarrow> any_contains (str_lower e) vs
           | _ \<Rightarrow> py_bind (if truthy value then py_str value else Inr []) (\<lambda>s. Inr (str_in (str_lower e) (str_lower s)))))"

text \<open>\<open>p and q and ...\<close> over tests that may raise\<close>

fun py_all :: "bool py list \<Rightarrow> bool py" where
  "py_all [] = Inr True"
| "py_all (p # ps) = py_bind p (\<lambda>b. if b then py_all ps else Inr False)"

definition clamp :: "int \<Rightarrow> int \<Rightarrow> nat" where
  "clamp limit cap = nat (max 0 (min limit cap))"

definition listing :: "string \<Rightarrow> pydict list \<Rightarrow> pyval" where
  "listing what items = PDict [(''success'', PBool True), (''count'', PInt (int (length items))), (what, PList (map PDict items))]"

definition esp_list_devices ::
  "ha_registry \<Rightarrow> string option \<Rightarrow> string option \<Rightarrow> string option \<Rightarrow> int \<Rightarrow> pyval py" where
  "esp_list_devices reg query area config_entry_state limit =
     py_bind (py_filter (\<lambda>d. py_all [matches_query d query, matches_optional (get_or_none d ''area'') area,
                  matches_optional (get_or_none d ''config_entry_states'') config_entry_state]) (snapshot_devices reg))
       (\<lambda>devices. Inr (listing ''devices'' (take (clamp limit 500) devices)))"

definition esp_list_entities ::
  "ha_registry \<Rightarrow> string option \<Rightarrow> string option \<Rightarrow> string option \<Rightarrow> string option \<Rightarrow> bool option \<Rightarrow> int \<Rightarrow> pyval py" where
  "esp_list_entities reg query domain device_id state disabled limit =
     py_bind (py_filter (\<lambda>e. py_all [matches_query e query, matches_optional (get_or_none e ''domain'') domain,
                  matches_optional (get_or_none e ''device_id'') device_id, matches_optional (get_or_none e ''state'') state,
                  Inr (disabled = None \<or> disabled = Some (truthy (get_or_none e ''disabled_by'')))]) (snapshot_entities reg))
       (\<lambda>entities. Inr (listing ''entities'' (take (clamp limit 1000) entities)))"

section \<open>What a listing holds\<close>

lemma py_filter_pure:
  "(\<And>x. x \<in> set xs \<Longrightarrow> p x = Inr (P x)) \<Longrightarrow> py_filter p xs = Inr (filter P xs)"
  by (induction xs) auto

text \<open>A query is in the serialised item; an optional filter is in one of the texts of a field.\<close>

definition query_hit :: "string option \<Rightarrow> pydict \<Rightarrow> bool" where
  "query_hit query d \<longleftrightarrow> query \<in> {None, Some []} \<or> str_in (str_lower (the query)) (str_lower (json_default (PDict d)))"

definition field_hit :: "string option \<Rightarrow> string list \<Rightarrow> bool" where
  "field_hit expected texts \<longleftrightarrow> expected = None \<or> list_ex (\<lambda>t. str_in (str_lower (the expected)) (str_lower t)) texts"

definition text_or_empty :: "string option \<Rightarrow> string" where
  "text_or_empty v = (case v of Some s \<Rightarrow> s | None \<Rightarrow> [])"

lemma matches_query_pure: "plain_floats (PDict d) \<Longrightarrow> matches_query d query = Inr (query_hit query d)"
  by (auto simp: matches_query_def query_hit_def json_text_def split: option.splits list.splits)

lemma any_contains_texts: "any_contains needle (map PStr ts) = Inr (list_ex (\<lambda>t. str_in needle (str_lower t)) ts)"
  by (induction ts) auto

lemma matches_optional_texts:
  "matches_optional (PList (map PStr ts)) expected = Inr (field_hit expected ts)"
  by (auto simp: matches_optional_def field_hit_def any_contains_texts split: option.splits)

lemma matches_optional_text: "matches_optional (str_or_none v) expected = Inr (field_hit expected [text_or_empty v])"
  by (cases v; cases expected) (auto simp: matches_optional_def field_hit_def str_or_none_def text_or_empty_def truthy_def)

lemma plain_str_or_none [simp]: "plain_floats (str_or_none v)"
  by (simp add: str_or_none_def split: option.splits)

lemma device_dict_plain: "plain_floats (PDict (device_dict reg d))"
  by (auto simp: device_dict_def)

lemma entity_dict_plain: "plain_floats (PDict (entity_dict reg e))"
  by (auto simp: entity_dict_def)

text \<open>What a device has to be, for the filters of a call.\<close>

definition device_wanted ::
  "ha_registry \<Rightarrow> string option \<Rightarrow> string option \<Rightarrow> string option \<Rightarrow> ha_device \<Rightarrow> bool" where
  "device_wanted reg query area entry_state d \<longleftrightarrow> is_esphome_device reg d \<and> query_hit query (device_dict reg d)
     \<and> field_hit area [text_or_empty (l_area d)]
     \<and> field_hit entry_state (List.map_filter (map_of (entry_states reg))
         (filter (\<lambda>e. e \<in> set (entry_ids reg)) (device_config_entries d)))"

text \<open>C26: Listing devices never raises, and gives exactly the ESPHome devices of Home Assistant's
  registry that pass every filter, each once, ordered by name and then id, cut to the clamped
  limit.\<close>

theorem device_listing_exact:
  "esp_list_devices reg query area entry_state limit
     = Inr (listing ''devices'' (take (clamp limit 500) (map (device_dict reg)
         (sort_key device_key (filter (device_wanted reg query area entry_state) (r_devices reg))))))"
proof -
  define P where "P = (\<lambda>d :: ha_device. query_hit query (device_dict reg d)
     \<and> field_hit area [text_or_empty (l_area d)]
     \<and> field_hit entry_state (List.map_filter (map_of (entry_states reg))
         (filter (\<lambda>e. e \<in> set (entry_ids reg)) (device_config_entries d))))"
  have test: "py_all [matches_query d query, matches_optional (get_or_none d ''area'') area,
                  matches_optional (get_or_none d ''config_entry_states'') entry_state] = Inr (P x)"
    if "d = device_dict reg x" for d x
  proof -
    have "get_or_none d ''area'' = str_or_none (l_area x)" "get_or_none d ''config_entry_states'' =
        PList (map PStr (List.map_filter (map_of (entry_states reg))
         (filter (\<lambda>e. e \<in> set (entry_ids reg)) (device_config_entries x))))"
      by (simp_all add: that get_or_none_def dict_get_def device_dict_def)
    moreover have "matches_query d query = Inr (query_hit query d)"
      unfolding that by (rule matches_query_pure) (rule device_dict_plain)
    ultimately show ?thesis by (simp add: P_def matches_optional_text matches_optional_texts that)
  qed
  have pure: "py_filter (\<lambda>d. py_all [matches_query d query, matches_optional (get_or_none d ''area'') area,
          matches_optional (get_or_none d ''config_entry_states'') entry_state]) (map (device_dict reg) ds)
      = Inr (map (device_dict reg) (filter P ds))" for ds
    by (induction ds) (simp_all add: test [OF refl] del: py_all.simps)
  have "filter P (sort_key device_key (filter (is_esphome_device reg) (r_devices reg)))
      = sort_key device_key (filter (device_wanted reg query area entry_state) (r_devices reg))"
    by (simp add: filter_sort P_def device_wanted_def [abs_def])
  then show ?thesis by (simp add: esp_list_devices_def snapshot_devices_def pure del: py_all.simps)
qed

section \<open>A query that cannot be found\<close>

text \<open>
  The text searched is JSON with every character outside ASCII escaped, so a query with such a
  character is not found, not even in a device of that very name.
\<close>

lemma str_in_subset: "str_in p s \<Longrightarrow> set p \<subseteq> set s"
proof (induction p s rule: str_in.induct)
  case (2 p c s)
  show ?case
  proof (cases "startswith (c # s) p")
    case True
    then obtain t where "c # s = p @ t" by (auto simp: startswith_iff)
    then show ?thesis by (metis Un_upper1 set_append)
  next
    case False
    with 2 show ?thesis by auto
  qed
qed simp

lemma lower_json_char: "json_char c \<Longrightarrow> ord (lower_char c) < 128"
proof -
  assume c: "json_char c"
  then have "ord c < 127" by (simp add: json_char_def)
  then show ?thesis by (auto simp: lower_char_def is_upper_ascii_def)
qed

lemma non_ascii_query_misses:
  assumes "json_ok (PDict d)" "c \<in> set q" "128 \<le> ord (lower_char c)"
  shows "\<not> query_hit (Some q) d"
proof
  assume "query_hit (Some q) d"
  moreover from assms(2) have "q \<noteq> []" by auto
  ultimately have "set (str_lower q) \<subseteq> set (str_lower (json_default (PDict d)))"
    by (auto simp: query_hit_def dest: str_in_subset)
  with assms(2) obtain x where x: "x \<in> set (json_default (PDict d))" "lower_char c = lower_char x"
    by (auto simp: str_lower_def)
  have "list_all json_char (json_default (PDict d))"
    unfolding json_default_def using assms(1) by (intro dumps_json) (simp_all add: json_char_def ord_def)
  with x have "json_char x" by (simp add: list_all_iff)
  with lower_json_char [of x] x(2) assms(3) show False by simp
qed

end
