(* ===== verification/Filesystem.thy ===== *)
theory Filesystem
  imports Addon
begin

text \<open>
  \<open>filesystem_tools.py\<close>: creating a folder or a supporting file below the ESPHome configuration
  root, walking directory descriptors and never following a symbolic link. The operating system
  is modelled as a tree of inodes with the calls the code makes on it; any call, closing included,
  may also fail with an error of the environment's choosing (permissions, a full disk, another
  process that changed the path), so every error branch of the code can be taken.
\<close>

section \<open>The operating system\<close>

datatype errno = ENOENT | ELOOP | ENOTDIR | EEXIST | EOTHER

datatype node = Dir "(string \<times> nat) list" | Regular string | Symlink string

datatype os_op = OpOpen | OpMkdir | OpCreate | OpStat | OpFstat | OpFdopen | OpWrite | OpUnlink | OpClose

record fs =
  s_nodes :: "nat \<Rightarrow> node option" \<comment> \<open>by inode\<close>
  s_next :: nat
  s_open :: "nat list" \<comment> \<open>open descriptors, by the inode each refers to\<close>
  s_calls :: nat

record os_env =
  e_fault :: "os_op \<Rightarrow> nat \<Rightarrow> errno option" \<comment> \<open>does the n-th call fail\<close>
  e_nofollow :: errno \<comment> \<open>opening a link as a directory: \<open>ELOOP\<close> or \<open>ENOTDIR\<close>\<close>
  e_text :: "errno \<Rightarrow> nat \<Rightarrow> string" \<comment> \<open>\<open>str(err)\<close> of an error, when so many calls were made\<close>

definition os_call :: "os_env \<Rightarrow> os_op \<Rightarrow> (fs \<Rightarrow> (errno + 'a) \<times> fs) \<Rightarrow> fs \<Rightarrow> (errno + 'a) \<times> fs" where
  "os_call env op m st =
     (case e_fault env op (s_calls st) of
        Some e \<Rightarrow> (Inl e, st\<lparr>s_calls := Suc (s_calls st)\<rparr>)
      | None \<Rightarrow> m (st\<lparr>s_calls := Suc (s_calls st)\<rparr>))"

definition entry :: "fs \<Rightarrow> nat \<Rightarrow> string \<Rightarrow> nat option" where
  "entry st d name = (case s_nodes st d of Some (Dir es) \<Rightarrow> map_of es name | _ \<Rightarrow> None)"

definition open_fd :: "nat \<Rightarrow> fs \<Rightarrow> fs" where
  "open_fd i st = st\<lparr>s_open := i # s_open st\<rparr>"

text \<open>Closing releases the descriptor, also when it fails.\<close>

definition os_close :: "os_env \<Rightarrow> nat \<Rightarrow> fs \<Rightarrow> (errno + unit) \<times> fs" where
  "os_close env i st =
     (case e_fault env OpClose (s_calls st) of Some e \<Rightarrow> Inl e | None \<Rightarrow> Inr (),
      st\<lparr>s_calls := Suc (s_calls st), s_open := remove1 i (s_open st)\<rparr>)"

definition os_open_dir :: "os_env \<Rightarrow> nat \<Rightarrow> string \<Rightarrow> fs \<Rightarrow> (errno + nat) \<times> fs" where
  "os_open_dir env d name = os_call env OpOpen (\<lambda>st.
     case entry st d name of
       None \<Rightarrow> (Inl ENOENT, st)
     | Some i \<Rightarrow>
         (case s_nodes st i of
            Some (Dir _) \<Rightarrow> (Inr i, open_fd i st)
          | Some (Symlink _) \<Rightarrow> (Inl (e_nofollow env), st)
          | _ \<Rightarrow> (Inl ENOTDIR, st)))"

definition link_new :: "nat \<Rightarrow> string \<Rightarrow> node \<Rightarrow> fs \<Rightarrow> fs" where
  "link_new d name node st =
     (case s_nodes st d of
        Some (Dir es) \<Rightarrow>
          st\<lparr>s_nodes := (s_nodes st)(s_next st := Some node, d := Some (Dir (es @ [(name, s_next st)]))),
             s_next := Suc (s_next st)\<rparr>
      | _ \<Rightarrow> st)"

definition is_dir :: "fs \<Rightarrow> nat \<Rightarrow> bool" where
  "is_dir st d = (case s_nodes st d of Some (Dir _) \<Rightarrow> True | _ \<Rightarrow> False)"

definition os_mkdir :: "os_env \<Rightarrow> nat \<Rightarrow> string \<Rightarrow> fs \<Rightarrow> (errno + unit) \<times> fs" where
  "os_mkdir env d name = os_call env OpMkdir (\<lambda>st.
     if \<not> is_dir st d then (Inl ENOTDIR, st)
     else if entry st d name \<noteq> None then (Inl EEXIST, st)
     else (Inr (), link_new d name (Dir []) st))"

text \<open>\<open>O_WRONLY | O_CREAT | O_EXCL | O_NOFOLLOW\<close>: an existing name, a link included, is \<open>EEXIST\<close>.\<close>

definition os_create :: "os_env \<Rightarrow> nat \<Rightarrow> string \<Rightarrow> fs \<Rightarrow> (errno + nat) \<times> fs" where
  "os_create env d name = os_call env OpCreate (\<lambda>st.
     if \<not> is_dir st d then (Inl ENOTDIR, st)
     else if entry st d name \<noteq> None then (Inl EEXIST, st)
     else (Inr (s_next st), open_fd (s_next st) (link_new d name (Regular []) st)))"

text \<open>\<open>os.stat(name, dir_fd=d, follow_symlinks=False)\<close>: whether it is a link, and the inode.\<close>

definition os_stat :: "os_env \<Rightarrow> nat \<Rightarrow> string \<Rightarrow> fs \<Rightarrow> (errno + (bool \<times> nat)) \<times> fs" where
  "os_stat env d name = os_call env OpStat (\<lambda>st.
     case entry st d name of
       None \<Rightarrow> (Inl ENOENT, st)
     | Some i \<Rightarrow> (Inr ((case s_nodes st i of Some (Symlink _) \<Rightarrow> True | _ \<Rightarrow> False), i), st))"

definition os_fstat :: "os_env \<Rightarrow> nat \<Rightarrow> fs \<Rightarrow> (errno + nat) \<times> fs" where
  "os_fstat env fd = os_call env OpFstat (\<lambda>st. (Inr fd, st))"

definition os_fdopen :: "os_env \<Rightarrow> nat \<Rightarrow> fs \<Rightarrow> (errno + unit) \<times> fs" where
  "os_fdopen env fd = os_call env OpFdopen (\<lambda>st. (Inr (), st))"

definition os_write :: "os_env \<Rightarrow> nat \<Rightarrow> string \<Rightarrow> fs \<Rightarrow> (errno + unit) \<times> fs" where
  "os_write env fd content = os_call env OpWrite (\<lambda>st.
     (Inr (), st\<lparr>s_nodes := (s_nodes st)(fd := Some (Regular content))\<rparr>))"

definition os_unlink :: "os_env \<Rightarrow> nat \<Rightarrow> string \<Rightarrow> fs \<Rightarrow> (errno + unit) \<times> fs" where
  "os_unlink env d name = os_call env OpUnlink (\<lambda>st.
     case s_nodes st d of
       Some (Dir es) \<Rightarrow>
         if map_of es name = None then (Inl ENOENT, st)
         else (Inr (), st\<lparr>s_nodes := (s_nodes st)(d := Some (Dir (dict_pop name es)))\<rparr>)
     | _ \<Rightarrow> (Inl ENOTDIR, st))"

section \<open>Creating a path\<close>

text \<open>A failure with its error code and message, or a success that says whether something was created.\<close>

datatype fs_result = Failure string string | Success bool

definition failure_answer :: "string \<Rightarrow> string \<Rightarrow> string \<Rightarrow> pyval" where
  \<comment> \<open>\<open>_failure\<close>\<close>
  "failure_answer path code message =
     PDict [(''success'', PBool False), (''error_code'', PStr code), (''error'', PStr message), (''path'', PStr path)]"

definition file_answer :: "string \<Rightarrow> fs_result \<Rightarrow> pyval" where
  "file_answer path r =
     (case r of
        Failure code message \<Rightarrow> failure_answer path code message
      | Success created \<Rightarrow> PDict [(''success'', PBool True), (''path'', PStr path), (''created'', PBool created)])"

definition invalid_path :: "string \<Rightarrow> bool" where
  "invalid_path path \<longleftrightarrow>
     path = [] \<or> list_ex (\<lambda>part. part \<in> {[], ''.'', ''..''} \<or> startswith part ''.'') (split_on CHR ''/'' path)
     \<or> chr 92 \<in> set path \<or> chr 0 \<in> set path"

definition device_yaml :: "string \<Rightarrow> bool" where
  "device_yaml path \<longleftrightarrow>
     (let parts = split_on CHR ''/'' path in
      length parts = 1 \<and>
      (endswith (str_lower (hd parts)) ''.yaml'' \<or> endswith (str_lower (hd parts)) ''.yml''))"

definition component_error :: "os_env \<Rightarrow> nat \<Rightarrow> string \<Rightarrow> fs \<Rightarrow> (errno + fs_result) \<times> fs" where
  "component_error env d name st =
     (case os_stat env d name st of
        (Inl ENOENT, st') \<Rightarrow>
          (Inr (Failure ''parent_not_found'' (''Parent folder '' @ repr_str name @ '' does not exist.'')), st')
      | (Inl e, st') \<Rightarrow> (Inl e, st')
      | (Inr (is_link, _), st') \<Rightarrow>
          (Inr (if is_link
                then Failure ''symlink_refused'' (''Symlink component '' @ repr_str name @ '' is not allowed.'')
                else Failure ''not_a_directory'' (''Parent component '' @ repr_str name @ '' is not a folder.'')), st'))"

definition mkdir_exist_ok :: "os_env \<Rightarrow> nat \<Rightarrow> string \<Rightarrow> fs \<Rightarrow> (errno + unit) \<times> fs" where
  "mkdir_exist_ok env d name st =
     (case os_mkdir env d name st of (Inl EEXIST, st') \<Rightarrow> (Inr (), st') | r \<Rightarrow> r)"

text \<open>
  The loop over the parents: it arrives at a descriptor, or it is stuck with an exception or an
  early answer; with what \<open>descriptor\<close> names then: an open descriptor, or none when closing it
  failed, since \<open>descriptor = child\<close> is not reached.
\<close>

datatype walked = Arrived nat | Stuck "errno + fs_result" "nat option"

fun walk :: "os_env \<Rightarrow> bool \<Rightarrow> nat \<Rightarrow> string list \<Rightarrow> fs \<Rightarrow> walked \<times> fs" where
  "walk env parents d [] st = (Arrived d, st)"
| "walk env parents d (part # parts) st =
     (case (if parents then mkdir_exist_ok env d part st else (Inr (), st)) of
        (Inl e, st1) \<Rightarrow> (Stuck (Inl e) (Some d), st1)
      | (Inr _, st1) \<Rightarrow>
          (case os_open_dir env d part st1 of
             (Inl e, st2) \<Rightarrow>
               (if e \<in> {ELOOP, ENOTDIR, ENOENT}
                then (case component_error env d part st2 of (r, st3) \<Rightarrow> (Stuck r (Some d), st3))
                else (Stuck (Inl e) (Some d), st2))
           | (Inr child, st2) \<Rightarrow>
               (case os_close env d st2 of
                  (Inl e, st3) \<Rightarrow> (Stuck (Inl e) None, st3)
                | (Inr _, st3) \<Rightarrow> walk env parents child parts st3)))"

definition changed_path :: fs_result where
  "changed_path = Failure ''filesystem_error'' ''The path changed during creation.''"

definition create_folder :: "os_env \<Rightarrow> nat \<Rightarrow> string \<Rightarrow> string \<Rightarrow> fs \<Rightarrow> (errno + fs_result) \<times> fs" where
  "create_folder env d name path st =
     (case os_mkdir env d name st of
        (Inr _, st1) \<Rightarrow> (Inr (Success True), st1)
      | (Inl e, st1) \<Rightarrow>
          (if e \<noteq> EEXIST then (Inl e, st1)
           else case os_open_dir env d name st1 of
             (Inr child, st2) \<Rightarrow>
               (case os_close env child st2 of
                  (Inl e2, st3) \<Rightarrow> (Inl e2, st3)
                | (Inr _, st3) \<Rightarrow> (Inr (Success False), st3))
           | (Inl e2, st2) \<Rightarrow>
               (if e2 \<notin> {ELOOP, ENOTDIR} then (Inl e2, st2)
                else case os_stat env d name st2 of
                  (Inl ENOENT, st3) \<Rightarrow> (Inr changed_path, st3)
                | (Inl e3, st3) \<Rightarrow> (Inl e3, st3)
                | (Inr (is_link, _), st3) \<Rightarrow>
                    (Inr (if is_link
                          then Failure ''symlink_refused'' (''Path '' @ repr_str path @ '' is a symlink and was not followed.'')
                          else Failure ''already_exists'' (''Path '' @ repr_str path @ '' already exists and is not a folder.'')),
                     st3))))"

text \<open>After a failed write: remove the name only if it still is the inode created here.\<close>

definition remove_created :: "os_env \<Rightarrow> nat \<Rightarrow> string \<Rightarrow> nat \<Rightarrow> errno \<Rightarrow> fs \<Rightarrow> (errno + fs_result) \<times> fs" where
  "remove_created env d name created e st =
     (case os_stat env d name st of
        (Inl ENOENT, st1) \<Rightarrow> (Inl e, st1)
      | (Inl e1, st1) \<Rightarrow> (Inl e1, st1)
      | (Inr (_, current), st1) \<Rightarrow>
          (if current \<noteq> created then (Inl e, st1)
           else case os_unlink env d name st1 of
             (Inl ENOENT, st2) \<Rightarrow> (Inl e, st2)
           | (Inl e2, st2) \<Rightarrow> (Inl e2, st2)
           | (Inr _, st2) \<Rightarrow> (Inl e, st2)))"

text \<open>\<open>with file: file.write(content)\<close>: the error of closing replaces that of writing.\<close>

definition write_and_close :: "os_env \<Rightarrow> nat \<Rightarrow> string \<Rightarrow> fs \<Rightarrow> (errno + unit) \<times> fs" where
  "write_and_close env fd content st =
     (case os_write env fd content st of
        (written, st1) \<Rightarrow>
          (case os_close env fd st1 of
             (Inl e, st2) \<Rightarrow> (Inl e, st2)
           | (Inr _, st2) \<Rightarrow> (written, st2)))"

definition create_file :: "os_env \<Rightarrow> nat \<Rightarrow> string \<Rightarrow> string \<Rightarrow> fs \<Rightarrow> (errno + fs_result) \<times> fs" where
  "create_file env d name content st =
     (case os_create env d name st of
        (Inl e, st1) \<Rightarrow>
          (if e \<noteq> EEXIST then (Inl e, st1)
           else case os_stat env d name st1 of
             (Inl ENOENT, st2) \<Rightarrow> (Inr changed_path, st2)
           | (Inl e2, st2) \<Rightarrow> (Inl e2, st2)
           | (Inr (is_link, _), st2) \<Rightarrow>
               (Inr (if is_link
                     then Failure ''symlink_refused'' ''The target is a symlink and was not followed.''
                     else Failure ''already_exists''
                       (''The path already exists and was left unchanged. Use esp_update_yaml for ''
                        @ ''existing device configurations; supporting files cannot be overwritten.'')), st2))
      | (Inr fd, st1) \<Rightarrow>
          (case os_fstat env fd st1 of
             (Inl e, st2) \<Rightarrow> (Inl e, st2)
           | (Inr created, st2) \<Rightarrow>
               (case os_fdopen env fd st2 of
                  (Inl e, st3) \<Rightarrow>
                    (case os_close env fd st3 of
                       (Inl e', st4) \<Rightarrow> (Inl e', st4)
                     | (Inr _, st4) \<Rightarrow> remove_created env d name created e st4)
                | (Inr _, st3) \<Rightarrow>
                    (case write_and_close env fd content st3 of
                       (Inl e, st4) \<Rightarrow> remove_created env d name created e st4
                     | (Inr _, st4) \<Rightarrow> (Inr (Success True), st4)))))"

definition os_failure :: "os_env \<Rightarrow> errno \<Rightarrow> fs \<Rightarrow> fs_result" where
  "os_failure env e st =
     (if e = ELOOP then Failure ''symlink_refused'' ''Symlink paths are not allowed.''
      else Failure ''filesystem_error'' (e_text env e (s_calls st)))"

definition settle :: "os_env \<Rightarrow> errno + fs_result \<Rightarrow> fs \<Rightarrow> fs_result" where
  "settle env r st = (case r of Inl e \<Rightarrow> os_failure env e st | Inr x \<Rightarrow> x)"

definition os_open_root :: "os_env \<Rightarrow> (errno + nat) \<Rightarrow> fs \<Rightarrow> (errno + nat) \<times> fs" where
  "os_open_root env base = os_call env OpOpen (\<lambda>st.
     case base of Inl e \<Rightarrow> (Inl e, st) | Inr d \<Rightarrow> (Inr d, open_fd d st))"

definition root_failure :: "os_env \<Rightarrow> errno \<Rightarrow> fs \<Rightarrow> fs_result" where
  "root_failure env e st =
     (if e = ENOENT then
        Failure ''esphome_dir_missing''
          (''Home Assistant'' @ [sq] @ ''s ESPHome config directory is missing; ensure it is the ''
           @ ''existing folder shared with Device Builder.'')
      else if e \<in> {ELOOP, ENOTDIR} then
        Failure ''symlink_refused'' ''The ESPHome config root must be a real folder.''
      else os_failure env e st)"

text \<open>
  \<open>finally: os.close(descriptor)\<close>: its error replaces the answer. A descriptor that was released
  before is not known to the system any more.
\<close>

definition finally_close :: "os_env \<Rightarrow> nat option \<Rightarrow> fs_result \<Rightarrow> fs \<Rightarrow> (errno + fs_result) \<times> fs" where
  "finally_close env d r st =
     (case (case d of Some i \<Rightarrow> os_close env i st | None \<Rightarrow> (Inl EOTHER, st)) of
        (Inl e, st') \<Rightarrow> (Inl e, st')
      | (Inr _, st') \<Rightarrow> (Inr r, st'))"

text \<open>
  \<open>base\<close> is what opening the configuration root gives. An exception leaves the operation only from
  its \<open>finally\<close> clause.
\<close>

definition create_path ::
  "os_env \<Rightarrow> (errno + nat) \<Rightarrow> string \<Rightarrow> bool \<Rightarrow> string option \<Rightarrow> fs \<Rightarrow> (errno + fs_result) \<times> fs" where
  "create_path env base path parents content st =
     (if invalid_path path
      then (Inr (Failure ''invalid_path'' ''Use a relative path without hidden names, empty parts, or traversal.''), st)
      else if content \<noteq> None \<and> device_yaml path
      then (Inr (Failure ''device_yaml_not_allowed''
             (''Create supporting files in a subfolder; use Device Builder and esp_update_yaml ''
              @ ''for device YAML configurations.'')), st)
      else
        (let parts = split_on CHR ''/'' path in
         case os_open_root env base st of
           (Inl e, st1) \<Rightarrow> (Inr (root_failure env e st1), st1)
         | (Inr d0, st1) \<Rightarrow>
             (case walk env parents d0 (butlast parts) st1 of
                (Stuck r d, st2) \<Rightarrow> finally_close env d (settle env r st2) st2
              | (Arrived d, st2) \<Rightarrow>
                  (case (case content of
                           None \<Rightarrow> create_folder env d (last parts) path st2
                         | Some text \<Rightarrow> create_file env d (last parts) text st2) of
                     (r, st3) \<Rightarrow> finally_close env (Some d) (settle env r st3) st3))))"

definition create_esphome_path ::
  "os_env \<Rightarrow> (errno + nat) \<Rightarrow> string \<Rightarrow> bool \<Rightarrow> string option \<Rightarrow> fs \<Rightarrow> pyval py \<times> fs" where
  "create_esphome_path env base path parents content st =
     (case create_path env base path parents content st of
        (Inl _, st') \<Rightarrow> (Inl OSError, st')
      | (Inr r, st') \<Rightarrow> (Inr (file_answer path r), st'))"

section \<open>Lemmas: what a call can change\<close>

text \<open>
  \<open>kept st st'\<close>: every file, link and directory entry of \<open>st\<close> is still there in \<open>st'\<close>, with the
  same content; only new entries for new inodes appeared. \<open>only_dir D st st'\<close>: of the old inodes
  only those in \<open>D\<close> changed.
\<close>

definition node_kept :: "nat \<Rightarrow> node \<Rightarrow> node option \<Rightarrow> bool" where
  "node_kept k n n' =
     (case n of
        Dir es \<Rightarrow> (\<exists>es'. n' = Some (Dir es') \<and>
          (\<forall>name j. (map_of es name = Some j \<longrightarrow> map_of es' name = Some j)
             \<and> (map_of es' name = Some j \<longrightarrow> map_of es name = Some j \<or> k \<le> j)))
      | _ \<Rightarrow> n' = Some n)"

definition kept :: "fs \<Rightarrow> fs \<Rightarrow> bool" where
  "kept st st' \<longleftrightarrow> s_next st \<le> s_next st' \<and>
     (\<forall>i n. s_nodes st i = Some n \<longrightarrow> node_kept (s_next st) n (s_nodes st' i))"

definition fs_ok :: "fs \<Rightarrow> bool" where
  "fs_ok st \<longleftrightarrow> (\<forall>i \<ge> s_next st. s_nodes st i = None)
     \<and> (\<forall>i es name j. s_nodes st i = Some (Dir es) \<longrightarrow> map_of es name = Some j \<longrightarrow> j < s_next st)"

definition changed :: "fs \<Rightarrow> fs \<Rightarrow> nat set" where
  "changed st st' = {i. i < s_next st \<and> s_nodes st' i \<noteq> s_nodes st i}"

lemma node_kept_refl: "node_kept k n (Some n)"
  by (simp add: node_kept_def split: node.splits)

lemma kept_refl [simp]: "kept st st"
  by (simp add: kept_def node_kept_refl)

lemma kept_same: "s_nodes st' = s_nodes st \<Longrightarrow> s_next st' = s_next st \<Longrightarrow> kept st st'"
  by (simp add: kept_def node_kept_refl)

lemma node_kept_trans:
  assumes "node_kept k n (Some n')" "node_kept k' n' n''" "k \<le> k'"
  shows "node_kept k n n''"
proof (cases n)
  case (Dir es)
  with assms(1) obtain es' where n': "n' = Dir es'" and
    a: "\<And>name j. map_of es name = Some j \<Longrightarrow> map_of es' name = Some j"
       "\<And>name j. map_of es' name = Some j \<Longrightarrow> map_of es name = Some j \<or> k \<le> j"
    by (auto simp: node_kept_def)
  with assms(2) obtain es'' where n'': "n'' = Some (Dir es'')" and
    b: "\<And>name j. map_of es' name = Some j \<Longrightarrow> map_of es'' name = Some j"
       "\<And>name j. map_of es'' name = Some j \<Longrightarrow> map_of es' name = Some j \<or> k' \<le> j"
    by (auto simp: node_kept_def)
  have "map_of es name = Some j \<or> k \<le> j" if "map_of es'' name = Some j" for name j
    using b(2) [OF that] a(2) assms(3) by fastforce
  with a(1) b(1) show ?thesis by (auto simp: node_kept_def Dir n'')
qed (use assms in \<open>auto simp: node_kept_def\<close>)

lemma kept_some:
  assumes "kept st st'" "s_nodes st i = Some n"
  obtains n' where "s_nodes st' i = Some n'" "node_kept (s_next st) n (Some n')"
proof -
  from assms have k: "node_kept (s_next st) n (s_nodes st' i)" by (simp add: kept_def)
  then obtain n' where "s_nodes st' i = Some n'"
    by (auto simp: node_kept_def split: node.splits)
  with k that show thesis by simp
qed

lemma kept_trans: "kept st st' \<Longrightarrow> kept st' st'' \<Longrightarrow> kept st st''"
proof -
  assume a: "kept st st'" and b: "kept st' st''"
  have "node_kept (s_next st) n (s_nodes st'' i)" if n: "s_nodes st i = Some n" for i n
  proof -
    obtain n' where n': "s_nodes st' i = Some n'" "node_kept (s_next st) n (Some n')"
      by (rule kept_some [OF a n])
    from b n'(1) have "node_kept (s_next st') n' (s_nodes st'' i)" by (simp add: kept_def)
    with n'(2) a show ?thesis by (auto intro: node_kept_trans simp: kept_def)
  qed
  with a b show ?thesis by (simp add: kept_def)
qed

lemma changed_trans: "kept st st' \<Longrightarrow> changed st st'' \<subseteq> changed st st' \<union> changed st' st''"
  by (auto simp: changed_def kept_def)

lemma changed_same [simp]: "s_nodes st' = s_nodes st \<Longrightarrow> changed st st' = {}"
  by (simp add: changed_def)

lemma kept_entry: "kept st st' \<Longrightarrow> entry st d name = Some j \<Longrightarrow> entry st' d name = Some j"
  by (fastforce simp: kept_def node_kept_def entry_def split: option.splits node.splits)

lemma kept_is_dir: "kept st st' \<Longrightarrow> is_dir st d \<Longrightarrow> is_dir st' d"
  by (fastforce simp: kept_def node_kept_def is_dir_def split: option.splits node.splits)

text \<open>Following real directory entries, never a link.\<close>

fun resolve :: "fs \<Rightarrow> nat \<Rightarrow> string list \<Rightarrow> nat option" where
  "resolve st d [] = Some d"
| "resolve st d (p # ps) = (case entry st d p of None \<Rightarrow> None | Some i \<Rightarrow> resolve st i ps)"

lemma kept_resolve: "kept st st' \<Longrightarrow> resolve st d ps = Some i \<Longrightarrow> resolve st' d ps = Some i"
  by (induction ps arbitrary: d) (auto dest: kept_entry split: option.splits)

lemma resolve_snoc:
  "resolve st d (ps @ [p]) = (case resolve st d ps of None \<Rightarrow> None | Some i \<Rightarrow> entry st i p)"
  by (induction ps arbitrary: d) (auto split: option.splits)

text \<open>What one step keeps; \<open>d\<close> is the only old inode it may change.\<close>

definition step_ok :: "nat \<Rightarrow> fs \<Rightarrow> fs \<Rightarrow> bool" where
  "step_ok d st st' \<longleftrightarrow> kept st st' \<and> fs_ok st' \<and> changed st st' \<subseteq> {d}"

lemma step_ok_same:
  "fs_ok st \<Longrightarrow> s_nodes st' = s_nodes st \<Longrightarrow> s_next st' = s_next st \<Longrightarrow> step_ok d st st'"
  by (simp add: step_ok_def kept_same fs_ok_def)

lemma step_ok_trans: "step_ok d st st' \<Longrightarrow> step_ok d st' st'' \<Longrightarrow> step_ok d st st''"
  using changed_trans [of st st' st''] by (auto simp: step_ok_def intro: kept_trans)

lemma link_new_ok:
  assumes ok: "fs_ok st" and e: "entry st d name = None" and d: "is_dir st d"
    and n: "case n of Dir es \<Rightarrow> es = [] | _ \<Rightarrow> True"
  shows "step_ok d st (link_new d name n st)"
    "entry (link_new d name n st) d name = Some (s_next st)"
    "s_nodes (link_new d name n st) (s_next st) = Some n"
    "s_open (link_new d name n st) = s_open st"
    "s_next (link_new d name n st) = Suc (s_next st)"
proof -
  from d obtain es where es: "s_nodes st d = Some (Dir es)"
    by (auto simp: is_dir_def split: option.splits node.splits)
  with ok have lt: "d < s_next st" by (auto simp: fs_ok_def not_le [symmetric])
  from e es have m: "map_of es name = None" by (simp add: entry_def)
  have new: "\<And>i. s_next st \<le> i \<Longrightarrow> s_nodes st i = None"
    and old: "\<And>i es name j. s_nodes st i = Some (Dir es) \<Longrightarrow> map_of es name = Some j \<Longrightarrow> j < s_next st"
    using ok by (auto simp: fs_ok_def)
  have "kept st (link_new d name n st)"
    using es m new lt by (auto simp: kept_def link_new_def node_kept_def map_add_def
        split: node.splits option.splits)
  moreover have "fs_ok (link_new d name n st)"
    using es lt new n old by (auto simp: fs_ok_def link_new_def map_add_def less_Suc_eq
        split: node.splits option.splits if_splits)
  moreover have "changed st (link_new d name n st) \<subseteq> {d}"
    using es by (auto simp: changed_def link_new_def)
  ultimately show "step_ok d st (link_new d name n st)" by (simp add: step_ok_def)
  show "entry (link_new d name n st) d name = Some (s_next st)"
    using es m lt by (simp add: entry_def link_new_def map_add_def)
  show "s_nodes (link_new d name n st) (s_next st) = Some n"
    using es lt by (simp add: link_new_def)
  show "s_open (link_new d name n st) = s_open st" "s_next (link_new d name n st) = Suc (s_next st)"
    using es by (simp_all add: link_new_def)
qed

definition same_tree :: "fs \<Rightarrow> fs \<Rightarrow> bool" where
  "same_tree st st' \<longleftrightarrow> s_nodes st' = s_nodes st \<and> s_next st' = s_next st"

lemma same_tree_refl [simp]: "same_tree st st"
  by (simp add: same_tree_def)

lemma same_tree_trans: "same_tree st st' \<Longrightarrow> same_tree st' st'' \<Longrightarrow> same_tree st st''"
  by (simp add: same_tree_def)

lemma same_tree_step: "same_tree st st' \<Longrightarrow> fs_ok st \<Longrightarrow> step_ok d st st'"
  by (simp add: same_tree_def step_ok_same)

lemma same_tree_entry: "same_tree st st' \<Longrightarrow> entry st' = entry st \<and> is_dir st' = is_dir st"
  by (auto simp: same_tree_def entry_def is_dir_def intro!: ext)

lemma same_tree_open [simp]: "same_tree st (open_fd i st)" "s_open (open_fd i st) = i # s_open st"
  by (simp_all add: same_tree_def open_fd_def)

lemma os_close_same: "os_close env i st = (r, st') \<Longrightarrow> same_tree st st' \<and> s_open st' = remove1 i (s_open st)"
  by (auto simp: os_close_def same_tree_def)

lemma finally_close_same:
  "finally_close env d r st = (res, st') \<Longrightarrow>
     same_tree st st' \<and> s_open st' = (case d of Some i \<Rightarrow> remove1 i (s_open st) | None \<Rightarrow> s_open st)
     \<and> (\<forall>x. res = Inr x \<longrightarrow> x = r)"
  by (auto simp: finally_close_def os_close_same split: option.splits prod.splits sum.splits)

lemma os_stat_same: "os_stat env d name st = (r, st') \<Longrightarrow> same_tree st st' \<and> s_open st' = s_open st"
  by (auto simp: os_stat_def os_call_def same_tree_def split: option.splits)

lemma os_stat_some:
  "os_stat env d name st = (Inr (l, i), st') \<Longrightarrow> entry st d name = Some i"
  by (auto simp: os_stat_def os_call_def entry_def split: option.splits node.splits)

lemma os_fstat_same: "os_fstat env fd st = (r, st') \<Longrightarrow> same_tree st st' \<and> s_open st' = s_open st"
  by (auto simp: os_fstat_def os_call_def same_tree_def split: option.splits)

lemma os_fstat_value: "os_fstat env fd st = (Inr i, st') \<Longrightarrow> i = fd"
  by (auto simp: os_fstat_def os_call_def split: option.splits)

lemma os_fdopen_same: "os_fdopen env fd st = (r, st') \<Longrightarrow> same_tree st st' \<and> s_open st' = s_open st"
  by (auto simp: os_fdopen_def os_call_def same_tree_def split: option.splits)

lemma os_open_dir_err:
  "os_open_dir env d name st = (Inl e, st') \<Longrightarrow> same_tree st st' \<and> s_open st' = s_open st"
  by (auto simp: os_open_dir_def os_call_def same_tree_def entry_def split: option.splits node.splits)

lemma os_open_dir_ok:
  "os_open_dir env d name st = (Inr i, st') \<Longrightarrow>
     same_tree st st' \<and> s_open st' = i # s_open st \<and> entry st d name = Some i \<and> is_dir st i"
  by (auto simp: os_open_dir_def os_call_def same_tree_def entry_def open_fd_def is_dir_def
      split: option.splits node.splits)

lemma os_mkdir_err: "os_mkdir env d name st = (Inl e, st') \<Longrightarrow> same_tree st st' \<and> s_open st' = s_open st"
  by (auto simp: os_mkdir_def os_call_def same_tree_def split: option.splits if_splits)

lemma os_mkdir_ok:
  assumes "os_mkdir env d name st = (Inr u, st')" "fs_ok st"
  shows "step_ok d st st' \<and> s_open st' = s_open st \<and> entry st d name = None
    \<and> entry st' d name = Some (s_next st) \<and> s_nodes st' (s_next st) = Some (Dir [])"
proof -
  define st1 where "st1 = st\<lparr>s_calls := Suc (s_calls st)\<rparr>"
  have s: "same_tree st st1" "s_open st1 = s_open st" "s_next st1 = s_next st"
    by (simp_all add: st1_def same_tree_def)
  from assms(1) have m: "is_dir st1 d" "entry st1 d name = None" "st' = link_new d name (Dir []) st1"
    by (auto simp: os_mkdir_def os_call_def st1_def split: option.splits if_splits)
  have ok: "fs_ok st1" using assms(2) by (simp add: fs_ok_def st1_def)
  note l = link_new_ok [OF ok m(2,1), of "Dir []", simplified]
  from same_tree_step [OF s(1) assms(2)] l(1) have "step_ok d st st'"
    unfolding m(3) by (rule step_ok_trans)
  with l s m(2) same_tree_entry [OF s(1)] show ?thesis by (simp add: m(3))
qed

lemma os_create_err: "os_create env d name st = (Inl e, st') \<Longrightarrow> same_tree st st' \<and> s_open st' = s_open st"
  by (auto simp: os_create_def os_call_def same_tree_def split: option.splits if_splits)

lemma os_create_ok:
  assumes "os_create env d name st = (Inr fd, st')" "fs_ok st"
  shows "step_ok d st st' \<and> s_open st' = fd # s_open st \<and> entry st d name = None \<and> fd = s_next st
    \<and> entry st' d name = Some fd \<and> s_nodes st' fd = Some (Regular [])"
proof -
  define st1 where "st1 = st\<lparr>s_calls := Suc (s_calls st)\<rparr>"
  have s: "same_tree st st1" "s_open st1 = s_open st" "s_next st1 = s_next st"
    by (simp_all add: st1_def same_tree_def)
  from assms(1) have m: "is_dir st1 d" "entry st1 d name = None" "fd = s_next st1"
    "st' = open_fd fd (link_new d name (Regular []) st1)"
    by (auto simp: os_create_def os_call_def st1_def split: option.splits if_splits)
  have ok: "fs_ok st1" using assms(2) by (simp add: fs_ok_def st1_def)
  note l = link_new_ok [OF ok m(2,1), of "Regular []", simplified]
  have o: "same_tree (link_new d name (Regular []) st1) st'" by (simp add: m(4))
  from same_tree_step [OF s(1) assms(2)] l(1) have "step_ok d st (link_new d name (Regular []) st1)"
    by (rule step_ok_trans)
  moreover from this o have "step_ok d (link_new d name (Regular []) st1) st'"
    by (intro same_tree_step) (auto simp: step_ok_def)
  ultimately have "step_ok d st st'" by (rule step_ok_trans)
  with l s m same_tree_entry [OF s(1)] same_tree_entry [OF o] o show ?thesis
    by (simp add: same_tree_def)
qed

section \<open>Lemmas: the walk and the leaf\<close>

text \<open>No system call of the kinds in \<open>ops\<close> fails by itself.\<close>

definition reliable :: "os_env \<Rightarrow> os_op set \<Rightarrow> bool" where
  "reliable env ops \<longleftrightarrow> (\<forall>op \<in> ops. \<forall>n. e_fault env op n = None)"

lemma step_ok_same_tree: "step_ok d st st1 \<Longrightarrow> same_tree st1 st2 \<Longrightarrow> step_ok d st st2"
  by (rule step_ok_trans, assumption, rule same_tree_step) (auto simp: step_ok_def)

lemma os_close_reliable: "os_close env i st = (Inl e, st') \<Longrightarrow> \<not> reliable env {OpClose}"
  by (auto simp: os_close_def reliable_def split: option.splits)

lemma component_error_same:
  "component_error env d name st = (r, st') \<Longrightarrow>
     same_tree st st' \<and> s_open st' = s_open st \<and> (\<forall>b. r \<noteq> Inr (Success b))"
  by (auto simp: component_error_def split: prod.splits sum.splits errno.splits if_splits dest: os_stat_same)

lemma mkdir_exist_ok_step:
  assumes "mkdir_exist_ok env d name st = (r, st')" "fs_ok st"
  shows "step_ok d st st' \<and> s_open st' = s_open st"
proof (cases "os_mkdir env d name st")
  case (Pair q st1)
  then have "step_ok d st st1 \<and> s_open st1 = s_open st"
    by (cases q) (use assms(2) in \<open>auto dest: os_mkdir_err os_mkdir_ok intro: same_tree_step\<close>)
  moreover have "st' = st1"
    using assms(1) Pair by (auto simp: mkdir_exist_ok_def split: sum.splits errno.splits)
  ultimately show ?thesis by simp
qed

definition on_chain :: "fs \<Rightarrow> nat \<Rightarrow> string list \<Rightarrow> nat set" where
  "on_chain st d ps = {i. \<exists>k < length ps. resolve st d (take k ps) = Some i}"

lemma on_chain_Cons:
  assumes "entry st d p = Some i"
  shows "on_chain st d (p # ps) = insert d (on_chain st i ps)"
proof -
  have "(\<exists>k < Suc (length ps). resolve st d (take k (p # ps)) = Some j) \<longleftrightarrow>
      j = d \<or> (\<exists>k < length ps. resolve st i (take k ps) = Some j)" for j
    unfolding Ex_less_Suc2 using assms by auto
  then show ?thesis by (auto simp: on_chain_def)
qed

lemma on_chain_mono: "kept st st' \<Longrightarrow> on_chain st d ps \<subseteq> on_chain st' d ps"
  by (auto simp: on_chain_def dest: kept_resolve)

lemma on_chain_first: "d \<in> on_chain st d (p # ps)"
  by (auto simp: on_chain_def intro: exI [of _ 0])

text \<open>One round of the walk: it is stuck, loses the child's descriptor, or goes on.\<close>

lemma walk_round:
  assumes "walk env parents d (part # parts) st = (w, st')" "fs_ok st" "s_open st = d # fds"
  obtains (stuck) r where "w = Stuck r (Some d)" "step_ok d st st'" "s_open st' = d # fds" "\<And>b. r \<noteq> Inr (Success b)"
  | (lost) e where "w = Stuck (Inl e) None" "step_ok d st st'" "\<not> reliable env {OpClose}"
  | (on) child st1 where "walk env parents child parts st1 = (w, st')" "step_ok d st st1" "s_open st1 = child # fds"
      "entry st1 d part = Some child" "is_dir st1 child"
proof -
  obtain q st1 where q: "(if parents then mkdir_exist_ok env d part st else (Inr (), st)) = (q, st1)"
    by fastforce
  from q assms have s1: "step_ok d st st1" "s_open st1 = d # fds"
    using mkdir_exist_ok_step [of env d part st q st1]
    by (auto simp: step_ok_same split: if_splits)
  have same: "step_ok d st s" if "same_tree st1 s" for s
    using s1(1) that by (rule step_ok_same_tree)
  show thesis
  proof (cases q)
    case (Inl e)
    with q assms(1) s1 show thesis by (intro stuck [of "Inl e"]) auto
  next
    case (Inr u)
    obtain p st2 where p: "os_open_dir env d part st1 = (p, st2)" by fastforce
    show thesis
    proof (cases p)
      case (Inl e)
      with p have s2: "same_tree st1 st2" "s_open st2 = d # fds" using os_open_dir_err s1(2) by auto
      show thesis
      proof (cases "e \<in> {ELOOP, ENOTDIR, ENOENT}")
        case True
        obtain c st3 where c: "component_error env d part st2 = (c, st3)" by fastforce
        from True c q p Inl \<open>q = Inr u\<close> assms(1) have e: "st' = st3" "w = Stuck c (Some d)" by auto
        from component_error_same [OF c] s2 have "same_tree st1 st3" "s_open st3 = d # fds" "\<And>b. c \<noteq> Inr (Success b)"
          by (auto intro: same_tree_trans)
        with e same show thesis by (intro stuck) auto
      next
        case False
        with q p Inl \<open>q = Inr u\<close> assms(1) have "st' = st2" "w = Stuck (Inl e) (Some d)" by auto
        with same s2 show thesis by (intro stuck) auto
      qed
    next
      case (Inr child)
      with p have o: "same_tree st1 st2" "s_open st2 = child # d # fds" "entry st1 d part = Some child" "is_dir st1 child"
        using os_open_dir_ok s1(2) by auto
      obtain c st3 where c: "os_close env d st2 = (c, st3)" by fastforce
      have s3: "same_tree st1 st3" "s_open st3 = child # fds"
        using os_close_same [OF c] o by (auto intro: same_tree_trans)
      show thesis
      proof (cases c)
        case (Inl e)
        with q p Inr c \<open>q = Inr u\<close> assms(1) have "w = Stuck (Inl e) None" "st' = st3" by auto
        with same s3 os_close_reliable [OF c [unfolded Inl]] show thesis by (intro lost) auto
      next
        case (Inr v)
        with q p \<open>p = Inr child\<close> c \<open>q = Inr u\<close> assms(1) have "walk env parents child parts st3 = (w, st')" by auto
        with same s3 o same_tree_entry [OF s3(1)] show thesis by (intro on [of child st3]) auto
      qed
    qed
  qed
qed

text \<open>What holds of the walk's end, if the descriptors below the first are \<open>fds\<close>.\<close>

definition walked_ok :: "os_env \<Rightarrow> nat \<Rightarrow> string list \<Rightarrow> nat list \<Rightarrow> walked \<Rightarrow> fs \<Rightarrow> bool" where
  "walked_ok env d ps fds w st' \<longleftrightarrow>
     (case w of
        Arrived d' \<Rightarrow> s_open st' = d' # fds \<and> resolve st' d ps = Some d' \<and> is_dir st' d'
      | Stuck r (Some d') \<Rightarrow> s_open st' = d' # fds \<and> (\<forall>b. r \<noteq> Inr (Success b))
      | Stuck r None \<Rightarrow> \<not> reliable env {OpClose} \<and> (\<forall>b. r \<noteq> Inr (Success b)))"

lemma walk_ok:
  assumes "walk env parents d ps st = (w, st')" "fs_ok st" "s_open st = d # fds" "is_dir st d"
  shows "kept st st' \<and> fs_ok st' \<and> changed st st' \<subseteq> on_chain st' d ps \<and> walked_ok env d ps fds w st'"
  using assms
proof (induction ps arbitrary: d st)
  case Nil
  then show ?case by (auto simp: walked_ok_def)
next
  case (Cons part parts)
  from Cons.prems(1-3) show ?case
  proof (cases rule: walk_round)
    case (stuck r)
    with on_chain_first [of d st' part parts] show ?thesis by (auto simp: step_ok_def walked_ok_def)
  next
    case (lost e)
    with on_chain_first [of d st' part parts] show ?thesis by (auto simp: step_ok_def walked_ok_def)
  next
    case (on child st1)
    from on(2) have ok1: "fs_ok st1" by (simp add: step_ok_def)
    from Cons.IH [OF on(1) ok1 on(3,5)]
    have ih: "kept st1 st'" "fs_ok st'" "changed st1 st' \<subseteq> on_chain st' child parts"
      "walked_ok env child parts fds w st'" by auto
    have e: "entry st' d part = Some child" by (rule kept_entry [OF ih(1) on(4)])
    have "changed st st' \<subseteq> {d} \<union> on_chain st' child parts"
      using changed_trans [of st st1 st'] on(2) ih(3) by (auto simp: step_ok_def)
    moreover have "kept st st'" using on(2) ih(1) by (auto simp: step_ok_def intro: kept_trans)
    ultimately show ?thesis using ih(2,4) e
      by (auto simp: on_chain_Cons walked_ok_def split: walked.splits option.splits)
  qed
qed

lemma create_folder_ok:
  assumes "create_folder env d name path st = (r, st')" "fs_ok st"
  shows "step_ok d st st' \<and> s_open st' = s_open st \<and>
    (\<forall>c. r = Inr (Success c) \<longrightarrow>
       (\<exists>i. entry st' d name = Some i \<and> is_dir st' i \<and> c = (entry st d name = None)))"
proof (cases "os_mkdir env d name st")
  case (Pair q st1)
  show ?thesis
  proof (cases q)
    case (Inr u)
    from Pair Inr assms os_mkdir_ok [of env d name st u st1] show ?thesis
      by (auto simp: create_folder_def is_dir_def)
  next
    case (Inl e)
    with Pair have s1: "same_tree st st1" "s_open st1 = s_open st" by (auto dest: os_mkdir_err)
    note step = same_tree_step [OF _ assms(2)]
    have stop: ?thesis if "same_tree st st'" "s_open st' = s_open st" "\<And>c. r \<noteq> Inr (Success c)"
      using that step by blast
    show ?thesis
    proof (cases "e = EEXIST")
      case False
      with Pair Inl assms(1) s1 show ?thesis by (intro stop) (auto simp: create_folder_def)
    next
      case True
      obtain p st2 where p: "os_open_dir env d name st1 = (p, st2)" by fastforce
      show ?thesis
      proof (cases p)
        case (Inr child)
        from os_open_dir_ok [OF p [unfolded Inr]] s1 have
          o: "same_tree st st2" "s_open st2 = child # s_open st" "entry st d name = Some child" "is_dir st child"
          by (auto intro: same_tree_trans dest: same_tree_entry)
        obtain c st3 where c: "os_close env child st2 = (c, st3)" by fastforce
        from os_close_same [OF c] o have t: "same_tree st st3" "s_open st3 = s_open st"
          by (auto intro: same_tree_trans)
        from Pair Inl True p Inr c assms(1) have "st' = st3" "r = (case c of Inl e \<Rightarrow> Inl e | Inr _ \<Rightarrow> Inr (Success False))"
          by (auto simp: create_folder_def split: sum.splits)
        with t o step same_tree_entry [OF t(1)] show ?thesis by (auto split: sum.splits)
      next
        case (Inl e2)
        from os_open_dir_err [OF p [unfolded Inl]] s1 have s2: "same_tree st st2" "s_open st2 = s_open st"
          by (auto intro: same_tree_trans)
        obtain w st3 where w: "os_stat env d name st2 = (w, st3)" by fastforce
        from os_stat_same [OF w] s2 have s3: "same_tree st st3" "s_open st3 = s_open st"
          by (auto intro: same_tree_trans)
        have "st' \<in> {st2, st3} \<and> (\<forall>c. r \<noteq> Inr (Success c))"
          using assms(1) Pair \<open>q = Inl e\<close> True p Inl w
          by (auto simp: create_folder_def changed_path_def split: if_splits sum.splits prod.splits errno.splits)
        with s2 s3 show ?thesis by (intro stop) auto
      qed
    qed
  qed
qed

lemma remove_created_ok:
  assumes "remove_created env d name fd e st = (r, st')" "s_nodes st d = Some (Dir es)"
  shows "s_open st' = s_open st \<and> s_next st' = s_next st \<and> (\<exists>e'. r = Inl e') \<and>
    (s_nodes st' = s_nodes st \<or> s_nodes st' = (s_nodes st)(d := Some (Dir (dict_pop name es))))
    \<and> ((\<forall>n. e_fault env OpStat n = None \<and> e_fault env OpUnlink n = None) \<and> entry st d name = Some fd
         \<longrightarrow> s_nodes st' = (s_nodes st)(d := Some (Dir (dict_pop name es))))"
  using assms
  by (auto simp: remove_created_def os_stat_def os_unlink_def os_call_def entry_def
      split: option.splits errno.splits if_splits)

lemma dict_pop_snoc: "map_of es name = None \<Longrightarrow> dict_pop name (es @ [(name, i)]) = es"
  by (auto simp: dict_pop_def map_of_eq_None_iff image_iff intro!: filter_True)

lemma remove_created_step:
  assumes s: "step_ok d st0 st" and new: "entry st0 d name = None"
    and r: "remove_created env d name fd e st = (r, st')" and d: "is_dir st d"
  shows "step_ok d st0 st'"
proof -
  from d obtain es where es: "s_nodes st d = Some (Dir es)"
    by (auto simp: is_dir_def split: option.splits node.splits)
  have map: "map_of (dict_pop name es) n = (if n = name then None else map_of es n)" for n
    by simp
  from remove_created_ok [OF r es] have n: "s_next st' = s_next st" and
    c: "s_nodes st' = s_nodes st \<or> s_nodes st' = (s_nodes st)(d := Some (Dir (dict_pop name es)))" by auto
  from c show ?thesis
  proof
    assume "s_nodes st' = s_nodes st"
    with n s show ?thesis
      by (auto simp: step_ok_def kept_def fs_ok_def changed_def)
  next
    assume m: "s_nodes st' = (s_nodes st)(d := Some (Dir (dict_pop name es)))"
    from s have k: "kept st0 st" and ok: "fs_ok st" and ch: "changed st0 st \<subseteq> {d}"
      by (auto simp: step_ok_def)
    have "node_kept (s_next st0) nd (s_nodes st' i)" if i: "s_nodes st0 i = Some nd" for i nd
    proof (cases "i = d")
      case False
      with k i m show ?thesis by (simp add: kept_def)
    next
      case True
      from k i True es have "node_kept (s_next st0) nd (Some (Dir es))" unfolding kept_def by metis
      moreover from new i True have "\<And>es0. nd = Dir es0 \<Longrightarrow> map_of es0 name = None"
        by (simp add: entry_def)
      ultimately show ?thesis unfolding m using True map
        by (cases nd) (fastforce simp: node_kept_def)+
    qed
    moreover have "fs_ok st'"
    proof -
      from ok have a: "\<And>i. s_next st \<le> i \<Longrightarrow> s_nodes st i = None"
        and b: "\<And>i es name j. s_nodes st i = Some (Dir es) \<Longrightarrow> map_of es name = Some j \<Longrightarrow> j < s_next st"
        by (auto simp: fs_ok_def)
      from a es have "d < s_next st" by (metis leI option.distinct(1))
      with a b es show ?thesis by (auto simp: fs_ok_def m n split: if_splits)
    qed
    moreover have "changed st0 st' \<subseteq> {d}" using ch by (auto simp: changed_def m)
    ultimately show ?thesis using k by (simp add: step_ok_def kept_def n)
  qed
qed

lemma write_new_step:
  assumes ok00: "fs_ok st0" and s: "step_ok d st0 st" and fd: "s_next st0 \<le> fd" "s_nodes st fd = Some (Regular c0)"
    and w: "os_write env fd c st = (r, st')"
  shows "step_ok d st0 st'" "s_open st' = s_open st" "is_dir st' = is_dir st"
    "entry st' = entry st" "r = Inr u \<Longrightarrow> s_nodes st' fd = Some (Regular c)"
proof -
  from w have n: "s_next st' = s_next st" "s_open st' = s_open st"
    and c: "s_nodes st' = s_nodes st \<or> s_nodes st' = (s_nodes st)(fd := Some (Regular c))"
    by (auto simp: os_write_def os_call_def split: option.splits)
  from s have k: "kept st0 st" and ok: "fs_ok st" and ch: "changed st0 st \<subseteq> {d}" and ok0: "s_next st0 \<le> s_next st"
    by (auto simp: step_ok_def kept_def)
  have "fs_ok st'"
  proof -
    from ok have a: "\<And>i. s_next st \<le> i \<Longrightarrow> s_nodes st i = None"
      and b: "\<And>i es name j. s_nodes st i = Some (Dir es) \<Longrightarrow> map_of es name = Some j \<Longrightarrow> j < s_next st"
      by (auto simp: fs_ok_def)
    from a fd(2) have "fd < s_next st" by (metis leI option.distinct(1))
    with c a b show ?thesis by (auto simp: fs_ok_def n split: if_splits)
  qed
  moreover have "node_kept (s_next st0) nd (s_nodes st' i)" if i: "s_nodes st0 i = Some nd" for i nd
  proof (cases "i = fd")
    case False
    with k i c show ?thesis by (auto simp: kept_def)
  next
    case True
    with ok00 fd(1) i show ?thesis by (auto simp: fs_ok_def)
  qed
  ultimately show "step_ok d st0 st'" using ch c ok0 fd(1) by (auto simp: step_ok_def kept_def n changed_def)
  show "s_open st' = s_open st" by (rule n(2))
  show "is_dir st' = is_dir st" using c fd(2) by (auto simp: is_dir_def intro!: ext split: if_splits)
  show "entry st' = entry st" using c fd(2) by (auto simp: entry_def intro!: ext)
  show "s_nodes st' fd = Some (Regular c)" if "r = Inr u"
    using w that by (auto simp: os_write_def os_call_def split: option.splits)
qed

lemma write_new_keeps:
  "os_write env fd c st = (r, st') \<Longrightarrow> s_nodes st fd = Some (Regular c0) \<Longrightarrow>
     (\<exists>c'. s_nodes st' fd = Some (Regular c')) \<and> (\<forall>es i. s_nodes st i = Some (Dir es) \<longrightarrow> s_nodes st' i = Some (Dir es))"
  by (auto simp: os_write_def os_call_def split: option.splits)

lemma step_ok_is_dir: "step_ok d st st' \<Longrightarrow> is_dir st d \<Longrightarrow> is_dir st' d"
  by (auto simp: step_ok_def dest: kept_is_dir)

lemma create_file_error:
  assumes "os_create env d name st = (Inl e, st1)" "create_file env d name content st = (r, st')"
  shows "same_tree st st' \<and> s_open st' = s_open st \<and> (\<forall>c. r \<noteq> Inr (Success c))"
proof -
  from os_create_err [OF assms(1)] have s1: "same_tree st st1" "s_open st1 = s_open st" by auto
  obtain w st2 where w: "os_stat env d name st1 = (w, st2)" by fastforce
  from os_stat_same [OF w] s1 have s2: "same_tree st st2" "s_open st2 = s_open st"
    by (auto intro: same_tree_trans)
  have "st' \<in> {st1, st2} \<and> (\<forall>c. r \<noteq> Inr (Success c))"
    using assms w by (auto simp: create_file_def changed_path_def split: if_splits sum.splits prod.splits errno.splits)
  with s1 s2 show ?thesis by auto
qed

text \<open>The state in which a created file is handed to \<open>remove_created\<close> or left behind.\<close>

definition file_made :: "nat \<Rightarrow> string \<Rightarrow> nat \<Rightarrow> fs \<Rightarrow> fs \<Rightarrow> bool" where
  "file_made d name fd st0 st \<longleftrightarrow> step_ok d st0 st \<and> fd = s_next st0 \<and> is_dir st d
     \<and> entry st0 d name = None \<and> entry st d name = Some fd
     \<and> (\<exists>c. s_nodes st fd = Some (Regular c))
     \<and> (\<exists>es. s_nodes st0 d = Some (Dir es) \<and> s_nodes st d = Some (Dir (es @ [(name, fd)])))"

lemma file_made_same:
  assumes "file_made d name fd st0 st" "same_tree st st'"
  shows "file_made d name fd st0 st'"
  using assms same_tree_entry [OF assms(2)] step_ok_same_tree [of d st0 st st']
  by (auto simp: file_made_def same_tree_def)

lemma file_made_create:
  assumes "os_create env d name st = (Inr fd, st1)" "fs_ok st" "is_dir st d"
  shows "file_made d name fd st st1 \<and> s_open st1 = fd # s_open st"
proof -
  from assms(3) obtain es where es: "s_nodes st d = Some (Dir es)"
    by (auto simp: is_dir_def split: option.splits node.splits)
  with assms(2) have lt: "d < s_next st" by (metis fs_ok_def leI option.distinct(1))
  from assms(1) es lt have "s_nodes st1 d = Some (Dir (es @ [(name, fd)]))"
    by (auto simp: os_create_def os_call_def link_new_def open_fd_def split: option.splits if_splits)
  with os_create_ok [OF assms(1,2)] assms(3) es show ?thesis
    by (auto simp: file_made_def dest: step_ok_is_dir)
qed

lemma file_made_removed:
  assumes m: "file_made d name fd st0 st" and r: "remove_created env d name fd e st = (r, st')"
    and rel: "reliable env {OpStat, OpUnlink}"
  shows "changed st0 st' = {}"
proof -
  from m obtain es where es: "s_nodes st0 d = Some (Dir es)" "s_nodes st d = Some (Dir (es @ [(name, fd)]))"
    and e: "entry st0 d name = None" "entry st d name = Some fd" "changed st0 st \<subseteq> {d}"
    by (auto simp: file_made_def step_ok_def)
  from e es have "dict_pop name (es @ [(name, fd)]) = es" by (intro dict_pop_snoc) (simp add: entry_def)
  with remove_created_ok [OF r es(2)] rel e es(1) have "s_nodes st' = (s_nodes st)(d := s_nodes st0 d)"
    by (auto simp: reliable_def)
  with e(3) show ?thesis by (auto simp: changed_def)
qed

lemma create_file_ok:
  assumes c: "create_file env d name content st = (r, st')" and ok: "fs_ok st" and d: "is_dir st d"
  shows "step_ok d st st'
    \<and> (reliable env {OpFstat} \<longrightarrow> s_open st' = s_open st)
    \<and> (\<forall>b. r = Inr (Success b) \<longrightarrow> b \<and> entry st d name = None \<and>
          (\<exists>i. entry st' d name = Some i \<and> s_nodes st' i = Some (Regular content)))
    \<and> (reliable env {OpFstat, OpStat, OpUnlink, OpClose} \<longrightarrow> r \<noteq> Inr (Success True) \<longrightarrow> changed st st' = {})"
proof (cases "os_create env d name st")
  case (Pair q st1)
  show ?thesis
  proof (cases q)
    case (Inl e)
    with create_file_error [OF _ c] Pair ok show ?thesis
      by (auto simp: same_tree_def intro: same_tree_step)
  next
    case (Inr fd)
    from file_made_create [OF Pair [unfolded Inr] ok d]
    have m1: "file_made d name fd st st1" "s_open st1 = fd # s_open st" by auto
    obtain f st2 where f: "os_fstat env fd st1 = (f, st2)" by fastforce
    with m1 have m2: "file_made d name fd st st2" "s_open st2 = fd # s_open st"
      by (auto dest: os_fstat_same intro: file_made_same)
    have step: "file_made d name fd st s \<Longrightarrow> step_ok d st s" for s by (simp add: file_made_def)
    show ?thesis
    proof (cases f)
      case (Inl e)
      with f have "\<not> reliable env {OpFstat}" "\<not> reliable env {OpFstat, OpStat, OpUnlink, OpClose}"
        by (auto simp: os_fstat_def os_call_def reliable_def split: option.splits)
      with Pair Inr f Inl c m2 step show ?thesis by (auto simp: create_file_def)
    next
      case (Inr created)
      with f have cr: "created = fd" by (auto dest: os_fstat_value)
      obtain g st3 where g: "os_fdopen env fd st2 = (g, st3)" by fastforce
      with m2 have m3: "file_made d name fd st st3" "s_open st3 = fd # s_open st"
        by (auto dest: os_fdopen_same intro: file_made_same)
      have failed: ?thesis if m': "file_made d name fd st s" "s_open s = s_open st"
        and rm: "remove_created env d name fd e s = (r, st')" for s e
      proof -
        from m' have "step_ok d st st'" by (auto simp: file_made_def intro: remove_created_step [OF _ _ rm])
        moreover from m' obtain es where es: "s_nodes s d = Some (Dir es)"
          by (auto simp: file_made_def)
        moreover note remove_created_ok [OF rm es]
        ultimately show ?thesis using file_made_removed [OF m'(1) rm] m'(2)
          by (auto simp: reliable_def)
      qed
      show ?thesis
      proof (cases g)
        case (Inl e)
        obtain k st4 where k: "os_close env fd st3 = (k, st4)" by fastforce
        from os_close_same [OF k] m3 have m4: "file_made d name fd st st4" "s_open st4 = s_open st"
          by (auto intro: file_made_same)
        show ?thesis
        proof (cases k)
          case (Inl e')
          with k have "\<not> reliable env {OpFstat, OpStat, OpUnlink, OpClose}"
            by (auto simp: os_close_def reliable_def)
          with Pair \<open>q = Inr fd\<close> f \<open>f = Inr created\<close> cr g \<open>g = Inl e\<close> k Inl c m4 step show ?thesis
            by (auto simp: create_file_def)
        next
          case (Inr v)
          with Pair \<open>q = Inr fd\<close> f \<open>f = Inr created\<close> cr g \<open>g = Inl e\<close> k c
          have "remove_created env d name fd e st4 = (r, st')" by (simp add: create_file_def)
          with m4 show ?thesis by (rule failed)
        qed
      next
        case (Inr u)
        obtain w st4 where w: "os_write env fd content st3 = (w, st4)" by fastforce
        obtain k st5 where k: "os_close env fd st4 = (k, st5)" by fastforce
        from m3 obtain c0 where c0: "s_next st \<le> fd" "s_nodes st3 fd = Some (Regular c0)"
          by (auto simp: file_made_def)
        note ws = write_new_step [OF ok step [OF m3(1)] c0 w]
        have m4: "file_made d name fd st st4"
          using m3(1) ws(1,3,4) write_new_keeps [OF w c0(2)] by (auto simp: file_made_def)
        have m5: "file_made d name fd st st5" "s_open st5 = s_open st" "same_tree st4 st5"
          using os_close_same [OF k] m4 ws(2) m3(2) by (auto intro: file_made_same)
        have run: "create_file env d name content st
            = (case (case k of Inl e \<Rightarrow> Inl e | Inr _ \<Rightarrow> w) of
                 Inl e \<Rightarrow> remove_created env d name fd e st5 | Inr _ \<Rightarrow> (Inr (Success True), st5))"
          using Pair \<open>q = Inr fd\<close> f \<open>f = Inr created\<close> cr g Inr w k
          by (cases k; cases w) (simp_all add: create_file_def write_and_close_def)
        show ?thesis
        proof (cases "case k of Inl e \<Rightarrow> Inl e | Inr _ \<Rightarrow> w")
          case (Inl e)
          with run c have "remove_created env d name fd e st5 = (r, st')" by simp
          with m5(1,2) show ?thesis by (rule failed)
        next
          case (Inr u')
          with run c have e: "r = Inr (Success True)" "st' = st5" by simp_all
          from Inr have "w = Inr u'" by (simp split: sum.splits)
          with ws(5) have "s_nodes st4 fd = Some (Regular content)" by simp
          with m5 e same_tree_entry [OF m5(3)] show ?thesis
            by (auto simp: file_made_def same_tree_def)
        qed
      qed
    qed
  qed
qed

section \<open>Lemmas: the whole operation\<close>

definition path_parts :: "string \<Rightarrow> string list" where
  "path_parts path = split_on CHR ''/'' path"

lemma path_parts_snoc: "path_parts path = butlast (path_parts path) @ [last (path_parts path)]"
  by (simp add: path_parts_def)

lemma os_open_root_err:
  "os_open_root env base st = (Inl e, st') \<Longrightarrow> same_tree st st' \<and> s_open st' = s_open st"
  by (auto simp: os_open_root_def os_call_def same_tree_def split: option.splits sum.splits)

lemma os_open_root_ok:
  "os_open_root env base st = (Inr d, st') \<Longrightarrow>
     base = Inr d \<and> same_tree st st' \<and> s_open st' = d # s_open st"
  by (auto simp: os_open_root_def os_call_def same_tree_def open_fd_def split: option.splits sum.splits)

text \<open>The leaf, in the directory the walk ended in.\<close>

definition create_leaf ::
  "os_env \<Rightarrow> nat \<Rightarrow> string \<Rightarrow> string \<Rightarrow> string option \<Rightarrow> fs \<Rightarrow> (errno + fs_result) \<times> fs" where
  "create_leaf env d name path content st =
     (case content of None \<Rightarrow> create_folder env d name path st | Some text \<Rightarrow> create_file env d name text st)"

lemma create_leaf_ok:
  assumes "create_leaf env d name path content st = (r, st')" "fs_ok st" "is_dir st d"
  shows "step_ok d st st' \<and> (reliable env {OpFstat} \<longrightarrow> s_open st' = s_open st)
    \<and> (\<forall>b. r = Inr (Success b) \<longrightarrow> (\<exists>i. entry st' d name = Some i
          \<and> b = (entry st d name = None)
          \<and> (case content of None \<Rightarrow> is_dir st' i
             | Some text \<Rightarrow> b \<and> s_nodes st' i = Some (Regular text))))"
proof (cases content)
  case None
  with assms(1) have "create_folder env d name path st = (r, st')" by (simp add: create_leaf_def)
  from create_folder_ok [OF this assms(2)] show ?thesis unfolding None by (simp only: option.simps) blast
next
  case (Some t)
  with assms(1) have "create_file env d name t st = (r, st')" by (simp add: create_leaf_def)
  from create_file_ok [OF this assms(2,3)] Some show ?thesis by fastforce
qed

lemma settle_success: "settle env r st = Success b \<longleftrightarrow> r = Inr (Success b)"
  by (cases r) (auto simp: settle_def os_failure_def)

text \<open>How the operation can go; \<open>d\<close> is what \<open>descriptor\<close> names at the end.\<close>

lemma create_path_cases:
  assumes "create_path env base path parents content st = (res, st')"
  obtains (refused) "st' = st" "\<And>b. res \<noteq> Inr (Success b)"
  | (rootless) e where "os_open_root env base st = (Inl e, st')" "\<And>b. res \<noteq> Inr (Success b)"
  | (walked) d0 d r st1 st2 where "\<not> invalid_path path" "os_open_root env base st = (Inr d0, st1)"
      "walk env parents d0 (butlast (path_parts path)) st1 = (Stuck r d, st2)"
      "finally_close env d (settle env r st2) st2 = (res, st')"
  | (leaf) d0 d r st1 st2 st3 where "\<not> invalid_path path" "os_open_root env base st = (Inr d0, st1)"
      "walk env parents d0 (butlast (path_parts path)) st1 = (Arrived d, st2)"
      "create_leaf env d (last (path_parts path)) path content st2 = (r, st3)"
      "finally_close env (Some d) (settle env r st3) st3 = (res, st')"
proof -
  show thesis
  proof (cases "invalid_path path \<or> content \<noteq> None \<and> device_yaml path")
    case True
    with assms show ?thesis by (intro refused) (auto simp: create_path_def split: if_splits)
  next
    case False
    then have v: "\<not> invalid_path path" "\<not> (content \<noteq> None \<and> device_yaml path)" by auto
    obtain o1 st1 where o1: "os_open_root env base st = (o1, st1)" by fastforce
    show ?thesis
    proof (cases o1)
      case (Inl e)
      have "(res, st') = (Inr (root_failure env e st1), st1)"
        using assms o1 Inl v by (auto simp: create_path_def Let_def)
      with o1 Inl show ?thesis by (intro rootless) (auto simp: root_failure_def os_failure_def)
    next
      case (Inr d0)
      obtain q st2 where w: "walk env parents d0 (butlast (path_parts path)) st1 = (q, st2)"
        by (metis prod.exhaust)
      show ?thesis
      proof (cases q)
        case (Stuck r d)
        with assms o1 Inr w v have "finally_close env d (settle env r st2) st2 = (res, st')"
          by (auto simp: create_path_def Let_def path_parts_def)
        with o1 Inr v w Stuck show ?thesis by (intro walked) auto
      next
        case (Arrived d)
        obtain r st3 where l: "create_leaf env d (last (path_parts path)) path content st2 = (r, st3)" by fastforce
        with assms o1 Inr w v Arrived have "finally_close env (Some d) (settle env r st3) st3 = (res, st')"
          by (auto simp: create_path_def Let_def path_parts_def create_leaf_def)
        with o1 Inr v w Arrived l show ?thesis by (intro leaf) auto
      qed
    qed
  qed
qed

lemma on_chain_butlast: "on_chain st d (butlast ps) \<subseteq> on_chain st d ps"
proof
  fix i
  assume "i \<in> on_chain st d (butlast ps)"
  then obtain k where "k < length ps - 1" "resolve st d (take k (butlast ps)) = Some i"
    by (auto simp: on_chain_def)
  then show "i \<in> on_chain st d ps"
    by (auto simp: on_chain_def take_butlast intro!: exI [of _ k])
qed

lemma same_tree_resolve: "same_tree st st' \<Longrightarrow> resolve st' d ps = resolve st d ps"
  by (induction ps arbitrary: d) (auto simp: same_tree_entry split: option.splits)

lemma same_tree_on_chain: "same_tree st st' \<Longrightarrow> on_chain st' d ps = on_chain st d ps"
  by (simp add: on_chain_def same_tree_resolve)

lemma root_opened:
  assumes "os_open_root env base st = (Inr d0, st1)" "fs_ok st"
  shows "base = Inr d0" "same_tree st st1" "fs_ok st1" "s_open st1 = d0 # s_open st"
  using os_open_root_ok [OF assms(1)] assms(2) same_tree_step [of st st1] by (auto simp: step_ok_def)

lemma leaf_reached:
  assumes w: "walk env parents d0 (butlast (path_parts path)) st1 = (Arrived d, st2)"
    and l: "create_leaf env d (last (path_parts path)) path content st2 = (r, st3)"
    and ok: "fs_ok st1" and o: "s_open st1 = d0 # fds" and dir: "is_dir st1 d0"
  shows "kept st1 st3" "fs_ok st3" "changed st1 st3 \<subseteq> on_chain st3 d0 (path_parts path)"
    "reliable env {OpFstat} \<Longrightarrow> s_open st3 = d # fds"
    "resolve st3 d0 (path_parts path) = entry st3 d (last (path_parts path))"
    "kept st1 st2" "resolve st2 d0 (path_parts path) = entry st2 d (last (path_parts path))"
    "fs_ok st2" "is_dir st2 d"
proof -
  from walk_ok [OF w ok o dir] have a: "kept st1 st2" "fs_ok st2"
    "changed st1 st2 \<subseteq> on_chain st2 d0 (butlast (path_parts path))" "s_open st2 = d # fds"
    "resolve st2 d0 (butlast (path_parts path)) = Some d" "is_dir st2 d" by (auto simp: walked_ok_def)
  note b = create_leaf_ok [OF l a(2,6)]
  show "fs_ok st2" "is_dir st2 d" by (rule a)+
  from b have s: "kept st2 st3" "fs_ok st3" "changed st2 st3 \<subseteq> {d}"
    "reliable env {OpFstat} \<Longrightarrow> s_open st3 = s_open st2"
    by (auto simp: step_ok_def)
  show k: "kept st1 st3" using a(1) s(1) by (rule kept_trans)
  show "fs_ok st3" by (rule s(2))
  show "kept st1 st2" by (rule a(1))
  have r3: "resolve st3 d0 (butlast (path_parts path)) = Some d"
    using s(1) a(5) by (rule kept_resolve)
  show "resolve st3 d0 (path_parts path) = entry st3 d (last (path_parts path))"
    by (subst path_parts_snoc) (simp add: resolve_snoc r3)
  show "resolve st2 d0 (path_parts path) = entry st2 d (last (path_parts path))"
    by (subst path_parts_snoc) (simp add: resolve_snoc a(5))
  show "s_open st3 = d # fds" if "reliable env {OpFstat}" using s(4) [OF that] a(4) by simp
  have n: "path_parts path \<noteq> []" by (simp add: path_parts_def)
  have "on_chain st2 d0 (butlast (path_parts path)) \<subseteq> on_chain st3 d0 (path_parts path)"
    using on_chain_mono [OF s(1)] on_chain_butlast by blast
  moreover from n r3 have "d \<in> on_chain st3 d0 (path_parts path)"
    by (auto simp: on_chain_def butlast_conv_take intro!: exI [of _ "length (path_parts path) - 1"])
  ultimately show "changed st1 st3 \<subseteq> on_chain st3 d0 (path_parts path)"
    using changed_trans [OF a(1), of st3] a(3) s(3) by blast
qed

text \<open>C3: Creation is confined and never destroys: whatever errors the system answers with, every
  file, link and directory entry that was there is still there with its content, and the only
  old inodes that change are directories reached from the configuration root through real
  directory entries named by the path, never through a link; without a root nothing changes.\<close>

theorem create_path_confined:
  assumes "fs_ok st" and "create_path env base path parents content st = (res, st')"
    and "case base of Inl _ \<Rightarrow> True | Inr d \<Rightarrow> is_dir st d"
  shows "kept st st' \<and> fs_ok st' \<and>
    (case base of
       Inl _ \<Rightarrow> changed st st' = {}
     | Inr d \<Rightarrow> changed st st' \<subseteq> on_chain st' d (path_parts path))"
  using assms(2)
proof (cases rule: create_path_cases)
  case refused
  with assms(1) show ?thesis by (simp split: sum.splits)
next
  case (rootless e)
  with os_open_root_err [OF rootless(1)] assms(1) same_tree_step [of st st'] show ?thesis
    by (auto simp: step_ok_def same_tree_def split: sum.splits)
next
  case (walked d0 d' r st1 st2)
  note ro = root_opened [OF walked(2) assms(1)]
  have "is_dir st1 d0" using assms(3) ro(1) same_tree_entry [OF ro(2)] by simp
  from walk_ok [OF walked(3) ro(3,4) this] have w: "kept st1 st2" "fs_ok st2"
    "changed st1 st2 \<subseteq> on_chain st2 d0 (butlast (path_parts path))" by auto
  have s: "same_tree st2 st'" using finally_close_same [OF walked(4)] by simp
  have c: "on_chain st2 d0 (butlast (path_parts path)) \<subseteq> on_chain st' d0 (path_parts path)"
    using on_chain_butlast by (simp add: same_tree_on_chain [OF s])
  have "step_ok d0 st st1" "step_ok d0 st2 st'"
    using same_tree_step [OF ro(2) assms(1)] same_tree_step [OF s w(2)] by auto
  moreover have "changed st st' = changed st1 st2" using ro(2) s by (simp add: changed_def same_tree_def)
  ultimately show ?thesis using w c ro(1) by (auto simp: step_ok_def intro: kept_trans)
next
  case (leaf d0 d' r st1 st2 st3)
  note ro = root_opened [OF leaf(2) assms(1)]
  have "is_dir st1 d0" using assms(3) ro(1) same_tree_entry [OF ro(2)] by simp
  note l = leaf_reached [OF leaf(3,4) ro(3,4) this]
  have s: "same_tree st3 st'" using finally_close_same [OF leaf(5)] by simp
  have "step_ok d0 st st1" "step_ok d0 st3 st'"
    using same_tree_step [OF ro(2) assms(1)] same_tree_step [OF s l(2)] by auto
  moreover have "changed st st' = changed st1 st3" using ro(2) s by (simp add: changed_def same_tree_def)
  moreover note same_tree_on_chain [OF s]
  ultimately show ?thesis using l(1-3) ro(1) by (auto simp: step_ok_def intro: kept_trans)
qed

text \<open>A small tree: the root (inode 0) holds a folder, a file in it, and a link.\<close>

definition sample_fs :: fs where
  "sample_fs = \<lparr>s_nodes = (\<lambda>_. None)
       (0 := Some (Dir [(''common'', 1), (''link'', 3)]), 1 := Some (Dir [(''a.h'', 2)]),
        2 := Some (Regular ''x''), 3 := Some (Symlink ''/etc'')),
     s_next = 4, s_open = [], s_calls = 0\<rparr>"

definition quiet_env :: os_env where
  "quiet_env = \<lparr>e_fault = (\<lambda>_ _. None), e_nofollow = ELOOP, e_text = (\<lambda>_ _. ''[Errno 5] Input/output error'')\<rparr>"

lemma sample_fs_ok: "fs_ok sample_fs"
  by (auto simp: fs_ok_def sample_fs_def split: if_splits)

lemma sample_fs_root: "is_dir sample_fs 0"
  by (simp add: is_dir_def sample_fs_def)

theorem create_path_confined_witness:
  "kept sample_fs (snd (create_path quiet_env (Inr 0) ''common/b.h'' True (Some ''y'') sample_fs))"
  using create_path_confined [OF sample_fs_ok prod.collapse [symmetric], of "Inr 0" quiet_env "''common/b.h''" True
      "Some ''y''"] sample_fs_root by simp

lemma create_path_success_fact:
  assumes ok: "fs_ok st" and c: "create_path env (Inr d) path parents content st = (Inr (Success b), st')"
    and dir: "is_dir st d"
  shows "kept st st' \<and> (b \<longrightarrow> resolve st d (path_parts path) = None) \<and>
    (\<exists>i. resolve st' d (path_parts path) = Some i \<and>
       (case content of None \<Rightarrow> is_dir st' i | Some t \<Rightarrow> b \<and> s_nodes st' i = Some (Regular t)))"
  using c
proof (cases rule: create_path_cases)
  case refused
  from refused(2) [of b] show ?thesis by simp
next
  case (rootless e)
  from rootless(2) [of b] show ?thesis by simp
next
  case (walked d0 d' r st1 st2)
  note ro = root_opened [OF walked(2) ok]
  have "is_dir st1 d0" using dir ro(1) same_tree_entry [OF ro(2)] by simp
  from walk_ok [OF walked(3) ro(3,4) this] have "r \<noteq> Inr (Success b)" by (auto simp: walked_ok_def split: option.splits)
  moreover have "settle env r st2 = Success b" using finally_close_same [OF walked(4)] by simp
  ultimately show ?thesis by (simp add: settle_success)
next
  case (leaf d0 d' r st1 st2 st3)
  note ro = root_opened [OF leaf(2) ok]
  then have d0: "d0 = d" by simp
  have dir1: "is_dir st1 d0" using dir d0 same_tree_entry [OF ro(2)] by simp
  note l = leaf_reached [OF leaf(3,4) ro(3,4) dir1]
  have s: "same_tree st3 st'" and "settle env r st3 = Success b" using finally_close_same [OF leaf(5)] by auto
  then have r: "r = Inr (Success b)" by (simp add: settle_success)
  note ok2 = l(8,9)
  from create_leaf_ok [OF leaf(4)] ok2 r obtain i where
    i: "entry st3 d' (last (path_parts path)) = Some i" "b = (entry st2 d' (last (path_parts path)) = None)"
    "case content of None \<Rightarrow> is_dir st3 i | Some t \<Rightarrow> b \<and> s_nodes st3 i = Some (Regular t)"
    by auto
  have k: "kept st st2" "kept st st3"
    using l(1,6) kept_same ro(2) by (auto simp: same_tree_def intro: kept_trans)
  have "resolve st d (path_parts path) = None" if b
  proof (cases "resolve st d (path_parts path)")
    case (Some j)
    with kept_resolve [OF k(1)] l(7) d0 i(2) that show ?thesis by simp
  qed
  moreover have "kept st st'" using k(2) s by (auto simp: same_tree_def intro: kept_trans kept_same)
  moreover have "resolve st' d (path_parts path) = Some i"
    using l(5) i(1) d0 same_tree_resolve [OF s] by simp
  moreover have "case content of None \<Rightarrow> is_dir st' i | Some t \<Rightarrow> b \<and> s_nodes st' i = Some (Regular t)"
    using i(3) s same_tree_entry [OF s] by (cases content) (auto simp: same_tree_def)
  ultimately show ?thesis by blast
qed

text \<open>C32: A reported success is true: the path then resolves, through real directories, to a folder,
  or to a file with exactly the requested content that did not exist before; \<open>created\<close> is only
  reported for a path that did not resolve before. So a file is never overwritten and a path
  over a link or a plain file never succeeds.\<close>

theorem create_path_success:
  assumes "fs_ok st" and "is_dir st d"
    and "create_path env (Inr d) path parents content st = (Inr (Success b), st')"
  shows "(b \<longrightarrow> resolve st d (path_parts path) = None)
    \<and> (\<exists>i. resolve st' d (path_parts path) = Some i \<and>
         (case content of None \<Rightarrow> is_dir st' i | Some t \<Rightarrow> b \<and> s_nodes st' i = Some (Regular t)))
    \<and> (\<forall>k \<le> length (path_parts path). \<forall>i tgt.
         resolve st d (take k (path_parts path)) = Some i \<longrightarrow> s_nodes st i \<noteq> Some (Symlink tgt))"
proof -
  from create_path_success_fact [OF assms(1,3,2)] obtain i where
    k: "kept st st'" and b: "b \<longrightarrow> resolve st d (path_parts path) = None"
    and i: "resolve st' d (path_parts path) = Some i"
      "case content of None \<Rightarrow> is_dir st' i | Some t \<Rightarrow> b \<and> s_nodes st' i = Some (Regular t)"
    by blast
  have "s_nodes st j \<noteq> Some (Symlink tgt)"
    if n: "n \<le> length (path_parts path)" "resolve st d (take n (path_parts path)) = Some j" for n j tgt
  proof
    assume l: "s_nodes st j = Some (Symlink tgt)"
    with k have l': "s_nodes st' j = Some (Symlink tgt)" by (force simp: kept_def node_kept_def)
    from kept_resolve [OF k n(2)] have r: "resolve st' d (take n (path_parts path)) = Some j" .
    have split: "resolve s d (xs @ ys) = (case resolve s d xs of None \<Rightarrow> None | Some x \<Rightarrow> resolve s x ys)"
      for s d xs ys by (induction xs arbitrary: d) (auto split: option.splits)
    from i(1) have e: "resolve st' j (drop n (path_parts path)) = Some i"
      using split [of st' d "take n (path_parts path)" "drop n (path_parts path)"] r by simp
    show False
    proof (cases "drop n (path_parts path)")
      case Nil
      with e i(2) l' show False by (auto simp: is_dir_def split: option.splits)
    next
      case (Cons p ps)
      with e l' show False by (simp add: entry_def)
    qed
  qed
  with b i show ?thesis by blast
qed

lemma sample_create: "fst (create_path quiet_env (Inr 0) ''lib/b.h'' True (Some ''y'') sample_fs) = Inr (Success True)"
  by code_simp

theorem create_path_success_witness:
  "resolve sample_fs 0 (path_parts ''lib/b.h'') = None"
proof -
  have "create_path quiet_env (Inr 0) ''lib/b.h'' True (Some ''y'') sample_fs =
      (Inr (Success True), snd (create_path quiet_env (Inr 0) ''lib/b.h'' True (Some ''y'') sample_fs))"
    by (rule prod_eqI) (simp_all only: sample_create fst_conv snd_conv)
  from create_path_success [OF sample_fs_ok sample_fs_root this] show ?thesis by blast
qed

text \<open>C36: Every descriptor the operation opens is closed again on every path, early answers and
  exceptions included, whatever other calls fail, provided \<open>fstat\<close> of the descriptor of a new file
  does not fail and closing does not fail. Both provisos are needed (below).\<close>

theorem create_path_no_leak:
  assumes "fs_ok st" and "case base of Inl _ \<Rightarrow> True | Inr d \<Rightarrow> is_dir st d"
    and "reliable env {OpFstat, OpClose}"
  shows "s_open (snd (create_path env base path parents content st)) = s_open st"
proof -
  have rel: "reliable env {OpFstat}" "reliable env {OpClose}" using assms(3) by (simp_all add: reliable_def)
  obtain res st' where c: "create_path env base path parents content st = (res, st')" by fastforce
  from c have "s_open st' = s_open st"
  proof (cases rule: create_path_cases)
    case refused
    then show ?thesis by simp
  next
    case (rootless e)
    then show ?thesis by (auto dest: os_open_root_err)
  next
    case (walked d0 d r st1 st2)
    note ro = root_opened [OF walked(2) assms(1)]
    have "is_dir st1 d0" using assms(2) ro(1) same_tree_entry [OF ro(2)] by simp
    from walk_ok [OF walked(3) ro(3,4) this] rel(2) finally_close_same [OF walked(4)] show ?thesis
      by (auto simp: walked_ok_def split: option.splits)
  next
    case (leaf d0 d r st1 st2 st3)
    note ro = root_opened [OF leaf(2) assms(1)]
    have "is_dir st1 d0" using assms(2) ro(1) same_tree_entry [OF ro(2)] by simp
    from leaf_reached(4) [OF leaf(3,4) ro(3,4) this rel(1)] finally_close_same [OF leaf(5)] show ?thesis by simp
  qed
  then show ?thesis by (simp add: c)
qed

theorem create_path_no_leak_witness:
  "s_open (snd (create_path quiet_env (Inr 0) ''link/b.h'' True (Some ''y'') sample_fs)) = []"
proof -
  have "reliable quiet_env {OpFstat, OpClose}" by (simp add: reliable_def quiet_env_def)
  from create_path_no_leak [OF sample_fs_ok _ this, of "Inr 0"] sample_fs_root show ?thesis
    by (simp add: sample_fs_def)
qed

text \<open>When \<open>fstat\<close> does fail, the descriptor of the new file stays open and the empty file stays.\<close>

lemma fstat_failure_leaks:
  "s_open (snd (create_path (quiet_env\<lparr>e_fault := (\<lambda>op _. if op = OpFstat then Some EOTHER else None)\<rparr>)
       (Inr 0) ''common/b.h'' True (Some ''y'') sample_fs)) = [4]"
  by code_simp

text \<open>
  When closing a parent fails, the child that was opened before it stays open, and the \<open>finally\<close>
  clause closes the parent's descriptor a second time, so an exception leaves the operation.
\<close>

lemma close_failure_leaks:
  "(case create_path (quiet_env\<lparr>e_fault := (\<lambda>op n. if op = OpClose \<and> n = 2 then Some EOTHER else None)\<rparr>)
       (Inr 0) ''common/b.h'' False (Some ''y'') sample_fs of (res, st) \<Rightarrow> res = Inl EOTHER \<and> s_open st = [1])"
  by code_simp

section \<open>Lemmas: creation without interference\<close>

lemma reliable_call: "reliable env UNIV \<Longrightarrow> os_call env op m st = m (st\<lparr>s_calls := Suc (s_calls st)\<rparr>)"
  by (simp add: os_call_def reliable_def)

lemma entry_calls [simp]: "entry (st\<lparr>s_calls := n\<rparr>) = entry st" "is_dir (st\<lparr>s_calls := n\<rparr>) = is_dir st"
  by (auto simp: entry_def is_dir_def intro!: ext)

lemma mkdir_exist_ok_reliable:
  assumes rel: "reliable env UNIV" and ok: "fs_ok st" and d: "is_dir st d"
  shows "\<exists>st1. mkdir_exist_ok env d name st = (Inr (), st1) \<and> is_dir st1 d \<and>
    (case entry st d name of
       Some i \<Rightarrow> same_tree st st1
     | None \<Rightarrow> entry st1 d name = Some (s_next st) \<and> s_nodes st1 (s_next st) = Some (Dir []))"
proof (cases "entry st d name")
  case (Some i)
  with rel d show ?thesis
    by (simp add: mkdir_exist_ok_def os_mkdir_def reliable_call same_tree_def)
next
  case None
  obtain q st1 where q: "os_mkdir env d name st = (q, st1)" by fastforce
  with rel d None have u: "q = Inr ()" by (auto simp: os_mkdir_def reliable_call)
  from os_mkdir_ok [OF q [unfolded u] ok] None q u d show ?thesis
    by (auto simp: mkdir_exist_ok_def dest: step_ok_is_dir)
qed

text \<open>Every existing prefix of the path is a folder, and the path itself does not exist.\<close>

definition free_path :: "fs \<Rightarrow> nat \<Rightarrow> string list \<Rightarrow> bool" where
  "free_path st d parts \<longleftrightarrow> resolve st d parts = None \<and>
     (\<forall>k < length parts. \<forall>i. resolve st d (take k parts) = Some i \<longrightarrow> is_dir st i)"

lemma free_path_empty_dir:
  "s_nodes st i = Some (Dir []) \<Longrightarrow> parts \<noteq> [] \<Longrightarrow> free_path st i parts"
proof -
  assume i: "s_nodes st i = Some (Dir [])" and p: "parts \<noteq> []"
  have "resolve st i (take k parts) = Some j \<Longrightarrow> j = i" for k j
    using i by (cases "take k parts") (auto simp: entry_def)
  moreover have "resolve st i parts = None" using i p by (cases parts) (auto simp: entry_def)
  ultimately show ?thesis using i by (fastforce simp: free_path_def is_dir_def)
qed

lemma free_pathD:
  "free_path st d ps \<Longrightarrow> k < length ps \<Longrightarrow> resolve st d (take k ps) = Some i \<Longrightarrow> is_dir st i"
  by (simp add: free_path_def)

lemma free_path_step:
  assumes "free_path st d (p # ps)" "entry st d p = Some i"
  shows "free_path st i ps"
proof -
  have "is_dir st j" if "k < length ps" "resolve st i (take k ps) = Some j" for k j
    using free_pathD [OF assms(1), of "Suc k" j] that assms(2) by simp
  then show ?thesis using assms by (simp add: free_path_def)
qed

lemma free_path_same: "same_tree st st' \<Longrightarrow> free_path st' d ps = free_path st d ps"
  by (simp add: free_path_def same_tree_resolve same_tree_entry)

lemma walk_reliable:
  assumes "reliable env UNIV" "fs_ok st" "s_open st = d # fds" "is_dir st d" "free_path st d (ps @ [name])"
  shows "\<exists>d' st'. walk env True d ps st = (Arrived d', st') \<and> is_dir st' d' \<and> entry st' d' name = None"
  using assms(2-)
proof (induction ps arbitrary: d st)
  case Nil
  then show ?case by (auto simp: free_path_def split: option.splits)
next
  case (Cons p ps)
  from mkdir_exist_ok_reliable [OF assms(1) Cons.prems(1,3)] obtain st1 where
    m: "mkdir_exist_ok env d p st = (Inr (), st1)" "is_dir st1 d" and
    e: "case entry st d p of Some i \<Rightarrow> same_tree st st1
        | None \<Rightarrow> entry st1 d p = Some (s_next st) \<and> s_nodes st1 (s_next st) = Some (Dir [])"
    by blast
  from mkdir_exist_ok_step [OF m(1) Cons.prems(1)] Cons.prems(2)
  have s1: "fs_ok st1" "s_open st1 = d # fds" by (auto simp: step_ok_def)
  have "\<exists>i. entry st1 d p = Some i \<and> is_dir st1 i \<and> free_path st1 i (ps @ [name])"
  proof (cases "entry st d p")
    case None
    with e show ?thesis by (auto simp: is_dir_def intro: free_path_empty_dir)
  next
    case (Some i)
    with e have s: "same_tree st st1" by simp
    have "free_path st i (ps @ [name])"
      using Cons.prems(4) Some by (auto intro: free_path_step)
    moreover from Cons.prems(4) Some have "is_dir st i"
      using free_pathD [OF Cons.prems(4), of 1 i] by simp
    ultimately show ?thesis using s Some by (simp add: free_path_same same_tree_entry)
  qed
  then obtain i where i: "entry st1 d p = Some i" "is_dir st1 i" "free_path st1 i (ps @ [name])" by blast
  obtain q st2 where q: "os_open_dir env d p st1 = (q, st2)" by fastforce
  with i assms(1) have "q = Inr i"
    by (auto simp: os_open_dir_def reliable_call is_dir_def split: option.splits node.splits)
  with q have q: "os_open_dir env d p st1 = (Inr i, st2)" by simp
  obtain c st3 where c: "os_close env d st2 = (c, st3)" by fastforce
  with assms(1) have "c = Inr ()" by (auto simp: os_close_def reliable_def)
  with c have c: "os_close env d st2 = (Inr (), st3)" by simp
  from os_open_dir_ok [OF q] os_close_same [OF c] s1(2) have t: "same_tree st1 st3" "s_open st3 = i # fds"
    by (auto intro: same_tree_trans)
  have "fs_ok st3" using same_tree_step [OF t(1) s1(1)] by (auto simp: step_ok_def)
  from Cons.IH [OF this t(2)] t(1) i m(1) q c show ?case
    by (simp add: free_path_same same_tree_entry)
qed

lemma os_close_success:
  "reliable env UNIV \<Longrightarrow>
     os_close env i st = (Inr (), st\<lparr>s_calls := Suc (s_calls st), s_open := remove1 i (s_open st)\<rparr>)"
  by (simp add: os_close_def reliable_def)

lemma create_leaf_reliable:
  assumes "reliable env UNIV" "is_dir st d" "entry st d name = None"
  shows "\<exists>st'. create_leaf env d name path content st = (Inr (Success True), st')"
  using assms
  by (auto simp: create_leaf_def create_folder_def create_file_def os_mkdir_def os_create_def
      os_fstat_def os_fdopen_def os_write_def write_and_close_def reliable_call os_close_success
      split: option.splits prod.splits)

lemma resolve_prefix:
  assumes "resolve st d ps = Some i" "k < length ps"
  shows "\<exists>j. resolve st d (take k ps) = Some j \<and> is_dir st j"
  using assms
proof (induction ps arbitrary: d k)
  case (Cons p ps)
  then obtain c where c: "entry st d p = Some c" "resolve st c ps = Some i" by (auto split: option.splits)
  then have "is_dir st d" by (auto simp: entry_def is_dir_def split: option.splits node.splits)
  with c Cons.IH [OF c(2)] Cons.prems(2) show ?case by (cases k) auto
qed simp

text \<open>C33: Creation is complete: on a system that answers every call, a valid path that does not
  exist yet and whose existing prefixes are all folders is created, parents included. The
  operation reports success; afterwards every proper prefix of the path is a real folder, the
  path itself is a folder, or a file with exactly the requested content, and everything that was
  there before is still there.\<close>

theorem create_path_creates:
  assumes "reliable env UNIV" and "fs_ok st" and "is_dir st d" and "\<not> invalid_path path"
    and "content = None \<or> \<not> device_yaml path" and "free_path st d (path_parts path)"
  shows "\<exists>st' i. create_path env (Inr d) path True content st = (Inr (Success True), st')
    \<and> resolve st d (path_parts path) = None \<and> resolve st' d (path_parts path) = Some i
    \<and> (case content of None \<Rightarrow> is_dir st' i | Some text \<Rightarrow> s_nodes st' i = Some (Regular text))
    \<and> (\<forall>k < length (path_parts path). \<exists>j. resolve st' d (take k (path_parts path)) = Some j \<and> is_dir st' j)
    \<and> kept st st'"
proof -
  define parts where "parts = path_parts path"
  obtain st1 where r: "os_open_root env (Inr d) st = (Inr d, st1)"
    using assms(1) by (simp add: os_open_root_def reliable_call)
  note ro = root_opened [OF r assms(2)]
  have "is_dir st1 d" "free_path st1 d (butlast parts @ [last parts])"
    using assms(3,6) ro(2) path_parts_snoc [of path, symmetric]
    by (simp_all add: same_tree_entry free_path_same parts_def)
  from walk_reliable [OF assms(1) ro(3,4) this] obtain d' st2 where
    w: "walk env True d (butlast parts) st1 = (Arrived d', st2)" "is_dir st2 d'"
    "entry st2 d' (last parts) = None" by blast
  from create_leaf_reliable [OF assms(1) w(2,3)] obtain st3 where
    l: "create_leaf env d' (last parts) path content st2 = (Inr (Success True), st3)" by blast
  have v: "\<not> (content \<noteq> None \<and> device_yaml path)" using assms(5) by auto
  define st4 where "st4 = snd (finally_close env (Some d') (Success True) st3)"
  have "finally_close env (Some d') (Success True) st3 = (Inr (Success True), st4)"
    by (simp add: finally_close_def os_close_success [OF assms(1)] st4_def)
  with r w(1) l assms(4) v
  have c: "create_path env (Inr d) path True content st = (Inr (Success True), st4)"
    by (simp add: create_path_def Let_def parts_def path_parts_def create_leaf_def settle_def)
  from create_path_success_fact [OF assms(2) c assms(3)] resolve_prefix c show ?thesis
    by (auto split: option.splits)
qed

theorem create_path_creates_witness:
  "\<exists>st' i. create_path quiet_env (Inr 0) ''common/new/b.h'' True (Some ''y'') sample_fs = (Inr (Success True), st')
     \<and> resolve st' 0 (path_parts ''common/new/b.h'') = Some i \<and> s_nodes st' i = Some (Regular ''y'')"
proof -
  have rel: "reliable quiet_env UNIV" by (simp add: reliable_def quiet_env_def)
  have p: "path_parts ''common/new/b.h'' = [''common'', ''new'', ''b.h'']" by code_simp
  have "is_dir sample_fs 0" "is_dir sample_fs 1" by (simp_all add: is_dir_def sample_fs_def)
  then have free: "free_path sample_fs 0 (path_parts ''common/new/b.h'')"
    unfolding p by (auto simp: free_path_def entry_def sample_fs_def less_Suc_eq)
  have valid: "\<not> invalid_path ''common/new/b.h''" "Some ''y'' = None \<or> \<not> device_yaml ''common/new/b.h''"
    by code_simp+
  from create_path_creates [OF rel sample_fs_ok sample_fs_root valid free] show ?thesis by auto
qed

end
