(* ===== verification/Server.thy ===== *)
theory Server
  imports Registry Filesystem
begin

text \<open>
  The tool surface of \<open>server.py\<close>: every tool the MCP server registers, with the part of its schema
  that restricts the values (the framework rejects a call outside it before the tool runs), its
  hints, and what it runs on Home Assistant's loop. Running on the loop from the worker thread
  only moves the call; it is the identity of the model.
\<close>

section \<open>The world of a call\<close>

record server_env =
  sv_addon :: addon_env
  sv_registry :: ha_registry
  sv_os :: os_env
  sv_root :: "errno + nat" \<comment> \<open>what opening the ESPHome configuration folder gives\<close>

record server_state =
  ss_addon :: addon_state
  ss_files :: fs

text \<open>A call outside the schema is rejected and runs nothing; any other gives an answer or a fault.\<close>

datatype outcome = Rejected | Answer "pyval tool"

text \<open>A tool over the add-on, and one over the files.\<close>

definition on_addon :: "(addon_state \<Rightarrow> pyval tool \<times> addon_state) \<Rightarrow> server_state \<Rightarrow> outcome \<times> server_state" where
  "on_addon m s = (case m (ss_addon s) of (r, st) \<Rightarrow> (Answer r, s\<lparr>ss_addon := st\<rparr>))"

definition on_files :: "(fs \<Rightarrow> pyval py \<times> fs) \<Rightarrow> server_state \<Rightarrow> outcome \<times> server_state" where
  "on_files m s = (case m (ss_files s) of (r, st) \<Rightarrow> (Answer (lift_py r), s\<lparr>ss_files := st\<rparr>))"

definition reject_unless :: "bool \<Rightarrow> (server_state \<Rightarrow> outcome \<times> server_state) \<Rightarrow> server_state \<Rightarrow> outcome \<times> server_state" where
  "reject_unless ok m s = (if ok then m s else (Rejected, s))"

definition timeout_ok :: "int \<Rightarrow> bool" where
  "timeout_ok t \<longleftrightarrow> 1 \<le> t \<and> t \<le> 1800"

section \<open>The tools\<close>

datatype tool_call =
    NativeTools "string option" "string option" int
  | NativeCall string "pydict option" "string option" int
  | Overview
  | ListDevices "string option" "string option" "string option" int
  | ListEntities "string option" "string option" "string option" "string option" "bool option" int
  | ManageAddon manage_args
  | DashboardDevices tool_args "string option" "string option" bool int
  | SearchYaml tool_args string int bool "int option"
  | GetYaml tool_args string
  | UpdateYaml tool_args string string bool
  | CreateDirectory string bool
  | CreateFile string string bool
  | ValidateYaml tool_args string bool int
  | DeviceLogs tool_args string string bool int
  | CompileFirmware tool_args string bool
  | InstallFirmware tool_args string string bool bool
  | FirmwareJobs tool_args "string option" "string option" int
  | GetFirmwareJob tool_args string
  | FollowFirmwareJob tool_args string int

type_synonym tool_run = "server_state \<Rightarrow> outcome \<times> server_state"

definition esp_native_tools :: "server_env \<Rightarrow> string option \<Rightarrow> string option \<Rightarrow> int \<Rightarrow> tool_run" where
  "esp_native_tools env tool slug timeout =
     reject_unless (timeout_ok timeout) (on_addon (native_device_builder_tools (sv_addon env) slug tool timeout))"

definition esp_native_call :: "server_env \<Rightarrow> string \<Rightarrow> pydict option \<Rightarrow> string option \<Rightarrow> int \<Rightarrow> tool_run" where
  "esp_native_call env name arguments slug timeout =
     reject_unless (timeout_ok timeout) (on_addon (call_native_device_builder_tool (sv_addon env) name
       (case arguments of Some d \<Rightarrow> PDict d | None \<Rightarrow> PNone) slug timeout))"

definition esp_overview :: "server_env \<Rightarrow> tool_run" where
  "esp_overview env = on_addon (sreturn (overview (sv_registry env)))"

definition literal_actions :: "string list" where
  "literal_actions = [''install'', ''update'', ''rebuild'', ''start'', ''stop'', ''restart'', ''uninstall'']"

definition manage_schema_ok :: "manage_args \<Rightarrow> bool" where
  "manage_schema_ok a \<longleftrightarrow> (case j_action a of None \<Rightarrow> True | Some x \<Rightarrow> x \<in> set literal_actions)
     \<and> j_method a \<in> set valid_http_methods \<and> timeout_ok (j_timeout a)"

definition esp_manage_addon :: "server_env \<Rightarrow> manage_args \<Rightarrow> tool_run" where
  "esp_manage_addon env a = reject_unless (manage_schema_ok a) (on_addon (manage_esphome_addon (sv_addon env) a))"

definition esp_dashboard_devices ::
  "server_env \<Rightarrow> tool_args \<Rightarrow> string option \<Rightarrow> string option \<Rightarrow> bool \<Rightarrow> int \<Rightarrow> tool_run" where
  "esp_dashboard_devices env t query state include_importable limit =
     reject_unless (case state of None \<Rightarrow> True | Some x \<Rightarrow> x \<in> {''unknown'', ''online'', ''offline''})
       (on_addon (list_device_builder_devices (sv_addon env) t query state include_importable limit))"

definition esp_search_yaml :: "server_env \<Rightarrow> tool_args \<Rightarrow> string \<Rightarrow> int \<Rightarrow> bool \<Rightarrow> int option \<Rightarrow> tool_run" where
  "esp_search_yaml env t query max_results case_sensitive context_lines =
     on_addon (search_device_builder_yaml (sv_addon env) t query max_results case_sensitive context_lines)"

definition esp_get_yaml :: "server_env \<Rightarrow> tool_args \<Rightarrow> string \<Rightarrow> tool_run" where
  "esp_get_yaml env t configuration = on_addon (read_device_builder_config (sv_addon env) t configuration)"

definition esp_update_yaml :: "server_env \<Rightarrow> tool_args \<Rightarrow> string \<Rightarrow> string \<Rightarrow> bool \<Rightarrow> tool_run" where
  "esp_update_yaml env t configuration content allow_wipe =
     on_addon (write_device_builder_config (sv_addon env) t configuration content allow_wipe)"

definition esp_create_directory :: "server_env \<Rightarrow> string \<Rightarrow> bool \<Rightarrow> tool_run" where
  "esp_create_directory env path parents = on_files (create_esphome_path (sv_os env) (sv_root env) path parents None)"

definition esp_create_file :: "server_env \<Rightarrow> string \<Rightarrow> string \<Rightarrow> bool \<Rightarrow> tool_run" where
  "esp_create_file env path content parents =
     on_files (create_esphome_path (sv_os env) (sv_root env) path parents (Some content))"

definition esp_validate_yaml :: "server_env \<Rightarrow> tool_args \<Rightarrow> string \<Rightarrow> bool \<Rightarrow> int \<Rightarrow> tool_run" where
  "esp_validate_yaml env t configuration show_secrets message_limit =
     on_addon (run_device_builder_stream (sv_addon env) t ''devices/validate''
       [(''configuration'', PStr configuration), (''show_secrets'', PBool show_secrets)] message_limit)"

definition esp_device_logs :: "server_env \<Rightarrow> tool_args \<Rightarrow> string \<Rightarrow> string \<Rightarrow> bool \<Rightarrow> int \<Rightarrow> tool_run" where
  "esp_device_logs env t configuration port no_states message_limit =
     on_addon (run_device_builder_stream (sv_addon env) t ''devices/logs''
       [(''configuration'', PStr configuration), (''port'', PStr port), (''no_states'', PBool no_states)] message_limit)"

definition esp_compile_firmware :: "server_env \<Rightarrow> tool_args \<Rightarrow> string \<Rightarrow> bool \<Rightarrow> tool_run" where
  "esp_compile_firmware env t configuration force_local =
     on_addon (queue_device_builder_firmware_job (sv_addon env) t ''firmware/compile''
       [(''configuration'', PStr configuration), (''force_local'', PBool force_local)])"

definition esp_install_firmware :: "server_env \<Rightarrow> tool_args \<Rightarrow> string \<Rightarrow> string \<Rightarrow> bool \<Rightarrow> bool \<Rightarrow> tool_run" where
  "esp_install_firmware env t configuration port force_local bootloader =
     on_addon (queue_device_builder_firmware_job (sv_addon env) t ''firmware/install''
       [(''configuration'', PStr configuration), (''port'', PStr port), (''force_local'', PBool force_local),
        (''bootloader'', PBool bootloader)])"

definition job_statuses :: "string list" where
  "job_statuses = [''queued'', ''running'', ''completed'', ''failed'', ''cancelled'']"

definition esp_firmware_jobs :: "server_env \<Rightarrow> tool_args \<Rightarrow> string option \<Rightarrow> string option \<Rightarrow> int \<Rightarrow> tool_run" where
  "esp_firmware_jobs env t status configuration limit =
     reject_unless (case status of None \<Rightarrow> True | Some x \<Rightarrow> x \<in> set job_statuses)
       (on_addon (list_device_builder_firmware_jobs (sv_addon env) t status configuration limit))"

definition esp_get_firmware_job :: "server_env \<Rightarrow> tool_args \<Rightarrow> string \<Rightarrow> tool_run" where
  "esp_get_firmware_job env t job_id = on_addon (get_device_builder_firmware_job (sv_addon env) t job_id)"

definition esp_follow_firmware_job :: "server_env \<Rightarrow> tool_args \<Rightarrow> string \<Rightarrow> int \<Rightarrow> tool_run" where
  "esp_follow_firmware_job env t job_id message_limit =
     on_addon (follow_device_builder_firmware_job (sv_addon env) t job_id message_limit)"

fun run_tool :: "server_env \<Rightarrow> tool_call \<Rightarrow> tool_run" where
  "run_tool env (NativeTools tool slug timeout) = esp_native_tools env tool slug timeout"
| "run_tool env (NativeCall name arguments slug timeout) = esp_native_call env name arguments slug timeout"
| "run_tool env Overview = esp_overview env"
| "run_tool env (ListDevices q a st l) = on_addon (slift (lift_py (esp_list_devices (sv_registry env) q a st l)))"
| "run_tool env (ListEntities q d i st b l) = on_addon (slift (lift_py (esp_list_entities (sv_registry env) q d i st b l)))"
| "run_tool env (ManageAddon a) = esp_manage_addon env a"
| "run_tool env (DashboardDevices t q st i l) = esp_dashboard_devices env t q st i l"
| "run_tool env (SearchYaml t q n c l) = esp_search_yaml env t q n c l"
| "run_tool env (GetYaml t c) = esp_get_yaml env t c"
| "run_tool env (UpdateYaml t c content w) = esp_update_yaml env t c content w"
| "run_tool env (CreateDirectory p parents) = esp_create_directory env p parents"
| "run_tool env (CreateFile p content parents) = esp_create_file env p content parents"
| "run_tool env (ValidateYaml t c sec l) = esp_validate_yaml env t c sec l"
| "run_tool env (DeviceLogs t c p n l) = esp_device_logs env t c p n l"
| "run_tool env (CompileFirmware t c f) = esp_compile_firmware env t c f"
| "run_tool env (InstallFirmware t c p f b) = esp_install_firmware env t c p f b"
| "run_tool env (FirmwareJobs t st c l) = esp_firmware_jobs env t st c l"
| "run_tool env (GetFirmwareJob t j) = esp_get_firmware_job env t j"
| "run_tool env (FollowFirmwareJob t j l) = esp_follow_firmware_job env t j l"

text \<open>The hint \<open>readOnlyHint\<close> of a tool, where its registration has one.\<close>

fun read_only_hint :: "tool_call \<Rightarrow> bool option" where
  "read_only_hint (NativeTools tool slug timeout) = Some True"
| "read_only_hint (NativeCall name arguments slug timeout) = Some False"
| "read_only_hint Overview = None"
| "read_only_hint (ListDevices q a st l) = None"
| "read_only_hint (ListEntities q d i st b l) = None"
| "read_only_hint (ManageAddon a) = Some False"
| "read_only_hint (DashboardDevices t q st i l) = Some True"
| "read_only_hint (SearchYaml t q n c l) = Some True"
| "read_only_hint (GetYaml t c) = Some True"
| "read_only_hint (UpdateYaml t c content w) = Some False"
| "read_only_hint (CreateDirectory p parents) = Some False"
| "read_only_hint (CreateFile p content parents) = Some False"
| "read_only_hint (ValidateYaml t c sec l) = Some True"
| "read_only_hint (DeviceLogs t c p n l) = Some True"
| "read_only_hint (CompileFirmware t c f) = Some False"
| "read_only_hint (InstallFirmware t c p f b) = Some False"
| "read_only_hint (FirmwareJobs t st c l) = Some True"
| "read_only_hint (GetFirmwareJob t j) = Some True"
| "read_only_hint (FollowFirmwareJob t j l) = Some True"

section \<open>A tool that says it only reads\<close>

text \<open>The Device Builder commands that read, and what a reading tool may send.\<close>

definition reading_commands :: "string list" where
  "reading_commands = [''devices/list'', ''yaml/search'', ''devices/get_config'', ''devices/validate'', ''devices/logs'',
     ''firmware/get_jobs'', ''firmware/get_job'', ''firmware/follow_job'']"

definition reading_sup :: "addon_env \<Rightarrow> sup_request \<Rightarrow> bool" where
  "reading_sup env p \<longleftrightarrow> is_get p \<or> session_req env p"

definition reading_rpc :: "http_request \<Rightarrow> bool" where
  "reading_rpc q \<longleftrightarrow> (\<exists>url hs meth params. q = rpc_request url hs meth params
     \<and> (meth \<in> {''initialize'', ''notifications/initialized'', ''tools/list''}
        \<or> meth = ''tools/call'' \<and> (\<exists>v. params = [(''name'', PStr ''get_config''), (''arguments'', v)])))"

definition reading_socket :: "socket \<Rightarrow> bool" where
  "reading_socket sk \<longleftrightarrow> (\<exists>a. m_command a \<in> set reading_commands \<and> command_sends a sk)"

definition reading :: "addon_env \<Rightarrow> (addon_state \<Rightarrow> 'a tool \<times> addon_state) \<Rightarrow> bool" where
  "reading env m \<longleftrightarrow> sup.emits (reading_sup env) m \<and> http.emits reading_rpc m \<and> sockets.emits reading_socket m"

named_theorems reading_rules \<open>steps that only read\<close>

lemma reading_bind [reading_rules]: "reading env m \<Longrightarrow> (\<And>x. reading env (f x)) \<Longrightarrow> reading env (sbind m f)"
  by (auto simp: reading_def intro: sup.emits_bind http.emits_bind sockets.emits_bind)

lemma reading_simple [reading_rules]:
  "reading env (sreturn x)" "reading env (slift y)" "reading env (fail m c e)" "reading env (not_running addon slug)"
  by (auto simp: reading_def intro: emits_rules)

lemma reading_native [reading_rules]:
  assumes "z_call a \<Longrightarrow> z_tool a = Some ''get_config''"
  shows "reading env (native_device_builder env a)"
proof -
  have "reading_rpc q" if "rpc_ok a q" for q
  proof -
    from that obtain url hs meth params where q: "q = rpc_request url hs meth params"
      "meth \<in> {''initialize'', ''notifications/initialized'', ''tools/list'', ''tools/call''}"
      "meth = ''tools/call'' \<longrightarrow> z_call a \<and> (\<exists>tool. z_tool a = Some tool
          \<and> params = [(''name'', PStr tool), (''arguments'', call_arguments (z_arguments a))])"
      unfolding rpc_ok_def by blast
    with assms have "meth = ''tools/call'' \<longrightarrow> (\<exists>v. params = [(''name'', PStr ''get_config''), (''arguments'', v)])" by auto
    with q(1,2) show ?thesis unfolding reading_rpc_def by blast
  qed
  then show ?thesis
    unfolding reading_def reading_sup_def [abs_def]
    by (auto intro: native_device_builder_emits http.emits_weaken [OF native_device_builder_emits(3)])
qed

lemma reading_command [reading_rules]:
  assumes "m_command a \<in> set reading_commands"
  shows "reading env (command_tool env t a)"
proof -
  have ws: "reading env (call_device_builder_ws_command env addon debug (a\<lparr>m_slug := rs\<rparr>))" for addon debug rs
  proof -
    have "reading_socket sk" if "command_sends (a\<lparr>m_slug := rs\<rparr>) sk" for sk
      using assms that by (auto simp: reading_socket_def intro!: exI [of _ "a\<lparr>m_slug := rs\<rparr>"])
    moreover have "reading_sup env p" if "session_req env p" for p using that by (simp add: reading_sup_def)
    ultimately show ?thesis
      unfolding reading_def
      by (auto intro: device_builder_ws_emits sup.emits_weaken [OF device_builder_ws_emits(1)]
          sockets.emits_weaken [OF device_builder_ws_emits(3)])
  qed
  have "reading env (resolve_esphome_addon env slug)" for slug
    unfolding reading_def
    by (auto intro: emits_rules sup.emits_weaken [OF resolve_esphome_addon_emits(1)] simp: reading_sup_def)
  then show ?thesis
    unfolding command_tool_def device_builder_command_def
    by (auto intro!: reading_rules ws)
qed

lemma reading_tools [reading_rules]:
  "reading env (list_device_builder_devices env t query state imp limit)"
  "reading env (search_device_builder_yaml env t q n c l)"
  "command \<in> set reading_commands \<Longrightarrow> reading env (run_device_builder_stream env t command args limit)"
  "reading env (list_device_builder_firmware_jobs env t status configuration limit)"
  "reading env (get_device_builder_firmware_job env t job)"
  "reading env (follow_device_builder_firmware_job env t job limit)"
  "reading env (read_over_ws env t file)"
  unfolding list_device_builder_devices_def search_device_builder_yaml_def run_device_builder_stream_def
    list_device_builder_firmware_jobs_def get_device_builder_firmware_job_def follow_device_builder_firmware_job_def
    read_over_ws_def Let_def
  by (auto intro!: reading_rules simp: plain_command_def stream_command_def reading_commands_def
      split: pyval.splits option.splits)

context request_log
begin

lemma emits_fallback:
  assumes "emits P m" "emits P n"
    and "\<And>st. snd (k st) = snd (m st) \<or> snd (k st) = snd (n st) \<or> k st = n (snd (m st))"
  shows "emits P k"
proof (rule emitsI)
  fix st
  from assms(1) obtain xs where xs: "log (snd (m st)) = log st @ xs" "list_all P xs" unfolding emits_def by blast
  from assms(2) obtain ys where ys: "log (snd (n (snd (m st)))) = log (snd (m st)) @ ys" "list_all P ys"
    unfolding emits_def by blast
  from assms(3) [of st] consider "snd (k st) = snd (m st)" | "snd (k st) = snd (n st)" | "k st = n (snd (m st))" by blast
  then show "\<exists>xs. log (snd (k st)) = log st @ xs \<and> list_all P xs"
  proof cases
    case 1
    with xs show ?thesis by auto
  next
    case 2
    with assms(2) show ?thesis unfolding emits_def by auto
  next
    case 3
    with xs ys show ?thesis by (intro exI [of _ "xs @ ys"]) simp
  qed
qed

end

lemma reading_fallback:
  assumes "reading env m" "reading env n"
    and "\<And>st. snd (k st) = snd (m st) \<or> snd (k st) = snd (n st) \<or> k st = n (snd (m st))"
  shows "reading env k"
  using assms unfolding reading_def
  by (auto intro: sup.emits_fallback [OF _ _ assms(3)] http.emits_fallback [OF _ _ assms(3)] sockets.emits_fallback [OF _ _ assms(3)])

lemma reading_get_yaml: "reading env (read_device_builder_config env t configuration)"
proof (rule reading_fallback)
  show "reading env (call_native_device_builder_tool env ''get_config'' (PDict [(''configuration'', PStr configuration)])
      (t_slug t) (t_timeout t))"
    unfolding call_native_device_builder_tool_def by (rule reading_native) simp
  show "reading env (read_over_ws env t configuration)" by (rule reading_rules)
  fix st
  show "snd (read_device_builder_config env t configuration st)
      = snd (call_native_device_builder_tool env ''get_config'' (PDict [(''configuration'', PStr configuration)])
          (t_slug t) (t_timeout t) st)
    \<or> snd (read_device_builder_config env t configuration st) = snd (read_over_ws env t configuration st)
    \<or> read_device_builder_config env t configuration st = read_over_ws env t configuration
         (snd (call_native_device_builder_tool env ''get_config'' (PDict [(''configuration'', PStr configuration)])
          (t_slug t) (t_timeout t) st))"
    by (auto simp: read_device_builder_config_def fail_def split: prod.splits sum.splits fault.splits option.splits)
qed

lemma reading_on_addon:
  assumes "reading (sv_addon env) m" "on_addon m s = (out, s')"
  shows "ss_files s' = ss_files s \<and> (\<exists>ps qs ks.
     a_sup (ss_addon s') = a_sup (ss_addon s) @ ps \<and> list_all (reading_sup (sv_addon env)) ps
     \<and> a_http (ss_addon s') = a_http (ss_addon s) @ qs \<and> list_all reading_rpc qs
     \<and> a_sockets (ss_addon s') = a_sockets (ss_addon s) @ ks \<and> list_all reading_socket ks)"
proof -
  obtain r st where m: "m (ss_addon s) = (r, st)" by force
  with assms(1) have "\<exists>ps. a_sup st = a_sup (ss_addon s) @ ps \<and> list_all (reading_sup (sv_addon env)) ps"
    "\<exists>qs. a_http st = a_http (ss_addon s) @ qs \<and> list_all reading_rpc qs"
    "\<exists>ks. a_sockets st = a_sockets (ss_addon s) @ ks \<and> list_all reading_socket ks"
    unfolding reading_def using sup.emitsD http.emitsD sockets.emitsD by blast+
  with m assms(2) show ?thesis by (auto simp: on_addon_def)
qed

text \<open>C8: A tool registered with the read-only hint only reads. Whatever its arguments and whatever
  the Supervisor and the add-on answer, it leaves the files alone; it sends the Supervisor
  nothing but reading requests and the request for an ingress session of a human administrator;
  over the native server it lists tools and calls no tool but \<open>get_config\<close>; and over a WebSocket
  it sends one of the reading commands and at most the request to stop its own stream.\<close>

theorem read_only_tools_read:
  assumes "read_only_hint call = Some True" "run_tool env call s = (out, s')"
  shows "ss_files s' = ss_files s \<and> (\<exists>ps qs ks.
     a_sup (ss_addon s') = a_sup (ss_addon s) @ ps \<and> list_all (reading_sup (sv_addon env)) ps
     \<and> a_http (ss_addon s') = a_http (ss_addon s) @ qs \<and> list_all reading_rpc qs
     \<and> a_sockets (ss_addon s') = a_sockets (ss_addon s) @ ks \<and> list_all reading_socket ks)"
proof -
  have stay: ?thesis if "s' = s" using that by simp
  have "s' = s \<or> (\<exists>m :: addon_state \<Rightarrow> pyval tool \<times> addon_state. reading (sv_addon env) m \<and> on_addon m s = (out, s'))"
  proof (cases call)
    case (NativeTools tool slug timeout)
    have "reading (sv_addon env) (native_device_builder_tools (sv_addon env) slug tool timeout)"
      unfolding native_device_builder_tools_def by (rule reading_native) simp
    with NativeTools assms(2) show ?thesis by (auto simp: esp_native_tools_def reject_unless_def split: if_splits)
  next
    case (GetYaml t c)
    with assms(2) show ?thesis by (auto simp: esp_get_yaml_def intro: reading_get_yaml)
  next
    case (ValidateYaml t c sec l)
    have "reading (sv_addon env) (run_device_builder_stream (sv_addon env) t ''devices/validate'' d l)" for d
      by (rule reading_tools(3)) (simp add: reading_commands_def)
    with ValidateYaml assms(2) show ?thesis by (auto simp: esp_validate_yaml_def)
  next
    case (DeviceLogs t c p n l)
    have "reading (sv_addon env) (run_device_builder_stream (sv_addon env) t ''devices/logs'' d l)" for d
      by (rule reading_tools(3)) (simp add: reading_commands_def)
    with DeviceLogs assms(2) show ?thesis by (auto simp: esp_device_logs_def)
  qed (use assms in \<open>auto simp: esp_dashboard_devices_def esp_search_yaml_def esp_firmware_jobs_def
      esp_get_firmware_job_def esp_follow_firmware_job_def reject_unless_def intro!: reading_tools split: if_splits\<close>)
  with stay reading_on_addon show ?thesis by blast
qed

definition lab_server :: server_env where
  "lab_server = \<lparr>sv_addon = lab_native, sv_registry = \<lparr>r_entries = [], r_devices = [], r_entities = [],
     r_states = (\<lambda>_. None), r_fastmcp_version = None\<rparr>, sv_os = quiet_env, sv_root = Inl ENOENT\<rparr>"

definition lab_state :: server_state where
  "lab_state = \<lparr>ss_addon = lab_start, ss_files = \<lparr>s_nodes = (\<lambda>_. None), s_next = 0, s_open = [], s_calls = 0\<rparr>\<rparr>"

definition lab_read :: tool_call where
  "lab_read = GetYaml \<lparr>t_slug = None, t_timeout = 60, t_debug = False\<rparr> ''kitchen.yaml''"

lemma read_only_tools_read_witness:
  "list_all reading_rpc (a_http (ss_addon (snd (run_tool lab_server lab_read lab_state))))
   \<and> list_all reading_socket (a_sockets (ss_addon (snd (run_tool lab_server lab_read lab_state))))"
proof -
  have hint: "read_only_hint lab_read = Some True" by (simp add: lab_read_def)
  obtain out s' where run: "run_tool lab_server lab_read lab_state = (out, s')" by force
  from read_only_tools_read [OF hint run] show ?thesis
    unfolding run by (auto simp: lab_state_def lab_start_def)
qed

section \<open>Every tool comes back\<close>

lemma settles_command:
  assumes "messages_take env d"
  shows "settles (command_tool env t a)"
proof -
  have slug: "resolved_slug addon slug \<noteq> Inl Diverged" for addon slug
    by (simp add: resolved_slug_def settles_values)
  have "settles (not_running addon rs)" for addon rs
    unfolding not_running_def by (intro settles_rules)
  with slug device_builder_ws_settles [OF assms] show ?thesis
    unfolding command_tool_def device_builder_command_def by (auto intro!: settles_rules)
qed

lemma settles_command_tools:
  assumes "messages_take env d"
  shows "settles (list_device_builder_devices env t query state imp limit)"
    "settles (search_device_builder_yaml env t q n c l)"
    "settles (run_device_builder_stream env t command args limit)"
    "settles (queue_device_builder_firmware_job env t command args)"
    "settles (list_device_builder_firmware_jobs env t status configuration limit)"
    "settles (get_device_builder_firmware_job env t job)"
    "settles (follow_device_builder_firmware_job env t job limit)"
    "settles (read_over_ws env t file)" "settles (write_device_builder_config env t file content w)"
  unfolding list_device_builder_devices_def search_device_builder_yaml_def run_device_builder_stream_def
    list_device_builder_firmware_jobs_def get_device_builder_firmware_job_def follow_device_builder_firmware_job_def
    queue_device_builder_firmware_job_def write_device_builder_config_def read_over_ws_def Let_def
  by (auto intro!: settles_rules settles_command [OF assms] split: pyval.splits option.splits)

lemma native_answer_settles: "native_answer nest meth status rh raw \<noteq> Inl Diverged"
  by (simp add: native_answer_def split: sum.splits exn.splits pyval.splits option.splits)

lemma settles_native_request: "settles (native_mcp_request env url hs meth params)"
  by (rule settlesI) (simp add: native_mcp_request_def send_http_def native_answer_settles split: http_answer.splits)

lemma settles_catalog: "settles (native_catalog n env url hs params cursors spent tools)"
proof (induction n arbitrary: params cursors spent tools)
  case (Suc n)
  have "catalog_page c k page \<noteq> Inl Diverged" for c k page
    by (simp add: catalog_page_def split: sum.splits pyval.splits option.splits)
  with Suc show ?case
    by (auto intro!: settles_rules settles_native_request split: option.splits)
qed (auto intro: settles_rules)

lemma settles_native: "settles (native_device_builder env a)"
proof -
  have result: "native_result md tool r \<noteq> Inl Diverged" for md tool r
    by (simp add: native_result_def split: option.splits pyval.splits)
  have "settles (native_select env a url hs md tools)" for url hs md tools
    unfolding native_select_def Let_def
    by (auto intro!: settles_rules settles_native_request result split: option.splits)
  then have "settles (native_session env a addon url hs)" for addon url hs
    unfolding native_session_def Let_def
    by (auto intro!: settles_rules settles_native_request settles_catalog split: option.splits)
  then have run: "settles (native_run env a)"
    unfolding native_run_def by (auto intro!: settles_rules)
  show ?thesis
  proof (rule settlesI)
    fix st
    obtain r st' where "native_run env a st = (r, st')" by force
    with settlesD [OF run, of st] show "fst (native_device_builder env a st) \<noteq> Inl Diverged"
      by (auto simp: native_device_builder_def fail_def split: sum.splits fault.splits)
  qed
qed

end
