(* ===== verification/Answers.thy ===== *)
theory Answers
  imports Server
begin

text \<open>
  What every tool gives back: that a call always ends, and the shape of what it ends with.
\<close>

section \<open>Every tool comes back\<close>

lemma tool_bind_diverged:
  "tool_bind m f = Inl Diverged \<longleftrightarrow> m = Inl Diverged \<or> (\<exists>x. m = Inr x \<and> f x = Inl Diverged)"
  by (cases m) auto

lemma checked_options_settles: "checked_options addon opts \<noteq> Inl Diverged"
proof -
  have "allowed_keys vs \<noteq> Inl Diverged" for vs
    by (induction vs rule: allowed_keys.induct) (auto simp: tool_bind_diverged split: option.splits pyval.splits)
  then show ?thesis
    by (auto simp: checked_options_def Let_def tool_bind_diverged split: option.splits pyval.splits)
qed

lemma settles_submit: "settles (submit_config env slug d ignored)"
  unfolding submit_config_def by (intro settles_rules)

lemma settles_manage_parts:
  "settles (execute_action env slug key)"
  "settles (execute_config_update env slug addon d)"
  "settles (not_running addon rs)"
  "resolved_slug addon given \<noteq> Inl Diverged"
  unfolding execute_action_def execute_config_update_def not_running_def resolved_slug_def Let_def
  by (auto intro!: settles_rules settles_submit checked_options_settles split: option.splits pyval.splits)

lemma settles_http: "settles (call_addon_http env addon slug a)"
  unfolding call_addon_http_def
  by (intro settles_rules)
    (auto intro!: settles_rules split: option.splits, rule settlesI,
      auto simp: Let_def fail_def lift_py_def split: http_answer.splits prod.splits sum.splits)

lemma settles_api:
  assumes "messages_take env d"
  shows "settles (call_api env addon rs a)"
  unfolding call_api_def
  by (auto intro!: settles_rules settles_manage_parts settles_http call_addon_ws_settles [OF assms])

lemma settles_manage:
  assumes "messages_take env d"
  shows "settles (manage_esphome_addon env a)"
  unfolding manage_esphome_addon_def manage_install_def manage_resolved_def Let_def
  by (auto intro!: settles_rules settles_manage_parts settles_api [OF assms] split: option.splits)

lemma settles_get_yaml:
  assumes "messages_take env d"
  shows "settles (read_device_builder_config env t file)"
proof (rule settlesI)
  fix st
  let ?m = "call_native_device_builder_tool env ''get_config'' (PDict [(''configuration'', PStr file)]) (t_slug t) (t_timeout t)"
  have "settles ?m" unfolding call_native_device_builder_tool_def by (rule settles_native)
  from settlesD [OF this, of st] settlesD [OF settles_command_tools(8) [OF assms]]
  show "fst (read_device_builder_config env t file st) \<noteq> Inl Diverged"
    by (auto simp: read_device_builder_config_def fail_def split: prod.splits sum.splits fault.splits option.splits)
qed

lemma settles_on_addon: "settles m \<Longrightarrow> fst (on_addon m s) \<noteq> Answer (Inl Diverged)"
  by (auto simp: on_addon_def settles_def split: prod.splits) (metis fst_conv)

text \<open>C11: Every tool comes back. Whatever its arguments, the registries, the files, the Supervisor and the
  add-on, a call ends with an answer or an exception, provided the clock moves by at least some
  fixed amount while a WebSocket message is received.\<close>

theorem tools_return:
  assumes "messages_take (sv_addon env) d"
  shows "fst (run_tool env call s) \<noteq> Answer (Inl Diverged)"
proof -
  note tools = settles_command_tools [OF assms] settles_manage [OF assms] settles_get_yaml [OF assms]
  have native: "settles (native_device_builder_tools (sv_addon env) slug tool timeout)"
    "settles (call_native_device_builder_tool (sv_addon env) name args slug timeout)" for slug tool timeout name args
    unfolding native_device_builder_tools_def call_native_device_builder_tool_def by (rule settles_native)+
  have lifted: "settles (slift (lift_py v))" "lift_py v \<noteq> Inl Diverged" for v :: "pyval py"
    by (intro settles_rules) (simp add: lift_py_def split: sum.splits)
  show ?thesis
    by (cases call)
      (simp_all add: esp_native_tools_def esp_native_call_def esp_overview_def esp_manage_addon_def
        esp_dashboard_devices_def esp_search_yaml_def esp_get_yaml_def esp_update_yaml_def esp_create_directory_def
        esp_create_file_def esp_validate_yaml_def esp_device_logs_def esp_compile_firmware_def
        esp_install_firmware_def esp_firmware_jobs_def esp_get_firmware_job_def esp_follow_firmware_job_def
        reject_unless_def settles_on_addon tools native lifted settles_simple on_files_def split: prod.splits)
qed

lemma tools_return_witness:
  "fst (run_tool (lab_server\<lparr>sv_addon := lab_builder\<rparr>) lab_read lab_state) \<noteq> Answer (Inl Diverged)"
  by (rule tools_return [where d = 1]) (simp add: lab_builder_take)

section \<open>What every tool answers\<close>

text \<open>
  An answer is an object with a Boolean \<open>success\<close>, which is false exactly when there is an entry
  \<open>error\<close>. A tool error is an object with \<open>success\<close> false, a text as its code, and an entry \<open>error\<close>.
\<close>

definition tool_answer :: "pyval \<Rightarrow> bool" where
  "tool_answer v \<longleftrightarrow> (\<exists>d b. v = PDict d \<and> map_of d ''success'' = Some (PBool b) \<and> (b \<longleftrightarrow> map_of d ''error'' = None))"

definition tool_refusal :: "pyval \<Rightarrow> bool" where
  "tool_refusal v \<longleftrightarrow> (\<exists>d code. v = PDict d \<and> map_of d ''success'' = Some (PBool False)
     \<and> map_of d ''error_code'' = Some (PStr code) \<and> map_of d ''error'' \<noteq> None)"

definition tool_typed :: "('a \<Rightarrow> bool) \<Rightarrow> 'a tool \<Rightarrow> bool" where
  "tool_typed Q r = (case r of Inr v \<Rightarrow> Q v | Inl (Payload p) \<Rightarrow> tool_refusal p | _ \<Rightarrow> True)"

definition typed :: "('a \<Rightarrow> bool) \<Rightarrow> (addon_state \<Rightarrow> 'a tool \<times> addon_state) \<Rightarrow> bool" where
  "typed Q m \<longleftrightarrow> (\<forall>st. tool_typed Q (fst (m st)))"

abbreviation harmless :: "(addon_state \<Rightarrow> 'a tool \<times> addon_state) \<Rightarrow> bool" where
  "harmless \<equiv> typed (\<lambda>_. True)"

named_theorems typed_rules \<open>steps that end with an answer or a tool error\<close>

lemma error_payload_refusal [simp]: "tool_refusal (error_payload v code extra)" "tool_refusal (tool_error m code extra)"
  by (auto simp: tool_refusal_def error_payload_def tool_error_def)

lemma native_refusals [simp]:
  "tool_refusal native_timeout" "tool_refusal native_connection_failed" "tool_refusal (protocol_error m)"
  by (simp_all add: native_timeout_def native_connection_failed_def protocol_error_def)

lemma tool_typed_simps [simp]:
  "tool_typed Q (Inr v) = Q v" "tool_typed Q (Inl (Payload p)) = tool_refusal p" "tool_typed Q (Inl (Raised e))"
  "tool_typed Q (Inl Cancelled)" "tool_typed Q (Inl Diverged)"
  by (simp_all add: tool_typed_def)

lemma typedI: "(\<And>st. tool_typed Q (fst (m st))) \<Longrightarrow> typed Q m"
  by (simp add: typed_def)

lemma typedD: "typed Q m \<Longrightarrow> m st = (r, st') \<Longrightarrow> tool_typed Q r"
  unfolding typed_def by (metis fst_conv)

lemma typed_sbind [typed_rules]:
  assumes "harmless m" "\<And>x. typed Q (f x)"
  shows "typed Q (sbind m f)"
proof (rule typedI)
  fix st
  obtain r st' where m: "m st = (r, st')" by force
  with typedD [OF assms(1) m] assms(2) show "tool_typed Q (fst (sbind m f st))"
    by (cases r) (auto simp: typed_def tool_typed_def split: fault.splits)
qed

lemma typed_simple [typed_rules]:
  "Q x \<Longrightarrow> typed Q (sreturn x)" "typed Q (fail m c e)" "tool_typed Q y \<Longrightarrow> typed Q (slift y)"
  by (simp_all add: typed_def fail_def)

lemma tool_typed_lift [typed_rules]: "(\<And>x. p = Inr x \<Longrightarrow> Q x) \<Longrightarrow> tool_typed Q (lift_py p)"
  by (cases p) (simp_all add: lift_py_def)

lemma tool_typed_bind: "tool_typed (\<lambda>_. True) m \<Longrightarrow> (\<And>x. tool_typed Q (f x)) \<Longrightarrow> tool_typed Q (tool_bind m f)"
  by (cases m) (auto simp: tool_typed_def split: fault.splits)

lemma tool_typed_values [typed_rules]:
  "tool_typed (\<lambda>_. True) (str_of v)" "tool_typed (\<lambda>_. True) (text_of d k)"
  "tool_typed (\<lambda>_. True) (looks_like_esphome_addon d)"
  by (auto simp: str_of_def text_of_def looks_like_esphome_addon_def intro!: tool_typed_bind split: sum.splits)

lemma tool_typed_matches [typed_rules]: "tool_typed (\<lambda>_. True) (esphome_matches vs)"
  by (induction vs) (auto split: pyval.splits intro!: tool_typed_bind typed_rules)

lemma typed_supervisor [typed_rules]: "harmless (supervisor_api_call env e m d t)"
  by (rule typedI) (simp add: supervisor_api_call_def fail_def Let_def split: hassio.splits sup_answer.splits)

lemma typed_resolve [typed_rules]: "harmless (resolve_esphome_addon env slug)"
  unfolding resolve_esphome_addon_def resolve_explicit_def list_addons_def get_addon_info_def
  by (auto intro!: typed_rules split: option.splits list.splits pyval.splits)

lemma typed_route [typed_rules]: "harmless (route_for_addon env addon np port w)"
  unfolding route_for_addon_def create_ingress_session_def Let_def
  by (auto intro!: typed_rules split: option.splits list.splits pyval.splits)

subsection \<open>The add-on's own API\<close>

lemma allowed_keys_typed: "tool_typed (\<lambda>_. True) (allowed_keys vs)"
  by (induction vs rule: allowed_keys.induct) (auto split: option.splits pyval.splits intro!: tool_typed_bind)

lemma checked_options_typed: "tool_typed (\<lambda>_. True) (checked_options addon opts)"
  by (auto simp: checked_options_def Let_def split: option.splits pyval.splits
      intro!: tool_typed_bind allowed_keys_typed)

lemma typed_submit: "typed tool_answer (submit_config env slug d ignored)"
  unfolding submit_config_def
  by (intro typed_rules) (simp add: config_response_def tool_answer_def Let_def)

lemma typed_manage_parts:
  "typed tool_answer (execute_action env slug key)"
  "typed tool_answer (execute_config_update env slug addon d)"
  "typed Q (not_running addon rs)"
  "tool_typed (\<lambda>_. True) (resolved_slug addon given)"
  unfolding execute_action_def execute_config_update_def not_running_def resolved_slug_def Let_def
  by (auto intro!: typed_rules typed_submit checked_options_typed simp: tool_answer_def split: option.splits pyval.splits)

lemma http_result_answer: "http_result env addon slug debug url hs status rh raw = Inr v \<Longrightarrow> tool_answer v"
  by (auto simp: http_result_def Let_def tool_answer_def py_bind_Inr_iff)

lemma typed_http: "typed tool_answer (call_addon_http env addon slug a)"
  unfolding call_addon_http_def
  by (intro typed_rules)
    (auto intro!: typed_rules split: option.splits, rule typedI,
      auto simp: Let_def fail_def intro!: typed_rules http_result_answer split: http_answer.splits prod.splits)

lemma collect_ws_fault:
  assumes "collect_ws env limit timeout w sk now = (Inl (WsFault (Payload p)), sk', now')"
  shows "tool_refusal p"
proof (cases "drive (collect_step env limit (now + of_int timeout) w) \<lparr>c_messages = [], c_socket = sk, c_now = now\<rparr>")
  case None
  with assms show ?thesis by (simp add: collect_ws_def)
next
  case (Some r)
  have "fst r \<noteq> Inl (WsFault (Payload p))"
    by (rule drive_invariant [OF Some, where I = "\<lambda>_. True" and Q = "\<lambda>r. fst r \<noteq> Inl (WsFault (Payload p))"])
      (auto simp: collect_step_def Let_def split: if_splits prod.splits received.splits ws_message.splits sum.splits)
  with Some assms show ?thesis by (auto simp: collect_ws_def split: prod.splits sum.splits)
qed

lemma addon_ws_talk_fault:
  "addon_ws_talk env a sk now = (Inl (WsFault (Payload p)), sk', now') \<Longrightarrow> tool_refusal p"
  by (auto simp: addon_ws_talk_def send_str_def dest: collect_ws_fault split: if_splits sum.splits option.splits prod.splits)

lemma typed_ws: "typed tool_answer (call_addon_ws env addon slug a)"
proof -
  have fault: "tool_refusal p" if "with_socket env url hs (addon_ws_talk env a) st = (Inl (WsFault (Payload p)), st')"
    for url hs st st' p
    using that by (cases rule: with_socket_cases) (auto dest: addon_ws_talk_fault)
  have result: "tool_answer (addon_ws_result addon slug a url hs ms c)" for url hs ms c
    by (simp add: addon_ws_result_def Let_def tool_answer_def)
  have "typed tool_answer (\<lambda>st. case with_socket env url hs (addon_ws_talk env a) st of
               (Inl WsTimedOut, st') \<Rightarrow> fail m1 c1 e1 st'
             | (Inl (WsBroken details), st') \<Rightarrow> fail m2 c2 (e2 details) st'
             | (Inl (WsFault e), st') \<Rightarrow> (Inl e, st')
             | (Inr (messages, closed_by), st') \<Rightarrow> (Inr (addon_ws_result addon slug a url hs messages closed_by), st'))"
    for url hs m1 c1 e1 m2 c2 e2
    by (rule typedI)
      (auto simp: fail_def result tool_typed_def dest: fault split: prod.splits sum.splits ws_fault.splits fault.splits)
  then show ?thesis
    unfolding call_addon_ws_def by (auto intro!: typed_rules split: option.splits)
qed

subsection \<open>Device Builder commands\<close>

definition quiet_fault :: "ws_fault + 'a \<Rightarrow> bool" where
  "quiet_fault r \<longleftrightarrow> (case r of Inl (WsFault (Payload p)) \<Rightarrow> tool_refusal p | _ \<Rightarrow> True)"

lemma quiet_fault_simps [simp]:
  "quiet_fault (Inr y)" "quiet_fault (Inl WsTimedOut)" "quiet_fault (Inl (WsBroken d))"
  "quiet_fault (Inl (WsFault (Raised e)))" "quiet_fault (Inl (WsFault Diverged))" "quiet_fault (Inl (early m c x))"
  "quiet_fault (Inl (WsFault (Payload p))) = tool_refusal p"
  by (simp_all add: quiet_fault_def early_def)

lemma quiet_bind:
  assumes "quiet_fault (fst (m s))" "\<And>x s. quiet_fault (fst (f x s))"
  shows "quiet_fault (fst (sbind m f s))"
  using assms by (cases "m s"; cases "fst (m s)") (auto simp: quiet_fault_def)

lemma builder_send_quiet: "quiet_fault (fst (builder_send env v s))"
  by (auto simp: builder_send_def send_str_def split: sum.splits prod.splits option.splits)

lemma greeting_quiet: "quiet_fault (fst (builder_greeting env a s))"
  by (auto simp: builder_greeting_def greeting_value_def Let_def
      split: prod.splits received.splits ws_message.splits sum.splits)

lemma command_error_quiet: "quiet_fault (Inl (command_error a d s))"
  by (simp add: command_error_def split: sum.splits)

lemma builder_step_quiet: "builder_step env a deadline s = Inl r \<Longrightarrow> quiet_fault (fst r)"
  by (auto simp: builder_step_def command_message_def command_answer_def Let_def command_error_quiet
      split: if_splits prod.splits received.splits ws_message.splits sum.splits pyval.splits option.splits bool.splits)

lemma builder_loop_quiet: "quiet_fault (fst (builder_loop env a s))"
proof (cases "drive (builder_step env a (b_now s + of_int (m_timeout a))) s")
  case (Some r)
  have "quiet_fault (fst r)"
    by (rule drive_invariant [OF Some, where I = "\<lambda>_. True" and Q = "\<lambda>r. quiet_fault (fst r)"])
      (auto dest: builder_step_quiet)
  with Some show ?thesis by (simp add: builder_loop_def)
qed (simp add: builder_loop_def)

lemma builder_finish_quiet: "quiet_fault (fst (builder_finish env a s))"
  by (auto simp: builder_finish_def Let_def intro!: quiet_bind builder_send_quiet)

lemma builder_talk_quiet: "quiet_fault (fst (builder_talk env a sk now))"
proof -
  have "quiet_fault (fst (sbind (builder_greeting env a) (\<lambda>_. sbind (builder_send env (command_payload a)) (\<lambda>_.
           sbind (builder_loop env a) (\<lambda>_. builder_finish env a))) (builder_start sk now)))"
    by (intro quiet_bind greeting_quiet builder_send_quiet builder_loop_quiet builder_finish_quiet)
  then show ?thesis
    by (auto simp: builder_talk_def quiet_fault_def split: prod.splits sum.splits)
qed

lemma typed_builder: "harmless (call_device_builder_ws_command env addon debug a)"
proof -
  have quiet: "quiet_fault r" if "with_socket env url hs (builder_talk env a) st = (r, st')" for url hs st r st'
    using that by (cases rule: with_socket_cases) (auto, metis builder_talk_quiet fst_conv)
  have "harmless (\<lambda>st. case with_socket env url hs (builder_talk env a) st of
               (Inl WsTimedOut, st') \<Rightarrow> fail m1 c1 e1 st'
             | (Inl (WsBroken details), st') \<Rightarrow> fail m2 c2 (e2 details) st'
             | (Inl (WsFault e), st') \<Rightarrow> (Inl e, st')
             | (Inr s, st') \<Rightarrow> (Inr (k s), st'))"
    for url hs m1 c1 e1 m2 c2 e2 and k :: "builder_state \<Rightarrow> command_result"
    by (rule typedI)
      (auto simp: fail_def tool_typed_def quiet_fault_def dest!: quiet split: prod.splits sum.splits ws_fault.splits fault.splits)
  then show ?thesis
    unfolding call_device_builder_ws_command_def by (auto intro!: typed_rules)
qed

lemma typed_command [typed_rules]: "harmless (command_tool env t a)"
  unfolding command_tool_def device_builder_command_def
  by (auto intro!: typed_rules typed_manage_parts typed_builder)

lemma devices_payload_answer: "devices_payload d q st imp limit debug = Inr v \<Longrightarrow> tool_answer v"
  by (auto simp: devices_payload_def Let_def tool_answer_def py_bind_Inr_iff split: if_splits)

lemma typed_command_tools:
  "typed tool_answer (list_device_builder_devices env t query state imp limit)"
  "typed tool_answer (search_device_builder_yaml env t q n c l)"
  "typed tool_answer (run_device_builder_stream env t command args limit)"
  "typed tool_answer (queue_device_builder_firmware_job env t command args)"
  "typed tool_answer (list_device_builder_firmware_jobs env t status configuration limit)"
  "typed tool_answer (get_device_builder_firmware_job env t job)"
  "typed tool_answer (follow_device_builder_firmware_job env t job limit)"
  "typed tool_answer (read_over_ws env t file)" "typed tool_answer (write_device_builder_config env t file content w)"
  unfolding list_device_builder_devices_def search_device_builder_yaml_def run_device_builder_stream_def
    list_device_builder_firmware_jobs_def get_device_builder_firmware_job_def follow_device_builder_firmware_job_def
    queue_device_builder_firmware_job_def write_device_builder_config_def read_over_ws_def Let_def
  by (auto intro!: typed_rules dest: devices_payload_answer split: pyval.splits option.splits) (simp_all add: tool_answer_def)

subsection \<open>Native tools\<close>

lemma native_answer_typed: "tool_typed (\<lambda>_. True) (native_answer nest meth status rh raw)"
  by (simp add: native_answer_def split: sum.splits exn.splits pyval.splits option.splits)

lemma typed_native_request [typed_rules]: "harmless (native_mcp_request env url hs meth params)"
  by (rule typedI) (simp add: native_mcp_request_def send_http_def native_answer_typed split: http_answer.splits)

lemma typed_catalog [typed_rules]: "harmless (native_catalog n env url hs params cursors spent tools)"
proof (induction n arbitrary: params cursors spent tools)
  case (Suc n)
  have "tool_typed (\<lambda>_. True) (catalog_page c k page)" for c k page
    by (simp add: catalog_page_def split: sum.splits pyval.splits option.splits)
  with Suc show ?case
    by (auto intro!: typed_rules split: option.splits)
qed (auto intro: typed_rules)

lemma typed_select: "typed tool_answer (native_select env a url hs (native_metadata addon slug protocol info) tools)"
proof -
  have "tool_typed tool_answer (native_result (native_metadata addon slug protocol info) tool r)" for tool r
    by (simp add: native_result_def native_metadata_def tool_answer_def split: option.splits pyval.splits)
  then show ?thesis
    unfolding native_select_def Let_def
    by (auto intro!: typed_rules simp: tool_answer_def native_metadata_def split: option.splits)
qed

lemma typed_native: "typed tool_answer (native_device_builder env a)"
proof -
  have "typed tool_answer (native_session env a addon url hs)" for addon url hs
    unfolding native_session_def Let_def
    by (auto intro!: typed_rules typed_select split: option.splits)
  then have run: "typed tool_answer (native_run env a)"
    unfolding native_run_def by (auto intro!: typed_rules)
  show ?thesis
  proof (rule typedI)
    fix st
    obtain r st' where "native_run env a st = (r, st')" by force
    with typedD [OF run this] show "tool_typed tool_answer (fst (native_device_builder env a st))"
      by (auto simp: native_device_builder_def fail_def split: sum.splits fault.splits)
  qed
qed

lemma typed_get_yaml: "typed tool_answer (read_device_builder_config env t file)"
proof (rule typedI)
  fix st
  let ?m = "call_native_device_builder_tool env ''get_config'' (PDict [(''configuration'', PStr file)]) (t_slug t) (t_timeout t)"
  obtain r st' where m: "?m st = (r, st')" by force
  have "typed tool_answer ?m" unfolding call_native_device_builder_tool_def by (rule typed_native)
  with m have r: "tool_typed tool_answer r" by (blast intro: typedD)
  have ws: "tool_typed tool_answer (fst (read_over_ws env t file st))" for st
    using typed_command_tools(8) unfolding typed_def by blast
  from m r ws show "tool_typed tool_answer (fst (read_device_builder_config env t file st))"
    by (auto simp: read_device_builder_config_def fail_def tool_answer_def split: sum.splits fault.splits option.splits)
qed

subsection \<open>The tools\<close>

lemma typed_api: "typed tool_answer (call_api env addon rs a)"
  unfolding call_api_def by (auto intro!: typed_rules typed_manage_parts typed_http typed_ws)

lemma typed_manage: "typed tool_answer (manage_esphome_addon env a)"
  unfolding manage_esphome_addon_def manage_install_def manage_resolved_def Let_def
  by (auto intro!: typed_rules typed_manage_parts typed_api split: option.splits)

text \<open>What a run from \<open>s\<close> comes to: a rejected call has done nothing, an answer or a tool error is typed.\<close>

definition run_typed :: "server_state \<Rightarrow> outcome \<times> server_state \<Rightarrow> bool" where
  "run_typed s run \<longleftrightarrow>
     (case run of
        (Rejected, s') \<Rightarrow> s' = s
      | (Answer r, _) \<Rightarrow> tool_typed tool_answer r)"

lemma run_typed_on_addon: "typed tool_answer m \<Longrightarrow> run_typed s (on_addon m s)"
  by (auto simp: on_addon_def run_typed_def dest: typedD split: prod.splits)

lemma file_answer_typed: "tool_answer (file_answer path r)"
  by (cases r) (simp_all add: file_answer_def failure_answer_def tool_answer_def)

lemma run_typed_on_files: "run_typed s (on_files (create_esphome_path env base path parents content) s)"
  by (auto simp: on_files_def run_typed_def create_esphome_path_def lift_py_def file_answer_typed split: prod.splits sum.splits)

lemma run_typed_reject: "(ok \<Longrightarrow> run_typed s (m s)) \<Longrightarrow> run_typed s (reject_unless ok m s)"
  by (simp add: reject_unless_def run_typed_def)

text \<open>C12: Every answer of every tool has one shape, those of the tools over the add-on, over the
  registries and over the files alike. Whatever the arguments and whatever the Supervisor, the
  add-on and the operating system give back, an answer is an object whose \<open>success\<close> is a Boolean,
  true exactly when there is no \<open>error\<close>; a tool error carries an object whose \<open>success\<close> is false,
  with a text as its error code and with an error; and a call the schema rejects has changed and
  sent nothing. A call may also end in an exception, which has no shape.\<close>

theorem answers_typed:
  "case run_tool env call s of
     (Rejected, s') \<Rightarrow> s' = s
   | (Answer (Inr v), _) \<Rightarrow>
       (\<exists>d b. v = PDict d \<and> map_of d ''success'' = Some (PBool b) \<and> (b \<longleftrightarrow> map_of d ''error'' = None))
   | (Answer (Inl (Payload p)), _) \<Rightarrow>
       (\<exists>d code. p = PDict d \<and> map_of d ''success'' = Some (PBool False)
          \<and> map_of d ''error_code'' = Some (PStr code) \<and> map_of d ''error'' \<noteq> None)
   | (Answer (Inl _), _) \<Rightarrow> True"
proof -
  note tools = typed_command_tools typed_manage typed_get_yaml
  have native: "typed tool_answer (native_device_builder_tools (sv_addon env) slug tool timeout)"
    "typed tool_answer (call_native_device_builder_tool (sv_addon env) name args slug timeout)" for slug tool timeout name args
    unfolding native_device_builder_tools_def call_native_device_builder_tool_def by (rule typed_native)+
  have listing: "tool_answer (listing ''devices'' xs)" "tool_answer (listing ''entities'' xs)" for xs
    by (simp_all add: listing_def tool_answer_def)
  have "typed tool_answer (slift (lift_py (esp_list_devices reg q a st l)))"
    "typed tool_answer (slift (lift_py (esp_list_entities reg q a i st b l)))" for reg q a i st b l
    by (auto intro!: typed_rules simp: esp_list_devices_def esp_list_entities_def py_bind_Inr_iff listing)
  moreover have "typed tool_answer (sreturn (overview reg))" for reg
    by (intro typed_rules) (simp add: overview_def tool_answer_def)
  ultimately have "run_typed s (run_tool env call s)"
    by (cases call)
      (simp_all add: esp_native_tools_def esp_native_call_def esp_overview_def esp_manage_addon_def
        esp_dashboard_devices_def esp_search_yaml_def esp_get_yaml_def esp_update_yaml_def esp_create_directory_def
        esp_create_file_def esp_validate_yaml_def esp_device_logs_def esp_compile_firmware_def
        esp_install_firmware_def esp_firmware_jobs_def esp_get_firmware_job_def esp_follow_firmware_job_def
        run_typed_reject run_typed_on_addon run_typed_on_files tools native)
  then show ?thesis
    by (simp add: run_typed_def tool_typed_def tool_answer_def tool_refusal_def
        split: prod.splits outcome.splits sum.splits fault.splits)
qed

end
