(* ===== verification/Spec2Isabelle.thy ===== *)
theory Spec2Isabelle
  imports Flow Pool Worker Compat Notes Vendor Answers
begin

text \<open>
  A verification development for the ESPHome MCP custom component of Home Assistant, the
  Python package \<open>custom_components/esphome_mcp\<close>.

  \<^bold>\<open>The program.\<close> The component runs an MCP server beside Home Assistant and lets remote clients
  reach it. Its parts and how they interact:

  \<^item> \<open>embedded_entry.py\<close> sets up a configuration entry: it completes the secrets, prebinds the
    views and schedules the bring-up. \<open>embedded_setup.py\<close> brings the server up, exposes it over a
    webhook and takes everything down again, and composes the URLs shown to the user.
    \<open>embedded_server.py\<close> runs the server in a thread of its own, with the retry of an import that
    fails by a module-lock deadlock, and waits for its port.
  \<^item> \<open>mcp_webhook.py\<close> registers the webhook that forwards to the loopback server, with the bearer
    gate of the \<open>ha_auth\<close> mode, and serves the discovery documents of the resource server.
  \<^item> \<open>oauth_autoapprove.py\<close> answers the OAuth endpoints. In the none mode it issues the codes and
    the token itself, over the code store of \<open>oauth_common.py\<close>. In the \<open>ha_auth\<close> mode it relays to
    Home Assistant's core through the indirection of \<open>oauth_ha_auth.py\<close>: client metadata documents,
    translated client ids, and the signed envelope around core's refresh token.
    \<open>oauth_dcr.py\<close> registers clients without keeping them: a client id is its own signed record.
  \<^item> \<open>server.py\<close> is the tool surface of the MCP server, with the report over Home Assistant's
    registries. Its tools run \<open>addon_tools.py\<close>, which talks to the Supervisor, to the ESPHome add-on
    over ingress, to the Device Builder over its multiplexed WebSocket and to its native MCP server,
    and \<open>filesystem_tools.py\<close>, which creates files below the configuration folder.
  \<^item> \<open>config_flow.py\<close> creates the one entry and shows the form of its options, whose saved values
    start the server anew. Beside the component, the scripts under \<open>scripts/\<close> keep its version and
    clean what its tests upload.

  \<^bold>\<open>The theories.\<close> Each names the file it models and keeps the names of its functions; a large
  function is split into definitions at its loop bodies and its phases.

  \<^item> \<open>Prelude\<close>: exceptions as values of a sum type with \<open>py_bind\<close>, the state monad \<open>sbind\<close>,
    \<open>sreturn\<close>, \<open>slift\<close>, string methods, decimal rendering, insertion-ordered dicts. \<open>Json\<close>, \<open>Base64\<close>,
    \<open>Sha256\<close>, \<open>Url\<close>: the parts of Python's standard library that the component calls: parsing and
    printing JSON, URL-safe base64, SHA-256 and HMAC over 32-bit words, URL splitting. \<open>Web\<close>:
    responses, forms, headers, and the webhook configuration in \<open>hass.data\<close>.
  \<^item> \<open>OauthCommon\<close>, \<open>SignedBlob\<close>, \<open>Dcr\<close>, \<open>Cimd\<close>, \<open>HaAuth\<close>, \<open>AutoApprove\<close>, \<open>Webhook\<close>: the
    authorization side. The states are the table of pending codes, the cache of metadata
    documents, and the configuration with its sessions.
  \<^item> \<open>Entry\<close>, \<open>Manager\<close>, \<open>Setup\<close>: the lifecycle. The state is the world of \<open>Setup\<close>: what is
    registered, open, running and reported, with the failures of platform calls as its inputs.
    \<open>Worker\<close> has the event loop and the server thread as two threads that interleave over the
    fields of the manager and the queue of the worker's loop. \<open>Compat\<close> is the entry point, which
    makes sure of one dependency (\<open>runtime_compat.py\<close>) before it sets up the entry.
  \<^item> \<open>Pool\<close>: concurrent lookups of metadata documents as tasks that interleave at their awaits,
    over the cache and the semaphore, each under its deadline. Its steps over-approximate the event
    loop: any task may move, expire when due, or be cancelled.
  \<^item> \<open>Flow\<close>: \<open>config_flow.py\<close>, the form as a list of fields. \<open>Release\<close>, \<open>Notes\<close>,
    \<open>Vendor\<close>: the scripts: the version arithmetic, the bump and the check for it, the redaction of
    diagnostics; the release notes and the metadata of a release; the swap of vendored packages
    over a directory whose operations may fail, and the requirements of the manifest.
  \<^item> \<open>Filesystem\<close>: \<open>filesystem_tools.py\<close> over a tree of nodes with open descriptors; every
    system call may fail with any error.
  \<^item> \<open>Addon\<close>, \<open>Ingress\<close>, \<open>Socket\<close>, \<open>Builder\<close>, \<open>Native\<close>, \<open>AddonTools\<close>: \<open>addon_tools.py\<close>. The state
    \<open>addon_state\<close> is the log of what was sent (Supervisor requests, HTTP requests, sockets with
    their messages) and the clock; \<open>addon_env\<close> is the outside world, whose answers may depend on
    everything sent so far. A tool gives an answer or a \<open>fault\<close>: the payload of a tool error, an
    exception, a cancellation, or the mark that a loop does not end.
  \<^item> \<open>Registry\<close>, \<open>Server\<close>, \<open>Answers\<close>: \<open>server.py\<close>, what a tool with the read-only hint sends, that
    every tool comes back, and the shape of what it gives.

  \<^bold>\<open>Interfaces.\<close> \<open>text_codec\<close> (Base64), \<open>keyed_hash\<close> (Sha256), \<open>code_store\<close> (OauthCommon),
  \<open>sealed_values\<close> (SignedBlob, with interpretations for the registered client ids and for the
  envelope), \<open>bounded_cache\<close> (Cimd) and \<open>request_log\<close> (Addon, for the three logs of \<open>addon_state\<close>).
  Each is interpreted on the model's own definitions in the theory that provides them.

  \<^bold>\<open>What is shown.\<close>

  \<^item> Authorization: a code is accepted only if issued for that redirect and challenge, in time and
    once, and a live one is accepted; an envelope gives core's token back to its own presenter only;
    a client id is translated only on evidence of a signed registration or a fetched document, and
    every request for a document goes to a globally routable address; registrations read back;
    the two families of signed values are disjoint; whole flows reach a token in both modes.
  \<^item> Exposure: nothing is forwarded without the gate, a registration that fails leaves nothing
    behind, no secret is told by the discovery documents or the notification, and over every
    sequence of lifecycle events the sessions, handlers and threads are those of the live
    configuration. A thread that fails while it starts is reported for what it failed of (below).
    What the options form saves is usable, and submitting it untouched keeps every value but the
    external URL, which is normalised once more.
  \<^item> Threads: a stop that comes once the worker has published its event ends it in a bounded number
    of steps; what the worker leaves is exactly what the sequential account of \<open>Manager\<close> gives; after
    a join that found the thread dead all is at rest. An earlier stop may be lost, as the code has it.
  \<^item> Concurrency: over every schedule at most four lookups run, the cache keeps its bound, every
    address asked is public and no lookup outlives its deadline; the one-step lookup of \<open>Cimd\<close> is one
    of these schedules.
  \<^item> Files: creation stays below the root, overwrites nothing, closes every descriptor (when
    \<open>fstat\<close> of a new file does not fail), and does create what it is asked for.
  \<^item> The add-on: only an ESPHome add-on is resolved and written to; a configuration update submits
    what the merge and the schema make of it; an ingress session is minted for an active human
    administrator and is told to nobody; a path keeps below its base; a native session is a run of
    the protocol automaton \<open>mcp_run\<close>; a Device Builder command sends itself and at most a stop.
  \<^item> The tools: one that says it only reads does; every one comes back; every answer has one shape;
    a device listing is exactly the filtered registry.
  \<^item> The scripts: the one that bumps the version satisfies the one that checks it; a redacted
    document tells nothing of the secrets it held; release notes are the section of the one heading
    outside every fenced block; vendoring is all or nothing when at most one operation fails.

  \<^bold>\<open>Bounds and fuel.\<close> The parser behind \<open>json_loads\<close> recurses with fuel twice the length of the
  text plus two, which it never uses up (lemma \<open>json_loads_fuel\<close>). Nesting is limited by the
  recursion limit of the interpreter, a parameter, beyond which parsing raises as Python does.
  Waiting for the port polls at most 60 times and the import is tried at most five times, as in
  the code. The catalog asks for at most 20 pages, so a session has at most 23 requests. The loops over WebSocket messages are the partial function \<open>drive\<close> over
  their bodies; that they end is a theorem, from the hypothesis \<open>messages_take\<close> that receiving a
  message moves the clock by some fixed amount at least, and not an assumption of the model: a
  loop that does not end is the value \<open>Diverged\<close>.

  \<^bold>\<open>Decisions.\<close> A \<open>str\<close> is a list of characters up to 255; what would leave that range raises the
  exception \<open>OutOfModel\<close>, as does rendering a float whose text is not its literal: floats are
  kept as the literals they were read from. Times are rationals and pass only while a message, a
  poll or an answer is awaited. Random values (codes, nonces, secrets) are arguments. What is not
  under the component is a parameter: the network, yarl's URL building, aiohttp, Home Assistant's
  core with its token validator and its HTTP server, the Supervisor, the Device Builder, the
  system calls' faults. The hash is computed, and where a property needs that nobody else can
  produce a seal or a digest, it states the collision that would have to exist, or that the value
  carries a valid seal. The cancellation of \<open>asyncio.timeout\<close> around a native session arrives at
  the awaited calls of that session.

  \<^bold>\<open>Not modelled.\<close> The interleaving of two webhook requests, which share no state but the
  configuration; delivery of chunks to a client that disconnects; the texts of messages of
  \<open>filesystem_tools.py\<close> and the placeholders of issues; the registration of the tools with FastMCP
  and their descriptions; the bridge between the worker's loop and Home Assistant's, which only
  moves a call; the vendored packages, which are third-party; of the scripts, what runs git, reads
  or writes files and archives, and downloads, unpacks and rewrites packages. These are calls of
  other programs and libraries: a model of them would be invented and not translated.
\<close>

section \<open>A start that fails\<close>

text \<open>
  What the event loop sees of a server thread that ends without ever listening: until it has
  finished, a live thread; from then on a dead one and the exception it left.
\<close>

definition thread_view :: "raised option \<Rightarrow> rat \<Rightarrow> rat \<Rightarrow> poll" where
  "thread_view outcome finished now =
     \<lparr>p_time = now, p_cancel = False, p_exc = (if finished \<le> now then outcome else None),
      p_alive = Some (now < finished), p_probe = False\<rparr>"

definition startup_failure :: "raised option \<Rightarrow> failure_kind" where
  "startup_failure outcome = (case outcome of Some e \<Rightarrow> startup_kind e | None \<Rightarrow> KStart)"

lemma thread_view_result:
  "now < deadline \<Longrightarrow> poll_result deadline (thread_view outcome finished now)
     = (if finished \<le> now then Some (Failed (startup_failure outcome)) else None)"
  by (simp add: poll_result_def thread_view_def startup_failure_def split: option.splits)

lemma wait_sees_failure:
  assumes "polls = (\<lambda>n. thread_view outcome finished (seen_at n))" "mono seen_at"
    and "finished \<le> seen_at m" "seen_at m < deadline"
  shows "\<exists>k. wait_until_ready polls deadline 0 = Some (Failed (startup_failure outcome), k)"
proof -
  define k where "k = (LEAST n. finished \<le> seen_at n)"
  have k: "finished \<le> seen_at k" unfolding k_def by (rule LeastI [of _ m]) (rule assms(3))
  have "k \<le> m" unfolding k_def by (rule Least_le) (rule assms(3))
  then have before: "seen_at i < deadline" if "i \<le> k" for i
    using assms(4) monoD [OF assms(2), of i m] that by simp
  have early: "poll_result deadline (polls i) = None" if "i < k" for i
  proof -
    have "\<not> finished \<le> seen_at i" using not_less_Least that unfolding k_def by blast
    with before [of i] that show ?thesis by (simp add: assms(1) thread_view_result)
  qed
  have late: "poll_result deadline (polls k) = Some (Failed (startup_failure outcome))"
    using k before [of k] by (simp add: assms(1) thread_view_result)
  then obtain j r where "j \<le> k" "poll_result deadline (polls j) = Some r" "wait_until_ready polls deadline 0 = Some (r, j)"
    using wait_stops [where polls = polls and m = k and n = 0 and deadline = deadline] by auto
  moreover from this early [of j] have "j = k" by (cases "j < k") auto
  ultimately show ?thesis using late by auto
qed

text \<open>C7: A server thread that fails while it starts is reported for what it failed of. When the imports
  or the server leave an exception before the port ever answers, and the thread is looked at once
  more before the time is up, the bring-up takes the server down and files exactly one repair
  issue: that the server has to be restarted when every import attempt ended in a module-lock
  deadlock, that its package cannot be imported after an import error, and otherwise that it
  could not be started.\<close>

theorem startup_failure_reported:
  assumes "b_polls env = (\<lambda>n. thread_view (thread_main attempt race) finished (seen_at n))" "mono seen_at"
    and "finished \<le> seen_at m" "seen_at m < b_t0 env + ready_timeout" and "b_dirs env = DirsMade"
    and "manager_of (c_entry st) = Inr mgr" "m_secret_path mgr \<noteq> []"
  shows "\<exists>st'. bring_up_server env st = Some (BringDone, st') \<and> c_manager st' = None
     \<and> set (c_issues st') \<inter> set issue_ids = {issue_by_kind (startup_failure (thread_main attempt race))}
     \<and> ((\<forall>i < 5. locked (attempt (Suc i))) \<longrightarrow> ''server_restart_required'' \<in> set (c_issues st'))
     \<and> (attempt 1 = OtherErr ImportRaised \<longrightarrow> ''server_package_import_failed'' \<in> set (c_issues st'))"
proof -
  let ?kind = "startup_failure (thread_main attempt race)"
  from wait_sees_failure [OF assms(1-4)] obtain k where
    w: "wait_until_ready (b_polls env) (b_t0 env + ready_timeout) 0 = Some (Failed ?kind, k)" by blast
  then obtain entry m' running where
    "async_start (c_joins st) (b_dirs env) (c_next_thread st) (b_polls env) (b_t0 env) (c_entry st) mgr
      = Some (StartFailed ?kind, entry, m', running)"
    using assms(5,7) by (simp add: async_start_def Let_def)
  then have "bring_up_server env st = Some (BringDone, create_issue ?kind (teardown_server
      (with_manager entry m' running (ensure_domain (clear_issues st)))))"
    using assms(6) by (simp add: bring_up_server_def Let_def clear_issues_def)
  moreover have "c_issues (create_issue ?kind (teardown_server (with_manager entry m' running (ensure_domain (clear_issues st)))))
      = List.insert (issue_by_kind ?kind) (filter (\<lambda>i. i \<notin> set issue_ids) (c_issues st))"
    by (simp add: create_issue_def with_manager_def ensure_domain_def clear_issues_def)
  moreover have "issue_by_kind ?kind \<in> set issue_ids" by (cases ?kind) (simp_all add: issue_ids_def)
  moreover have "?kind = KRestart" if "\<forall>i < 5. locked (attempt (Suc i))"
  proof -
    have len: "length retry_delays = 4" by (simp add: retry_delays_def)
    have "find (\<lambda>k. \<not> locked (attempt (1 + k))) [0..<length retry_delays] = None"
      using that by (simp add: find_None_iff len)
    then have "fst (import_runtime attempt 1 retry_delays) = settled (attempt (1 + length retry_delays))"
      by (simp add: import_runtime_cases)
    moreover have "locked (attempt (1 + length retry_delays))"
    proof -
      from that have "locked (attempt (Suc 4))" by (rule allE [where x = 4]) simp
      then show ?thesis by (simp add: len)
    qed
    ultimately show ?thesis
      by (auto simp: thread_main_def thread_exc_of_def startup_failure_def startup_kind_def settled_def locked_def
          split: import_outcome.splits)
  qed
  moreover have "?kind = KPackage" if "attempt 1 = OtherErr ImportRaised"
    using that by (simp add: thread_main_def retry_delays_def thread_exc_of_def startup_failure_def startup_kind_def)
  ultimately show ?thesis
    by (intro exI [of _ "create_issue ?kind (teardown_server (with_manager entry m' running (ensure_domain (clear_issues st))))"])
      (auto simp: create_issue_def teardown_server_def)
qed

definition failing_env :: bring_env where
  "failing_env = \<lparr>b_dirs = DirsMade,
     b_polls = (\<lambda>n. thread_view (thread_main (\<lambda>_. OtherErr ImportRaised) (StopFirst (Inr ()))) 1 (of_nat n)), b_t0 = 0,
     b_failures = no_failures, b_urls = \<lparr>v_cloud = NoCloud, v_local = None\<rparr>\<rparr>"

lemma startup_failure_reported_witness:
  "\<exists>st'. bring_up_server failing_env (initial_component \<lparr>e_data = [(''secret_path'', OStr ''/s'')], e_options = []\<rparr>)
       = Some (BringDone, st') \<and> ''server_package_import_failed'' \<in> set (c_issues st')"
proof -
  let ?st = "initial_component \<lparr>e_data = [(''secret_path'', OStr ''/s'')], e_options = []\<rparr>"
  obtain mgr where m: "manager_of (c_entry ?st) = Inr mgr" "m_secret_path mgr \<noteq> []"
    by (auto simp: manager_of_def initial_component_def dict_get_def)
  have "mono (of_nat :: nat \<Rightarrow> rat)" by (simp add: mono_def)
  from startup_failure_reported [where env = failing_env and finished = 1 and m = 1, OF _ this _ _ _ m]
  show ?thesis by (fastforce simp: failing_env_def ready_timeout_def)
qed

end
